(* ===== verification/Prelude.thy ===== *)
theory Prelude
  imports Main "HOL-Library.AList" "HOL-Library.Sublist" "HOL-Library.Char_ord"
    "HOL-Library.List_Lexorder" "HOL-Library.Product_Lexorder"
begin

text \<open>
  What every component shares: Python strings and the methods of \<open>str\<close> the program
  uses, the decimal form of integers, ordered dictionaries, and the "keep the first occurrence"
  loop that the program writes with a \<open>seen\<close> set.

  A Python \<open>str\<close> is a \<open>string\<close>, one \<open>char\<close> per code point, so the model
  covers strings whose code points are below 256. The character classes
  (\<open>str.isspace\<close>, \<open>str.lower\<close>, the regular expressions) are Python's on that range.
  An integer of the program is unbounded and is an \<open>int\<close>.
\<close>

named_theorems str_simps \<open>evaluation rules of the string methods\<close>
named_theorems dict_simps \<open>lookup rules of ordered dictionaries\<close>

subsection \<open>Character classes\<close>

definition in_range :: "char \<Rightarrow> nat \<Rightarrow> nat \<Rightarrow> bool" where
  "in_range c lo hi \<longleftrightarrow> lo \<le> of_char c \<and> (of_char c :: nat) \<le> hi"

definition is_digit :: "char \<Rightarrow> bool" where
  "is_digit c \<longleftrightarrow> in_range c 48 57"

definition is_lower :: "char \<Rightarrow> bool" where
  "is_lower c \<longleftrightarrow> in_range c 97 122"

definition is_upper :: "char \<Rightarrow> bool" where
  "is_upper c \<longleftrightarrow> in_range c 65 90"

text \<open>The class \<open>[a-zA-Z0-9_]\<close> of the identifier patterns.\<close>

definition ident_char :: "char \<Rightarrow> bool" where
  "ident_char c \<longleftrightarrow> is_lower c \<or> is_upper c \<or> is_digit c \<or> c = CHR ''_''"

text \<open>The class \<open>[a-z0-9_]\<close> of the namespace and project patterns.\<close>

definition ns_char :: "char \<Rightarrow> bool" where
  "ns_char c \<longleftrightarrow> is_lower c \<or> is_digit c \<or> c = CHR ''_''"

text \<open>
  White space as \<open>str.strip\<close> and the pattern \<open>\s\<close> see it: the ASCII controls 9 to 13
  and 28 to 31, the space, and the two Latin-1 spaces.
\<close>

definition is_space :: "char \<Rightarrow> bool" where
  "is_space c \<longleftrightarrow> in_range c 9 13 \<or> in_range c 28 32 \<or> of_char c = (133::nat) \<or> of_char c = (160::nat)"

text \<open>\<open>str.lower\<close> on one code point: ASCII capitals and the Latin-1 capitals.\<close>

definition lower_char :: "char \<Rightarrow> char" where
  "lower_char c =
     (if is_upper c \<or> (in_range c 192 222 \<and> of_char c \<noteq> (215::nat))
      then char_of (of_char c + 32 :: nat) else c)"

definition lower :: "string \<Rightarrow> string" where
  "lower s = map lower_char s"

lemmas char_class_defs =
  is_digit_def is_lower_def is_upper_def ident_char_def ns_char_def is_space_def in_range_def

lemma ns_char_ident: "ns_char c \<Longrightarrow> ident_char c"
  by (auto simp: ns_char_def ident_char_def)

lemma ident_not_colon [simp]: "ident_char c \<Longrightarrow> c \<noteq> CHR '':''"
  by (auto simp: char_class_defs)

lemma lower_char_ns [simp]: "ns_char c \<Longrightarrow> lower_char c = c"
  by (auto simp: lower_char_def char_class_defs)

subsection \<open>The regular expressions over one character class\<close>

text \<open>
  \<open>full_class P s\<close> is \<open>re.compile("^[..]+$").fullmatch(s)\<close>: at least one character, every
  one in the class. \<open>match_class P s\<close> is \<open>.match(s)\<close> on the same pattern: in Python
  \<open>$\<close> also matches just before a newline that ends the string, so one trailing newline is
  let through.
\<close>

definition full_class :: "(char \<Rightarrow> bool) \<Rightarrow> string \<Rightarrow> bool" where
  "full_class P s \<longleftrightarrow> s \<noteq> [] \<and> list_all P s"

definition match_class :: "(char \<Rightarrow> bool) \<Rightarrow> string \<Rightarrow> bool" where
  "match_class P s \<longleftrightarrow>
     full_class P s \<or> (s \<noteq> [] \<and> last s = CHR 0x0A \<and> full_class P (butlast s))"

lemma full_class_match: "full_class P s \<Longrightarrow> match_class P s"
  by (simp add: match_class_def)

lemma match_class_newline: "full_class P s \<Longrightarrow> match_class P (s @ [CHR 0x0A])"
  by (simp add: match_class_def)

lemma match_class_full:
  "match_class P s \<Longrightarrow> CHR 0x0A \<notin> set s \<Longrightarrow> full_class P s"
  unfolding match_class_def by (metis last_in_set)

subsection \<open>\<open>str.split\<close> with a one-character separator, and \<open>str.join\<close>\<close>

fun split_on :: "char \<Rightarrow> string \<Rightarrow> string list" where
  "split_on c [] = [[]]"
| "split_on c (x # xs) =
     (if x = c then [] # split_on c xs
      else (case split_on c xs of [] \<Rightarrow> [[x]] | p # ps \<Rightarrow> (x # p) # ps))"

fun join :: "string \<Rightarrow> string list \<Rightarrow> string" where
  "join sep [] = []"
| "join sep [p] = p"
| "join sep (p # q # ps) = p @ sep @ join sep (q # ps)"

lemma split_on_not_Nil [simp]: "split_on c s \<noteq> []"
  by (induction s) (auto split: list.splits)

lemma split_on_Cons_obtain:
  obtains p ps where "split_on c s = p # ps"
  by (cases "split_on c s") auto

lemma join_Cons: "ps \<noteq> [] \<Longrightarrow> join sep (p # ps) = p @ sep @ join sep ps"
  by (cases ps) auto

lemma join_split [simp]: "join [c] (split_on c s) = s"
proof (induction s)
  case Nil
  then show ?case by simp
next
  case (Cons x xs)
  obtain p ps where sp: "split_on c xs = p # ps" by (rule split_on_Cons_obtain)
  with Cons show ?case by (cases ps) auto
qed

lemma split_on_no_sep: "p \<in> set (split_on c s) \<Longrightarrow> c \<notin> set p"
proof (induction s arbitrary: p)
  case Nil
  then show ?case by simp
next
  case (Cons x xs)
  obtain q qs where sp: "split_on c xs = q # qs" by (rule split_on_Cons_obtain)
  with Cons show ?case by (auto split: if_splits)
qed

lemma split_on_free: "c \<notin> set s \<Longrightarrow> split_on c s = [s]"
  by (induction s) auto

lemma split_on_append_sep:
  "c \<notin> set p \<Longrightarrow> split_on c (p @ c # s) = p # split_on c s"
  by (induction p) auto

lemma split_join:
  "ps \<noteq> [] \<Longrightarrow> (\<And>p. p \<in> set ps \<Longrightarrow> c \<notin> set p) \<Longrightarrow> split_on c (join [c] ps) = ps"
proof (induction ps)
  case (Cons p ps)
  show ?case
  proof (cases "ps = []")
    case True
    with Cons.prems show ?thesis by (simp add: split_on_free)
  next
    case False
    then have "join [c] (p # ps) = p @ c # join [c] ps" by (simp add: join_Cons)
    with Cons False show ?thesis by (simp add: split_on_append_sep)
  qed
qed simp

lemma length_split_on: "length (split_on c s) = Suc (count_list s c)"
proof (induction s)
  case Nil
  then show ?case by simp
next
  case (Cons x xs)
  obtain q qs where sp: "split_on c xs = q # qs" by (rule split_on_Cons_obtain)
  with Cons show ?case by auto
qed

subsection \<open>\<open>strip\<close>, \<open>rstrip\<close>\<close>

definition lstrip_by :: "(char \<Rightarrow> bool) \<Rightarrow> string \<Rightarrow> string" where
  "lstrip_by P s = dropWhile P s"

definition rstrip_by :: "(char \<Rightarrow> bool) \<Rightarrow> string \<Rightarrow> string" where
  "rstrip_by P s = rev (dropWhile P (rev s))"

definition strip_by :: "(char \<Rightarrow> bool) \<Rightarrow> string \<Rightarrow> string" where
  "strip_by P s = rstrip_by P (lstrip_by P s)"

definition strip :: "string \<Rightarrow> string" where
  "strip s = strip_by is_space s"

lemma strip_by_Nil_iff: "strip_by P s = [] \<longleftrightarrow> list_all P s"
proof -
  have "strip_by P s = [] \<longleftrightarrow> (\<forall>c \<in> set (dropWhile P s). P c)"
    by (simp add: strip_by_def rstrip_by_def lstrip_by_def)
  also have "\<dots> \<longleftrightarrow> dropWhile P s = []"
  proof
    assume all: "\<forall>c \<in> set (dropWhile P s). P c"
    show "dropWhile P s = []"
    proof (rule ccontr)
      assume "dropWhile P s \<noteq> []"
      then have "\<not> P (hd (dropWhile P s))" and "hd (dropWhile P s) \<in> set (dropWhile P s)"
        by (auto simp: hd_dropWhile)
      with all show False by blast
    qed
  qed (auto dest: set_dropWhileD)
  finally show ?thesis by (simp add: list_all_iff dropWhile_eq_Nil_conv)
qed

lemma set_strip_by: "set (strip_by P s) \<subseteq> set s"
proof
  fix x
  assume "x \<in> set (strip_by P s)"
  then have "x \<in> set (dropWhile P (rev (dropWhile P s)))"
    by (simp add: strip_by_def rstrip_by_def lstrip_by_def)
  from set_dropWhileD [OF this] have "x \<in> set (dropWhile P s)" by simp
  from set_dropWhileD [OF this] show "x \<in> set s" by simp
qed

subsection \<open>Decimal form of an integer (\<open>str(n)\<close>)\<close>

definition digit_char :: "nat \<Rightarrow> char" where
  "digit_char d = char_of (48 + d)"

fun show_nat :: "nat \<Rightarrow> string" where
  "show_nat n = (if n < 10 then [digit_char n] else show_nat (n div 10) @ [digit_char (n mod 10)])"

declare show_nat.simps [simp del]

definition show_int :: "int \<Rightarrow> string" where
  "show_int i = (if i < 0 then CHR ''-'' # show_nat (nat (- i)) else show_nat (nat i))"

definition digit_val :: "char \<Rightarrow> nat" where
  "digit_val c = of_char c - 48"

definition nat_of_digits :: "string \<Rightarrow> nat" where
  "nat_of_digits s = foldl (\<lambda>a c. 10 * a + digit_val c) 0 s"

lemma digit_char_val [simp]: "d < 10 \<Longrightarrow> digit_val (digit_char d) = d"
  by (simp add: digit_val_def digit_char_def)

lemma digit_char_is_digit [simp]: "d < 10 \<Longrightarrow> is_digit (digit_char d)"
  by (simp add: is_digit_def in_range_def digit_char_def)

lemma show_nat_digits: "c \<in> set (show_nat n) \<Longrightarrow> is_digit c"
proof (induction n rule: show_nat.induct)
  case (1 n)
  then show ?case by (cases "n < 10") (auto simp: show_nat.simps [of n])
qed

lemma show_nat_not_Nil [simp]: "show_nat n \<noteq> []"
  by (subst show_nat.simps) simp

lemma nat_of_digits_snoc: "nat_of_digits (s @ [c]) = 10 * nat_of_digits s + digit_val c"
  by (simp add: nat_of_digits_def)

lemma nat_of_digits_show [simp]: "nat_of_digits (show_nat n) = n"
proof (induction n rule: show_nat.induct)
  case (1 n)
  show ?case
  proof (cases "n < 10")
    case True
    then show ?thesis by (simp add: show_nat.simps [of n] nat_of_digits_def)
  next
    case False
    with 1 show ?thesis by (simp add: show_nat.simps [of n] nat_of_digits_snoc)
  qed
qed

lemma show_nat_inj: "show_nat m = show_nat n \<Longrightarrow> m = n"
  by (metis nat_of_digits_show)

lemma show_nat_hd:
  assumes "n \<noteq> 0"
  shows "hd (show_nat n) \<noteq> CHR ''0''"
  using assms
proof (induction n rule: show_nat.induct)
  case (1 n)
  show ?case
  proof (cases "n < 10")
    case True
    have "digit_char n \<noteq> CHR ''0''"
    proof
      assume "digit_char n = CHR ''0''"
      then have "digit_val (digit_char n) = digit_val (CHR ''0'')" by (rule arg_cong)
      then have "n = 0" by (simp only: digit_char_val [OF True]) (simp add: digit_val_def)
      with "1.prems" show False by simp
    qed
    with True show ?thesis by (simp add: show_nat.simps [of n])
  next
    case False
    then have "n div 10 \<noteq> 0" by simp
    with False 1 show ?thesis by (simp add: show_nat.simps [of n])
  qed
qed

subsection \<open>Ordered dictionaries\<close>

text \<open>
  A Python \<open>dict\<close> whose order is observed is an association list with distinct keys:
  \<open>d[k] = v\<close> is \<open>AList.update\<close>, which keeps the position of a key it finds and adds a
  new key at the end.
\<close>

definition dict_set :: "'k \<Rightarrow> 'v \<Rightarrow> ('k \<times> 'v) list \<Rightarrow> ('k \<times> 'v) list" where
  "dict_set k v d = AList.update k v d"

definition dict_get :: "('k \<times> 'v) list \<Rightarrow> 'k \<Rightarrow> 'v option" where
  "dict_get d k = map_of d k"

lemma dict_get_set [dict_simps]:
  "dict_get (dict_set k v d) k' = (if k' = k then Some v else dict_get d k')"
  by (simp add: dict_get_def dict_set_def update_conv')

lemma dict_get_Nil [simp]: "dict_get [] k = None"
  by (simp add: dict_get_def)

lemma dict_get_Cons [simp]: "dict_get ((k', v) # d) k = (if k = k' then Some v else dict_get d k)"
  by (simp add: dict_get_def)

lemma dict_set_distinct: "distinct (map fst d) \<Longrightarrow> distinct (map fst (dict_set k v d))"
  by (simp add: dict_set_def distinct_update)

lemma dict_set_keys: "fst ` set (dict_set k v d) = insert k (fst ` set d)"
  by (simp add: dict_set_def dom_update)

lemma dict_set_vals: "snd ` set (dict_set k v d) \<subseteq> insert v (snd ` set d)"
  unfolding dict_set_def by (induction d) auto

subsection \<open>Keep the first occurrence\<close>

text \<open>
  The loop \<open>seen = set(); for x in xs: if key(x) not in seen: seen.add(key(x)); out.append(x)\<close>.
\<close>

fun keep_first :: "('a \<Rightarrow> 'k) \<Rightarrow> 'k list \<Rightarrow> 'a list \<Rightarrow> 'a list" where
  "keep_first key seen [] = []"
| "keep_first key seen (x # xs) =
     (if key x \<in> set seen then keep_first key seen xs
      else x # keep_first key (key x # seen) xs)"

lemma keep_first_set_keys:
  "key ` set (keep_first key seen xs) = key ` set xs - set seen"
  by (induction key seen xs rule: keep_first.induct) auto

lemma keep_first_distinct: "distinct (map key (keep_first key seen xs))"
proof (induction key seen xs rule: keep_first.induct)
  case (1 key seen)
  show ?case by simp
next
  case (2 key seen x xs)
  then show ?case
    by (auto simp: keep_first_set_keys simp flip: set_map) (auto simp: keep_first_set_keys)
qed

lemma keep_first_subseq: "subseq (keep_first key seen xs) xs"
  by (induction key seen xs rule: keep_first.induct) auto

lemma keep_first_subset: "set (keep_first key seen xs) \<subseteq> set xs"
  by (induction key seen xs rule: keep_first.induct) auto

lemma keep_first_id:
  "distinct (map key xs) \<Longrightarrow> key ` set xs \<inter> set seen = {} \<Longrightarrow> keep_first key seen xs = xs"
proof (induction xs arbitrary: seen)
  case (Cons x xs)
  then have "key ` set xs \<inter> set (key x # seen) = {}" by auto
  with Cons show ?case by simp
qed simp

lemma keep_first_seen_cong:
  "set seen = set seen' \<Longrightarrow> keep_first key seen xs = keep_first key seen' xs"
proof (induction xs arbitrary: seen seen')
  case (Cons x xs)
  have "keep_first key (key x # seen) xs = keep_first key (key x # seen') xs"
    by (rule Cons.IH) (simp add: Cons.prems)
  moreover have "keep_first key seen xs = keep_first key seen' xs"
    by (rule Cons.IH) (rule Cons.prems)
  ultimately show ?case by (simp add: Cons.prems)
qed simp

lemma keep_first_append:
  "keep_first key seen (xs @ ys) =
     keep_first key seen xs @ keep_first key (map key xs @ seen) ys"
proof (induction xs arbitrary: seen)
  case Nil
  show ?case by simp
next
  case (Cons x xs)
  have 1: "keep_first key (map key xs @ key x # seen) ys = keep_first key (key x # map key xs @ seen) ys"
    by (rule keep_first_seen_cong) auto
  have 2: "key x \<in> set seen \<Longrightarrow>
      keep_first key (map key xs @ seen) ys = keep_first key (key x # map key xs @ seen) ys"
    by (rule keep_first_seen_cong) auto
  show ?case using Cons 1 2 by auto
qed

subsection \<open>Results of a computation that can fail\<close>

definition and_then :: "'e + 'a \<Rightarrow> ('a \<Rightarrow> 'e + 'b) \<Rightarrow> 'e + 'b" where
  "and_then m f = (case m of Inl e \<Rightarrow> Inl e | Inr x \<Rightarrow> f x)"

lemma and_then_simps [simp]: "and_then (Inl e) f = Inl e" "and_then (Inr x) f = f x"
  by (simp_all add: and_then_def)

lemma and_then_Inr_iff: "and_then m f = Inr y \<longleftrightarrow> (\<exists>x. m = Inr x \<and> f x = Inr y)"
  by (cases m) simp_all

lemma and_then_cong [fundef_cong]: "m = n \<Longrightarrow> (\<And>x. n = Inr x \<Longrightarrow> f x = g x) \<Longrightarrow> and_then m f = and_then n g"
  by (cases n) simp_all

text \<open>A list of results, up to the first failure.\<close>

fun map_results :: "('a \<Rightarrow> 'e + 'b) \<Rightarrow> 'a list \<Rightarrow> 'e + 'b list" where
  "map_results f [] = Inr []"
| "map_results f (x # xs) = and_then (f x) (\<lambda>y. and_then (map_results f xs) (\<lambda>ys. Inr (y # ys)))"

lemma map_results_Inr_iff: "map_results f xs = Inr ys \<longleftrightarrow> list_all2 (\<lambda>x y. f x = Inr y) xs ys"
  by (induction xs arbitrary: ys) (auto simp: and_then_Inr_iff list_all2_Cons1)

lemma map_results_total: "(\<And>x. x \<in> set xs \<Longrightarrow> f x = Inr (g x)) \<Longrightarrow> map_results f xs = Inr (map g xs)"
  by (induction xs) simp_all

subsection \<open>\<open>str.replace\<close>\<close>

function replace_all :: "string \<Rightarrow> string \<Rightarrow> string \<Rightarrow> string" where
  "replace_all old new [] = []"
| "replace_all old new (c # cs) =
     (if old \<noteq> [] \<and> prefix old (c # cs) then new @ replace_all old new (drop (length old) (c # cs))
      else c # replace_all old new cs)"
  by pat_completeness auto
termination by (relation "measure (\<lambda>(old, new, s). length s)") auto

lemma replace_all_hit:
  "old \<noteq> [] \<and> prefix old (c # cs) \<Longrightarrow> replace_all old new (c # cs) = new @ replace_all old new (drop (length old) (c # cs))"
  by simp

lemma replace_all_skip:
  "\<not> (old \<noteq> [] \<and> prefix old (c # cs)) \<Longrightarrow> replace_all old new (c # cs) = c # replace_all old new cs"
  unfolding replace_all.simps by (rule if_not_P)

text \<open>An empty text to replace stands before every character and at the end.\<close>

definition str_replace :: "string \<Rightarrow> string \<Rightarrow> string \<Rightarrow> string" where
  "str_replace old new s = (if old = [] then new @ concat (map (\<lambda>c. c # new) s) else replace_all old new s)"

text \<open>No piece of the text appears anew when the replacement shares no character with it.\<close>

lemma replace_all_prefix:
  "new \<noteq> [] \<Longrightarrow> set new \<inter> set p = {} \<Longrightarrow> prefix p (replace_all old new s) \<Longrightarrow> prefix p s"
proof (induction old new s arbitrary: p rule: replace_all.induct)
  case (2 old new c cs)
  show ?case
  proof (cases "old \<noteq> [] \<and> prefix old (c # cs)")
    case True
    with 2(3-5) have "p = []" unfolding replace_all_hit [OF True] by (cases p; cases new) auto
    then show ?thesis by simp
  next
    case False
    show ?thesis using 2(2) [OF False] 2(3-5) unfolding replace_all_skip [OF False] by (cases p) auto
  qed
qed simp

lemma sublist_after: "set new \<inter> set p = {} \<Longrightarrow> p \<noteq> [] \<Longrightarrow> sublist p (new @ r) \<Longrightarrow> sublist p r"
proof (induction new)
  case (Cons a new)
  then have "\<not> prefix p (a # new @ r)" by (cases p) auto
  with Cons show ?case by (simp add: sublist_Cons_right)
qed simp

lemma replace_all_sublist:
  "new \<noteq> [] \<Longrightarrow> set new \<inter> set p = {} \<Longrightarrow> p \<noteq> [] \<Longrightarrow> sublist p (replace_all old new s) \<Longrightarrow> sublist p s"
proof (induction old new s rule: replace_all.induct)
  case (2 old new c cs)
  show ?case
  proof (cases "old \<noteq> [] \<and> prefix old (c # cs)")
    case True
    have "sublist p (replace_all old new (drop (length old) (c # cs)))"
      using 2(6) unfolding replace_all_hit [OF True] by (rule sublist_after [OF 2(4,5)])
    from 2(1) [OF True 2(3-5) this] show ?thesis by (rule sublist_order.order_trans) (rule sublist_drop)
  next
    case False
    have "prefix p (replace_all old new (c # cs)) \<or> sublist p (replace_all old new cs)"
      using 2(6) unfolding replace_all_skip [OF False] sublist_Cons_right .
    then show ?thesis
      using 2(2) [OF False 2(3-5)] replace_all_prefix [OF 2(3,4)] unfolding sublist_Cons_right by blast
  qed
qed simp

lemma replace_all_gone:
  "new \<noteq> [] \<Longrightarrow> set new \<inter> set old = {} \<Longrightarrow> old \<noteq> [] \<Longrightarrow> \<not> sublist old (replace_all old new s)"
proof (induction old new s rule: replace_all.induct)
  case (2 old new c cs)
  show ?case
  proof (cases "prefix old (c # cs)")
    case True
    with 2(5) have t: "old \<noteq> [] \<and> prefix old (c # cs)" by simp
    show ?thesis unfolding replace_all_hit [OF t] using 2(1) [OF t 2(3-5)] sublist_after [OF 2(4,5)] by blast
  next
    case False
    then have f: "\<not> (old \<noteq> [] \<and> prefix old (c # cs))" by simp
    from False have "\<not> prefix old (replace_all old new (c # cs))" using replace_all_prefix 2(3,4) by blast
    with 2(2) [OF f 2(3-5)] show ?thesis unfolding replace_all_skip [OF f] sublist_Cons_right by blast
  qed
qed simp

end
