(* ===== verification/Json.thy ===== *)
theory Json
  imports Prelude
begin

text \<open>
  The \<open>json\<close> module as the program uses it: \<open>json.dumps(v, sort_keys=True,
  separators=(",", ":"))\<close>, which writes the content, the hashed text and the envelope body, and
  \<open>json.loads\<close>, which reads a body, a stored content or a state file back. The main result is
  the round trip \<open>loads_dumps\<close>: what the writer stores, every reader gets back.

  A floating-point number is kept as the text of its literal, since the program never computes with
  one that came from JSON. \<open>loads\<close> returns \<open>None\<close> where Python raises
  \<open>JSONDecodeError\<close>; an escape for a code point from 256 on lies outside the strings of the
  model and is refused as well.
\<close>

datatype json =
    JNull
  | JBool bool
  | JInt int
  | JFloat string
  | JStr string
  | JList "json list"
  | JObj "(string \<times> json) list"

subsection \<open>Writing\<close>

definition hex_digit :: "nat \<Rightarrow> char" where
  "hex_digit d = (if d < 10 then char_of (48 + d) else char_of (87 + d))"

definition hex_val :: "char \<Rightarrow> nat option" where
  "hex_val c =
     (if is_digit c then Some (of_char c - 48)
      else if in_range c 97 102 then Some (of_char c - 87)
      else if in_range c 65 70 then Some (of_char c - 55)
      else None)"

text \<open>\<open>ESCAPE_DCT\<close>, and \<open>\u00XX\<close> for everything outside the printable ASCII range.\<close>

definition esc_char :: "char \<Rightarrow> string" where
  "esc_char c =
     (if c = CHR 0x5C then [CHR 0x5C, CHR 0x5C]
      else if c = CHR 0x22 then [CHR 0x5C, CHR 0x22]
      else if c = CHR 0x0A then [CHR 0x5C, CHR ''n'']
      else if c = CHR 0x0D then [CHR 0x5C, CHR ''r'']
      else if c = CHR 0x09 then [CHR 0x5C, CHR ''t'']
      else if c = CHR 0x0C then [CHR 0x5C, CHR ''f'']
      else if c = CHR 0x08 then [CHR 0x5C, CHR ''b'']
      else if in_range c 32 126 then [c]
      else [CHR 0x5C, CHR ''u'', CHR ''0'', CHR ''0'',
            hex_digit (of_char c div 16), hex_digit (of_char c mod 16)])"

definition quote :: "string \<Rightarrow> string" where
  "quote s = [CHR 0x22] @ concat (map esc_char s) @ [CHR 0x22]"

fun emit :: "json \<Rightarrow> string" where
  "emit JNull = ''null''"
| "emit (JBool b) = (if b then ''true'' else ''false'')"
| "emit (JInt i) = show_int i"
| "emit (JFloat l) = l"
| "emit (JStr s) = quote s"
| "emit (JList xs) = ''['' @ join '','' (map emit xs) @ '']''"
| "emit (JObj kvs) = ''{'' @ join '','' (map (\<lambda>(k, v). quote k @ '':'' @ emit v) kvs) @ ''}''"

text \<open>\<open>sort_keys=True\<close>: every object is written with its keys in code-point order.\<close>

fun canon :: "json \<Rightarrow> json" where
  "canon (JList xs) = JList (map canon xs)"
| "canon (JObj kvs) = JObj (sort_key fst (map (\<lambda>(k, v). (k, canon v)) kvs))"
| "canon v = v"

definition dumps :: "json \<Rightarrow> string" where
  "dumps v = emit (canon v)"

subsection \<open>Reading\<close>

definition is_ws :: "char \<Rightarrow> bool" where
  "is_ws c \<longleftrightarrow> c = CHR '' '' \<or> c = CHR 0x09 \<or> c = CHR 0x0A \<or> c = CHR 0x0D"

definition skip_ws :: "string \<Rightarrow> string" where
  "skip_ws s = dropWhile is_ws s"

definition unescape :: "char \<Rightarrow> char option" where
  "unescape c =
     (if c = CHR 0x22 \<or> c = CHR 0x5C \<or> c = CHR ''/'' then Some c
      else if c = CHR ''b'' then Some (CHR 0x08)
      else if c = CHR ''f'' then Some (CHR 0x0C)
      else if c = CHR ''n'' then Some (CHR 0x0A)
      else if c = CHR ''r'' then Some (CHR 0x0D)
      else if c = CHR ''t'' then Some (CHR 0x09)
      else None)"

definition hex4 :: "char \<Rightarrow> char \<Rightarrow> char \<Rightarrow> char \<Rightarrow> nat option" where
  "hex4 a b c d =
     (case (hex_val a, hex_val b, hex_val c, hex_val d) of
        (Some w, Some x, Some y, Some z) \<Rightarrow> Some (((w * 16 + x) * 16 + y) * 16 + z)
      | _ \<Rightarrow> None)"

definition push_char :: "char \<Rightarrow> (string \<times> string) option \<Rightarrow> (string \<times> string) option" where
  "push_char c r = map_option (\<lambda>(s, rest). (c # s, rest)) r"

text \<open>The characters of a string literal, after its opening quote (\<open>strict\<close> mode).\<close>

fun p_str :: "string \<Rightarrow> (string \<times> string) option" where
  "p_str [] = None"
| "p_str (c # s) =
     (if c = CHR 0x22 then Some ([], s)
      else if c = CHR 0x5C then
        (case s of
           [] \<Rightarrow> None
         | e # s' \<Rightarrow>
             if e = CHR ''u'' then
               (case s' of
                  h1 # h2 # h3 # h4 # s'' \<Rightarrow>
                    (case hex4 h1 h2 h3 h4 of
                       Some n \<Rightarrow> if n < 256 then push_char (char_of n) (p_str s'') else None
                     | None \<Rightarrow> None)
                | _ \<Rightarrow> None)
             else (case unescape e of Some u \<Rightarrow> push_char u (p_str s') | None \<Rightarrow> None))
      else if (of_char c :: nat) < 32 then None
      else push_char c (p_str s))"

definition p_frac :: "string \<Rightarrow> string \<times> string" where
  "p_frac s =
     (case s of
        c # t \<Rightarrow>
          if c = CHR ''.'' \<and> takeWhile is_digit t \<noteq> []
          then (c # takeWhile is_digit t, dropWhile is_digit t) else ([], s)
      | [] \<Rightarrow> ([], s))"

definition p_exp :: "string \<Rightarrow> string \<times> string" where
  "p_exp s =
     (case s of
        c # t \<Rightarrow>
          if c = CHR ''e'' \<or> c = CHR ''E'' then
            (let (sg, u) = (case t of x # t' \<Rightarrow> if x = CHR ''-'' \<or> x = CHR ''+'' then ([x], t') else ([], t)
                            | [] \<Rightarrow> ([], t))
             in if takeWhile is_digit u \<noteq> []
                then (c # sg @ takeWhile is_digit u, dropWhile is_digit u) else ([], s))
          else ([], s)
      | [] \<Rightarrow> ([], s))"

definition p_num :: "string \<Rightarrow> (json \<times> string) option" where
  "p_num s =
     (let neg = (s \<noteq> [] \<and> hd s = CHR ''-''); r = (if neg then tl s else s) in
      case r of
        [] \<Rightarrow> None
      | c # _ \<Rightarrow>
          if \<not> is_digit c then None
          else
            (let ip = (if c = CHR ''0'' then [c] else takeWhile is_digit r);
                 (fr, r2) = p_frac (drop (length ip) r);
                 (ex, r3) = p_exp r2
             in if fr = [] \<and> ex = []
                then Some (JInt (if neg then - int (nat_of_digits ip) else int (nat_of_digits ip)), r3)
                else Some (JFloat ((if neg then ''-'' else []) @ ip @ fr @ ex), r3)))"

text \<open>\<open>word w v s\<close> is the value \<open>v\<close> when the text goes on with the literal \<open>w\<close>.\<close>

definition p_word :: "string \<Rightarrow> json \<Rightarrow> string \<Rightarrow> (json \<times> string) option" where
  "p_word w v s = (if take (length w) s = w then Some (v, drop (length w) s) else None)"

definition p_scalar :: "string \<Rightarrow> (json \<times> string) option" where
  "p_scalar s =
     (case s of
        [] \<Rightarrow> None
      | c # s' \<Rightarrow>
          if c = CHR 0x22 then map_option (\<lambda>(t, r). (JStr t, r)) (p_str s')
          else if c = CHR ''n'' then p_word ''null'' JNull s
          else if c = CHR ''t'' then p_word ''true'' (JBool True) s
          else if c = CHR ''f'' then p_word ''false'' (JBool False) s
          else if c = CHR ''N'' then p_word ''NaN'' (JFloat ''NaN'') s
          else if c = CHR ''I'' then p_word ''Infinity'' (JFloat ''Infinity'') s
          else (case p_num s of
                  Some r \<Rightarrow> Some r
                | None \<Rightarrow> if c = CHR ''-'' then p_word ''-Infinity'' (JFloat ''-Infinity'') s else None))"

text \<open>
  The recursive part. The first argument bounds the nesting of calls; every call eats a character
  of the text, so the length of the text is enough (\<open>loads_dumps\<close>). A repeated key
  of an object keeps its first position and its last value, as \<open>dict\<close> does.
\<close>

fun p_val :: "nat \<Rightarrow> string \<Rightarrow> (json \<times> string) option"
  and p_elems :: "nat \<Rightarrow> string \<Rightarrow> (json list \<times> string) option"
  and p_members :: "nat \<Rightarrow> string \<Rightarrow> ((string \<times> json) list \<times> string) option" where
  "p_val 0 s = None"
| "p_val (Suc n) s =
     (case s of
        [] \<Rightarrow> None
      | c # s' \<Rightarrow>
          if c = CHR ''['' then
            (case skip_ws s' of
               [] \<Rightarrow> None
             | d # t \<Rightarrow> if d = CHR '']'' then Some (JList [], t)
                        else map_option (\<lambda>(xs, r). (JList xs, r)) (p_elems n (d # t)))
          else if c = CHR ''{'' then
            (case skip_ws s' of
               [] \<Rightarrow> None
             | d # t \<Rightarrow> if d = CHR ''}'' then Some (JObj [], t)
                        else map_option (\<lambda>(kvs, r). (JObj (fold (\<lambda>(k, v). dict_set k v) kvs []), r))
                               (p_members n (d # t)))
          else p_scalar s)"
| "p_elems 0 s = None"
| "p_elems (Suc n) s =
     (case p_val n s of
        None \<Rightarrow> None
      | Some (v, r) \<Rightarrow>
          (case skip_ws r of
             [] \<Rightarrow> None
           | c # r' \<Rightarrow>
               if c = CHR '']'' then Some ([v], r')
               else if c = CHR '','' then
                 map_option (\<lambda>(vs, r''). (v # vs, r'')) (p_elems n (skip_ws r'))
               else None))"
| "p_members 0 s = None"
| "p_members (Suc n) s =
     (case s of
        [] \<Rightarrow> None
      | q # s' \<Rightarrow>
          if q \<noteq> CHR 0x22 then None
          else
            (case p_str s' of
               None \<Rightarrow> None
             | Some (k, r0) \<Rightarrow>
                 (case skip_ws r0 of
                    [] \<Rightarrow> None
                  | col # r1 \<Rightarrow>
                      if col \<noteq> CHR '':'' then None
                      else
                        (case p_val n (skip_ws r1) of
                           None \<Rightarrow> None
                         | Some (v, r2) \<Rightarrow>
                             (case skip_ws r2 of
                                [] \<Rightarrow> None
                              | c # r3 \<Rightarrow>
                                  if c = CHR ''}'' then Some ([(k, v)], r3)
                                  else if c = CHR '','' then
                                    map_option (\<lambda>(kvs, r). ((k, v) # kvs, r))
                                      (p_members n (skip_ws r3))
                                  else None)))))"

definition loads :: "string \<Rightarrow> json option" where
  "loads s =
     (case p_val (Suc (length s)) (skip_ws s) of
        None \<Rightarrow> None
      | Some (v, r) \<Rightarrow> if skip_ws r = [] then Some v else None)"

text \<open>\<open>d.get(k)\<close> of a JSON object.\<close>

definition json_get :: "(string \<times> json) list \<Rightarrow> string \<Rightarrow> json" where
  "json_get d k = (case dict_get d k of None \<Rightarrow> JNull | Some v \<Rightarrow> v)"

subsection \<open>String literals: reading undoes writing\<close>

lemma hex_val_digit: "d < 16 \<Longrightarrow> hex_val (hex_digit d) = Some d"
  by (auto simp: hex_val_def hex_digit_def char_class_defs)

lemma of_char_div_mod: "((0 * 16 + 0) * 16 + of_char c div 16) * 16 + of_char c mod 16 = (of_char c :: nat)"
  by simp

lemma esc_char_plain: "in_range c 32 126 \<Longrightarrow> c \<noteq> CHR 0x5C \<Longrightarrow> c \<noteq> CHR 0x22 \<Longrightarrow> esc_char c = [c]"
  by (auto simp: esc_char_def in_range_def)

lemma p_str_esc_char: "p_str (esc_char c @ t) = push_char c (p_str t)"
proof (cases "c \<in> {CHR 0x5C, CHR 0x22, CHR 0x0A, CHR 0x0D, CHR 0x09, CHR 0x0C, CHR 0x08}")
  case True
  then show ?thesis by (auto simp: esc_char_def unescape_def)
next
  case special: False
  show ?thesis
  proof (cases "in_range c 32 126")
    case True
    with special show ?thesis by (auto simp: esc_char_plain in_range_def)
  next
    case False
    have hi: "hex_val (hex_digit (of_char c div 16)) = Some (of_char c div 16)"
      by (rule hex_val_digit) (simp add: less_mult_imp_div_less)
    have lo: "hex_val (hex_digit (of_char c mod 16)) = Some (of_char c mod 16)"
      by (rule hex_val_digit) simp
    have zero: "hex_val (CHR ''0'') = Some 0"
      by (simp add: hex_val_def char_class_defs)
    have "hex4 (CHR ''0'') (CHR ''0'') (hex_digit (of_char c div 16)) (hex_digit (of_char c mod 16))
        = Some (of_char c)"
      by (simp add: hex4_def hi lo zero)
    then show ?thesis using special False by (auto simp: esc_char_def)
  qed
qed

lemma p_str_escaped: "p_str (concat (map esc_char s) @ CHR 0x22 # rest) = Some (s, rest)"
  by (induction s) (simp_all add: p_str_esc_char push_char_def)

subsection \<open>Numbers\<close>

text \<open>A text that may follow a value: nothing, the punctuation that ends a member, or white space.\<close>

definition ends_value :: "string \<Rightarrow> bool" where
  "ends_value r \<longleftrightarrow> r = [] \<or> hd r = CHR '','' \<or> hd r = CHR '']'' \<or> hd r = CHR ''}'' \<or> is_ws (hd r)"

lemma ends_value_simps [simp]:
  "ends_value []" "ends_value (CHR '','' # r)" "ends_value (CHR '']'' # r)" "ends_value (CHR ''}'' # r)"
  by (simp_all add: ends_value_def)

lemma ends_value_cases:
  assumes "ends_value r"
  shows "r = [] \<or> (\<exists>t. r = CHR '','' # t) \<or> (\<exists>t. r = CHR '']'' # t) \<or> (\<exists>t. r = CHR ''}'' # t) \<or> (\<exists>c t. r = c # t \<and> is_ws c)"
  using assms by (cases r) (auto simp: ends_value_def)

lemma p_frac_ends: "ends_value r \<Longrightarrow> p_frac r = ([], r)"
  by (drule ends_value_cases) (auto simp: p_frac_def is_ws_def)

lemma p_exp_ends: "ends_value r \<Longrightarrow> p_exp r = ([], r)"
  by (drule ends_value_cases) (auto simp: p_exp_def is_ws_def)

lemma takeWhile_digits_ends:
  assumes "list_all is_digit ds" and "ends_value r"
  shows "takeWhile is_digit (ds @ r) = ds"
proof -
  have "takeWhile is_digit r = []"
    using ends_value_cases [OF assms(2)] by (auto simp: char_class_defs is_ws_def)
  with assms(1) show ?thesis by (simp add: list_all_iff takeWhile_append2)
qed

lemma p_num_digits:
  assumes r: "ends_value r"
  shows "p_num (show_nat n @ r) = Some (JInt (int n), r)"
    and "p_num (CHR ''-'' # show_nat n @ r) = Some (JInt (- int n), r)"
proof -
  have ds: "list_all is_digit (show_nat n)"
    by (simp add: list_all_iff show_nat_digits)
  obtain c cs where sn: "show_nat n = c # cs" by (cases "show_nat n") auto
  with ds have dig: "is_digit c" by simp
  then have minus: "c \<noteq> CHR ''-''" by (auto simp: char_class_defs)
  have zero: "cs = []" if "c = CHR ''0''"
    using that sn show_nat_hd [of n] by (cases "n = 0") (simp_all add: show_nat.simps [of 0])
  have tw: "takeWhile is_digit (cs @ r) = cs"
    using ds sn by (intro takeWhile_digits_ends r) simp
  have val: "nat_of_digits (c # cs) = n" using nat_of_digits_show [of n] sn by simp
  note rules = p_num_def Let_def p_frac_ends [OF r] p_exp_ends [OF r]
  show "p_num (show_nat n @ r) = Some (JInt (int n), r)"
    using dig minus zero tw val by (cases "c = CHR ''0''") (simp_all add: rules sn)
  show "p_num (CHR ''-'' # show_nat n @ r) = Some (JInt (- int n), r)"
    using dig minus zero tw val by (cases "c = CHR ''0''") (simp_all add: rules sn)
qed

lemma p_num_show_int: "ends_value r \<Longrightarrow> p_num (show_int i @ r) = Some (JInt i, r)"
  by (auto simp: show_int_def p_num_digits)

subsection \<open>Values: reading undoes writing\<close>

text \<open>
  Values the program writes: objects with distinct keys (a \<open>dict\<close>) and no floating-point number
  (no registered payload type has one).
\<close>

fun json_ok :: "json \<Rightarrow> bool" where
  "json_ok (JFloat l) = False"
| "json_ok (JList xs) = list_all json_ok xs"
| "json_ok (JObj kvs) = (distinct (map fst kvs) \<and> list_all (\<lambda>(k, v). json_ok v) kvs)"
| "json_ok v = True"

lemma fold_dict_set_append:
  assumes "distinct (map fst (acc @ kvs))"
  shows "fold (\<lambda>(k, v). dict_set k v) kvs acc = acc @ kvs"
  using assms
proof (induction kvs arbitrary: acc)
  case Nil
  show ?case by simp
next
  case (Cons kv kvs)
  obtain k v where kv: "kv = (k, v)" by (cases kv)
  with Cons.prems have "k \<notin> fst ` set acc" by auto
  then have "dict_set k v acc = acc @ [(k, v)]"
    by (simp add: dict_set_def) (induction acc; auto)
  with Cons kv show ?case by (simp add: Cons.IH)
qed

lemma fold_dict_set_id: "distinct (map fst kvs) \<Longrightarrow> fold (\<lambda>(k, v). dict_set k v) kvs [] = kvs"
  using fold_dict_set_append [of "[]" kvs] by simp

text \<open>The first character of a written value decides how it is read, and is not white space.\<close>

definition starts_value :: "string \<Rightarrow> bool" where
  "starts_value s \<longleftrightarrow> s \<noteq> [] \<and> \<not> is_ws (hd s) \<and> hd s \<noteq> CHR '']'' \<and> hd s \<noteq> CHR ''}''"

lemma starts_value_ConsI:
  "\<not> is_ws c \<Longrightarrow> c \<noteq> CHR '']'' \<Longrightarrow> c \<noteq> CHR ''}'' \<Longrightarrow> starts_value (c # s)"
  by (simp add: starts_value_def)

lemma starts_value_append: "starts_value s \<Longrightarrow> starts_value (s @ t)"
  by (simp add: starts_value_def)

lemma skip_ws_starts: "starts_value s \<Longrightarrow> skip_ws s = s"
  by (cases s) (auto simp: starts_value_def skip_ws_def)

lemma skip_ws_punct [simp]:
  "skip_ws (CHR '','' # r) = CHR '','' # r" "skip_ws (CHR '']'' # r) = CHR '']'' # r"
  "skip_ws (CHR ''}'' # r) = CHR ''}'' # r" "skip_ws (CHR '':'' # r) = CHR '':'' # r"
  by (simp_all add: skip_ws_def is_ws_def)

lemma show_int_Cons:
  obtains c cs where "show_int i = c # cs" and "c = CHR ''-'' \<or> is_digit c"
proof (cases "i < 0")
  case True
  with that show ?thesis by (simp add: show_int_def)
next
  case False
  obtain c cs where sn: "show_nat (nat i) = c # cs" by (cases "show_nat (nat i)") auto
  then have "is_digit c" using show_nat_digits [of c "nat i"] by simp
  with that False sn show ?thesis by (simp add: show_int_def)
qed

lemma starts_value_emit: "json_ok v \<Longrightarrow> starts_value (emit v)"
proof (cases v)
  case (JInt i)
  obtain c cs where "show_int i = c # cs" and "c = CHR ''-'' \<or> is_digit c"
    by (rule show_int_Cons)
  then show ?thesis using JInt by (auto simp: starts_value_def is_ws_def char_class_defs)
qed (auto simp: starts_value_def is_ws_def quote_def)

lemma p_scalar_emit:
  assumes "ends_value r"
  shows "p_scalar (emit JNull @ r) = Some (JNull, r)"
    and "p_scalar (emit (JBool b) @ r) = Some (JBool b, r)"
    and "p_scalar (emit (JInt i) @ r) = Some (JInt i, r)"
    and "p_scalar (emit (JStr s) @ r) = Some (JStr s, r)"
proof -
  show "p_scalar (emit JNull @ r) = Some (JNull, r)"
    by (simp add: p_scalar_def p_word_def)
  show "p_scalar (emit (JBool b) @ r) = Some (JBool b, r)"
    by (cases b) (simp_all add: p_scalar_def p_word_def)
  show "p_scalar (emit (JStr s) @ r) = Some (JStr s, r)"
    by (simp add: p_scalar_def quote_def p_str_escaped)
  obtain c cs where si: "show_int i = c # cs" and c: "c = CHR ''-'' \<or> is_digit c"
    by (rule show_int_Cons)
  have "p_num (c # cs @ r) = Some (JInt i, r)"
    using p_num_show_int [OF assms, of i] si by simp
  moreover have "c \<noteq> CHR 0x22" "c \<noteq> CHR ''n''" "c \<noteq> CHR ''t''" "c \<noteq> CHR ''f''"
      "c \<noteq> CHR ''N''" "c \<noteq> CHR ''I''"
    using c by (auto simp: is_digit_def in_range_def)
  ultimately show "p_scalar (emit (JInt i) @ r) = Some (JInt i, r)"
    using si by (simp add: p_scalar_def)
qed

lemma p_val_scalar:
  "s \<noteq> [] \<Longrightarrow> hd s \<noteq> CHR ''['' \<Longrightarrow> hd s \<noteq> CHR ''{'' \<Longrightarrow> p_val (Suc n) s = p_scalar s"
  by (cases s) auto

lemma emit_nonempty: "json_ok v \<Longrightarrow> emit v \<noteq> []"
  using starts_value_emit [of v] by (auto simp: starts_value_def)

lemma p_val_emit_scalar:
  assumes "ends_value r" and "v \<in> {JNull, JBool b, JInt i, JStr t}" and "emit v \<noteq> []"
    and "length (emit v) \<le> n"
  shows "p_val n (emit v @ r) = Some (v, r)"
proof -
  obtain m where n: "n = Suc m" using assms(3,4) by (cases n) auto
  obtain c cs where si: "show_int i = c # cs" and c: "c = CHR ''-'' \<or> is_digit c"
    by (rule show_int_Cons)
  have "hd (emit v @ r) \<noteq> CHR ''['' \<and> hd (emit v @ r) \<noteq> CHR ''{''"
    using assms(2) si c by (auto simp: quote_def char_class_defs split: if_splits)
  then have "p_val n (emit v @ r) = p_scalar (emit v @ r)"
    using assms(3) n by (simp add: p_val_scalar del: p_val.simps)
  also have "\<dots> = Some (v, r)"
    using assms(2) p_scalar_emit [OF assms(1)] by auto
  finally show ?thesis .
qed

lemma starts_value_join:
  "xs \<noteq> [] \<Longrightarrow> (\<And>x. x \<in> set xs \<Longrightarrow> starts_value (f x)) \<Longrightarrow>
   starts_value (join sep (map f xs) @ t)"
  by (cases xs; cases "tl xs") (auto intro: starts_value_append)

lemma p_elems_emit:
  assumes "\<And>x r n. x \<in> set xs \<Longrightarrow> ends_value r \<Longrightarrow> length (emit x) \<le> n \<Longrightarrow>
      p_val n (emit x @ r) = Some (x, r)"
    and "\<And>x. x \<in> set xs \<Longrightarrow> starts_value (emit x)"
    and "xs \<noteq> []" and "length (join '','' (map emit xs)) < n"
  shows "p_elems n (join '','' (map emit xs) @ CHR '']'' # r) = Some (xs, r)"
  using assms
proof (induction xs arbitrary: n)
  case Nil
  then show ?case by simp
next
  case (Cons x xs)
  then obtain m where n: "n = Suc m" by (cases n) auto
  show ?case
  proof (cases "xs = []")
    case True
    with Cons.prems n have "p_val m (emit x @ CHR '']'' # r) = Some (x, CHR '']'' # r)" by simp
    with True n show ?thesis by simp
  next
    case False
    let ?rest = "join '','' (map emit xs)"
    have len: "length (emit x) + 1 + length ?rest < Suc m"
      using Cons.prems(4) n False by (simp add: join_Cons)
    have head: "p_val m (emit x @ CHR '','' # ?rest @ CHR '']'' # r)
        = Some (x, CHR '','' # ?rest @ CHR '']'' # r)"
      using Cons.prems(1) len by simp
    have ws: "skip_ws (?rest @ CHR '']'' # r) = ?rest @ CHR '']'' # r"
      using Cons.prems(2) False by (intro skip_ws_starts starts_value_join) auto
    have "p_elems m (?rest @ CHR '']'' # r) = Some (xs, r)"
      using Cons.prems(1,2) len False by (intro Cons.IH) auto
    with head ws n False show ?thesis by (simp add: join_Cons)
  qed
qed

lemma p_members_emit:
  assumes "\<And>k v r n. (k, v) \<in> set kvs \<Longrightarrow> ends_value r \<Longrightarrow> length (emit v) \<le> n \<Longrightarrow>
      p_val n (emit v @ r) = Some (v, r)"
    and "\<And>k v. (k, v) \<in> set kvs \<Longrightarrow> starts_value (emit v)"
    and "kvs \<noteq> []"
    and "length (join '','' (map (\<lambda>(k, v). quote k @ '':'' @ emit v) kvs)) < n"
  shows "p_members n (join '','' (map (\<lambda>(k, v). quote k @ '':'' @ emit v) kvs) @ CHR ''}'' # r)
    = Some (kvs, r)"
  using assms
proof (induction kvs arbitrary: n)
  case Nil
  then show ?case by simp
next
  case (Cons kv kvs)
  obtain k v where kv: "kv = (k, v)" by (cases kv)
  obtain m where n: "n = Suc m" using Cons.prems(4) by (cases n) auto
  have ws: "skip_ws (emit v @ t) = emit v @ t" for t
    using Cons.prems(2) [of k v] kv by (intro skip_ws_starts starts_value_append) simp
  show ?case
  proof (cases "kvs = []")
    case True
    with Cons.prems kv n have "p_val m (emit v @ CHR ''}'' # r) = Some (v, CHR ''}'' # r)"
      by (simp add: quote_def)
    with True kv n ws show ?thesis by (simp add: quote_def p_str_escaped)
  next
    case False
    let ?rest = "join '','' (map (\<lambda>(k, v). quote k @ '':'' @ emit v) kvs)"
    have len: "length (emit v) + 1 + length ?rest < Suc m"
      using Cons.prems(4) n False kv by (simp add: join_Cons quote_def)
    have head: "p_val m (emit v @ CHR '','' # ?rest @ CHR ''}'' # r)
        = Some (v, CHR '','' # ?rest @ CHR ''}'' # r)"
      using Cons.prems(1) [of k v] len kv by simp
    have ws2: "skip_ws (?rest @ CHR ''}'' # r) = ?rest @ CHR ''}'' # r"
      using False
      by (intro skip_ws_starts starts_value_join) (auto simp: starts_value_def quote_def is_ws_def)
    have "p_members m (?rest @ CHR ''}'' # r) = Some (kvs, r)"
      using len False by (intro Cons.IH) (auto intro: Cons.prems(1) Cons.prems(2))
    with head ws ws2 n False kv show ?thesis by (simp add: join_Cons quote_def p_str_escaped)
  qed
qed

lemma p_val_emit:
  "json_ok v \<Longrightarrow> ends_value r \<Longrightarrow> length (emit v) \<le> n \<Longrightarrow> p_val n (emit v @ r) = Some (v, r)"
proof (induction v arbitrary: r n rule: emit.induct)
  case (6 xs)
  then obtain m where n: "n = Suc m" by (cases n) auto
  show ?case
  proof (cases "xs = []")
    case True
    with n show ?thesis by simp
  next
    case False
    have starts: "\<And>x. x \<in> set xs \<Longrightarrow> starts_value (emit x)"
      using "6.prems"(1) by (simp add: starts_value_emit list_all_iff)
    have "p_elems m (join '','' (map emit xs) @ CHR '']'' # r) = Some (xs, r)"
      using "6.prems" "6.IH" starts False n by (intro p_elems_emit) (auto simp: list_all_iff)
    moreover obtain c t where "join '','' (map emit xs) @ CHR '']'' # r = c # t"
      and "\<not> is_ws c" and "c \<noteq> CHR '']''"
    proof -
      have "starts_value (join '','' (map emit xs) @ CHR '']'' # r)"
        using False starts by (rule starts_value_join)
      then show ?thesis
        using that by (cases "join '','' (map emit xs) @ CHR '']'' # r") (auto simp: starts_value_def)
    qed
    ultimately show ?thesis using n by (simp add: skip_ws_def)
  qed
next
  case (7 kvs)
  then obtain m where n: "n = Suc m" by (cases n) auto
  show ?case
  proof (cases "kvs = []")
    case True
    with n show ?thesis by simp
  next
    case False
    let ?txt = "join '','' (map (\<lambda>(k, v). quote k @ '':'' @ emit v) kvs)"
    have "p_members m (?txt @ CHR ''}'' # r) = Some (kvs, r)"
      using "7.prems" "7.IH" False n
      by (intro p_members_emit) (auto simp: list_all_iff starts_value_emit)
    moreover obtain t where "?txt @ CHR ''}'' # r = CHR 0x22 # t"
      using False by (cases kvs; cases "tl kvs") (auto simp: quote_def)
    ultimately show ?thesis
      using n "7.prems"(1) by (simp add: skip_ws_def is_ws_def fold_dict_set_id)
  qed
qed (simp_all add: p_val_emit_scalar emit_nonempty del: p_val.simps emit.simps)

lemma loads_emit: "json_ok v \<Longrightarrow> loads (emit v) = Some v"
proof -
  assume ok: "json_ok v"
  then have "skip_ws (emit v) = emit v"
    by (intro skip_ws_starts starts_value_emit)
  moreover have "p_val (Suc (length (emit v))) (emit v @ []) = Some (v, [])"
    using ok by (intro p_val_emit) auto
  ultimately show ?thesis by (simp add: loads_def skip_ws_def)
qed

lemma canon_keys:
  "set (map fst (sort_key fst (map (\<lambda>(k, v). (k, canon v)) kvs))) = fst ` set kvs"
  by force

lemma json_ok_canon: "json_ok v \<Longrightarrow> json_ok (canon v)"
proof (induction v rule: canon.induct)
  case (2 kvs)
  let ?ys = "sort_key fst (map (\<lambda>(k, v). (k, canon v)) kvs)"
  have "card (set (map fst ?ys)) = card (set (map fst kvs))"
    by (simp only: canon_keys) simp
  also have "\<dots> = length (map fst ?ys)"
    using 2 distinct_card [of "map fst kvs"] by simp
  finally have "distinct (map fst ?ys)" by (rule card_distinct)
  with 2 show ?case by (auto simp: list_all_iff)
qed (auto simp: list_all_iff)

text \<open>What \<open>loads\<close> returns for a written value: the value with its keys sorted.\<close>

lemma loads_dumps: "json_ok v \<Longrightarrow> loads (dumps v) = Some (canon v)"
  unfolding dumps_def by (rule loads_emit) (rule json_ok_canon)

end
