(* ===== verification/Errors.thy ===== *)
theory Errors
  imports Json
begin

text \<open>
  The exceptions of the program (\<open>fleet_memory/errors.py\<close>, \<open>payloads/base.py\<close>) and
  the ones of Python and its libraries that its handlers tell apart, with the class hierarchy that
  \<open>except\<close> and \<open>isinstance\<close> follow and the text that \<open>str(e)\<close> gives. Then the type of
  an operation over a state: it returns, raises, or has not returned within its fuel, and in each
  case leaves a state behind, so that what was written before an exception stays written.
\<close>

subsection \<open>\<open>repr\<close> and \<open>str\<close> of the values an error message shows\<close>

definition printable :: "char \<Rightarrow> bool" where
  "printable c \<longleftrightarrow> in_range c 32 126 \<or> (in_range c 161 255 \<and> of_char c \<noteq> (173::nat))"

definition repr_char :: "char \<Rightarrow> char \<Rightarrow> string" where
  "repr_char q c =
     (if c = q \<or> c = CHR 0x5C then [CHR 0x5C, c]
      else if c = CHR 0x0A then [CHR 0x5C, CHR ''n'']
      else if c = CHR 0x0D then [CHR 0x5C, CHR ''r'']
      else if c = CHR 0x09 then [CHR 0x5C, CHR ''t'']
      else if printable c then [c]
      else [CHR 0x5C, CHR ''x'', hex_digit (of_char c div 16), hex_digit (of_char c mod 16)])"

definition repr_str :: "string \<Rightarrow> string" where
  "repr_str s =
     (let q = (if CHR 0x27 \<in> set s \<and> CHR 0x22 \<notin> set s then CHR 0x22 else CHR 0x27)
      in [q] @ concat (map (repr_char q) s) @ [q])"

definition repr_list :: "string list \<Rightarrow> string" where
  "repr_list xs = ''['' @ join '', '' (map repr_str xs) @ '']''"

definition repr_tuple :: "string list \<Rightarrow> string" where
  "repr_tuple xs =
     ''('' @ join '', '' (map repr_str xs) @ (if length xs = 1 then '',)'' else '')'')"

fun repr_json :: "json \<Rightarrow> string" where
  "repr_json JNull = ''None''"
| "repr_json (JBool b) = (if b then ''True'' else ''False'')"
| "repr_json (JInt i) = show_int i"
| "repr_json (JFloat l) = l"
| "repr_json (JStr s) = repr_str s"
| "repr_json (JList xs) = ''['' @ join '', '' (map repr_json xs) @ '']''"
| "repr_json (JObj kvs) =
     ''{'' @ join '', '' (map (\<lambda>(k, v). repr_str k @ '': '' @ repr_json v) kvs) @ ''}''"

definition str_json :: "json \<Rightarrow> string" where
  "str_json v = (case v of JStr s \<Rightarrow> s | _ \<Rightarrow> repr_json v)"

text \<open>Truth of a value (\<open>if v:\<close>). A float is false when all digits of its literal are zero.\<close>

definition float_zero :: "string \<Rightarrow> bool" where
  "float_zero l \<longleftrightarrow>
     (let m = takeWhile (\<lambda>c. c \<noteq> CHR ''e'' \<and> c \<noteq> CHR ''E'') l
      in list_all (\<lambda>c. c = CHR ''0'' \<or> c = CHR ''.'' \<or> c = CHR ''-'') m)"

fun truthy :: "json \<Rightarrow> bool" where
  "truthy JNull = False"
| "truthy (JBool b) = b"
| "truthy (JInt i) = (i \<noteq> 0)"
| "truthy (JFloat l) = (\<not> float_zero l)"
| "truthy (JStr s) = (s \<noteq> [])"
| "truthy (JList xs) = (xs \<noteq> [])"
| "truthy (JObj kvs) = (kvs \<noteq> [])"

subsection \<open>Exceptions\<close>

datatype exn =
    EmbedDimensionError int int
  | EmbedTimeoutError string string
  | EmbedServiceError string "string option" "int option"
  | EmbedRequestError string "string option" "int option" "string option"
  | NamespaceValidationError "string list" "string list"
  | UnknownPayloadTypeError json
  | PoisonEpisodeError string "string option"
  | TransientIngestError string
  | IdentifierValidationError string json
  | SupersessionValidationError string string
  | ValidationError string
  | JSONDecodeError string
  | UnicodeDecodeError string
  | ValueError string
  | TypeError string
  | AttributeError string
  | RuntimeError string
  | TimeoutError string
  | ConnectionError string
  | HttpxTimeout string
  | ManifestValidationError string
  | ReindexPublishError string
  | OtherError string

text \<open>
  \<open>str(e)\<close>. The messages are those of the constructors in \<open>errors.py\<close> and \<open>base.py\<close>;
  an exception of a library carries its own text.
\<close>

definition embed_service_msg :: "string \<Rightarrow> string option \<Rightarrow> int option \<Rightarrow> string" where
  "embed_service_msg m url st =
     ''Embedding service error: '' @ m
     @ (case st of None \<Rightarrow> [] | Some c \<Rightarrow> '' (HTTP '' @ show_int c @ '')'')
     @ (case url of None \<Rightarrow> [] | Some u \<Rightarrow> '' - '' @ u)"

definition embed_request_msg :: "string \<Rightarrow> string option \<Rightarrow> int option \<Rightarrow> string option \<Rightarrow> string" where
  "embed_request_msg m url st ty =
     embed_service_msg
       (case ty of None \<Rightarrow> m | Some t \<Rightarrow> if t = [] then m else m @ '' ['' @ t @ '']'') url st"

definition identifier_msg :: "string \<Rightarrow> json \<Rightarrow> string" where
  "identifier_msg field v =
     (if \<not> truthy v then field @ '' identifier is required and cannot be empty''
      else ''Invalid '' @ field @ '' identifier '' @ [CHR 0x27] @ str_json v @ [CHR 0x27]
           @ '': identifiers must use underscores only (match ^[a-zA-Z0-9_]+$)'')"

definition namespace_msg :: "string list \<Rightarrow> string list \<Rightarrow> string" where
  "namespace_msg ns bad =
     ''Invalid namespace identifiers '' @ repr_list bad
     @ '': must use underscores only (match ^[a-z0-9_]+$), got namespace '' @ repr_tuple ns"

fun exn_str :: "exn \<Rightarrow> string" where
  "exn_str (EmbedDimensionError a e) =
     ''Embedding dimension mismatch: got '' @ show_int a @ '' dimensions, expected '' @ show_int e"
| "exn_str (EmbedTimeoutError url t) =
     ''Embedding service request timed out after '' @ t @ ''s: '' @ url"
| "exn_str (EmbedServiceError m url st) = embed_service_msg m url st"
| "exn_str (EmbedRequestError m url st ty) = embed_request_msg m url st ty"
| "exn_str (NamespaceValidationError ns bad) = namespace_msg ns bad"
| "exn_str (UnknownPayloadTypeError pt) =
     ''Unknown payload type '' @ [CHR 0x27] @ str_json pt @ [CHR 0x27]
     @ '': not found in dispatch registry. Lookup is case-sensitive.''"
| "exn_str (PoisonEpisodeError r d) =
     ''Poison episode: '' @ r @ (case d of None \<Rightarrow> [] | Some t \<Rightarrow> '' - '' @ t)"
| "exn_str (TransientIngestError m) = ''Transient ingest error: '' @ m"
| "exn_str (IdentifierValidationError f v) = identifier_msg f v"
| "exn_str (SupersessionValidationError m r) = m"
| "exn_str (ValidationError m) = m"
| "exn_str (JSONDecodeError m) = m"
| "exn_str (UnicodeDecodeError m) = m"
| "exn_str (ValueError m) = m"
| "exn_str (TypeError m) = m"
| "exn_str (AttributeError m) = m"
| "exn_str (RuntimeError m) = m"
| "exn_str (TimeoutError m) = m"
| "exn_str (ConnectionError m) = m"
| "exn_str (HttpxTimeout m) = m"
| "exn_str (ManifestValidationError m) = m"
| "exn_str (ReindexPublishError m) = m"
| "exn_str (OtherError m) = m"

text \<open>The classes: an instance of a subclass is an instance of its parents.\<close>

fun is_EmbedServiceError :: "exn \<Rightarrow> bool" where
  "is_EmbedServiceError (EmbedServiceError m u s) = True"
| "is_EmbedServiceError (EmbedRequestError m u s t) = True"
| "is_EmbedServiceError _ = False"

fun is_TimeoutError :: "exn \<Rightarrow> bool" where
  "is_TimeoutError (TimeoutError m) = True"
| "is_TimeoutError (EmbedTimeoutError u t) = True"
| "is_TimeoutError _ = False"

fun is_ValueError :: "exn \<Rightarrow> bool" where
  "is_ValueError (ValueError m) = True"
| "is_ValueError (EmbedDimensionError a e) = True"
| "is_ValueError (NamespaceValidationError ns bad) = True"
| "is_ValueError (UnknownPayloadTypeError pt) = True"
| "is_ValueError (IdentifierValidationError f v) = True"
| "is_ValueError (SupersessionValidationError m r) = True"
| "is_ValueError (ValidationError m) = True"
| "is_ValueError (JSONDecodeError m) = True"
| "is_ValueError (UnicodeDecodeError m) = True"
| "is_ValueError (ManifestValidationError m) = True"
| "is_ValueError _ = False"

subsection \<open>Operations over a state\<close>

datatype 'a res = Ok 'a | Exn exn | Stuck

type_synonym ('s, 'a) comp = "'s \<Rightarrow> 'a res \<times> 's"

definition ret :: "'a \<Rightarrow> ('s, 'a) comp" where
  "ret x s = (Ok x, s)"

definition throw :: "exn \<Rightarrow> ('s, 'a) comp" where
  "throw e s = (Exn e, s)"

definition bind :: "('s, 'a) comp \<Rightarrow> ('a \<Rightarrow> ('s, 'b) comp) \<Rightarrow> ('s, 'b) comp" where
  "bind m k s =
     (case m s of
        (Ok x, s') \<Rightarrow> k x s'
      | (Exn e, s') \<Rightarrow> (Exn e, s')
      | (Stuck, s') \<Rightarrow> (Stuck, s'))"

text \<open>\<open>try: m except ...\<close> where the handler sees every exception.\<close>

definition catch :: "('s, 'a) comp \<Rightarrow> (exn \<Rightarrow> ('s, 'a) comp) \<Rightarrow> ('s, 'a) comp" where
  "catch m h s =
     (case m s of
        (Exn e, s') \<Rightarrow> h e s'
      | (Ok x, s') \<Rightarrow> (Ok x, s')
      | (Stuck, s') \<Rightarrow> (Stuck, s'))"

fun for_each :: "('a \<Rightarrow> ('s, unit) comp) \<Rightarrow> 'a list \<Rightarrow> ('s, unit) comp" where
  "for_each f [] = ret ()"
| "for_each f (x # xs) = bind (f x) (\<lambda>_. for_each f xs)"

named_theorems comp_simps \<open>evaluation rules of operations over a state\<close>

lemma ret_eval [comp_simps]: "ret x s = (Ok x, s)"
  by (simp add: ret_def)

lemma throw_eval [comp_simps]: "throw e s = (Exn e, s)"
  by (simp add: throw_def)

lemma bind_Ok [comp_simps]: "m s = (Ok x, s') \<Longrightarrow> bind m k s = k x s'"
  by (simp add: bind_def)

lemma bind_Exn [comp_simps]: "m s = (Exn e, s') \<Longrightarrow> bind m k s = (Exn e, s')"
  by (simp add: bind_def)

lemma bind_Stuck [comp_simps]: "m s = (Stuck, s') \<Longrightarrow> bind m k s = (Stuck, s')"
  by (simp add: bind_def)

lemma catch_Ok [comp_simps]: "m s = (Ok x, s') \<Longrightarrow> catch m h s = (Ok x, s')"
  by (simp add: catch_def)

lemma catch_Exn [comp_simps]: "m s = (Exn e, s') \<Longrightarrow> catch m h s = h e s'"
  by (simp add: catch_def)

lemma bind_ret [simp]: "bind (ret x) k = k x"
  by (rule ext) (simp add: bind_def ret_def)

lemma bind_throw [simp]: "bind (throw e) k = throw e"
  by (rule ext) (simp add: bind_def throw_def)

lemma bind_Ok_iff:
  "bind m k s = (Ok y, s'') \<longleftrightarrow> (\<exists>x s'. m s = (Ok x, s') \<and> k x s' = (Ok y, s''))"
  by (auto simp: bind_def split: prod.splits res.splits)

lemma bind_Exn_iff:
  "bind m k s = (Exn e, s'') \<longleftrightarrow>
     m s = (Exn e, s'') \<or> (\<exists>x s'. m s = (Ok x, s') \<and> k x s' = (Exn e, s''))"
  by (auto simp: bind_def split: prod.splits res.splits)

lemma bind_not_Stuck:
  "fst (m s) \<noteq> Stuck \<Longrightarrow> (\<And>x s'. m s = (Ok x, s') \<Longrightarrow> fst (k x s') \<noteq> Stuck) \<Longrightarrow>
   fst (bind m k s) \<noteq> Stuck"
  by (auto simp: bind_def split: prod.splits res.splits)

text \<open>
  \<open>keeps m I\<close>: whatever way \<open>m\<close> ends, it leads from a state in \<open>I\<close> to a state in
  \<open>I\<close>. This is how an invariant survives an exception in the middle of an operation.
\<close>

definition keeps :: "('s, 'a) comp \<Rightarrow> ('s \<Rightarrow> bool) \<Rightarrow> bool" where
  "keeps m I \<longleftrightarrow> (\<forall>s. I s \<longrightarrow> I (snd (m s)))"

lemma keepsI: "(\<And>s. I s \<Longrightarrow> I (snd (m s))) \<Longrightarrow> keeps m I"
  by (simp add: keeps_def)

lemma keepsD: "keeps m I \<Longrightarrow> I s \<Longrightarrow> I (snd (m s))"
  by (simp add: keeps_def)

lemma keeps_ret [intro, simp]: "keeps (ret x) I"
  by (simp add: keeps_def ret_def)

lemma keeps_throw [intro, simp]: "keeps (throw e) I"
  by (simp add: keeps_def throw_def)

lemma keeps_bind [intro]: "keeps m I \<Longrightarrow> (\<And>x. keeps (k x) I) \<Longrightarrow> keeps (bind m k) I"
  unfolding keeps_def bind_def
  by (auto split: prod.splits res.splits)

lemma keeps_catch [intro]: "keeps m I \<Longrightarrow> (\<And>e. keeps (h e) I) \<Longrightarrow> keeps (catch m h) I"
  unfolding keeps_def catch_def
  by (auto split: prod.splits res.splits)

lemma keeps_for_each: "(\<And>x. x \<in> set xs \<Longrightarrow> keeps (f x) I) \<Longrightarrow> keeps (for_each f xs) I"
  by (induction xs) auto

lemma for_each_append: "for_each f (xs @ ys) = bind (for_each f xs) (\<lambda>_. for_each f ys)"
  by (induction xs) (auto simp: bind_def fun_eq_iff split: prod.splits res.splits)

text \<open>\<open>returns m s x s'\<close> in the words of the proofs: the operation ends normally.\<close>

abbreviation returns :: "('s, 'a) comp \<Rightarrow> 's \<Rightarrow> 'a \<Rightarrow> 's \<Rightarrow> bool" where
  "returns m s x s' \<equiv> m s = (Ok x, s')"

lemma for_each_returns_Cons:
  "returns (for_each f (x # xs)) s () s'' \<longleftrightarrow>
     (\<exists>s'. returns (f x) s () s' \<and> returns (for_each f xs) s' () s'')"
  by (simp add: bind_Ok_iff)

end
