(* ===== verification/Payloads.thy ===== *)
theory Payloads
  imports Errors
begin

text \<open>
  The typed payloads (\<open>fleet_memory/payloads\<close>): the payload classes and their fields, the
  registry that maps a type name to its class, the identifier and supersession checks of
  \<open>BasePayload.__init__\<close>, the natural key, the normalisation of raw ids, and the role tag and
  conditional rules of the backward-edge types.

  Pydantic's own field validation is not part of the repository: \<open>payload_init\<close> takes it as the
  argument \<open>pyd\<close>. The locale \<open>pydantic_model\<close> states what the code relies on, and
  \<open>schema_init\<close>, which reads the field declarations of \<open>models.py\<close>, provides it.
\<close>

named_theorems payload_simps \<open>lookup rules of the payload model\<close>

subsection \<open>Payload classes and the registry\<close>

datatype payload_class =
    ADRPayload | ReviewReportPayload | BuildOutcomePayload | PatternPayload | WarningPayload
  | SeedModulePayload | DocumentPayload
  | PlanningOutcomePayload | ApprovalDecisionPayload | DeployRecordPayload | LiveVerdictPayload
  | GradingOutcomePayload | SpecSurvivalPayload

text \<open>The class variable \<open>payload_type\<close>.\<close>

fun payload_type :: "payload_class \<Rightarrow> string" where
  "payload_type ADRPayload = ''adr''"
| "payload_type ReviewReportPayload = ''review_report''"
| "payload_type BuildOutcomePayload = ''build_outcome''"
| "payload_type PatternPayload = ''pattern''"
| "payload_type WarningPayload = ''warning''"
| "payload_type SeedModulePayload = ''seed_module''"
| "payload_type DocumentPayload = ''document''"
| "payload_type PlanningOutcomePayload = ''planning_outcome''"
| "payload_type ApprovalDecisionPayload = ''approval_decision''"
| "payload_type DeployRecordPayload = ''deploy_record''"
| "payload_type LiveVerdictPayload = ''live_verdict''"
| "payload_type GradingOutcomePayload = ''grading_outcome''"
| "payload_type SpecSurvivalPayload = ''spec_survival''"

definition PAYLOAD_REGISTRY :: "(string \<times> payload_class) list" where
  "PAYLOAD_REGISTRY =
     [(''adr'', ADRPayload), (''review_report'', ReviewReportPayload),
      (''build_outcome'', BuildOutcomePayload), (''pattern'', PatternPayload),
      (''warning'', WarningPayload), (''seed_module'', SeedModulePayload),
      (''document'', DocumentPayload)]"

definition MODEL_TO_TYPE :: "(payload_class \<times> string) list" where
  "MODEL_TO_TYPE = map (\<lambda>(name, model). (model, name)) PAYLOAD_REGISTRY"

definition BACKWARD_EDGE_PAYLOADS :: "(string \<times> payload_class) list" where
  "BACKWARD_EDGE_PAYLOADS =
     map (\<lambda>c. (payload_type c, c))
       [PlanningOutcomePayload, ApprovalDecisionPayload, DeployRecordPayload, LiveVerdictPayload,
        GradingOutcomePayload, SpecSurvivalPayload]"

definition registered :: "string \<Rightarrow> bool" where
  "registered t \<longleftrightarrow> t \<in> fst ` set PAYLOAD_REGISTRY"

definition get_model_for_type :: "string \<Rightarrow> exn + payload_class" where
  "get_model_for_type t =
     (case dict_get PAYLOAD_REGISTRY t of
        None \<Rightarrow> Inl (UnknownPayloadTypeError (JStr t))
      | Some c \<Rightarrow> Inr c)"

definition get_type_for_model :: "payload_class \<Rightarrow> exn + string" where
  "get_type_for_model c =
     (case dict_get MODEL_TO_TYPE c of
        None \<Rightarrow> Inl (ValueError ''Model is not registered in PAYLOAD_REGISTRY'')
      | Some t \<Rightarrow> Inr t)"

lemma registered_code [payload_simps]:
  "registered t \<longleftrightarrow> t = ''adr'' \<or> t = ''review_report'' \<or> t = ''build_outcome'' \<or> t = ''pattern''
     \<or> t = ''warning'' \<or> t = ''seed_module'' \<or> t = ''document''"
  by (auto simp: registered_def PAYLOAD_REGISTRY_def)

lemma get_model_Inr: "get_model_for_type t = Inr c \<Longrightarrow> payload_type c = t \<and> registered t"
  by (auto simp: get_model_for_type_def PAYLOAD_REGISTRY_def payload_simps split: if_splits)

lemma get_model_Inl: "get_model_for_type t = Inl e \<longleftrightarrow> \<not> registered t \<and> e = UnknownPayloadTypeError (JStr t)"
  by (auto simp: get_model_for_type_def PAYLOAD_REGISTRY_def payload_simps)

text \<open>Type names are plain identifiers, so they never break a natural key or a namespace.\<close>

lemma payload_type_ns: "full_class ns_char (payload_type c)"
  by (cases c) (simp_all add: full_class_def char_class_defs)

lemma payload_type_no_colon: "CHR '':'' \<notin> set (payload_type c)"
  by (cases c) simp_all

subsection \<open>Payload instances\<close>

text \<open>
  The fields \<open>BasePayload\<close> declares, and the fields of the concrete class in declaration order.
\<close>

record payload =
  p_class :: payload_class
  p_project :: string
  p_identifier :: string
  p_domain_tags :: "string list"
  p_source_ref :: string
  p_version :: int
  p_supersedes :: "string list"
  p_fields :: "(string \<times> json) list"

definition make_key :: "string \<Rightarrow> string \<Rightarrow> string \<Rightarrow> string" where
  "make_key t prj ident = t @ '':'' @ prj @ '':'' @ ident"

definition natural_key :: "payload \<Rightarrow> string" where
  "natural_key p = make_key (payload_type (p_class p)) (p_project p) (p_identifier p)"

text \<open>
  \<open>model_dump()\<close>: the declared fields, then the computed field \<open>natural_key\<close>.
  \<open>payload_type\<close> is a class variable and is not dumped.
\<close>

definition model_dump :: "payload \<Rightarrow> (string \<times> json) list" where
  "model_dump p =
     [(''project'', JStr (p_project p)), (''identifier'', JStr (p_identifier p)),
      (''domain_tags'', JList (map JStr (p_domain_tags p))),
      (''source_ref'', JStr (p_source_ref p)), (''version'', JInt (p_version p)),
      (''supersedes'', JList (map JStr (p_supersedes p)))]
     @ p_fields p @ [(''natural_key'', JStr (natural_key p))]"

subsection \<open>Identifier checks\<close>

text \<open>
  \<open>_validate_identifier\<close>: the value is whatever the caller passed. A false value is refused
  with the program's own error, a value of another type than \<open>str\<close> makes
  \<open>IDENTIFIER_PATTERN.fullmatch\<close> raise \<open>TypeError\<close>.
\<close>

definition validate_identifier :: "string \<Rightarrow> json \<Rightarrow> exn + unit" where
  "validate_identifier field v =
     (if \<not> truthy v then Inl (IdentifierValidationError field v)
      else
        (case v of
           JStr s \<Rightarrow> if full_class ident_char s then Inr ()
                     else Inl (IdentifierValidationError field v)
         | _ \<Rightarrow> Inl (TypeError ''expected string or bytes-like object'')))"

lemma validate_identifier_ok:
  "validate_identifier f v = Inr () \<longleftrightarrow> (\<exists>s. v = JStr s \<and> full_class ident_char s)"
  by (cases v) (auto simp: validate_identifier_def full_class_def)

definition check_key :: "string \<Rightarrow> (string \<times> json) list \<Rightarrow> exn + unit" where
  "check_key field d =
     (case dict_get d field of None \<Rightarrow> Inr () | Some v \<Rightarrow> validate_identifier field v)"

subsection \<open>Supersession references\<close>

text \<open>Iterating over \<open>data["supersedes"]\<close>: a list, the characters of a string, the keys of an object.\<close>

fun py_iter :: "json \<Rightarrow> exn + json list" where
  "py_iter (JList xs) = Inr xs"
| "py_iter (JStr s) = Inr (map (\<lambda>c. JStr [c]) s)"
| "py_iter (JObj kvs) = Inr (map (\<lambda>(k, v). JStr k) kvs)"
| "py_iter _ = Inl (TypeError ''object is not iterable'')"

fun hashable :: "json \<Rightarrow> bool" where
  "hashable (JList xs) = False"
| "hashable (JObj kvs) = False"
| "hashable _ = True"

text \<open>
  The loop that collapses duplicates. \<open>ref not in seen\<close> hashes the reference, so a list or an
  object among the references raises \<open>TypeError\<close>. Among the values that remain, two references
  are equal when they are the same value; \<open>True == 1\<close> makes no difference, since a reference
  that is not a string is refused by the next loop.
\<close>

fun collapse_refs :: "json list \<Rightarrow> json list \<Rightarrow> exn + json list" where
  "collapse_refs seen [] = Inr []"
| "collapse_refs seen (r # rs) =
     (if \<not> hashable r then Inl (TypeError ''unhashable type'')
      else if r \<in> set seen then collapse_refs seen rs
      else (case collapse_refs (r # seen) rs of Inl e \<Rightarrow> Inl e | Inr us \<Rightarrow> Inr (r # us)))"

definition bad_ref_msg :: "string \<Rightarrow> nat \<Rightarrow> string" where
  "bad_ref_msg r n =
     ''Supersession reference '' @ [CHR 0x27] @ r @ [CHR 0x27]
     @ '' is not a valid natural key: expected 3 colon-separated segments, got '' @ show_nat n"

fun check_refs :: "json list \<Rightarrow> exn + string list" where
  "check_refs [] = Inr []"
| "check_refs (JStr r # rs) =
     (let n = length (split_on CHR '':'' r)
      in if n \<noteq> 3 then Inl (SupersessionValidationError (bad_ref_msg r n) r)
         else (case check_refs rs of Inl e \<Rightarrow> Inl e | Inr us \<Rightarrow> Inr (r # us)))"
| "check_refs (_ # rs) = Inl (AttributeError ''object has no attribute split'')"

definition normalize_supersedes :: "json \<Rightarrow> exn + string list" where
  "normalize_supersedes v =
     (case py_iter v of
        Inl e \<Rightarrow> Inl e
      | Inr rs \<Rightarrow> (case collapse_refs [] rs of Inl e \<Rightarrow> Inl e | Inr us \<Rightarrow> check_refs us))"

definition self_supersession_msg :: "string \<Rightarrow> string" where
  "self_supersession_msg k =
     ''Payload cannot supersede itself: '' @ [CHR 0x27] @ k @ [CHR 0x27]
     @ '' appears in supersedes list''"

subsection \<open>Construction\<close>

text \<open>
  \<open>BasePayload.__init__(**data)\<close>. \<open>pyd c data\<close> is pydantic's \<open>BaseModel.__init__\<close>
  for class \<open>c\<close>: the validated instance, or the exception it raises.
\<close>

type_synonym pydantic = "payload_class \<Rightarrow> (string \<times> json) list \<Rightarrow> exn + payload"

definition supersedes_arg :: "(string \<times> json) list \<Rightarrow> exn + (string \<times> json) list" where
  "supersedes_arg d =
     (case dict_get d ''supersedes'' of
        None \<Rightarrow> Inr d
      | Some v \<Rightarrow>
          if \<not> truthy v then Inr d
          else (case normalize_supersedes v of
                  Inl e \<Rightarrow> Inl e
                | Inr us \<Rightarrow> Inr (dict_set ''supersedes'' (JList (map JStr us)) d)))"

definition payload_init :: "pydantic \<Rightarrow> payload_class \<Rightarrow> (string \<times> json) list \<Rightarrow> exn + payload" where
  "payload_init pyd c d =
     (case check_key ''project'' d of
        Inl e \<Rightarrow> Inl e
      | Inr _ \<Rightarrow>
     (case check_key ''identifier'' d of
        Inl e \<Rightarrow> Inl e
      | Inr _ \<Rightarrow>
     (case supersedes_arg d of
        Inl e \<Rightarrow> Inl e
      | Inr d' \<Rightarrow>
     (case pyd c d' of
        Inl e \<Rightarrow> Inl e
      | Inr p \<Rightarrow>
          if natural_key p \<in> set (p_supersedes p)
          then Inl (SupersessionValidationError (self_supersession_msg (natural_key p)) (natural_key p))
          else Inr p))))"

subsection \<open>What the code relies on in pydantic\<close>

text \<open>
  The documented behaviour of \<open>BaseModel.__init__\<close> that the payload code uses: an instance of
  the class it was called on; a \<open>str\<close> field holds the string that was passed; a
  \<open>list[str]\<close> field holds the list that was passed, or its default \<open>[]\<close> when the
  key is absent; a refusal is a \<open>ValidationError\<close>. The last law says that the instance has no
  two fields of one name and, for a registered class, only JSON-serialisable fields without floats.
\<close>

locale pydantic_model =
  fixes pyd :: pydantic
  assumes pyd_class: "pyd c d = Inr p \<Longrightarrow> p_class p = c"
    and pyd_project: "pyd c d = Inr p \<Longrightarrow> dict_get d ''project'' = Some (JStr (p_project p))"
    and pyd_identifier: "pyd c d = Inr p \<Longrightarrow> dict_get d ''identifier'' = Some (JStr (p_identifier p))"
    and pyd_supersedes: "pyd c d = Inr p \<Longrightarrow>
      (dict_get d ''supersedes'' = None \<and> p_supersedes p = [])
      \<or> dict_get d ''supersedes'' = Some (JList (map JStr (p_supersedes p)))"
    and pyd_error: "pyd c d = Inl e \<Longrightarrow> \<exists>m. e = ValidationError m"
    and pyd_fields: "pyd c d = Inr p \<Longrightarrow> registered (payload_type c) \<Longrightarrow>
      distinct (map fst (model_dump p)) \<and> list_all (\<lambda>(k, v). json_ok v) (p_fields p)"

text \<open>A constructed payload: what every later step of the program may rely on.\<close>

definition payload_ok :: "payload \<Rightarrow> bool" where
  "payload_ok p \<longleftrightarrow>
     full_class ident_char (p_project p) \<and> full_class ident_char (p_identifier p)
     \<and> distinct (p_supersedes p)
     \<and> list_all (\<lambda>r. length (split_on CHR '':'' r) = 3) (p_supersedes p)
     \<and> natural_key p \<notin> set (p_supersedes p)"

lemma collapse_refs_keep_first:
  "collapse_refs seen rs = Inr us \<Longrightarrow> us = keep_first id seen rs"
  by (induction seen rs arbitrary: us rule: collapse_refs.induct)
    (auto split: if_splits sum.splits)

lemma check_refs_ok:
  "check_refs rs = Inr us \<Longrightarrow>
   rs = map JStr us \<and> list_all (\<lambda>r. length (split_on CHR '':'' r) = 3) us"
  by (induction rs arbitrary: us rule: check_refs.induct)
    (auto simp: Let_def split: if_splits sum.splits)

lemma normalize_supersedes_ok:
  assumes "normalize_supersedes v = Inr us"
  shows "distinct us" and "list_all (\<lambda>r. length (split_on CHR '':'' r) = 3) us"
proof -
  from assms obtain rs ks where col: "collapse_refs [] rs = Inr ks" and cr: "check_refs ks = Inr us"
    by (auto simp: normalize_supersedes_def split: sum.splits)
  have "distinct ks"
    using keep_first_distinct [of id "[]" rs] collapse_refs_keep_first [OF col] by simp
  moreover from cr have ks: "ks = map JStr us"
    and ok: "list_all (\<lambda>r. length (split_on CHR '':'' r) = 3) us"
    by (simp_all add: check_refs_ok)
  ultimately show "distinct us" by (simp add: distinct_map)
  show "list_all (\<lambda>r. length (split_on CHR '':'' r) = 3) us" by (rule ok)
qed

lemma supersedes_arg_get:
  "supersedes_arg d = Inr d' \<Longrightarrow> k \<noteq> ''supersedes'' \<Longrightarrow> dict_get d' k = dict_get d k"
  by (auto simp: supersedes_arg_def dict_simps split: option.splits if_splits sum.splits)

lemma supersedes_arg_cases:
  assumes "supersedes_arg d = Inr d'"
  obtains "dict_get d' ''supersedes'' = None"
  | v where "dict_get d' ''supersedes'' = Some v" and "\<not> truthy v"
  | us where "dict_get d' ''supersedes'' = Some (JList (map JStr us))" and "distinct us"
      and "list_all (\<lambda>r. length (split_on CHR '':'' r) = 3) us"
proof (cases "dict_get d ''supersedes''")
  case None
  with assms that(1) show ?thesis by (simp add: supersedes_arg_def)
next
  case (Some v)
  show ?thesis
  proof (cases "truthy v")
    case False
    with assms Some that(2) show ?thesis by (simp add: supersedes_arg_def)
  next
    case True
    with assms Some obtain us where "normalize_supersedes v = Inr us"
      and "d' = dict_set ''supersedes'' (JList (map JStr us)) d"
      by (auto simp: supersedes_arg_def split: sum.splits)
    then show ?thesis using that(3) by (simp add: dict_simps normalize_supersedes_ok)
  qed
qed

context pydantic_model
begin

lemma init_ok:
  assumes "payload_init pyd c d = Inr p"
  shows "payload_ok p" and "p_class p = c"
proof -
  from assms obtain d' where prj: "check_key ''project'' d = Inr ()"
    and ident: "check_key ''identifier'' d = Inr ()"
    and sup: "supersedes_arg d = Inr d'" and pyd: "pyd c d' = Inr p"
    and self: "natural_key p \<notin> set (p_supersedes p)"
    by (auto simp: payload_init_def split: sum.splits if_splits)
  show "p_class p = c" using pyd by (rule pyd_class)
  have "dict_get d ''project'' = Some (JStr (p_project p))"
    using pyd_project [OF pyd] supersedes_arg_get [OF sup] by simp
  with prj have 1: "full_class ident_char (p_project p)"
    by (simp add: check_key_def validate_identifier_ok)
  have "dict_get d ''identifier'' = Some (JStr (p_identifier p))"
    using pyd_identifier [OF pyd] supersedes_arg_get [OF sup] by simp
  with ident have 2: "full_class ident_char (p_identifier p)"
    by (simp add: check_key_def validate_identifier_ok)
  have map_JStr: "map JStr xs = map JStr ys \<longleftrightarrow> xs = ys" for xs ys
    by (rule inj_map_eq_map) (simp add: inj_on_def)
  have "distinct (p_supersedes p) \<and> list_all (\<lambda>r. length (split_on CHR '':'' r) = 3) (p_supersedes p)"
    by (cases rule: supersedes_arg_cases [OF sup]; use pyd_supersedes [OF pyd] in \<open>auto simp: map_JStr\<close>)
  with 1 2 self show "payload_ok p" by (simp add: payload_ok_def)
qed

end

subsection \<open>Natural keys\<close>

lemma ident_no_colon: "full_class ident_char s \<Longrightarrow> CHR '':'' \<notin> set s"
  unfolding full_class_def list_all_iff using ident_not_colon by blast

lemma split_make_key:
  assumes "CHR '':'' \<notin> set t" and "CHR '':'' \<notin> set prj" and "CHR '':'' \<notin> set ident"
  shows "split_on CHR '':'' (make_key t prj ident) = [t, prj, ident]"
proof -
  have "split_on CHR '':'' (prj @ CHR '':'' # ident) = [prj, ident]"
    using split_on_append_sep [OF assms(2), of ident] split_on_free [OF assms(3)] by simp
  then show ?thesis
    using split_on_append_sep [OF assms(1), of "prj @ CHR '':'' # ident"] by (simp add: make_key_def)
qed

lemma split_natural_key:
  "payload_ok p \<Longrightarrow>
   split_on CHR '':'' (natural_key p) = [payload_type (p_class p), p_project p, p_identifier p]"
  by (simp add: natural_key_def payload_ok_def split_make_key payload_type_no_colon ident_no_colon)

lemma payload_type_inj: "payload_type c = payload_type c' \<Longrightarrow> c = c'"
  by (cases c; cases c') simp_all

lemma natural_key_inj:
  assumes "payload_ok p" and "payload_ok q" and "natural_key p = natural_key q"
  shows "p_class p = p_class q \<and> p_project p = p_project q \<and> p_identifier p = p_identifier q"
  using split_natural_key [OF assms(1)] split_natural_key [OF assms(2)] assms(3)
  by (auto dest: payload_type_inj)

subsection \<open>Field declarations\<close>

text \<open>The field types of the models. \<open>TModel\<close> is an inline \<open>BaseModel\<close>.\<close>

datatype ftype =
    TStr | TInt | TFloat | TBool | TDatetime
  | TOpt ftype | TList ftype | TDict ftype
  | TModel "(string \<times> ftype \<times> json option) list"

type_synonym field_decl = "string \<times> ftype \<times> json option"

text \<open>A field with no default is required; \<open>str | None = None\<close> defaults to \<open>None\<close>.\<close>

abbreviation req :: "string \<Rightarrow> ftype \<Rightarrow> field_decl" where
  "req n t \<equiv> (n, t, None)"

abbreviation opt :: "string \<Rightarrow> ftype \<Rightarrow> field_decl" where
  "opt n t \<equiv> (n, TOpt t, Some JNull)"

definition base_fields :: "field_decl list" where
  "base_fields =
     [req ''project'' TStr, req ''identifier'' TStr,
      (''domain_tags'', TList TStr, Some (JList [])), req ''source_ref'' TStr,
      (''version'', TInt, Some (JInt 1)), (''supersedes'', TList TStr, Some (JList []))]"

definition assumption_disposition_fields :: "field_decl list" where
  "assumption_disposition_fields =
     [req ''assumption_id'' TStr, opt ''text'' TStr, req ''confidence'' TStr, req ''disposition'' TStr,
      opt ''edit_delta'' TStr, opt ''edit_delta_ref'' TStr, opt ''notes'' TStr]"

definition assertion_result_fields :: "field_decl list" where
  "assertion_result_fields =
     [req ''id'' TStr, req ''gate_id'' TStr, req ''status'' TStr, opt ''disposition'' TStr,
      opt ''evidence_ref'' TStr]"

text \<open>The classes of \<open>models.py\<close>.\<close>

definition adr_fields :: "field_decl list" where
  "adr_fields =
     [req ''decision'' TStr, req ''status'' TStr, opt ''title'' TStr, opt ''context'' TStr,
      opt ''consequences'' TStr, opt ''alternatives'' (TList TStr)]"

definition review_report_fields :: "field_decl list" where
  "review_report_fields = [req ''verdict'' TStr]"

definition build_outcome_fields :: "field_decl list" where
  "build_outcome_fields =
     [req ''status'' TStr, req ''duration_seconds'' TInt, opt ''task_id'' TStr, opt ''lessons'' TStr,
      opt ''approach'' TStr]"

definition pattern_fields :: "field_decl list" where
  "pattern_fields = [req ''pattern_name'' TStr, req ''category'' TStr]"

definition warning_fields :: "field_decl list" where
  "warning_fields = [req ''severity'' TStr, req ''message'' TStr]"

definition seed_module_fields :: "field_decl list" where
  "seed_module_fields = [req ''module_path'' TStr]"

definition document_fields :: "field_decl list" where
  "document_fields = [opt ''content'' TStr]"

text \<open>The classes of \<open>backward_edge.py\<close>.\<close>

definition planning_outcome_fields :: "field_decl list" where
  "planning_outcome_fields =
     [req ''correlation_id'' TStr, opt ''feat_id'' TStr, req ''originator'' TStr, req ''mode'' TStr,
      req ''terminal_state'' TStr, req ''assumption_count'' TInt,
      req ''assumptions'' (TList (TModel assumption_disposition_fields)),
      opt ''proposal_refs'' (TList TStr), opt ''spec_ref'' TStr, opt ''approval_cycles_used'' TInt,
      req ''started_at'' TDatetime, req ''duration_seconds'' TInt, opt ''trace_ref'' TStr]"

definition approval_decision_fields :: "field_decl list" where
  "approval_decision_fields =
     [opt ''correlation_id'' TStr, req ''gate_id'' TStr, req ''gate_kind'' TStr, opt ''approver'' TStr,
      req ''decision'' TStr, req ''latency_seconds'' TInt, opt ''cycle'' TInt, opt ''escalated_to'' TStr,
      opt ''task_id'' TStr, opt ''feat_id'' TStr, opt ''request_ref'' TStr]"

definition deploy_record_fields :: "field_decl list" where
  "deploy_record_fields =
     [req ''correlation_id'' TStr, opt ''feat_id'' TStr, opt ''task_id'' TStr, req ''deploy_run_id'' TStr,
      req ''env_id'' TStr, req ''status'' TStr, opt ''artifact_digest'' TStr,
      opt ''image_digests'' (TDict TStr), req ''deploy_record_ref'' TStr, opt ''deploy_profile_ref'' TStr,
      opt ''runbook_ref'' TStr, opt ''hosts'' (TList TStr), opt ''reservation_resource'' TStr,
      opt ''failed_step'' TStr, opt ''duration_seconds'' TInt]"

definition live_verdict_fields :: "field_decl list" where
  "live_verdict_fields =
     [req ''correlation_id'' TStr, opt ''feat_id'' TStr, opt ''task_id'' TStr, req ''run_id'' TStr,
      req ''env_id'' TStr, req ''verdict'' TStr, req ''gate_ids'' (TList TStr),
      req ''assertions'' (TList (TModel assertion_result_fields)), req ''evidence_index_ref'' TStr,
      opt ''app_url'' TStr, req ''attempt'' TInt, opt ''leak_sweep_findings'' TInt]"

definition grading_outcome_fields :: "field_decl list" where
  "grading_outcome_fields =
     [req ''suite_id'' TStr, req ''suite_frozen_sha'' TStr, req ''model_id'' TStr,
      req ''checkpoint_id'' TStr, opt ''dataset_sha'' TStr, opt ''adapter_ref'' TStr,
      opt ''gguf_digest'' TStr, opt ''llama_swap_entry'' TStr,
      req ''per_criterion_scores'' (TDict TFloat), req ''verdict'' TStr,
      req ''pre_registered_disposition_ref'' TStr, opt ''rollout_count'' TInt,
      (''voided'', TBool, Some (JBool False)), opt ''voided_reason'' TStr]"

definition spec_survival_fields :: "field_decl list" where
  "spec_survival_fields =
     [req ''spec_id'' TStr, req ''correlation_id'' TStr, req ''survival_state'' TStr, req ''spec_ref'' TStr,
      req ''planned_at'' TDatetime, opt ''build_status'' TStr, opt ''build_outcome_ref'' TStr,
      opt ''built_at'' TDatetime, opt ''acceptance_verdict'' TStr, opt ''live_verdict_ref'' TStr,
      opt ''accepted_at'' TDatetime, req ''edges_present'' (TList TStr)]"

fun class_fields :: "payload_class \<Rightarrow> field_decl list" where
  "class_fields ADRPayload = adr_fields"
| "class_fields ReviewReportPayload = review_report_fields"
| "class_fields BuildOutcomePayload = build_outcome_fields"
| "class_fields PatternPayload = pattern_fields"
| "class_fields WarningPayload = warning_fields"
| "class_fields SeedModulePayload = seed_module_fields"
| "class_fields DocumentPayload = document_fields"
| "class_fields PlanningOutcomePayload = planning_outcome_fields"
| "class_fields ApprovalDecisionPayload = approval_decision_fields"
| "class_fields DeployRecordPayload = deploy_record_fields"
| "class_fields LiveVerdictPayload = live_verdict_fields"
| "class_fields GradingOutcomePayload = grading_outcome_fields"
| "class_fields SpecSurvivalPayload = spec_survival_fields"

lemmas class_field_defs =
  adr_fields_def review_report_fields_def build_outcome_fields_def pattern_fields_def
  warning_fields_def seed_module_fields_def document_fields_def planning_outcome_fields_def
  approval_decision_fields_def deploy_record_fields_def live_verdict_fields_def
  grading_outcome_fields_def spec_survival_fields_def

subsection \<open>The model validators of the backward-edge types\<close>

definition get_field :: "payload \<Rightarrow> string \<Rightarrow> json" where
  "get_field p n = (case dict_get (p_fields p) n of Some v \<Rightarrow> v | None \<Rightarrow> JNull)"

text \<open>\<open>_ROLE_TAG_PATTERN.match\<close>: \<open>^role:[a-zA-Z0-9_-]+$\<close>.\<close>

definition tag_char :: "char \<Rightarrow> bool" where
  "tag_char c \<longleftrightarrow> ident_char c \<or> c = CHR ''-''"

definition role_tag_match :: "string \<Rightarrow> bool" where
  "role_tag_match t \<longleftrightarrow> prefix ''role:'' t \<and> match_class tag_char (drop 5 t)"

definition has_role_tag :: "string list \<Rightarrow> bool" where
  "has_role_tag tags \<longleftrightarrow> list_ex role_tag_match tags"

definition role_attributed :: "payload_class \<Rightarrow> bool" where
  "role_attributed c \<longleftrightarrow>
     c = PlanningOutcomePayload \<or> c = GradingOutcomePayload \<or> c = SpecSurvivalPayload"

definition require_role_tag :: "payload \<Rightarrow> exn + unit" where
  "require_role_tag p =
     (if \<not> has_role_tag (p_domain_tags p) then Inl (ValueError ''role tag required'') else Inr ())"

definition disposition_of :: "json \<Rightarrow> json" where
  "disposition_of a =
     (case a of JObj kvs \<Rightarrow> (case dict_get kvs ''disposition'' of Some v \<Rightarrow> v | None \<Rightarrow> JNull) | _ \<Rightarrow> JNull)"

definition assumptions_of :: "payload \<Rightarrow> json list" where
  "assumptions_of p = (case get_field p ''assumptions'' of JList xs \<Rightarrow> xs | _ \<Rightarrow> [])"

definition validate_assumptions :: "payload \<Rightarrow> exn + unit" where
  "validate_assumptions p =
     (if JInt (int (length (assumptions_of p))) \<noteq> get_field p ''assumption_count''
      then Inl (ValueError ''assumption_count must equal len(assumptions)'')
      else if list_ex (\<lambda>a. disposition_of a \<noteq> JStr ''accepted'') (assumptions_of p)
              \<and> \<not> truthy (get_field p ''trace_ref'')
      then Inl (ValueError ''trace_ref is required'')
      else Inr ())"

definition validate_gate :: "payload \<Rightarrow> exn + unit" where
  "validate_gate p =
     (let decision = get_field p ''decision'' in
      if \<not> (truthy (get_field p ''correlation_id'') \<or> truthy (get_field p ''feat_id'')
            \<or> truthy (get_field p ''task_id''))
      then Inl (ValueError ''join obligation'')
      else if decision \<in> {JStr ''approved'', JStr ''rejected'', JStr ''revise''}
              \<and> \<not> truthy (get_field p ''approver'')
      then Inl (ValueError ''approver is required'')
      else if decision \<in> {JStr ''timed_out'', JStr ''escalated''} \<and> get_field p ''approver'' \<noteq> JNull
      then Inl (ValueError ''approver MUST be None'')
      else if get_field p ''gate_kind'' = JStr ''planning_assumptions'' \<and> get_field p ''cycle'' = JNull
      then Inl (ValueError ''cycle is required'')
      else Inr ())"

text \<open>The validators pydantic runs on an instance of each class, parents first.\<close>

definition model_validators :: "payload \<Rightarrow> exn + unit" where
  "model_validators p =
     (let c = p_class p in
      if role_attributed c \<and> \<not> has_role_tag (p_domain_tags p) then require_role_tag p
      else if c = PlanningOutcomePayload then validate_assumptions p
      else if c = ApprovalDecisionPayload then validate_gate p
      else Inr ())"

locale pydantic_validating = pydantic_model +
  assumes pyd_validators: "pyd c d = Inr p \<Longrightarrow> model_validators p = Inr ()"
begin

lemma init_validated:
  assumes "payload_init pyd c d = Inr p"
  shows "model_validators p = Inr ()"
  using assms pyd_validators
  by (auto simp: payload_init_def split: sum.splits if_splits)

end

subsection \<open>Pydantic over the declared fields\<close>

text \<open>
  The instance of the contract that reads the declarations above: a value of the declared type is
  stored unchanged, an absent field takes its default, anything else is a
  \<open>ValidationError\<close>, and the model validators run last.
\<close>

fun accepts :: "ftype \<Rightarrow> json \<Rightarrow> bool" where
  "accepts TStr v = (case v of JStr s \<Rightarrow> True | _ \<Rightarrow> False)"
| "accepts TInt v = (case v of JInt i \<Rightarrow> True | _ \<Rightarrow> False)"
| "accepts TFloat v = (case v of JFloat l \<Rightarrow> True | JInt i \<Rightarrow> True | _ \<Rightarrow> False)"
| "accepts TBool v = (case v of JBool b \<Rightarrow> True | _ \<Rightarrow> False)"
| "accepts TDatetime v = (case v of JStr s \<Rightarrow> True | _ \<Rightarrow> False)"
| "accepts (TOpt t) v = (v = JNull \<or> accepts t v)"
| "accepts (TList t) v = (case v of JList xs \<Rightarrow> list_all (accepts t) xs | _ \<Rightarrow> False)"
| "accepts (TDict t) v =
     (case v of JObj kvs \<Rightarrow> distinct (map fst kvs) \<and> list_all (\<lambda>(k, x). accepts t x) kvs
      | _ \<Rightarrow> False)"
| "accepts (TModel fs) v =
     (case v of
        JObj kvs \<Rightarrow>
          list_all (\<lambda>(n, t, dflt). case dict_get kvs n of Some x \<Rightarrow> accepts t x | None \<Rightarrow> dflt \<noteq> None) fs
      | _ \<Rightarrow> False)"

fun read_fields :: "field_decl list \<Rightarrow> (string \<times> json) list \<Rightarrow> exn + (string \<times> json) list" where
  "read_fields [] d = Inr []"
| "read_fields ((n, t, dflt) # fs) d =
     (case (case dict_get d n of Some v \<Rightarrow> if accepts t v then Some v else None | None \<Rightarrow> dflt) of
        None \<Rightarrow> Inl (ValidationError n)
      | Some v \<Rightarrow> (case read_fields fs d of Inl e \<Rightarrow> Inl e | Inr kvs \<Rightarrow> Inr ((n, v) # kvs)))"

definition str_of :: "json \<Rightarrow> string" where
  "str_of v = (case v of JStr s \<Rightarrow> s | _ \<Rightarrow> [])"

definition strs_of :: "json \<Rightarrow> string list" where
  "strs_of v = (case v of JList xs \<Rightarrow> map str_of xs | _ \<Rightarrow> [])"

definition int_of :: "json \<Rightarrow> int" where
  "int_of v = (case v of JInt i \<Rightarrow> i | _ \<Rightarrow> 0)"

definition schema_init :: pydantic where
  "schema_init c d =
     (case read_fields base_fields d of
        Inl e \<Rightarrow> Inl e
      | Inr b \<Rightarrow>
     (case read_fields (class_fields c) d of
        Inl e \<Rightarrow> Inl e
      | Inr fs \<Rightarrow>
          (let g = (\<lambda>n. case dict_get b n of Some v \<Rightarrow> v | None \<Rightarrow> JNull);
               p = \<lparr>p_class = c, p_project = str_of (g ''project''),
                    p_identifier = str_of (g ''identifier''),
                    p_domain_tags = strs_of (g ''domain_tags''),
                    p_source_ref = str_of (g ''source_ref''), p_version = int_of (g ''version''),
                    p_supersedes = strs_of (g ''supersedes''), p_fields = fs\<rparr>
           in (case model_validators p of
                 Inl e \<Rightarrow> Inl (ValidationError (exn_str e))
               | Inr _ \<Rightarrow> Inr p))))"

lemma read_fields_keys: "read_fields fs d = Inr kvs \<Longrightarrow> map fst kvs = map fst fs"
  by (induction fs arbitrary: kvs) (auto split: option.splits sum.splits)

lemma read_fields_error: "read_fields fs d = Inl e \<Longrightarrow> \<exists>m. e = ValidationError m"
  by (induction fs) (auto split: option.splits sum.splits)

lemma read_fields_get:
  "read_fields fs d = Inr kvs \<Longrightarrow> distinct (map fst fs) \<Longrightarrow> (n, t, dflt) \<in> set fs \<Longrightarrow>
   \<exists>v. dict_get kvs n = Some v \<and>
     ((dict_get d n = Some v \<and> accepts t v) \<or> (dict_get d n = None \<and> dflt = Some v))"
proof (induction fs arbitrary: kvs)
  case (Cons f fs)
  obtain m u df where f: "f = (m, u, df)" by (cases f) auto
  from Cons.prems(1) f obtain v rest where kvs: "kvs = (m, v) # rest"
    and rest: "read_fields fs d = Inr rest"
    and v: "(dict_get d m = Some v \<and> accepts u v) \<or> (dict_get d m = None \<and> df = Some v)"
    by (auto split: option.splits sum.splits if_splits)
  show ?case
  proof (cases "(n, t, dflt) = f")
    case True
    with f kvs v show ?thesis by auto
  next
    case False
    with Cons.prems(3) have mem: "(n, t, dflt) \<in> set fs" by simp
    then have "n \<in> set (map fst fs)" by force
    with Cons.prems(2) f have "n \<noteq> m" by auto
    with Cons.IH [OF rest _ mem] Cons.prems(2) kvs show ?thesis by simp
  qed
qed simp

lemma accepts_TStr: "accepts TStr v \<longleftrightarrow> (\<exists>s. v = JStr s)"
  by (cases v) auto

lemma accepts_TList_TStr: "accepts (TList TStr) v \<Longrightarrow> v = JList (map JStr (strs_of v))"
  by (cases v) (auto simp: strs_of_def str_of_def list_all_iff accepts_TStr
      intro!: nth_equalityI split: json.splits dest: nth_mem)

text \<open>Field types whose values are free of floats and of objects.\<close>

fun plain_type :: "ftype \<Rightarrow> bool" where
  "plain_type TStr = True"
| "plain_type TInt = True"
| "plain_type (TOpt t) = plain_type t"
| "plain_type (TList t) = plain_type t"
| "plain_type _ = False"

lemma plain_type_json_ok: "plain_type t \<Longrightarrow> accepts t v \<Longrightarrow> json_ok v"
proof (induction t arbitrary: v)
  case (TList t)
  then show ?case by (cases v) (auto simp: list_all_iff)
next
  case (TOpt t)
  then show ?case by (cases "v = JNull") auto
qed (auto split: json.splits)

lemma read_fields_json_ok:
  "read_fields fs d = Inr kvs \<Longrightarrow>
   list_all (\<lambda>(n, t, dflt). plain_type t \<and> (case dflt of None \<Rightarrow> True | Some v \<Rightarrow> json_ok v)) fs \<Longrightarrow>
   list_all (\<lambda>(k, v). json_ok v) kvs"
proof (induction fs arbitrary: kvs)
  case (Cons f fs)
  obtain n t df where f: "f = (n, t, df)" by (cases f) auto
  from Cons.prems(1) f obtain v rest where kvs: "kvs = (n, v) # rest"
    and rest: "read_fields fs d = Inr rest" and v: "accepts t v \<or> df = Some v"
    by (auto split: option.splits sum.splits if_splits)
  from Cons.prems(2) f have "plain_type t" and "\<And>w. df = Some w \<Longrightarrow> json_ok w" by auto
  with v have "json_ok v" using plain_type_json_ok by blast
  with Cons.IH [OF rest] Cons.prems(2) kvs show ?case by simp
qed simp

lemma registered_fields_plain:
  "registered (payload_type c) \<Longrightarrow>
   list_all (\<lambda>(n, t, dflt). plain_type t \<and> (case dflt of None \<Rightarrow> True | Some v \<Rightarrow> json_ok v)) (class_fields c)"
  by (cases c) (simp_all add: payload_simps class_field_defs)

lemma registered_field_names:
  "registered (payload_type c) \<Longrightarrow>
   distinct (map fst (class_fields c)) \<and>
   set (map fst (class_fields c)) \<inter> {''project'', ''identifier'', ''domain_tags'', ''source_ref'',
     ''version'', ''supersedes'', ''natural_key''} = {}"
  by (cases c) (simp_all add: payload_simps class_field_defs)

lemma schema_init_Inr:
  assumes "schema_init c d = Inr p"
  obtains b where "read_fields base_fields d = Inr b"
    and "read_fields (class_fields c) d = Inr (p_fields p)"
    and "p_class p = c" and "p_project p = str_of (the (dict_get b ''project''))"
    and "p_identifier p = str_of (the (dict_get b ''identifier''))"
    and "p_supersedes p = strs_of (the (dict_get b ''supersedes''))"
    and "model_validators p = Inr ()"
proof -
  from assms obtain b where b: "read_fields base_fields d = Inr b"
    by (auto simp: schema_init_def split: sum.splits)
  have base: "distinct (map fst base_fields)" by (simp add: base_fields_def)
  have some: "\<exists>v. dict_get b n = Some v" if "(n, t, df) \<in> set base_fields" for n t df
    using read_fields_get [OF b base that] by blast
  have "\<exists>v. dict_get b ''project'' = Some v" "\<exists>v. dict_get b ''identifier'' = Some v"
    "\<exists>v. dict_get b ''supersedes'' = Some v"
    by (rule some; simp add: base_fields_def)+
  with assms b show ?thesis
    by (intro that [of b]) (auto simp: schema_init_def Let_def split: sum.splits)
qed

text \<open>Evaluation of a construction, step by step.\<close>

lemma schema_initI:
  assumes "read_fields base_fields d = Inr b" and "read_fields (class_fields c) d = Inr fs"
    and "p = \<lparr>p_class = c, p_project = str_of (the (dict_get b ''project'')),
      p_identifier = str_of (the (dict_get b ''identifier'')),
      p_domain_tags = strs_of (the (dict_get b ''domain_tags'')),
      p_source_ref = str_of (the (dict_get b ''source_ref'')),
      p_version = int_of (the (dict_get b ''version'')),
      p_supersedes = strs_of (the (dict_get b ''supersedes'')), p_fields = fs\<rparr>"
    and "model_validators p = Inr ()"
  shows "schema_init c d = Inr p"
proof -
  have base: "distinct (map fst base_fields)" by (simp add: base_fields_def)
  have some: "\<exists>v. dict_get b n = Some v" if "(n, t, df) \<in> set base_fields" for n t df
    using read_fields_get [OF assms(1) base that] by blast
  have "\<exists>v. dict_get b ''project'' = Some v" "\<exists>v. dict_get b ''identifier'' = Some v"
    "\<exists>v. dict_get b ''domain_tags'' = Some v" "\<exists>v. dict_get b ''source_ref'' = Some v"
    "\<exists>v. dict_get b ''version'' = Some v" "\<exists>v. dict_get b ''supersedes'' = Some v"
    by (rule some; simp add: base_fields_def)+
  then have "(\<lambda>n. case dict_get b n of Some v \<Rightarrow> v | None \<Rightarrow> JNull) n = the (dict_get b n)"
    if "n \<in> {''project'', ''identifier'', ''domain_tags'', ''source_ref'', ''version'', ''supersedes''}" for n
    using that by auto
  then have g: "(case dict_get b n of None \<Rightarrow> JNull | Some v \<Rightarrow> v) = the (dict_get b n)"
    if "n \<in> {''project'', ''identifier'', ''domain_tags'', ''source_ref'', ''version'', ''supersedes''}" for n
    using that by blast
  show ?thesis
    unfolding schema_init_def assms(1) assms(2) Let_def sum.case
    using assms(3,4) by (simp only: g insert_iff empty_iff simp_thms sum.case)
qed

lemma payload_initI:
  assumes "check_key ''project'' d = Inr ()" and "check_key ''identifier'' d = Inr ()"
    and "supersedes_arg d = Inr d'" and "pyd c d' = Inr p" and "natural_key p \<notin> set (p_supersedes p)"
  shows "payload_init pyd c d = Inr p"
  using assms by (simp add: payload_init_def)

lemma schema_init_base:
  assumes "read_fields base_fields d = Inr b"
  shows "dict_get d ''project'' = Some (JStr (str_of (the (dict_get b ''project''))))"
    and "dict_get d ''identifier'' = Some (JStr (str_of (the (dict_get b ''identifier''))))"
    and "(dict_get d ''supersedes'' = None \<and> strs_of (the (dict_get b ''supersedes'')) = [])
      \<or> dict_get d ''supersedes'' = Some (JList (map JStr (strs_of (the (dict_get b ''supersedes'')))))"
proof -
  have base: "distinct (map fst base_fields)" by (simp add: base_fields_def)
  note get = read_fields_get [OF assms base]
  obtain v where "dict_get b ''project'' = Some v" "dict_get d ''project'' = Some v" "accepts TStr v"
    using get [of "''project''" TStr None] by (auto simp: base_fields_def)
  then show "dict_get d ''project'' = Some (JStr (str_of (the (dict_get b ''project''))))"
    by (auto simp: accepts_TStr str_of_def simp del: accepts.simps)
  obtain w where "dict_get b ''identifier'' = Some w" "dict_get d ''identifier'' = Some w" "accepts TStr w"
    using get [of "''identifier''" TStr None] by (auto simp: base_fields_def)
  then show "dict_get d ''identifier'' = Some (JStr (str_of (the (dict_get b ''identifier''))))"
    by (auto simp: accepts_TStr str_of_def simp del: accepts.simps)
  obtain u where "dict_get b ''supersedes'' = Some u"
    and "(dict_get d ''supersedes'' = Some u \<and> accepts (TList TStr) u)
      \<or> (dict_get d ''supersedes'' = None \<and> u = JList [])"
    using get [of "''supersedes''" "TList TStr" "Some (JList [])"] by (auto simp: base_fields_def)
  then show "(dict_get d ''supersedes'' = None \<and> strs_of (the (dict_get b ''supersedes'')) = [])
      \<or> dict_get d ''supersedes'' = Some (JList (map JStr (strs_of (the (dict_get b ''supersedes'')))))"
    using accepts_TList_TStr [of u] by (auto simp: strs_of_def simp del: accepts.simps)
qed

interpretation schema: pydantic_validating schema_init
proof unfold_locales
  fix c d p
  assume init: "schema_init c d = Inr p"
  then obtain b where b: "read_fields base_fields d = Inr b"
    and fs: "read_fields (class_fields c) d = Inr (p_fields p)"
    and eqs: "p_class p = c" "p_project p = str_of (the (dict_get b ''project''))"
      "p_identifier p = str_of (the (dict_get b ''identifier''))"
      "p_supersedes p = strs_of (the (dict_get b ''supersedes''))"
    and val: "model_validators p = Inr ()"
    by (rule schema_init_Inr)
  note base = schema_init_base [OF b]
  show "p_class p = c" by (rule eqs)
  show "dict_get d ''project'' = Some (JStr (p_project p))" using base(1) eqs by simp
  show "dict_get d ''identifier'' = Some (JStr (p_identifier p))" using base(2) eqs by simp
  show "(dict_get d ''supersedes'' = None \<and> p_supersedes p = [])
      \<or> dict_get d ''supersedes'' = Some (JList (map JStr (p_supersedes p)))"
    using base(3) eqs by simp
  show "model_validators p = Inr ()" by (rule val)
  assume reg: "registered (payload_type c)"
  have "map fst (p_fields p) = map fst (class_fields c)" using fs by (rule read_fields_keys)
  then show "distinct (map fst (model_dump p)) \<and> list_all (\<lambda>(k, v). json_ok v) (p_fields p)"
    using registered_field_names [OF reg] read_fields_json_ok [OF fs registered_fields_plain [OF reg]]
    by (auto simp: model_dump_def)
next
  fix c d e
  assume "schema_init c d = Inl e"
  then show "\<exists>m. e = ValidationError m"
    by (auto simp: schema_init_def Let_def dest: read_fields_error split: sum.splits)
qed

subsection \<open>Normalisation of raw ids (\<open>norm.py\<close>)\<close>

definition norm :: "string \<Rightarrow> string" where
  "norm source_id = map (\<lambda>c. if ident_char c then c else CHR ''_'') source_id"

definition norm_project :: "string \<Rightarrow> string" where
  "norm_project project_id = lower (norm project_id)"

text \<open>
  \<open>sha\<close> is \<open>hashlib.sha256(text.encode("utf-8")).hexdigest()\<close>: a parameter, so that every
  result that needs no collisions says so.
\<close>

definition composite_hash :: "(string \<Rightarrow> string) \<Rightarrow> string list \<Rightarrow> string" where
  "composite_hash sha raw_parts = take 12 (sha (join [CHR 0x1F] raw_parts))"

definition composite_identifier :: "(string \<Rightarrow> string) \<Rightarrow> string \<Rightarrow> string list \<Rightarrow> string" where
  "composite_identifier sha primary_id raw_parts =
     norm primary_id @ ''_'' @ composite_hash sha (primary_id # raw_parts)"

lemma norm_ident: "list_all ident_char (norm s)"
  by (auto simp: norm_def list_all_iff ident_char_def)

lemma norm_id: "list_all ident_char s \<Longrightarrow> norm s = s"
  by (simp add: norm_def list_all_iff map_idI)

lemma lower_ident: "ident_char c \<Longrightarrow> ns_char (lower_char c)"
proof (cases "is_upper c")
  case True
  then have "of_char c + 32 < (256::nat)" by (simp add: is_upper_def in_range_def)
  with True show ?thesis
    by (auto simp: lower_char_def ns_char_def is_lower_def is_upper_def in_range_def)
next
  case False
  assume "ident_char c"
  with False have "ns_char c" by (auto simp: ident_char_def ns_char_def)
  then show ?thesis by simp
qed

lemma norm_project_ns: "list_all ns_char (norm_project s)"
  using norm_ident [of s] by (auto simp: norm_project_def lower_def list_all_iff intro: lower_ident)

subsection \<open>Properties\<close>

text \<open>
  C40: The type invariant of payloads: whatever keyword arguments are passed, a payload that
  \<open>BasePayload.__init__\<close> returns has a project and an identifier of the identifier alphabet, a
  duplicate-free list of three-segment supersession references, and never its own key among them.
\<close>

theorem payload_init_type:
  assumes "pydantic_model pyd" and "payload_init pyd c d = Inr p"
  shows "payload_ok p \<and> p_class p = c"
  using pydantic_model.init_ok [OF assms] by simp

definition sample_adr_data :: "(string \<times> json) list" where
  "sample_adr_data =
     [(''project'', JStr ''guardkit''), (''identifier'', JStr ''ADR_2''), (''source_ref'', JStr ''docs/adr''),
      (''supersedes'', JList [JStr ''adr:guardkit:ADR_1'', JStr ''adr:guardkit:ADR_1'']),
      (''decision'', JStr ''use it''), (''status'', JStr ''accepted'')]"

definition sample_adr :: payload where
  "sample_adr =
     \<lparr>p_class = ADRPayload, p_project = ''guardkit'', p_identifier = ''ADR_2'', p_domain_tags = [],
      p_source_ref = ''docs/adr'', p_version = 1, p_supersedes = [''adr:guardkit:ADR_1''],
      p_fields = [(''decision'', JStr ''use it''), (''status'', JStr ''accepted''), (''title'', JNull),
        (''context'', JNull), (''consequences'', JNull), (''alternatives'', JNull)]\<rparr>"

definition sample_adr_collapsed :: "(string \<times> json) list" where
  "sample_adr_collapsed = dict_set ''supersedes'' (JList [JStr ''adr:guardkit:ADR_1'']) sample_adr_data"

lemma sample_adr_schema: "schema_init ADRPayload sample_adr_collapsed = Inr sample_adr"
proof (rule schema_initI)
  show "read_fields base_fields sample_adr_collapsed =
      Inr [(''project'', JStr ''guardkit''), (''identifier'', JStr ''ADR_2''), (''domain_tags'', JList []),
        (''source_ref'', JStr ''docs/adr''), (''version'', JInt 1),
        (''supersedes'', JList [JStr ''adr:guardkit:ADR_1''])]"
    by (simp add: base_fields_def sample_adr_collapsed_def sample_adr_data_def dict_set_def)
  show "read_fields (class_fields ADRPayload) sample_adr_collapsed = Inr (p_fields sample_adr)"
    by (simp add: adr_fields_def sample_adr_collapsed_def sample_adr_data_def sample_adr_def dict_set_def)
qed (simp_all add: sample_adr_def strs_of_def str_of_def int_of_def model_validators_def role_attributed_def)

lemma sample_adr_init: "payload_init schema_init ADRPayload sample_adr_data = Inr sample_adr"
proof (rule payload_initI)
  show "check_key ''project'' sample_adr_data = Inr ()" "check_key ''identifier'' sample_adr_data = Inr ()"
    by (simp_all add: sample_adr_data_def check_key_def validate_identifier_def full_class_def char_class_defs)
  show "supersedes_arg sample_adr_data = Inr sample_adr_collapsed"
    by (simp add: sample_adr_data_def sample_adr_collapsed_def supersedes_arg_def normalize_supersedes_def)
  show "natural_key sample_adr \<notin> set (p_supersedes sample_adr)"
    by (simp add: sample_adr_def natural_key_def make_key_def)
qed (rule sample_adr_schema)

theorem payload_init_type_witness:
  "payload_init schema_init ADRPayload sample_adr_data = Inr sample_adr \<and> payload_ok sample_adr"
  using payload_init_type [OF schema.pydantic_model_axioms sample_adr_init] sample_adr_init by simp

text \<open>
  Natural keys identify records: splitting a payload's key at the colons gives back its type,
  project and identifier, and two constructed payloads with one key agree on all three.
\<close>

theorem natural_key_identifies:
  assumes "payload_ok p" and "payload_ok q"
  shows "split_on CHR '':'' (natural_key p) = [payload_type (p_class p), p_project p, p_identifier p] \<and>
    (natural_key p = natural_key q \<longleftrightarrow>
      p_class p = p_class q \<and> p_project p = p_project q \<and> p_identifier p = p_identifier q)"
proof (intro conjI iffI)
  show "split_on CHR '':'' (natural_key p) = [payload_type (p_class p), p_project p, p_identifier p]"
    by (rule split_natural_key [OF assms(1)])
next
  assume "natural_key p = natural_key q"
  note inj = natural_key_inj [OF assms this]
  show "p_class p = p_class q" "p_project p = p_project q" "p_identifier p = p_identifier q"
    using inj by simp_all
next
  assume "p_class p = p_class q \<and> p_project p = p_project q \<and> p_identifier p = p_identifier q"
  then show "natural_key p = natural_key q" by (simp only: natural_key_def)
qed

lemma sample_adr_ok: "payload_ok sample_adr"
  using schema.init_ok(1) [OF sample_adr_init] .

theorem natural_key_identifies_witness:
  "payload_ok sample_adr \<and>
   split_on CHR '':'' (natural_key sample_adr) = [''adr'', ''guardkit'', ''ADR_2'']"
  using natural_key_identifies [OF sample_adr_ok sample_adr_ok] sample_adr_ok
  by (simp add: sample_adr_def)

text \<open>
  The registry is a bijection between the seven registered type names and their classes, its
  two lookups are inverse to each other, and every other name, among them the six backward-edge
  types that have no producer yet, is refused with \<open>UnknownPayloadTypeError\<close>.
\<close>

theorem registry_bijective:
  "(get_model_for_type t = Inr c \<longleftrightarrow> get_type_for_model c = Inr t) \<and>
   (get_model_for_type t = Inr c \<longleftrightarrow> registered t \<and> payload_type c = t) \<and>
   (registered t \<or> get_model_for_type t = Inl (UnknownPayloadTypeError (JStr t))) \<and>
   \<not> list_ex registered (map fst BACKWARD_EDGE_PAYLOADS)"
proof -
  have 1: "get_model_for_type t = Inr c \<longleftrightarrow> registered t \<and> payload_type c = t"
  proof
    assume "registered t \<and> payload_type c = t"
    then show "get_model_for_type t = Inr c"
      by (cases c) (auto simp: get_model_for_type_def PAYLOAD_REGISTRY_def payload_simps)
  qed (auto dest: get_model_Inr)
  have 2: "get_type_for_model c = Inr t \<longleftrightarrow> registered t \<and> payload_type c = t"
    by (cases c) (auto simp: get_type_for_model_def MODEL_TO_TYPE_def PAYLOAD_REGISTRY_def payload_simps)
  show ?thesis using 1 2 get_model_Inl [of t]
    by (auto simp: BACKWARD_EDGE_PAYLOADS_def payload_simps)
qed

text \<open>
  Every approval decision that is constructed names a work item, names its approver exactly
  when a human decided, and carries its cycle when the gate is cyclic.
\<close>

theorem approval_decision_rules:
  assumes "pydantic_validating pyd" and "payload_init pyd ApprovalDecisionPayload d = Inr p"
  shows "(truthy (get_field p ''correlation_id'') \<or> truthy (get_field p ''feat_id'')
      \<or> truthy (get_field p ''task_id'')) \<and>
    (get_field p ''decision'' \<in> {JStr ''approved'', JStr ''rejected'', JStr ''revise''}
      \<longrightarrow> truthy (get_field p ''approver'')) \<and>
    (get_field p ''decision'' \<in> {JStr ''timed_out'', JStr ''escalated''}
      \<longrightarrow> get_field p ''approver'' = JNull) \<and>
    (get_field p ''gate_kind'' = JStr ''planning_assumptions'' \<longrightarrow> get_field p ''cycle'' \<noteq> JNull)"
proof -
  have "model_validators p = Inr ()"
    using pydantic_validating.init_validated [OF assms] .
  moreover have "p_class p = ApprovalDecisionPayload"
    using pydantic_model.init_ok(2) [OF pydantic_validating.axioms(1) [OF assms(1)] assms(2)] .
  ultimately have "validate_gate p = Inr ()"
    by (simp add: model_validators_def role_attributed_def)
  then show ?thesis
    unfolding validate_gate_def Let_def by (auto split: if_splits)
qed

definition sample_gate_data :: "(string \<times> json) list" where
  "sample_gate_data =
     [(''project'', JStr ''forge''), (''identifier'', JStr ''G_1''), (''source_ref'', JStr ''s''),
      (''gate_id'', JStr ''g''), (''gate_kind'', JStr ''merge_review''), (''decision'', JStr ''approved''),
      (''approver'', JStr ''U1''), (''latency_seconds'', JInt 5), (''task_id'', JStr ''T'')]"

definition sample_gate :: payload where
  "sample_gate =
     \<lparr>p_class = ApprovalDecisionPayload, p_project = ''forge'', p_identifier = ''G_1'', p_domain_tags = [],
      p_source_ref = ''s'', p_version = 1, p_supersedes = [],
      p_fields = [(''correlation_id'', JNull), (''gate_id'', JStr ''g''), (''gate_kind'', JStr ''merge_review''),
        (''approver'', JStr ''U1''), (''decision'', JStr ''approved''), (''latency_seconds'', JInt 5),
        (''cycle'', JNull), (''escalated_to'', JNull), (''task_id'', JStr ''T''), (''feat_id'', JNull),
        (''request_ref'', JNull)]\<rparr>"

lemma sample_gate_init: "payload_init schema_init ApprovalDecisionPayload sample_gate_data = Inr sample_gate"
proof (rule payload_initI)
  show "check_key ''project'' sample_gate_data = Inr ()" "check_key ''identifier'' sample_gate_data = Inr ()"
    by (simp_all add: sample_gate_data_def check_key_def validate_identifier_def full_class_def char_class_defs)
  show "supersedes_arg sample_gate_data = Inr sample_gate_data"
    by (simp add: sample_gate_data_def supersedes_arg_def)
  show "schema_init ApprovalDecisionPayload sample_gate_data = Inr sample_gate"
  proof (rule schema_initI)
    show "read_fields base_fields sample_gate_data =
        Inr [(''project'', JStr ''forge''), (''identifier'', JStr ''G_1''), (''domain_tags'', JList []),
          (''source_ref'', JStr ''s''), (''version'', JInt 1), (''supersedes'', JList [])]"
      by (simp add: base_fields_def sample_gate_data_def)
    show "read_fields (class_fields ApprovalDecisionPayload) sample_gate_data = Inr (p_fields sample_gate)"
      by (simp add: approval_decision_fields_def sample_gate_data_def sample_gate_def)
  qed (simp_all add: sample_gate_def strs_of_def str_of_def int_of_def model_validators_def
      role_attributed_def validate_gate_def get_field_def)
qed (simp add: sample_gate_def)

theorem approval_decision_rules_witness:
  "payload_init schema_init ApprovalDecisionPayload sample_gate_data = Inr sample_gate \<and>
   truthy (get_field sample_gate ''approver'')"
  using approval_decision_rules [OF schema.pydantic_validating_axioms sample_gate_init] sample_gate_init
  by (simp add: sample_gate_def get_field_def)

text \<open>
  \<open>norm\<close> maps every raw id into the identifier alphabet, leaves an id that is already in it
  alone (so normalising twice is normalising once, and a retried publish meets its first key), and
  \<open>norm_project\<close> always yields a name the search side accepts.
\<close>

theorem norm_canonical:
  "list_all ident_char (norm s) \<and> norm (norm s) = norm s \<and> length (norm s) = length s \<and>
   list_all ns_char (norm_project s) \<and> norm_project (norm_project s) = norm_project s"
proof -
  have "norm (norm_project s) = norm_project s"
    using norm_project_ns [of s] ns_char_ident by (intro norm_id) (auto simp: list_all_iff)
  moreover have "lower (norm_project s) = norm_project s"
    using norm_project_ns [of s] by (auto simp: lower_def list_all_iff intro: map_idI)
  ultimately have "norm_project (norm_project s) = norm_project s"
    by (simp add: norm_project_def)
  then show ?thesis
    by (simp add: norm_ident norm_id norm_project_ns) (simp add: norm_def)
qed

text \<open>
  The disambiguating hash separates composite ids at their part boundaries: when the 12 digits
  do not collide on the two joined texts and no raw id contains the unit separator, equal composite
  identifiers come from the same list of raw ids.
\<close>

theorem composite_identifier_injective:
  assumes "composite_identifier sha a as = composite_identifier sha b bs"
    and "length (composite_hash sha (a # as)) = 12" and "length (composite_hash sha (b # bs)) = 12"
    and "composite_hash sha (a # as) = composite_hash sha (b # bs) \<longrightarrow>
      join [CHR 0x1F] (a # as) = join [CHR 0x1F] (b # bs)"
    and "\<forall>x \<in> set (a # as @ b # bs). CHR 0x1F \<notin> set x"
  shows "a = b \<and> as = bs"
proof -
  have "composite_hash sha (a # as) = composite_hash sha (b # bs)"
    using assms(1-3) by (simp add: composite_identifier_def)
  with assms(4) have eq: "join [CHR 0x1F] (a # as) = join [CHR 0x1F] (b # bs)" by blast
  have 1: "split_on CHR 0x1F (join [CHR 0x1F] (a # as)) = a # as"
    using assms(5) by (intro split_join) auto
  have 2: "split_on CHR 0x1F (join [CHR 0x1F] (b # bs)) = b # bs"
    using assms(5) by (intro split_join) auto
  have "a # as = b # bs"
    using 1 2 unfolding eq by (rule trans [OF sym])
  then show ?thesis by simp
qed

definition sample_sha :: "string \<Rightarrow> string" where
  "sample_sha s = s @ replicate 12 CHR ''0''"

theorem composite_identifier_injective_witness:
  "length (composite_hash sample_sha [''po'', ''x'']) = 12 \<and>
   ''po'' = ''po'' \<and> [''x''] = [''x'']"
proof -
  have h: "composite_hash sample_sha [''po'', ''x''] = ''po'' @ [CHR 0x1F] @ ''x00000000''"
    by (simp add: composite_hash_def sample_sha_def eval_nat_numeral)
  then have len: "length (composite_hash sample_sha [''po'', ''x'']) = 12" by simp
  have "''po'' = ''po'' \<and> [''x''] = [''x'']"
  proof (rule composite_identifier_injective [where sha = sample_sha])
    show "\<forall>x \<in> set (''po'' # [''x''] @ ''po'' # [''x'']). CHR 0x1F \<notin> set x" by simp
  qed (rule refl len impI)+
  with len show ?thesis by blast
qed

end
