(* ===== verification/Store_Api.thy ===== *)
theory Store_Api
  imports Complex_Main Payloads
begin

text \<open>
  The store the program writes to and searches (\<open>store.py\<close> and the calls of
  \<open>AsyncPostgresStore\<close>). The store itself is a package outside the repository, so its calls are
  the fields of a record that every operation takes as an argument; the locale \<open>lawful_store\<close>
  states the documented behaviour the code relies on, and an in-memory store with the same prefix
  scoping and candidate window satisfies it. \<open>validate_namespace\<close> is the check every writer
  makes before it touches the store.
\<close>

subsection \<open>Namespaces\<close>

type_synonym namespace = "string list"

definition invalid_parts :: "namespace \<Rightarrow> string list" where
  "invalid_parts ns = filter (\<lambda>p. p = [] \<or> \<not> full_class ns_char p) ns"

definition validate_namespace :: "namespace \<Rightarrow> exn + unit" where
  "validate_namespace ns =
     (if invalid_parts ns = [] then Inr () else Inl (NamespaceValidationError ns (invalid_parts ns)))"

lemma validate_namespace_ok: "validate_namespace ns = Inr () \<longleftrightarrow> (\<forall>p \<in> set ns. full_class ns_char p)"
  by (auto simp: validate_namespace_def invalid_parts_def filter_empty_conv full_class_def)

lemma validate_namespace_err:
  "validate_namespace ns = Inl e \<Longrightarrow> \<exists>bad. bad \<noteq> [] \<and> e = NamespaceValidationError ns bad \<and> set bad \<subseteq> set ns"
  by (auto simp: validate_namespace_def invalid_parts_def split: if_splits)

lemma fleet_memory_ns: "full_class ns_char ''fleet_memory''"
  by (simp add: full_class_def char_class_defs)

definition lift_res :: "exn + 'a \<Rightarrow> ('s, 'a) comp" where
  "lift_res r = (case r of Inl e \<Rightarrow> throw e | Inr x \<Rightarrow> ret x)"

lemma lift_res_simps [simp]: "lift_res (Inl e) = throw e" "lift_res (Inr x) = ret x"
  by (simp_all add: lift_res_def)

lemma lift_res_Ok_iff: "lift_res r s = (Ok x, s') \<longleftrightarrow> r = Inr x \<and> s' = s"
  by (auto simp: lift_res_def ret_def throw_def split: sum.splits)

lemma keeps_lift_res [intro, simp]: "keeps (lift_res r) I"
  by (cases r) simp_all

subsection \<open>Stored values and search items\<close>

type_synonym stored = "string \<rightharpoonup> json"

record item =
  i_namespace :: namespace
  i_key :: string
  i_value :: stored
  i_score :: "real option"

record 's store_api =
  st_get :: "namespace \<Rightarrow> string \<Rightarrow> ('s, stored option) comp"
  st_put :: "namespace \<Rightarrow> string \<Rightarrow> stored \<Rightarrow> ('s, unit) comp"
  st_search :: "namespace \<Rightarrow> string option \<Rightarrow> (string \<times> json) list \<Rightarrow> nat \<Rightarrow> nat \<Rightarrow> ('s, item list) comp"

text \<open>
  A scalar metadata filter. Search scopes by a prefix of the dotted namespace
  (\<open>store.prefix LIKE 'fleet_memory.proj%'\<close>), where an underscore of the pattern matches any
  character; \<open>under\<close> is the part of it every record below the namespace satisfies.
\<close>

definition filter_matches :: "(string \<times> json) list \<Rightarrow> stored \<Rightarrow> bool" where
  "filter_matches f v \<longleftrightarrow> list_all (\<lambda>(k, x). v k = Some x) f"

definition under :: "namespace \<Rightarrow> namespace \<Rightarrow> bool" where
  "under ns ns' \<longleftrightarrow> take (length ns) ns' = ns"

lemma under_refl [simp]: "under ns ns" by (simp add: under_def)

definition store_window :: "(nat \<Rightarrow> nat) \<Rightarrow> string option \<Rightarrow> nat \<Rightarrow> 'a list \<Rightarrow> 'a list" where
  "store_window w q n xs = (if q = None then xs else take (w n) xs)"

subsection \<open>The contract of the store\<close>

text \<open>
  \<open>view\<close> is the store's contents, \<open>rank\<close> the full ranked list a search pages through. A read
  returns what is there and changes nothing. A write that returns has replaced the one record; a
  write that raises may or may not have been committed, but nothing else has changed. A search
  returns one page of the ranked list, which for a query is first cut to a candidate window larger
  than twice the limit. Without a query the ranked list holds exactly the records below the
  namespace that match the filter.
\<close>

locale lawful_store =
  fixes st :: "'s store_api"
    and view :: "'s \<Rightarrow> namespace \<Rightarrow> string \<Rightarrow> stored option"
    and rank :: "'s \<Rightarrow> namespace \<Rightarrow> string option \<Rightarrow> (string \<times> json) list \<Rightarrow> item list"
    and window :: "nat \<Rightarrow> nat"
  assumes get_frame: "view (snd (st_get st ns k s)) = view s"
    and get_rank: "rank (snd (st_get st ns k s)) = rank s"
    and get_ok: "fst (st_get st ns k s) = Ok r \<Longrightarrow> r = view s ns k"
    and put_ok: "fst (st_put st ns k x s) = Ok u \<Longrightarrow>
      view (snd (st_put st ns k x s)) = (view s)(ns := (view s ns)(k \<mapsto> x))"
    and put_any: "view (snd (st_put st ns k x s)) = view s \<or>
      view (snd (st_put st ns k x s)) = (view s)(ns := (view s ns)(k \<mapsto> x))"
    and search_frame: "view (snd (st_search st ns q f n m s)) = view s"
    and search_rank: "rank (snd (st_search st ns q f n m s)) = rank s"
    and search_ok: "fst (st_search st ns q f n m s) = Ok xs \<Longrightarrow>
      xs = take n (drop m (store_window window q n (rank s ns q f)))"
    and no_hang: "fst (st_get st ns k s) \<noteq> Stuck" "fst (st_put st ns k x s) \<noteq> Stuck"
      "fst (st_search st ns q f n m s) \<noteq> Stuck"
    and window_wide: "2 * n < window n"
    and rank_sound: "it \<in> set (rank s ns q f) \<Longrightarrow>
      view s (i_namespace it) (i_key it) = Some (i_value it) \<and> filter_matches f (i_value it)"
    and rank_complete: "view s ns' k = Some v \<Longrightarrow> under ns ns' \<Longrightarrow> filter_matches f v \<Longrightarrow>
      \<exists>it \<in> set (rank s ns None f). i_namespace it = ns' \<and> i_key it = k \<and> i_value it = v"
begin

lemma get_returns:
  "st_get st ns k s = (Ok v, s') \<Longrightarrow> v = view s ns k \<and> view s' = view s \<and> rank s' = rank s"
  using get_ok [of ns k s v] get_frame [of ns k s] get_rank [of ns k s] by simp

lemma put_returns:
  "st_put st ns k x s = (Ok u, s') \<Longrightarrow> view s' = (view s)(ns := (view s ns)(k \<mapsto> x))"
  using put_ok [of ns k x s u] by simp

lemma search_returns:
  "st_search st ns q f n m s = (Ok xs, s') \<Longrightarrow>
   xs = take n (drop m (store_window window q n (rank s ns q f))) \<and> view s' = view s \<and> rank s' = rank s"
  using search_ok [of ns q f n m s xs] search_frame [of ns q f n m s] search_rank [of ns q f n m s]
  by simp

text \<open>Reads keep every property of the contents; a write keeps one that the new record respects.\<close>

lemma keeps_get: "keeps (st_get st ns k) (\<lambda>s. P (view s))"
  by (simp add: keeps_def get_frame)

lemma keeps_search: "keeps (st_search st ns q f n m) (\<lambda>s. P (view s))"
  by (simp add: keeps_def search_frame)

lemma get_bind_inv:
  assumes "P (view s)" and "\<And>s1. view s1 = view s \<Longrightarrow> P (view (snd (h (view s ns k) s1)))"
  shows "P (view (snd (bind (st_get st ns k) h s)))"
  using assms get_frame [of ns k s] get_returns [of ns k s]
  by (auto simp: bind_def split: prod.splits res.splits)

lemma put_inv: "P (view s) \<Longrightarrow> P ((view s)(ns := (view s ns)(k \<mapsto> x))) \<Longrightarrow> P (view (snd (st_put st ns k x s)))"
  using put_any [of ns k x s] by auto

lemma keeps_put:
  "(\<And>V. P V \<Longrightarrow> P (V(ns := (V ns)(k \<mapsto> x)))) \<Longrightarrow> keeps (st_put st ns k x) (\<lambda>s. P (view s))"
  unfolding keeps_def using put_any by metis

end

subsection \<open>An in-memory store\<close>

text \<open>
  Records in insertion order; a write replaces in place. A search keeps the records whose dotted
  namespace begins with the asked one and which match the filter, scores them when there is a
  query (\<open>embed_score\<close> stands for the embedding index), best first, and serves a page of the
  candidate window \<open>2 n + 1\<close>.
\<close>

type_synonym mem_store = "((namespace \<times> string) \<times> stored) list"

fun like_prefix :: "string \<Rightarrow> string \<Rightarrow> bool" where
  "like_prefix [] s = True"
| "like_prefix (p # ps) [] = False"
| "like_prefix (p # ps) (c # cs) = ((p = CHR ''_'' \<or> p = c) \<and> like_prefix ps cs)"

definition mem_item :: "(string \<Rightarrow> stored \<Rightarrow> real) \<Rightarrow> string option \<Rightarrow> (namespace \<times> string) \<times> stored \<Rightarrow> item" where
  "mem_item score q r =
     \<lparr>i_namespace = fst (fst r), i_key = snd (fst r), i_value = snd r,
      i_score = map_option (\<lambda>t. score t (snd r)) q\<rparr>"

definition mem_rank ::
  "(string \<Rightarrow> stored \<Rightarrow> real) \<Rightarrow> mem_store \<Rightarrow> namespace \<Rightarrow> string option \<Rightarrow> (string \<times> json) list \<Rightarrow> item list" where
  "mem_rank score s ns q f =
     (let hits = filter (\<lambda>r. like_prefix (join ''.'' ns) (join ''.'' (fst (fst r))) \<and> filter_matches f (snd r)) (AList.clearjunk s)
      in sort_key (\<lambda>it. case i_score it of None \<Rightarrow> 0 | Some x \<Rightarrow> - x) (map (mem_item score q) hits))"

definition mem_view :: "mem_store \<Rightarrow> namespace \<Rightarrow> string \<Rightarrow> stored option" where
  "mem_view s ns k = map_of s (ns, k)"

definition mem_window :: "nat \<Rightarrow> nat" where
  "mem_window n = 2 * n + 1"

definition mem_api :: "(string \<Rightarrow> stored \<Rightarrow> real) \<Rightarrow> mem_store store_api" where
  "mem_api score =
     \<lparr>st_get = (\<lambda>ns k s. (Ok (mem_view s ns k), s)),
      st_put = (\<lambda>ns k x s. (Ok (), dict_set (ns, k) x s)),
      st_search = (\<lambda>ns q f n m s.
        (Ok (take n (drop m (store_window mem_window q n (mem_rank score s ns q f)))), s))\<rparr>"

lemma like_prefix_append: "like_prefix p (p @ s)"
  by (induction p) auto

lemma under_like: "under ns ns' \<Longrightarrow> like_prefix (join ''.'' ns) (join ''.'' ns')"
proof -
  assume u: "under ns ns'"
  then obtain r where r: "ns' = ns @ r" unfolding under_def by (metis append_take_drop_id)
  have "\<exists>t. join ''.'' (ns @ r) = join ''.'' ns @ t"
  proof (induction ns)
    case (Cons a ns)
    show ?case
    proof (cases ns)
      case Nil
      then show ?thesis by (cases r) (simp_all add: join_Cons)
    next
      case (Cons b bs)
      then show ?thesis using Cons.IH by (auto simp: join_Cons)
    qed
  qed simp
  then show ?thesis using r like_prefix_append by metis
qed

interpretation mem: lawful_store "mem_api score" mem_view "mem_rank score" mem_window
  for score
proof
  fix s :: mem_store and ns :: namespace and k :: string and x :: stored and q f it ns' v
  show "it \<in> set (mem_rank score s ns q f) \<Longrightarrow>
    mem_view s (i_namespace it) (i_key it) = Some (i_value it) \<and> filter_matches f (i_value it)"
    by (auto simp: mem_rank_def Let_def mem_item_def mem_view_def map_of_clearjunk
        dest!: map_of_is_SomeI [OF distinct_clearjunk])
  assume v: "mem_view s ns' k = Some v" "under ns ns'" "filter_matches f v"
  have "((ns', k), v) \<in> set (AList.clearjunk s)"
    using v(1) by (metis map_of_SomeD map_of_clearjunk mem_view_def)
  then show "\<exists>it \<in> set (mem_rank score s ns None f). i_namespace it = ns' \<and> i_key it = k \<and> i_value it = v"
    using v(2,3) under_like [of ns ns'] by (force simp: mem_rank_def Let_def mem_item_def)
qed (auto simp: mem_api_def mem_window_def mem_view_def dict_set_def update_conv' fun_eq_iff)

text \<open>The in-memory store never refuses a call.\<close>

lemma mem_api_total:
  "st_get (mem_api score) ns k s = (Ok (mem_view s ns k), s)"
  "st_put (mem_api score) ns k x s = (Ok (), dict_set (ns, k) x s)"
  "st_search (mem_api score) ns q f n m s =
     (Ok (take n (drop m (store_window mem_window q n (mem_rank score s ns q f)))), s)"
  by (simp_all add: mem_api_def)

end
