(* ===== verification/Writer.thy ===== *)
theory Writer
  imports Store_Api
begin

text \<open>
  The deterministic writer (\<open>writer/core.py\<close>, \<open>writer/identity.py\<close>,
  \<open>writer/supersession.py\<close>): record identity and content hash, the upsert that is a no-op for
  identical content and bumps the version otherwise, the marks of declared supersession in both
  directions, and batches. The operations run over any \<open>store_api\<close>; \<open>write_spec\<close> says what
  they do to the contents of a lawful store, and the lemmas show that they do it.
\<close>

subsection \<open>Identity and content hash\<close>

text \<open>
  The hash functions of the Python library and float addition are arguments. \<open>float_succ l\<close> is
  the literal of the float \<open>l\<close> plus one.
\<close>

record prims =
  uuid5 :: "string \<Rightarrow> string \<Rightarrow> string"
  sha256_hex :: "string \<Rightarrow> string"
  float_succ :: "string \<Rightarrow> string"

definition FLEET_MEMORY_NAMESPACE :: string where
  "FLEET_MEMORY_NAMESPACE = ''6ba7b810-9dad-11d1-80b4-00c04fd430c8''"

definition record_identity :: "prims \<Rightarrow> string \<Rightarrow> string" where
  "record_identity pr nk = uuid5 pr FLEET_MEMORY_NAMESPACE nk"

definition semantic_content :: "payload \<Rightarrow> (string \<times> json) list" where
  "semantic_content p = filter (\<lambda>(k, v). k \<noteq> ''version'') (model_dump p)"

definition content_hash :: "prims \<Rightarrow> payload \<Rightarrow> string" where
  "content_hash pr p = sha256_hex pr (dumps (JObj (semantic_content p)))"

definition payload_namespace :: "payload \<Rightarrow> namespace" where
  "payload_namespace p = [''fleet_memory'', p_project p, payload_type (p_class p)]"

definition payload_key :: "prims \<Rightarrow> payload \<Rightarrow> string" where
  "payload_key pr p = record_identity pr (natural_key p)"

subsection \<open>Declared supersession\<close>

definition py_get :: "stored \<Rightarrow> string \<Rightarrow> json" where
  "py_get v k = (case v k of None \<Rightarrow> JNull | Some x \<Rightarrow> x)"

text \<open>\<open>natural_key in supersedes_list\<close> for whatever value is stored there.\<close>

definition py_in :: "string \<Rightarrow> json \<Rightarrow> exn + bool" where
  "py_in s v =
     (case v of
        JList xs \<Rightarrow> Inr (JStr s \<in> set xs)
      | JStr t \<Rightarrow> Inr (sublist s t)
      | JObj kvs \<Rightarrow> Inr (s \<in> fst ` set kvs)
      | _ \<Rightarrow> Inl (TypeError ''argument is not iterable''))"

definition bad_key_msg :: "string \<Rightarrow> string" where
  "bad_key_msg k =
     ''Invalid natural key format '' @ [CHR 0x27] @ k @ [CHR 0x27] @ '': expected type:project:identifier''"

definition mark_predecessor :: "prims \<Rightarrow> 's store_api \<Rightarrow> string \<Rightarrow> string \<Rightarrow> ('s, unit) comp" where
  "mark_predecessor pr st successor predecessor =
     (case split_on CHR '':'' predecessor of
        [ptype, project, ident] \<Rightarrow>
          bind (st_get st [''fleet_memory'', project, ptype] (record_identity pr predecessor))
            (\<lambda>existing. case existing of
               None \<Rightarrow> ret ()
             | Some v \<Rightarrow> st_put st [''fleet_memory'', project, ptype] (record_identity pr predecessor)
                 (v(''superseded_by'' \<mapsto> JStr successor)))
      | _ \<Rightarrow> throw (ValueError (bad_key_msg predecessor)))"

definition apply_supersessions :: "prims \<Rightarrow> 's store_api \<Rightarrow> string \<Rightarrow> string list \<Rightarrow> ('s, unit) comp" where
  "apply_supersessions pr st successor predecessors =
     for_each (mark_predecessor pr st successor) predecessors"

definition FORWARD_PAGE :: nat where
  "FORWARD_PAGE = 100"

fun scan_page :: "string \<Rightarrow> item list \<Rightarrow> exn + json option" where
  "scan_page nk [] = Inr None"
| "scan_page nk (it # its) =
     (case i_value it ''supersedes'' of
        None \<Rightarrow> scan_page nk its
      | Some l \<Rightarrow>
          (case py_in nk l of
             Inl e \<Rightarrow> Inl e
           | Inr found \<Rightarrow> if found then Inr (Some (py_get (i_value it) ''natural_key''))
                         else scan_page nk its))"

text \<open>The \<open>while True\<close> loop over pages, with fuel for the number of pages read.\<close>

fun forward_scan :: "'s store_api \<Rightarrow> string \<Rightarrow> namespace \<Rightarrow> nat \<Rightarrow> nat \<Rightarrow> ('s, json) comp" where
  "forward_scan st nk ns 0 offset = (\<lambda>s. (Stuck, s))"
| "forward_scan st nk ns (Suc n) offset =
     bind (st_search st ns None [] FORWARD_PAGE offset) (\<lambda>results.
     bind (lift_res (scan_page nk results)) (\<lambda>found.
       case found of
         Some j \<Rightarrow> ret j
       | None \<Rightarrow> if length results < FORWARD_PAGE then ret JNull
                 else forward_scan st nk ns n (offset + FORWARD_PAGE)))"

definition apply_forward_supersessions :: "'s store_api \<Rightarrow> nat \<Rightarrow> string \<Rightarrow> namespace \<Rightarrow> ('s, json) comp" where
  "apply_forward_supersessions st fuel nk ns = catch (forward_scan st nk ns fuel 0) (\<lambda>_. ret JNull)"

definition set_mark :: "json \<Rightarrow> stored \<Rightarrow> stored" where
  "set_mark superseded_by v = (if truthy superseded_by then v(''superseded_by'' \<mapsto> superseded_by) else v)"

definition check_and_apply_forward_supersession ::
  "'s store_api \<Rightarrow> nat \<Rightarrow> string \<Rightarrow> namespace \<Rightarrow> string \<Rightarrow> stored \<Rightarrow> ('s, stored) comp" where
  "check_and_apply_forward_supersession st fuel nk ns store_key current =
     bind (apply_forward_supersessions st fuel nk ns) (\<lambda>superseded_by. ret (set_mark superseded_by current))"

subsection \<open>The writer\<close>

definition base_record :: "prims \<Rightarrow> payload \<Rightarrow> string \<Rightarrow> json \<Rightarrow> stored" where
  "base_record pr p hash version =
     [''content'' \<mapsto> JStr (dumps (JObj (model_dump p))),
      ''content_hash'' \<mapsto> JStr hash,
      ''version'' \<mapsto> version,
      ''payload_type'' \<mapsto> JStr (payload_type (p_class p)),
      ''natural_key'' \<mapsto> JStr (natural_key p),
      ''project'' \<mapsto> JStr (p_project p),
      ''identifier'' \<mapsto> JStr (p_identifier p)]"

type_synonym episode_meta = "(string \<times> json) list"

definition with_supersedes :: "payload \<Rightarrow> stored \<Rightarrow> stored" where
  "with_supersedes p v =
     (if p_supersedes p = [] then v else v(''supersedes'' \<mapsto> JList (map JStr (p_supersedes p))))"

definition with_meta :: "episode_meta option \<Rightarrow> stored \<Rightarrow> stored" where
  "with_meta meta v =
     (case meta of
        None \<Rightarrow> v
      | Some m \<Rightarrow> v(''episode_type'' \<mapsto> (case dict_get m ''episode_type'' of None \<Rightarrow> JNull | Some x \<Rightarrow> x),
                    ''episode_meta'' \<mapsto> JObj m))"

definition stored_value :: "prims \<Rightarrow> payload \<Rightarrow> string \<Rightarrow> json \<Rightarrow> episode_meta option \<Rightarrow> stored" where
  "stored_value pr p hash version meta =
     with_meta meta (with_supersedes p (base_record pr p hash version))"

definition write_record ::
  "prims \<Rightarrow> 's store_api \<Rightarrow> nat \<Rightarrow> namespace \<Rightarrow> string \<Rightarrow> payload \<Rightarrow> string \<Rightarrow> json \<Rightarrow> episode_meta option \<Rightarrow>
   ('s, unit) comp" where
  "write_record pr st fuel ns store_key p hash version meta =
     bind (check_and_apply_forward_supersession st fuel (natural_key p) ns store_key
             (stored_value pr p hash version meta))
       (\<lambda>v. st_put st ns store_key v)"

text \<open>\<open>existing_value.get("version", 1) + 1\<close> for whatever value is stored there.\<close>

definition next_version :: "prims \<Rightarrow> stored \<Rightarrow> exn + json" where
  "next_version pr v =
     (case v ''version'' of
        None \<Rightarrow> Inr (JInt 2)
      | Some (JInt i) \<Rightarrow> Inr (JInt (i + 1))
      | Some (JBool b) \<Rightarrow> Inr (JInt (if b then 2 else 1))
      | Some (JFloat l) \<Rightarrow> Inr (JFloat (float_succ pr l))
      | Some _ \<Rightarrow> Inl (TypeError ''unsupported operand type(s) for +''))"

definition unregistered_msg :: "string \<Rightarrow> string" where
  "unregistered_msg t =
     ''Payload type '' @ [CHR 0x27] @ t @ [CHR 0x27] @ '' is not a recognized payload type. ''
     @ ''Only registered BasePayload subclasses can be written.''"

definition write_supersessions :: "prims \<Rightarrow> 's store_api \<Rightarrow> payload \<Rightarrow> ('s, unit) comp" where
  "write_supersessions pr st p =
     (if p_supersedes p = [] then ret ()
      else apply_supersessions pr st (natural_key p) (p_supersedes p))"

definition upsert ::
  "prims \<Rightarrow> 's store_api \<Rightarrow> nat \<Rightarrow> payload \<Rightarrow> episode_meta option \<Rightarrow> stored option \<Rightarrow> ('s, unit) comp" where
  "upsert pr st fuel p meta existing =
     (case existing of
        None \<Rightarrow>
          bind (write_record pr st fuel (payload_namespace p) (payload_key pr p) p (content_hash pr p) (JInt 1) meta)
            (\<lambda>_. write_supersessions pr st p)
      | Some v \<Rightarrow>
          if v ''content_hash'' = Some (JStr (content_hash pr p)) then write_supersessions pr st p
          else
            bind (lift_res (next_version pr v)) (\<lambda>version.
            bind (write_record pr st fuel (payload_namespace p) (payload_key pr p) p (content_hash pr p) version meta)
              (\<lambda>_. write_supersessions pr st p)))"

definition writer_write :: "prims \<Rightarrow> 's store_api \<Rightarrow> nat \<Rightarrow> payload \<Rightarrow> episode_meta option \<Rightarrow> ('s, unit) comp" where
  "writer_write pr st fuel p meta =
     (if \<not> registered (payload_type (p_class p)) then throw (ValueError (unregistered_msg (payload_type (p_class p))))
      else
        bind (lift_res (validate_namespace (payload_namespace p))) (\<lambda>_.
        bind (st_get st (payload_namespace p) (payload_key pr p)) (upsert pr st fuel p meta)))"

text \<open>
  The dictionary of a batch: the last payload of each natural key, at the place of the first.
\<close>

definition collapse_batch :: "payload list \<Rightarrow> (string \<times> payload) list" where
  "collapse_batch ps = fold (\<lambda>p d. dict_set (natural_key p) p d) ps []"

definition write_batch :: "prims \<Rightarrow> 's store_api \<Rightarrow> nat \<Rightarrow> payload list \<Rightarrow> ('s, unit) comp" where
  "write_batch pr st fuel ps =
     for_each (\<lambda>p. writer_write pr st fuel p None) (map snd (collapse_batch ps))"

subsection \<open>What a write does to the contents of the store\<close>

type_synonym contents = "namespace \<Rightarrow> string \<Rightarrow> stored option"

definition put_at :: "namespace \<Rightarrow> string \<Rightarrow> stored \<Rightarrow> contents \<Rightarrow> contents" where
  "put_at ns k x V = V(ns := (V ns)(k \<mapsto> x))"

lemma put_at_get [simp]: "put_at ns k x V ns' k' = (if ns' = ns \<and> k' = k then Some x else V ns' k')"
  by (simp add: put_at_def)

lemma put_at_twice: "put_at ns k y (put_at ns k x V) = put_at ns k y V"
  by (simp add: put_at_def)

lemma put_at_same: "V ns k = Some x \<Longrightarrow> put_at ns k x V = V"
  by (auto simp: put_at_def fun_eq_iff)

definition pred_loc :: "prims \<Rightarrow> string \<Rightarrow> (namespace \<times> string) option" where
  "pred_loc pr k =
     (case split_on CHR '':'' k of
        [t, prj, ident] \<Rightarrow> Some ([''fleet_memory'', prj, t], record_identity pr k)
      | _ \<Rightarrow> None)"

definition mark_spec :: "prims \<Rightarrow> string \<Rightarrow> string \<Rightarrow> contents \<Rightarrow> contents" where
  "mark_spec pr successor k V =
     (case pred_loc pr k of
        None \<Rightarrow> V
      | Some (ns, key) \<Rightarrow>
          (case V ns key of
             None \<Rightarrow> V
           | Some v \<Rightarrow> put_at ns key (v(''superseded_by'' \<mapsto> JStr successor)) V))"

definition marks_spec :: "prims \<Rightarrow> string \<Rightarrow> string list \<Rightarrow> contents \<Rightarrow> contents" where
  "marks_spec pr successor ks V = fold (mark_spec pr successor) ks V"

definition upsert_spec :: "prims \<Rightarrow> json \<Rightarrow> payload \<Rightarrow> episode_meta option \<Rightarrow> contents \<Rightarrow> contents" where
  "upsert_spec pr fw p meta V =
     (let ns = payload_namespace p; key = payload_key pr p; h = content_hash pr p in
      case V ns key of
        None \<Rightarrow> put_at ns key (set_mark fw (stored_value pr p h (JInt 1) meta)) V
      | Some v \<Rightarrow>
          if v ''content_hash'' = Some (JStr h) then V
          else (case next_version pr v of
                  Inl e \<Rightarrow> V
                | Inr n \<Rightarrow> put_at ns key (set_mark fw (stored_value pr p h n meta)) V))"

definition write_spec :: "prims \<Rightarrow> json \<Rightarrow> payload \<Rightarrow> episode_meta option \<Rightarrow> contents \<Rightarrow> contents" where
  "write_spec pr fw p meta V = marks_spec pr (natural_key p) (p_supersedes p) (upsert_spec pr fw p meta V)"

text \<open>The successor that a scan of the whole namespace finds.\<close>

definition forward_of :: "string \<Rightarrow> item list \<Rightarrow> json" where
  "forward_of nk its = (case scan_page nk its of Inr (Some j) \<Rightarrow> j | _ \<Rightarrow> JNull)"

lemma scan_page_append:
  "scan_page nk (xs @ ys) = (case scan_page nk xs of Inr None \<Rightarrow> scan_page nk ys | r \<Rightarrow> r)"
  by (induction xs) (auto split: option.splits sum.splits)

lemma set_mark_other [simp]: "k \<noteq> ''superseded_by'' \<Longrightarrow> set_mark fw v k = v k"
  by (simp add: set_mark_def)

lemma stored_value_fields [simp]:
  "stored_value pr p h n meta ''content_hash'' = Some (JStr h)"
  "stored_value pr p h n meta ''version'' = Some n"
  "stored_value pr p h n meta ''natural_key'' = Some (JStr (natural_key p))"
  "stored_value pr p h n meta ''project'' = Some (JStr (p_project p))"
  "stored_value pr p h n meta ''payload_type'' = Some (JStr (payload_type (p_class p)))"
  "stored_value pr p h n meta ''content'' = Some (JStr (dumps (JObj (model_dump p))))"
  "stored_value pr p h n meta ''superseded_by'' = None"
  by (simp_all add: stored_value_def with_meta_def with_supersedes_def base_record_def split: option.splits)

context lawful_store
begin

lemma mark_returns:
  assumes "mark_predecessor pr st successor k s = (Ok (), s')"
  shows "view s' = mark_spec pr successor k (view s) \<and> pred_loc pr k \<noteq> None"
  using assms
  by (auto simp: mark_predecessor_def mark_spec_def pred_loc_def put_at_def bind_Ok_iff throw_def ret_def
      split: list.splits option.splits dest!: get_returns put_returns)

lemma marks_return:
  "apply_supersessions pr st successor ks s = (Ok (), s') \<Longrightarrow>
   view s' = marks_spec pr successor ks (view s) \<and> (\<forall>k \<in> set ks. pred_loc pr k \<noteq> None)"
proof (induction ks arbitrary: s)
  case Nil
  then show ?case by (simp add: apply_supersessions_def marks_spec_def ret_def)
next
  case (Cons k ks)
  from Cons.prems obtain s1 where
    "mark_predecessor pr st successor k s = (Ok (), s1)" "apply_supersessions pr st successor ks s1 = (Ok (), s')"
    unfolding apply_supersessions_def for_each_returns_Cons by blast
  with Cons.IH mark_returns show ?case by (fastforce simp: marks_spec_def)
qed

lemma forward_scan_frame:
  "view (snd (forward_scan st nk ns n off s)) = view s \<and> rank (snd (forward_scan st nk ns n off s)) = rank s"
proof (induction n arbitrary: off s)
  case (Suc n)
  obtain r s1 where r: "st_search st ns None [] FORWARD_PAGE off s = (r, s1)" by fastforce
  have "view s1 = view s" "rank s1 = rank s"
    using search_frame [of ns None "[]" FORWARD_PAGE off s] search_rank [of ns None "[]" FORWARD_PAGE off s] r
    by simp_all
  with Suc r show ?case
    by (cases r) (auto simp: bind_def lift_res_def ret_def throw_def split: sum.splits option.splits)
qed simp

lemma forward_scan_result:
  "forward_scan st nk ns n off s = (Ok j, s') \<Longrightarrow>
   (case scan_page nk (drop off (rank s ns None [])) of
      Inl e \<Rightarrow> False | Inr None \<Rightarrow> j = JNull | Inr (Some x) \<Rightarrow> j = x)"
proof (induction n arbitrary: off s)
  case (Suc n)
  let ?L = "rank s ns None []"
  from Suc.prems obtain xs s1 found where
    xs: "st_search st ns None [] FORWARD_PAGE off s = (Ok xs, s1)" and found: "scan_page nk xs = Inr found"
    and rest: "(case found of Some j \<Rightarrow> ret j | None \<Rightarrow> if length xs < FORWARD_PAGE then ret JNull
                 else forward_scan st nk ns n (off + FORWARD_PAGE)) s1 = (Ok j, s')"
    by (auto simp: bind_Ok_iff lift_res_Ok_iff)
  have page: "xs = take FORWARD_PAGE (drop off ?L)" and R: "rank s1 = rank s"
    using search_returns [OF xs] by (simp_all add: store_window_def)
  have split: "drop off ?L = xs @ drop (off + FORWARD_PAGE) ?L"
    by (simp add: page add.commute flip: drop_drop)
  show ?case
  proof (cases found)
    case (Some x)
    then show ?thesis using rest found by (simp add: split scan_page_append ret_def)
  next
    case None
    show ?thesis
    proof (cases "length xs < FORWARD_PAGE")
      case True
      then have "drop (off + FORWARD_PAGE) ?L = []" by (simp add: page min_def split: if_splits)
      then show ?thesis using None True rest found by (simp add: split scan_page_append ret_def)
    next
      case False
      with None rest Suc.IH [of "off + FORWARD_PAGE" s1] found R
      show ?thesis by (simp add: split scan_page_append)
    qed
  qed
qed simp

lemma forward_scan_fuel:
  "length (rank s ns None []) < off + FORWARD_PAGE * n \<Longrightarrow> 0 < n \<Longrightarrow>
   fst (forward_scan st nk ns n off s) \<noteq> Stuck"
proof (induction n arbitrary: off s)
  case (Suc n)
  show ?case unfolding forward_scan.simps
  proof (rule bind_not_Stuck, simp add: no_hang, rule bind_not_Stuck)
    fix xs s1 found s2
    assume xs: "st_search st ns None [] FORWARD_PAGE off s = (Ok xs, s1)"
      and s2: "lift_res (scan_page nk xs) s1 = (Ok found, s2)"
    have page: "xs = take FORWARD_PAGE (drop off (rank s ns None []))" and R: "rank s1 = rank s"
      using search_returns [OF xs] by (simp_all add: store_window_def)
    have [simp]: "s2 = s1" using s2 by (simp add: lift_res_Ok_iff)
    have "fst (forward_scan st nk ns n (off + FORWARD_PAGE) s1) \<noteq> Stuck" if "\<not> length xs < FORWARD_PAGE"
    proof (rule Suc.IH)
      show "length (rank s1 ns None []) < off + FORWARD_PAGE + FORWARD_PAGE * n"
        using Suc.prems(1) R by simp
      show "0 < n" using that Suc.prems(1) by (cases n) (auto simp: page FORWARD_PAGE_def)
    qed
    then show "fst ((case found of Some j \<Rightarrow> ret j | None \<Rightarrow> if length xs < FORWARD_PAGE then ret JNull
                 else forward_scan st nk ns n (off + FORWARD_PAGE)) s2) \<noteq> Stuck"
      by (simp add: ret_def split: option.split)
  next
    fix xs s1
    show "fst (lift_res (scan_page nk xs) s1) \<noteq> Stuck"
      by (simp add: lift_res_def throw_def ret_def split: sum.splits)
  qed
qed simp

lemma apply_forward_frame:
  "view (snd (apply_forward_supersessions st fuel nk ns s)) = view s
   \<and> rank (snd (apply_forward_supersessions st fuel nk ns s)) = rank s"
  using forward_scan_frame [of nk ns fuel 0 s]
  by (auto simp: apply_forward_supersessions_def catch_def ret_def split: prod.splits res.splits)

lemma apply_forward_result:
  "apply_forward_supersessions st fuel nk ns s = (Ok j, s') \<Longrightarrow>
   j = JNull \<or> j = forward_of nk (rank s ns None [])"
  using forward_scan_result [of nk ns fuel 0 s]
  by (fastforce simp: apply_forward_supersessions_def catch_def ret_def forward_of_def
      split: prod.splits res.splits sum.splits option.splits)

lemma apply_forward_total:
  assumes total: "\<And>n m s. \<exists>xs. fst (st_search st ns None [] n m s) = Ok xs"
    and fuel: "length (rank s ns None []) < FORWARD_PAGE * fuel"
  shows "fst (apply_forward_supersessions st fuel nk ns s) = Ok (forward_of nk (rank s ns None []))"
proof -
  have err: "fst (forward_scan st nk ns n off s) = Exn e \<Longrightarrow>
    scan_page nk (drop off (rank s ns None [])) = Inl e" for n off s e
  proof (induction n arbitrary: off s)
    case (Suc n)
    let ?L = "rank s ns None []"
    obtain xs s1 where xs: "st_search st ns None [] FORWARD_PAGE off s = (Ok xs, s1)"
      using total [of FORWARD_PAGE off s] by (metis prod.collapse)
    have page: "xs = take FORWARD_PAGE (drop off ?L)" and R: "rank s1 = rank s"
      using search_returns [OF xs] by (simp_all add: store_window_def)
    have split: "drop off ?L = xs @ drop (off + FORWARD_PAGE) ?L"
      by (simp add: page add.commute flip: drop_drop)
    show ?case
    proof (cases "scan_page nk xs")
      case (Inl e')
      then show ?thesis using Suc.prems xs by (simp add: split scan_page_append bind_def throw_def)
    next
      case (Inr found)
      then show ?thesis using Suc.prems xs Suc.IH [of "off + FORWARD_PAGE" s1] R
        by (auto simp: split scan_page_append bind_def ret_def split: option.splits if_splits)
    qed
  qed simp
  have ns: "fst (forward_scan st nk ns fuel 0 s) \<noteq> Stuck"
    using forward_scan_fuel [of s ns 0 fuel nk] fuel by (cases fuel) auto
  obtain r s' where r: "forward_scan st nk ns fuel 0 s = (r, s')" by fastforce
  show ?thesis
  proof (cases r)
    case (Ok j)
    then show ?thesis using forward_scan_result [of nk ns fuel 0 s j s'] r
      by (auto simp: apply_forward_supersessions_def catch_def forward_of_def split: sum.splits option.splits)
  next
    case (Exn e)
    then show ?thesis using err [of fuel 0 s e] r
      by (simp add: apply_forward_supersessions_def catch_def forward_of_def ret_def)
  qed (use ns r in simp)
qed

lemma write_record_returns:
  assumes "write_record pr st fuel ns key p h n meta s = (Ok (), s')"
  shows "\<exists>fw. (fw = JNull \<or> fw = forward_of (natural_key p) (rank s ns None []))
     \<and> view s' = put_at ns key (set_mark fw (stored_value pr p h n meta)) (view s)"
proof -
  from assms obtain fw s1 where
    1: "apply_forward_supersessions st fuel (natural_key p) ns s = (Ok fw, s1)"
    and 2: "st_put st ns key (set_mark fw (stored_value pr p h n meta)) s1 = (Ok (), s')"
    by (auto simp: write_record_def check_and_apply_forward_supersession_def bind_Ok_iff ret_def)
  have "view s1 = view s" using apply_forward_frame [of fuel "natural_key p" ns s] 1 by simp
  with put_returns [OF 2] apply_forward_result [OF 1] show ?thesis by (auto simp: put_at_def)
qed

lemma write_supersessions_returns:
  "write_supersessions pr st p s = (Ok (), s') \<Longrightarrow>
   view s' = marks_spec pr (natural_key p) (p_supersedes p) (view s)"
  using marks_return [of pr "natural_key p" "p_supersedes p" s s']
  by (auto simp: write_supersessions_def marks_spec_def ret_def split: if_splits)

lemma write_returns:
  assumes "writer_write pr st fuel p meta s = (Ok (), s')"
  shows "registered (payload_type (p_class p)) \<and> list_all (full_class ns_char) (payload_namespace p)
    \<and> (\<forall>v. view s (payload_namespace p) (payload_key pr p) = Some v \<longrightarrow>
          v ''content_hash'' \<noteq> Some (JStr (content_hash pr p)) \<longrightarrow> (\<exists>n. next_version pr v = Inr n))
    \<and> (\<exists>fw. (fw = JNull \<or> fw = forward_of (natural_key p) (rank s (payload_namespace p) None []))
         \<and> view s' = write_spec pr fw p meta (view s))"
proof -
  let ?ns = "payload_namespace p" and ?key = "payload_key pr p" and ?h = "content_hash pr p"
  from assms obtain existing s1 where reg: "registered (payload_type (p_class p))"
    and ns: "validate_namespace ?ns = Inr ()"
    and get: "st_get st ?ns ?key s = (Ok existing, s1)"
    and up: "upsert pr st fuel p meta existing s1 = (Ok (), s')"
    by (auto simp: writer_write_def bind_Ok_iff lift_res_Ok_iff throw_def split: if_splits)
  from ns have nsok: "list_all (full_class ns_char) ?ns" by (simp add: validate_namespace_ok list_all_iff)
  from get_returns [OF get] have ex: "existing = view s ?ns ?key" and V: "view s1 = view s" "rank s1 = rank s"
    by simp_all
  have written: "(\<exists>fw. (fw = JNull \<or> fw = forward_of (natural_key p) (rank s ?ns None []))
      \<and> view s' = marks_spec pr (natural_key p) (p_supersedes p)
            (put_at ?ns ?key (set_mark fw (stored_value pr p ?h n meta)) (view s)))"
    if "bind (write_record pr st fuel ?ns ?key p ?h n meta) (\<lambda>_. write_supersessions pr st p) s1 = (Ok (), s')" for n
    using that write_record_returns [of pr fuel ?ns ?key p ?h n meta s1] V
    by (fastforce simp: bind_Ok_iff dest: write_supersessions_returns)
  show ?thesis
  proof (cases existing)
    case None
    with up written [of "JInt 1"] ex reg nsok show ?thesis
      by (auto simp: upsert_def write_spec_def upsert_spec_def Let_def)
  next
    case (Some v)
    show ?thesis
    proof (cases "v ''content_hash'' = Some (JStr ?h)")
      case True
      with up Some ex reg nsok V show ?thesis
        by (auto simp: upsert_def write_spec_def upsert_spec_def Let_def dest!: write_supersessions_returns)
    next
      case False
      with up Some obtain n where n: "next_version pr v = Inr n"
        and "bind (write_record pr st fuel ?ns ?key p ?h n meta) (\<lambda>_. write_supersessions pr st p) s1 = (Ok (), s')"
        by (auto simp: upsert_def bind_Ok_iff [of "lift_res _"] lift_res_Ok_iff)
      with written [of n] Some False ex reg nsok show ?thesis
        by (auto simp: write_spec_def upsert_spec_def Let_def)
    qed
  qed
qed

end

subsection \<open>Reading the specification\<close>

text \<open>Marking changes one field of the records it reaches, and nothing else.\<close>

definition mark_targets :: "prims \<Rightarrow> string list \<Rightarrow> (namespace \<times> string) set" where
  "mark_targets pr ks = {loc. \<exists>k \<in> set ks. pred_loc pr k = Some loc}"

definition marked :: "string \<Rightarrow> bool \<Rightarrow> stored \<Rightarrow> stored" where
  "marked successor b v = (if b then v(''superseded_by'' \<mapsto> JStr successor) else v)"

lemma marked_other [simp]: "f \<noteq> ''superseded_by'' \<Longrightarrow> marked succ b v f = v f"
  by (simp add: marked_def)

lemma marked_False [simp]: "marked succ False = id"
  by (simp add: marked_def fun_eq_iff)

lemma marked_marked [simp]: "marked succ b (marked succ b' v) = marked succ (b \<or> b') v"
  by (auto simp: marked_def)

lemma mark_spec_at:
  "mark_spec pr succ k V ns key = map_option (marked succ (pred_loc pr k = Some (ns, key))) (V ns key)"
  by (cases "V ns key") (auto simp: mark_spec_def marked_def split: option.splits)

lemma marks_spec_at:
  "marks_spec pr succ ks V ns key = map_option (marked succ ((ns, key) \<in> mark_targets pr ks)) (V ns key)"
proof (induction ks arbitrary: V)
  case Nil
  then show ?case by (simp add: marks_spec_def mark_targets_def marked_def option.map_ident)
next
  case (Cons k ks)
  have "marks_spec pr succ (k # ks) V = marks_spec pr succ ks (mark_spec pr succ k V)"
    by (simp add: marks_spec_def)
  then show ?case
    by (simp add: Cons.IH mark_spec_at option.map_comp comp_def) (auto simp: mark_targets_def disj_commute intro!: map_option_cong)
qed

lemma marks_spec_idem: "marks_spec pr succ ks (marks_spec pr succ ks V) = marks_spec pr succ ks V"
  by (intro ext) (simp add: marks_spec_at option.map_comp comp_def)

lemma upsert_spec_other:
  "(ns, key) \<noteq> (payload_namespace p, payload_key pr p) \<Longrightarrow> upsert_spec pr fw p meta V ns key = V ns key"
  by (auto simp: upsert_spec_def Let_def split: option.splits sum.splits)

lemma upsert_spec_own:
  assumes "\<And>v. V (payload_namespace p) (payload_key pr p) = Some v \<Longrightarrow>
      v ''content_hash'' \<noteq> Some (JStr (content_hash pr p)) \<Longrightarrow> \<exists>n. next_version pr v = Inr n"
  shows "\<exists>w. upsert_spec pr fw p meta V (payload_namespace p) (payload_key pr p) = Some w
     \<and> w ''content_hash'' = Some (JStr (content_hash pr p))
     \<and> w ''version'' =
        (case V (payload_namespace p) (payload_key pr p) of
           None \<Rightarrow> Some (JInt 1)
         | Some v \<Rightarrow> if v ''content_hash'' = Some (JStr (content_hash pr p)) then v ''version''
                    else Some (case next_version pr v of Inl e \<Rightarrow> JNull | Inr n \<Rightarrow> n))"
proof (cases "V (payload_namespace p) (payload_key pr p)")
  case None
  then show ?thesis by (simp add: upsert_spec_def Let_def)
next
  case (Some v)
  with assms [of v] show ?thesis by (auto simp: upsert_spec_def Let_def)
qed

lemma write_spec_idem:
  assumes "\<And>v. V (payload_namespace p) (payload_key pr p) = Some v \<Longrightarrow>
      v ''content_hash'' \<noteq> Some (JStr (content_hash pr p)) \<Longrightarrow> \<exists>n. next_version pr v = Inr n"
  shows "write_spec pr fw' p meta' (write_spec pr fw p meta V) = write_spec pr fw p meta V"
proof -
  from upsert_spec_own [of V p pr, OF assms] obtain w where
    w: "upsert_spec pr fw p meta V (payload_namespace p) (payload_key pr p) = Some w"
      "w ''content_hash'' = Some (JStr (content_hash pr p))" by blast
  let ?V1 = "write_spec pr fw p meta V"
  have "\<exists>w'. ?V1 (payload_namespace p) (payload_key pr p) = Some w'
      \<and> w' ''content_hash'' = Some (JStr (content_hash pr p))"
    by (simp add: write_spec_def marks_spec_at w)
  then have "upsert_spec pr fw' p meta' ?V1 = ?V1" by (auto simp: upsert_spec_def Let_def)
  then show ?thesis by (simp add: write_spec_def marks_spec_idem)
qed

text \<open>The dictionary of a batch.\<close>

lemma collapse_batch_snoc:
  "collapse_batch (ps @ [p]) = dict_set (natural_key p) p (collapse_batch ps)"
  by (simp add: collapse_batch_def)

lemma collapse_batch_keys:
  "distinct (map fst (collapse_batch ps)) \<and> fst ` set (collapse_batch ps) = natural_key ` set ps
   \<and> (\<forall>(k, q) \<in> set (collapse_batch ps). natural_key q = k \<and> q \<in> set ps)"
proof (induction ps rule: rev_induct)
  case Nil
  then show ?case by (simp add: collapse_batch_def)
next
  case (snoc p ps)
  let ?d = "collapse_batch ps"
  have "natural_key q = k \<and> q \<in> set (ps @ [p])"
    if "(k, q) \<in> set (dict_set (natural_key p) p ?d)" for k q
  proof -
    have "dict_get (dict_set (natural_key p) p ?d) k = Some q"
      using that snoc dict_set_distinct [of ?d "natural_key p" p] by (simp add: dict_get_def map_of_is_SomeI)
    then have "k = natural_key p \<and> q = p \<or> (k, q) \<in> set ?d"
      using map_of_SomeD [of ?d k q]
      by (simp add: dict_simps) (auto simp: dict_get_def split: if_splits)
    with snoc show ?thesis by auto
  qed
  with snoc show ?case
    by (auto simp: collapse_batch_snoc dict_set_distinct dict_set_keys)
qed

lemma collapse_batch_last:
  "dict_get (collapse_batch ps) k =
     (if k \<in> natural_key ` set ps then Some (last (filter (\<lambda>p. natural_key p = k) ps)) else None)"
  by (induction ps rule: rev_induct)
    (auto simp: collapse_batch_snoc dict_simps collapse_batch_def [of "[]"])

subsection \<open>A write over a store that answers returns\<close>

definition store_total :: "'s store_api \<Rightarrow> bool" where
  "store_total st \<longleftrightarrow>
     (\<forall>ns k s. \<exists>r. fst (st_get st ns k s) = Ok r) \<and> (\<forall>ns k x s. fst (st_put st ns k x s) = Ok ())
     \<and> (\<forall>ns q f n m s. \<exists>r. fst (st_search st ns q f n m s) = Ok r)"

lemma store_totalD:
  assumes "store_total st"
  shows "\<exists>r s'. st_get st ns k s = (Ok r, s')" "\<exists>s'. st_put st ns k x s = (Ok (), s')"
    "\<exists>r s'. st_search st ns q f n m s = (Ok r, s')"
  using assms unfolding store_total_def by (metis prod.collapse)+

lemma mem_api_store_total: "store_total (mem_api score)"
  by (simp add: store_total_def mem_api_total)

lemma three_segments: "length (split_on CHR '':'' k) = 3 \<longleftrightarrow> pred_loc pr k \<noteq> None"
  by (auto simp: pred_loc_def length_Suc_conv eval_nat_numeral split: list.splits)

lemma mark_completes:
  assumes "store_total st" and "pred_loc pr k \<noteq> None"
  shows "\<exists>s'. mark_predecessor pr st succ k s = (Ok (), s')"
proof -
  from assms(2) obtain t prj i where k: "split_on CHR '':'' k = [t, prj, i]"
    by (auto simp: pred_loc_def split: list.splits)
  obtain r s1 where r: "st_get st [''fleet_memory'', prj, t] (record_identity pr k) s = (Ok r, s1)"
    using store_totalD(1) [OF assms(1)] by blast
  show ?thesis
  proof (cases r)
    case None
    then show ?thesis using k r by (simp add: mark_predecessor_def comp_simps)
  next
    case (Some v)
    then show ?thesis using k r store_totalD(2) [OF assms(1)] by (simp add: mark_predecessor_def comp_simps)
  qed
qed

lemma marks_complete:
  "store_total st \<Longrightarrow> list_all (\<lambda>k. pred_loc pr k \<noteq> None) ks \<Longrightarrow>
   \<exists>s'. apply_supersessions pr st succ ks s = (Ok (), s')"
proof (induction ks arbitrary: s)
  case Nil
  then show ?case by (simp add: apply_supersessions_def ret_def)
next
  case (Cons k ks)
  then obtain s1 where 1: "mark_predecessor pr st succ k s = (Ok (), s1)" using mark_completes by fastforce
  from Cons.IH Cons.prems obtain s2 where 2: "apply_supersessions pr st succ ks s1 = (Ok (), s2)" by fastforce
  from 1 2 show ?case by (auto simp: apply_supersessions_def comp_simps)
qed

context lawful_store
begin

lemma write_record_completes:
  assumes total: "store_total st" and fuel: "length (rank s ns None []) < FORWARD_PAGE * fuel"
  shows "\<exists>s'. write_record pr st fuel ns key p h n meta s = (Ok (), s')
    \<and> view s' = put_at ns key (set_mark (forward_of (natural_key p) (rank s ns None [])) (stored_value pr p h n meta)) (view s)"
proof -
  let ?fw = "forward_of (natural_key p) (rank s ns None [])"
  obtain s1 where 1: "apply_forward_supersessions st fuel (natural_key p) ns s = (Ok ?fw, s1)"
    using apply_forward_total [OF _ fuel] total unfolding store_total_def by (metis prod.collapse)
  obtain s2 where 2: "st_put st ns key (set_mark ?fw (stored_value pr p h n meta)) s1 = (Ok (), s2)"
    using store_totalD(2) [OF total] by blast
  have "write_record pr st fuel ns key p h n meta s = (Ok (), s2)"
    using 1 2 by (simp add: write_record_def check_and_apply_forward_supersession_def comp_simps bind_def ret_def)
  moreover have "view s1 = view s" using apply_forward_frame [of fuel "natural_key p" ns s] 1 by simp
  ultimately show ?thesis using put_returns [OF 2] by (auto simp: put_at_def)
qed

lemma write_supersessions_completes:
  assumes "store_total st" and "payload_ok p"
  shows "\<exists>s'. write_supersessions pr st p s = (Ok (), s')"
  using marks_complete [OF assms(1), of pr "p_supersedes p" "natural_key p" s] assms(2)
  by (auto simp: write_supersessions_def payload_ok_def list_all_iff three_segments [of _ pr] ret_def)

lemma write_completes:
  assumes total: "store_total st" and p: "payload_ok p"
    and reg: "registered (payload_type (p_class p))" and prj: "full_class ns_char (p_project p)"
    and ver: "\<And>v. view s (payload_namespace p) (payload_key pr p) = Some v \<Longrightarrow> \<exists>n. next_version pr v = Inr n"
    and fuel: "length (rank s (payload_namespace p) None []) < FORWARD_PAGE * fuel"
  shows "\<exists>s'. writer_write pr st fuel p meta s = (Ok (), s')
    \<and> view s' = write_spec pr (forward_of (natural_key p) (rank s (payload_namespace p) None [])) p meta (view s)"
proof -
  let ?ns = "payload_namespace p" and ?key = "payload_key pr p" and ?h = "content_hash pr p"
  let ?fw = "forward_of (natural_key p) (rank s ?ns None [])"
  have ns: "validate_namespace ?ns = Inr ()"
    by (simp add: validate_namespace_ok payload_namespace_def fleet_memory_ns prj payload_type_ns)
  obtain existing s1 where get: "st_get st ?ns ?key s = (Ok existing, s1)"
    using store_totalD(1) [OF total] by blast
  from get_returns [OF get] have ex: "existing = view s ?ns ?key" and V: "view s1 = view s" "rank s1 = rank s"
    by simp_all
  have start: "writer_write pr st fuel p meta s = upsert pr st fuel p meta existing s1"
    using reg ns get by (simp add: writer_write_def comp_simps)
  have put: "\<exists>s'. bind (write_record pr st fuel ?ns ?key p ?h n meta) (\<lambda>_. write_supersessions pr st p) s1 = (Ok (), s')
      \<and> view s' = marks_spec pr (natural_key p) (p_supersedes p)
                    (put_at ?ns ?key (set_mark ?fw (stored_value pr p ?h n meta)) (view s))" for n
  proof -
    from write_record_completes [OF total, of s1 ?ns fuel pr ?key p ?h n meta] fuel V obtain s2 where
      2: "write_record pr st fuel ?ns ?key p ?h n meta s1 = (Ok (), s2)"
        "view s2 = put_at ?ns ?key (set_mark ?fw (stored_value pr p ?h n meta)) (view s)" by auto
    obtain s3 where 3: "write_supersessions pr st p s2 = (Ok (), s3)"
      using write_supersessions_completes [OF total p] by blast
    show ?thesis using 2 3 write_supersessions_returns [OF 3] by (auto simp: comp_simps)
  qed
  show ?thesis
  proof (cases existing)
    case None
    then show ?thesis using put [of "JInt 1"] ex start
      by (simp add: upsert_def write_spec_def upsert_spec_def Let_def)
  next
    case (Some v)
    show ?thesis
    proof (cases "v ''content_hash'' = Some (JStr ?h)")
      case True
      obtain s2 where 2: "write_supersessions pr st p s1 = (Ok (), s2)"
        using write_supersessions_completes [OF total p] by blast
      from 2 write_supersessions_returns [OF 2] Some True ex start V show ?thesis
        by (simp add: upsert_def write_spec_def upsert_spec_def Let_def)
    next
      case False
      have "view s ?ns ?key = Some v" using ex Some by simp
      then obtain n where "next_version pr v = Inr n" using ver by blast
      then show ?thesis using put [of n] Some False ex start
        by (simp add: upsert_def write_spec_def upsert_spec_def Let_def)
    qed
  qed
qed

end

subsection \<open>Every record of a payload type is well formed, whatever happens\<close>

text \<open>
  A record under \<open>("fleet_memory", project, type)\<close> for a registered type: its key is the identity
  of its natural key, its natural key names its namespace, and its version is at least 1. A write
  that raises halfway, or whose store call fails, leaves the contents well formed.
\<close>

definition record_wf :: "prims \<Rightarrow> namespace \<Rightarrow> string \<Rightarrow> stored \<Rightarrow> bool" where
  "record_wf pr ns k v \<longleftrightarrow>
     (\<exists>t prj ident h i c.
        ns = [''fleet_memory'', prj, t] \<and> registered t \<and> full_class ns_char prj \<and> full_class ident_char ident
        \<and> k = record_identity pr (make_key t prj ident)
        \<and> v ''natural_key'' = Some (JStr (make_key t prj ident)) \<and> v ''project'' = Some (JStr prj)
        \<and> v ''payload_type'' = Some (JStr t) \<and> v ''content'' = Some (JStr c)
        \<and> v ''content_hash'' = Some (JStr h) \<and> v ''version'' = Some (JInt i) \<and> 1 \<le> i)"

definition typed_namespace :: "namespace \<Rightarrow> bool" where
  "typed_namespace ns \<longleftrightarrow> (\<exists>prj t. ns = [''fleet_memory'', prj, t] \<and> registered t)"

definition contents_wf :: "prims \<Rightarrow> contents \<Rightarrow> bool" where
  "contents_wf pr V \<longleftrightarrow> (\<forall>ns k v. typed_namespace ns \<longrightarrow> V ns k = Some v \<longrightarrow> record_wf pr ns k v)"

lemma contents_wfD: "contents_wf pr V \<Longrightarrow> typed_namespace ns \<Longrightarrow> V ns k = Some v \<Longrightarrow> record_wf pr ns k v"
  by (simp add: contents_wf_def)

lemma contents_wf_put:
  "contents_wf pr V \<Longrightarrow> (typed_namespace ns \<Longrightarrow> record_wf pr ns k x) \<Longrightarrow>
   contents_wf pr (V(ns := (V ns)(k \<mapsto> x)))"
  by (auto simp: contents_wf_def)

lemma record_wf_mark: "record_wf pr ns k v \<Longrightarrow> record_wf pr ns k (v(''superseded_by'' \<mapsto> m))"
  by (simp add: record_wf_def)

lemma record_wf_set_mark: "record_wf pr ns k v \<Longrightarrow> record_wf pr ns k (set_mark m v)"
  by (simp add: set_mark_def record_wf_mark)

lemma record_wf_stored:
  assumes "payload_ok p" and "registered (payload_type (p_class p))" and "full_class ns_char (p_project p)" and "1 \<le> i"
  shows "record_wf pr (payload_namespace p) (payload_key pr p) (stored_value pr p h (JInt i) meta)"
  unfolding record_wf_def
  by (intro exI [of _ "payload_type (p_class p)"] exI [of _ "p_project p"] exI [of _ "p_identifier p"]
      exI [of _ h] exI [of _ i] exI [of _ "dumps (JObj (model_dump p))"])
    (use assms in \<open>simp add: payload_namespace_def payload_key_def natural_key_def payload_ok_def\<close>)

context lawful_store
begin

lemma mark_keeps_wf: "keeps (mark_predecessor pr st succ k) (\<lambda>s. contents_wf pr (view s))"
proof (rule keepsI)
  fix s
  assume wf: "contents_wf pr (view s)"
  show "contents_wf pr (view (snd (mark_predecessor pr st succ k s)))"
  proof (cases "\<exists>t prj i. split_on CHR '':'' k = [t, prj, i]")
    case True
    then obtain t prj i where k: "split_on CHR '':'' k = [t, prj, i]" by blast
    let ?ns = "[''fleet_memory'', prj, t]" and ?key = "record_identity pr k"
    let ?h = "\<lambda>existing. case existing of None \<Rightarrow> ret ()
      | Some v \<Rightarrow> st_put st ?ns ?key (v(''superseded_by'' \<mapsto> JStr succ))"
    have "contents_wf pr (view (snd (bind (st_get st ?ns ?key) ?h s)))"
    proof (rule get_bind_inv [where P = "contents_wf pr"])
      fix s1 assume V: "view s1 = view s"
      show "contents_wf pr (view (snd (?h (view s ?ns ?key) s1)))"
      proof (cases "view s ?ns ?key")
        case (Some v)
        then have "typed_namespace ?ns \<Longrightarrow> record_wf pr ?ns ?key (v(''superseded_by'' \<mapsto> JStr succ))"
          using contents_wfD [OF wf] record_wf_mark by blast
        then show ?thesis using wf V Some
          by (simp add: put_inv [where P = "contents_wf pr"] contents_wf_put)
      qed (use wf V in \<open>simp add: ret_def\<close>)
    qed (rule wf)
    then show ?thesis by (simp add: mark_predecessor_def k)
  next
    case False
    then have "mark_predecessor pr st succ k = throw (ValueError (bad_key_msg k))"
      by (auto simp: mark_predecessor_def split: list.splits)
    then show ?thesis using wf by (simp add: throw_def)
  qed
qed

lemma marks_keep_wf: "keeps (write_supersessions pr st p) (\<lambda>s. contents_wf pr (view s))"
  by (simp add: write_supersessions_def apply_supersessions_def keeps_for_each mark_keeps_wf)

lemma write_record_keeps_wf:
  assumes "\<And>fw. typed_namespace ns \<Longrightarrow> record_wf pr ns key (set_mark fw (stored_value pr p h n meta))"
  shows "keeps (write_record pr st fuel ns key p h n meta) (\<lambda>s. contents_wf pr (view s))"
proof -
  let ?st = "\<lambda>j. st_put st ns key (set_mark j (stored_value pr p h n meta))"
  have eq: "write_record pr st fuel ns key p h n meta
      = bind (apply_forward_supersessions st fuel (natural_key p) ns) ?st"
    by (auto simp: write_record_def check_and_apply_forward_supersession_def bind_def ret_def fun_eq_iff
        split: prod.splits res.splits)
  show ?thesis unfolding eq
  proof (rule keeps_bind)
    show "keeps (apply_forward_supersessions st fuel (natural_key p) ns) (\<lambda>s. contents_wf pr (view s))"
      by (simp add: keeps_def apply_forward_frame)
    show "keeps (?st j) (\<lambda>s. contents_wf pr (view s))" for j
      using assms by (intro keeps_put contents_wf_put)
  qed
qed

lemma write_keeps_wf:
  assumes p: "payload_ok p"
  shows "keeps (writer_write pr st fuel p meta) (\<lambda>s. contents_wf pr (view s))"
proof (cases "registered (payload_type (p_class p)) \<and> validate_namespace (payload_namespace p) = Inr ()")
  case False
  then show ?thesis by (auto simp: writer_write_def lift_res_def split: sum.splits)
next
  case True
  let ?ns = "payload_namespace p" and ?key = "payload_key pr p"
  from True have reg: "registered (payload_type (p_class p))" and prj: "full_class ns_char (p_project p)"
    by (simp_all add: validate_namespace_ok payload_namespace_def)
  have typed: "typed_namespace ?ns" using reg by (simp add: typed_namespace_def payload_namespace_def)
  show ?thesis
  proof (rule keepsI)
    fix s assume wf: "contents_wf pr (view s)"
    have put: "contents_wf pr (view (snd (bind (write_record pr st fuel ?ns ?key p (content_hash pr p) (JInt i) meta)
        (\<lambda>_. write_supersessions pr st p) s1)))" if "1 \<le> i" "view s1 = view s" for i s1
    proof -
      have "keeps (bind (write_record pr st fuel ?ns ?key p (content_hash pr p) (JInt i) meta)
          (\<lambda>_. write_supersessions pr st p)) (\<lambda>s. contents_wf pr (view s))"
        by (intro keeps_bind marks_keep_wf write_record_keeps_wf record_wf_set_mark record_wf_stored p reg prj that(1))
      then show ?thesis using wf that(2) by (simp add: keeps_def)
    qed
    have "contents_wf pr (view (snd (bind (st_get st ?ns ?key) (upsert pr st fuel p meta) s)))"
    proof (rule get_bind_inv [where P = "contents_wf pr"])
      fix s1 assume V: "view s1 = view s"
      show "contents_wf pr (view (snd (upsert pr st fuel p meta (view s ?ns ?key) s1)))"
      proof (cases "view s ?ns ?key")
        case None
        then show ?thesis using put [of 1 s1] V by (simp add: upsert_def)
      next
        case (Some v)
        from contents_wfD [OF wf typed Some] obtain i where i: "v ''version'' = Some (JInt i)" "1 \<le> i"
          by (auto simp: record_wf_def)
        then have "next_version pr v = Inr (JInt (i + 1))" by (simp add: next_version_def)
        then show ?thesis
          using put [of "i + 1" s1] i V Some keepsD [OF marks_keep_wf, of pr s1 p] wf
          by (simp add: upsert_def)
      qed
    qed (rule wf)
    then show "contents_wf pr (view (snd (writer_write pr st fuel p meta s)))"
      using True by (simp add: writer_write_def)
  qed
qed

end

subsection \<open>The writer over the in-memory store\<close>

definition writable :: "payload \<Rightarrow> bool" where
  "writable p \<longleftrightarrow>
     payload_ok p \<and> registered (payload_type (p_class p)) \<and> full_class ns_char (p_project p)"

lemma wf_next_version:
  assumes "contents_wf pr V" and "writable p" and "V (payload_namespace p) (payload_key pr p) = Some v"
  shows "\<exists>i. v ''version'' = Some (JInt i) \<and> next_version pr v = Inr (JInt (i + 1))"
proof -
  have "typed_namespace (payload_namespace p)"
    using assms(2) by (simp add: writable_def typed_namespace_def payload_namespace_def)
  with assms show ?thesis
    by (auto dest!: contents_wfD simp: record_wf_def next_version_def)
qed

lemma mem_rank_length: "length (mem_rank score s ns q f) \<le> card (fst ` set s)"
proof -
  have "length (mem_rank score s ns q f) \<le> length (AList.clearjunk s)"
    by (simp add: mem_rank_def Let_def)
  also have "\<dots> = card (set (map fst (AList.clearjunk s)))"
    using distinct_card [OF distinct_clearjunk [of s]] by simp
  finally show ?thesis by (simp add: dom_clearjunk)
qed

lemma mem_keys: "fst ` set s = {(ns, k). mem_view s ns k \<noteq> None}"
  by (auto simp: mem_view_def map_of_eq_None_iff image_iff)

lemma write_spec_keys:
  "{(ns, k). write_spec pr fw p meta V ns k \<noteq> None}
   \<subseteq> insert (payload_namespace p, payload_key pr p) {(ns, k). V ns k \<noteq> None}"
  using upsert_spec_other [of _ _ p pr fw meta V] by (auto simp: write_spec_def marks_spec_at)

lemma mem_write_step:
  assumes wf: "contents_wf pr (mem_view s)" and p: "writable p" and fuel: "card (fst ` set s) < FORWARD_PAGE * fuel"
  shows "\<exists>s'. writer_write pr (mem_api score) fuel p meta s = (Ok (), s') \<and> contents_wf pr (mem_view s')
    \<and> card (fst ` set s') \<le> Suc (card (fst ` set s))"
proof -
  have "length (mem_rank score s (payload_namespace p) None []) < FORWARD_PAGE * fuel"
    using le_less_trans [OF mem_rank_length fuel] .
  then have "\<exists>s'. writer_write pr (mem_api score) fuel p meta s = (Ok (), s') \<and> mem_view s' =
      write_spec pr (forward_of (natural_key p) (mem_rank score s (payload_namespace p) None [])) p meta (mem_view s)"
    by (intro mem.write_completes mem_api_store_total)
      (use p wf_next_version [OF wf p] in \<open>auto simp: writable_def\<close>)
  then obtain s' fw where s': "writer_write pr (mem_api score) fuel p meta s = (Ok (), s')"
    "mem_view s' = write_spec pr fw p meta (mem_view s)" by blast
  have "keeps (writer_write pr (mem_api score) fuel p meta) (\<lambda>s. contents_wf pr (mem_view s))"
    using p by (intro mem.write_keeps_wf) (simp add: writable_def)
  from keepsD [OF this wf] have "contents_wf pr (mem_view s')" by (simp add: s'(1))
  moreover have "fst ` set s' \<subseteq> insert (payload_namespace p, payload_key pr p) (fst ` set s)"
    unfolding mem_keys s'(2) by (rule write_spec_keys)
  then have "card (fst ` set s') \<le> card (insert (payload_namespace p, payload_key pr p) (fst ` set s))"
    by (intro card_mono) simp_all
  ultimately show ?thesis using s'(1) by (force simp: card_insert_if split: if_splits)
qed

lemma mem_writes:
  "contents_wf pr (mem_view s) \<Longrightarrow> \<forall>p \<in> set ps. writable p \<Longrightarrow> card (fst ` set s) + length ps < FORWARD_PAGE * fuel \<Longrightarrow>
   \<exists>s'. for_each (\<lambda>p. writer_write pr (mem_api score) fuel p meta) ps s = (Ok (), s')"
proof (induction ps arbitrary: s)
  case Nil
  then show ?case by (simp add: ret_def)
next
  case (Cons p ps)
  then obtain s1 where 1: "writer_write pr (mem_api score) fuel p meta s = (Ok (), s1)" "contents_wf pr (mem_view s1)"
    "card (fst ` set s1) \<le> Suc (card (fst ` set s))"
    using mem_write_step [of pr s p fuel score meta] by auto
  with Cons obtain s2 where "for_each (\<lambda>p. writer_write pr (mem_api score) fuel p meta) ps s1 = (Ok (), s2)"
    by fastforce
  with 1 show ?case by (auto simp: comp_simps)
qed

lemma contents_wf_empty: "contents_wf pr (mem_view [])"
  by (simp add: contents_wf_def mem_view_def)

definition sample_prims :: prims where
  "sample_prims = \<lparr>uuid5 = (\<lambda>ns n. n), sha256_hex = (\<lambda>s. s), float_succ = (\<lambda>l. l)\<rparr>"

definition no_score :: "string \<Rightarrow> stored \<Rightarrow> real" where
  "no_score q v = 0"

definition sample_adr_v2 :: payload where
  "sample_adr_v2 = sample_adr\<lparr>p_source_ref := ''docs/adr2''\<rparr>"

lemma sample_writable: "writable sample_adr" "writable sample_adr_v2"
  using sample_adr_ok
  by (simp_all add: writable_def sample_adr_v2_def payload_ok_def natural_key_def sample_adr_def
      registered_code full_class_def char_class_defs)

subsection \<open>Properties of the writer\<close>

text \<open>
  C1: The writer does what the specification says. Over a store that keeps its contract and answers
  every call, writing a constructed payload of a registered type whose project is a valid namespace
  part returns, and the contents afterwards are \<open>write_spec\<close> of the contents before: version 1
  or the next version or no change of the record, marked when some record of the whole namespace
  (every page of it) declares to supersede it, and then the marks on its predecessors.
\<close>

theorem write_refines_spec:
  assumes "lawful_store st view rank window" and "store_total st" and "writable p" and "contents_wf pr (view s)"
    and "length (rank s (payload_namespace p) None []) < FORWARD_PAGE * fuel"
  shows "\<exists>s'. writer_write pr st fuel p meta s = (Ok (), s') \<and>
    view s' = write_spec pr (forward_of (natural_key p) (rank s (payload_namespace p) None [])) p meta (view s)"
proof (rule lawful_store.write_completes [OF assms(1,2)])
  show "\<exists>n. next_version pr v = Inr n" if "view s (payload_namespace p) (payload_key pr p) = Some v" for v
    using wf_next_version [OF assms(4,3) that] by blast
qed (use assms(3,5) in \<open>simp_all add: writable_def\<close>)

theorem write_refines_spec_witness:
  "writable sample_adr \<and> contents_wf sample_prims (mem_view []) \<and>
   (\<exists>s'. writer_write sample_prims (mem_api no_score) 1 sample_adr None [] = (Ok (), s') \<and>
     mem_view s' = write_spec sample_prims
       (forward_of (natural_key sample_adr) (mem_rank no_score [] (payload_namespace sample_adr) None []))
       sample_adr None (mem_view []))"
proof (intro conjI sample_writable contents_wf_empty)
  show "\<exists>s'. writer_write sample_prims (mem_api no_score) 1 sample_adr None [] = (Ok (), s') \<and>
     mem_view s' = write_spec sample_prims
       (forward_of (natural_key sample_adr) (mem_rank no_score [] (payload_namespace sample_adr) None []))
       sample_adr None (mem_view [])"
    by (rule write_refines_spec [OF mem.lawful_store_axioms mem_api_store_total sample_writable(1) contents_wf_empty])
      (simp add: mem_rank_def FORWARD_PAGE_def)
qed

lemma rewrite_unchanged:
  assumes "lawful_store st view rank window"
    and "writer_write pr st fuel p meta s = (Ok (), s1)"
    and "writer_write pr st fuel' p meta' s1 = (Ok (), s2)"
  shows "view s2 = view s1"
proof -
  from lawful_store.write_returns [OF assms(1,2)] obtain fw where
    ver: "\<And>v. view s (payload_namespace p) (payload_key pr p) = Some v \<Longrightarrow>
      v ''content_hash'' \<noteq> Some (JStr (content_hash pr p)) \<Longrightarrow> \<exists>n. next_version pr v = Inr n"
    and 1: "view s1 = write_spec pr fw p meta (view s)" by blast
  from lawful_store.write_returns [OF assms(1,3)] obtain fw' where
    "view s2 = write_spec pr fw' p meta' (view s1)" by blast
  moreover have "write_spec pr fw' p meta' (view s1) = view s1"
    unfolding 1 by (rule write_spec_idem) (blast intro: ver)
  ultimately show ?thesis by simp
qed

text \<open>The record of a payload whose write returned is there.\<close>

lemma written_present:
  assumes "lawful_store st view rank window" and "writer_write pr st fuel p meta s = (Ok (), s1)"
  shows "view s1 (payload_namespace p) (payload_key pr p) \<noteq> None"
proof -
  from lawful_store.write_returns [OF assms] obtain fw where
    "view s1 = write_spec pr fw p meta (view s)" by blast
  then show ?thesis
    by (auto simp: write_spec_def marks_spec_at upsert_spec_def Let_def put_at_def split: option.splits sum.splits)
qed

text \<open>
  C2: Redelivery is harmless: writing a payload again, even with other envelope metadata, leaves
  the contents of the store exactly as the first write left them (no new version, no re-embedding,
  the same marks).
\<close>

theorem write_idempotent:
  assumes "lawful_store st view rank window"
    and "writer_write pr st fuel p meta s = (Ok (), s1)"
    and "writer_write pr st fuel' p meta' s1 = (Ok (), s2)"
  shows "view s2 = view s1"
  using assms by (rule rewrite_unchanged)

theorem write_idempotent_witness:
  "\<exists>s1 s2. writer_write sample_prims (mem_api no_score) 1 sample_adr None [] = (Ok (), s1) \<and>
     writer_write sample_prims (mem_api no_score) 1 sample_adr (Some []) s1 = (Ok (), s2) \<and>
     mem_view s2 = mem_view s1"
proof -
  obtain s1 where 1: "writer_write sample_prims (mem_api no_score) 1 sample_adr None [] = (Ok (), s1)"
    "contents_wf sample_prims (mem_view s1)" "card (fst ` set s1) \<le> 1"
    using mem_write_step [OF contents_wf_empty sample_writable(1), of 1 sample_prims no_score None]
    by (auto simp: FORWARD_PAGE_def)
  obtain s2 where 2: "writer_write sample_prims (mem_api no_score) 1 sample_adr (Some []) s1 = (Ok (), s2)"
    using mem_write_step [OF 1(2) sample_writable(1), of 1 no_score "Some []"] 1(3) by (auto simp: FORWARD_PAGE_def)
  from write_idempotent [OF mem.lawful_store_axioms 1(1) 2] 1(1) 2 show ?thesis by blast
qed

text \<open>
  C3: The stored version counts the changes. After any sequence of writes to one natural key,
  starting where there was no record, the version is the number of times the content hash differed
  from the one before it, and the stored hash is that of the last payload.
\<close>

theorem version_counts_changes:
  assumes "lawful_store st view rank window"
    and "\<forall>p \<in> set ps. p_class p = c \<and> p_project p = prj \<and> p_identifier p = ident" and "ps \<noteq> []"
    and "for_each (\<lambda>p. writer_write pr st fuel p meta) ps s = (Ok (), s')"
    and "view s [''fleet_memory'', prj, payload_type c] (record_identity pr (make_key (payload_type c) prj ident)) = None"
  shows "\<exists>v. view s' [''fleet_memory'', prj, payload_type c] (record_identity pr (make_key (payload_type c) prj ident)) = Some v
    \<and> v ''content_hash'' = Some (JStr (content_hash pr (last ps)))
    \<and> v ''version'' = Some (JInt (int (length (remdups_adj (map (content_hash pr) ps)))))"
  using assms(2-4)
proof (induction ps arbitrary: s' rule: rev_induct)
  case (snoc p ps)
  let ?V = "\<lambda>s. view s [''fleet_memory'', prj, payload_type c] (record_identity pr (make_key (payload_type c) prj ident))"
  from snoc.prems(1) have loc: "payload_namespace p = [''fleet_memory'', prj, payload_type c]"
    "payload_key pr p = record_identity pr (make_key (payload_type c) prj ident)"
    by (auto simp: payload_namespace_def payload_key_def natural_key_def)
  from snoc.prems(3) obtain s1 where 1: "for_each (\<lambda>p. writer_write pr st fuel p meta) ps s = (Ok (), s1)"
    and 2: "writer_write pr st fuel p meta s1 = (Ok (), s')"
    by (auto simp: for_each_append bind_Ok_iff ret_def)
  from lawful_store.write_returns [OF assms(1) 2] obtain fw where
    ver: "\<And>v. ?V s1 = Some v \<Longrightarrow> v ''content_hash'' \<noteq> Some (JStr (content_hash pr p)) \<Longrightarrow>
      \<exists>n. next_version pr v = Inr n"
    and s': "view s' = write_spec pr fw p meta (view s1)" unfolding loc by blast
  from upsert_spec_own [of "view s1" p pr fw meta] ver obtain w where
    w: "upsert_spec pr fw p meta (view s1) (payload_namespace p) (payload_key pr p) = Some w"
      "w ''content_hash'' = Some (JStr (content_hash pr p))"
      "w ''version'' = (case ?V s1 of None \<Rightarrow> Some (JInt 1)
         | Some v \<Rightarrow> if v ''content_hash'' = Some (JStr (content_hash pr p)) then v ''version''
                    else Some (case next_version pr v of Inl e \<Rightarrow> JNull | Inr n \<Rightarrow> n))"
    unfolding loc by blast
  obtain b where final: "?V s' = Some (marked (natural_key p) b w)"
    using w(1) unfolding s' loc by (simp add: write_spec_def marks_spec_at)
  show ?case
  proof (cases "ps = []")
    case True
    with 1 assms(5) have "?V s1 = None" by (simp add: ret_def)
    with final w True show ?thesis by simp
  next
    case False
    have "\<forall>p \<in> set ps. p_class p = c \<and> p_project p = prj \<and> p_identifier p = ident"
      using snoc.prems(1) by simp
    from snoc.IH [OF this False 1] obtain v where v: "?V s1 = Some v"
      "v ''content_hash'' = Some (JStr (content_hash pr (last ps)))"
      "v ''version'' = Some (JInt (int (length (remdups_adj (map (content_hash pr) ps)))))" by blast
    obtain qs q where ps: "ps = qs @ [q]" using False by (cases ps rule: rev_cases) auto
    have adj: "remdups_adj (map (content_hash pr) (ps @ [p])) = remdups_adj (map (content_hash pr) ps)
        @ (if content_hash pr q = content_hash pr p then [] else [content_hash pr p])"
      by (simp add: ps remdups_adj_append_two)
    define n where "n = length (remdups_adj (map (content_hash pr) ps))"
    have v': "v ''content_hash'' = Some (JStr (content_hash pr q))" "v ''version'' = Some (JInt (int n))"
      using v(2,3) by (simp_all add: ps n_def)
    have "w ''version'' = Some (JInt (int (length (remdups_adj (map (content_hash pr) (ps @ [p]))))))"
    proof (cases "content_hash pr q = content_hash pr p")
      case True
      then show ?thesis using w(3) v(1) v' adj by (simp add: n_def)
    next
      case False
      have "next_version pr v = Inr (JInt (int n + 1))" by (simp add: next_version_def v'(2))
      with False show ?thesis using w(3) v(1) v' adj by (simp add: n_def)
    qed
    with final w(2) show ?thesis by simp
  qed
qed simp

theorem version_counts_changes_witness:
  "\<exists>s' v. for_each (\<lambda>p. writer_write sample_prims (mem_api no_score) 1 p None)
       [sample_adr, sample_adr_v2, sample_adr_v2, sample_adr] [] = (Ok (), s')
     \<and> mem_view s' [''fleet_memory'', ''guardkit'', ''adr''] ''adr:guardkit:ADR_2'' = Some v
     \<and> v ''version'' = Some (JInt (int (length (remdups_adj (map (content_hash sample_prims)
          [sample_adr, sample_adr_v2, sample_adr_v2, sample_adr])))))"
proof -
  let ?ps = "[sample_adr, sample_adr_v2, sample_adr_v2, sample_adr]"
  have "\<exists>s'. for_each (\<lambda>p. writer_write sample_prims (mem_api no_score) 1 p None) ?ps [] = (Ok (), s')"
    by (rule mem_writes [OF contents_wf_empty]) (simp_all add: sample_writable FORWARD_PAGE_def)
  then obtain s' where s': "for_each (\<lambda>p. writer_write sample_prims (mem_api no_score) 1 p None) ?ps [] = (Ok (), s')"
    by blast
  have id: "record_identity sample_prims (make_key ''adr'' ''guardkit'' ''ADR_2'') = ''adr:guardkit:ADR_2''"
    by (simp add: record_identity_def sample_prims_def make_key_def)
  have same: "\<forall>p \<in> set ?ps. p_class p = ADRPayload \<and> p_project p = ''guardkit'' \<and> p_identifier p = ''ADR_2''"
    by (simp add: sample_adr_v2_def sample_adr_def)
  have fresh: "mem_view [] [''fleet_memory'', ''guardkit'', payload_type ADRPayload]
      (record_identity sample_prims (make_key (payload_type ADRPayload) ''guardkit'' ''ADR_2'')) = None"
    by (simp add: mem_view_def)
  have "?ps \<noteq> []" by simp
  from version_counts_changes [OF mem.lawful_store_axioms, OF same this s' fresh] s' show ?thesis
    unfolding payload_type.simps id by blast
qed

text \<open>
  A write touches its own record and marks its predecessors, nothing else: every other record
  is what it was, with \<open>superseded_by\<close> set to the writer's natural key exactly when one of the
  payload's references names it. That holds across projects and types.
\<close>

theorem write_marks_predecessors:
  assumes "lawful_store st view rank window"
    and "writer_write pr st fuel p meta s = (Ok (), s')"
    and "(ns, key) \<noteq> (payload_namespace p, payload_key pr p)"
  shows "view s' ns key = map_option
    (\<lambda>v. if \<exists>k \<in> set (p_supersedes p). pred_loc pr k = Some (ns, key)
         then v(''superseded_by'' \<mapsto> JStr (natural_key p)) else v) (view s ns key)"
proof -
  from lawful_store.write_returns [OF assms(1,2)] obtain fw where
    "view s' = write_spec pr fw p meta (view s)" by blast
  then show ?thesis
    using upsert_spec_other [OF assms(3)]
    by (cases "view s ns key") (simp_all add: write_spec_def marks_spec_at mark_targets_def marked_def)
qed

lemma wf_singleton:
  assumes "writable p"
  shows "contents_wf pr (mem_view [((payload_namespace p, payload_key pr p), stored_value pr p (content_hash pr p) (JInt 1) None)])"
  using record_wf_stored [of p 1 pr "content_hash pr p" None] assms by (auto simp: contents_wf_def mem_view_def writable_def)

definition sample_adr_1 :: payload where
  "sample_adr_1 = sample_adr\<lparr>p_identifier := ''ADR_1'', p_supersedes := []\<rparr>"

lemma sample_adr_1_writable: "writable sample_adr_1"
  by (simp add: writable_def sample_adr_1_def payload_ok_def natural_key_def sample_adr_def
      registered_code full_class_def char_class_defs)

definition sample_store :: mem_store where
  "sample_store = [((payload_namespace sample_adr_1, payload_key sample_prims sample_adr_1),
     stored_value sample_prims sample_adr_1 (content_hash sample_prims sample_adr_1) (JInt 1) None)]"

lemma sample_store_write:
  "\<exists>s'. writer_write sample_prims (mem_api no_score) 1 sample_adr None sample_store = (Ok (), s')"
  using mem_write_step [OF wf_singleton [OF sample_adr_1_writable] sample_writable(1), of sample_prims 1 no_score None]
  by (auto simp: FORWARD_PAGE_def sample_store_def)

theorem write_marks_predecessors_witness:
  "\<exists>s' v. writer_write sample_prims (mem_api no_score) 1 sample_adr None sample_store = (Ok (), s') \<and>
     mem_view s' [''fleet_memory'', ''guardkit'', ''adr''] ''adr:guardkit:ADR_1'' = Some v \<and>
     v ''superseded_by'' = Some (JStr ''adr:guardkit:ADR_2'')"
proof -
  let ?ns = "[''fleet_memory'', ''guardkit'', ''adr'']" and ?k = "''adr:guardkit:ADR_1''"
  obtain s' where s': "writer_write sample_prims (mem_api no_score) 1 sample_adr None sample_store = (Ok (), s')"
    using sample_store_write by blast
  have ne: "(?ns, ?k) \<noteq> (payload_namespace sample_adr, payload_key sample_prims sample_adr)"
    by (simp add: payload_key_def record_identity_def sample_prims_def natural_key_def make_key_def sample_adr_def)
  have "\<exists>k \<in> set (p_supersedes sample_adr). pred_loc sample_prims k = Some (?ns, ?k)"
    by (simp add: sample_adr_def pred_loc_def record_identity_def sample_prims_def)
  moreover have "natural_key sample_adr = ''adr:guardkit:ADR_2''"
    by (simp add: sample_adr_def natural_key_def make_key_def)
  moreover have "\<exists>v. mem_view sample_store ?ns ?k = Some v"
    by (simp add: sample_store_def mem_view_def payload_namespace_def payload_key_def record_identity_def
        sample_prims_def natural_key_def make_key_def sample_adr_1_def sample_adr_def)
  ultimately show ?thesis
    using write_marks_predecessors [OF mem.lawful_store_axioms, OF s' ne] s' by auto
qed

context lawful_store
begin

lemma writes_hold:
  assumes "distinct (map (payload_key pr) qs)" and "for_each (\<lambda>p. writer_write pr st fuel p meta) qs s = (Ok (), s')"
  shows "\<forall>q \<in> set qs. \<exists>v. view s' (payload_namespace q) (payload_key pr q) = Some v
    \<and> v ''content_hash'' = Some (JStr (content_hash pr q))"
  using assms
proof (induction qs arbitrary: s' rule: rev_induct)
  case (snoc p qs)
  from snoc.prems(2) obtain s1 where 1: "for_each (\<lambda>p. writer_write pr st fuel p meta) qs s = (Ok (), s1)"
    and 2: "writer_write pr st fuel p meta s1 = (Ok (), s')"
    by (auto simp: for_each_append bind_Ok_iff ret_def)
  from write_returns [OF 2] obtain fw where
    ver: "\<And>v. view s1 (payload_namespace p) (payload_key pr p) = Some v \<Longrightarrow>
      v ''content_hash'' \<noteq> Some (JStr (content_hash pr p)) \<Longrightarrow> \<exists>n. next_version pr v = Inr n"
    and s': "view s' = write_spec pr fw p meta (view s1)" by blast
  have old: "\<exists>v. view s' (payload_namespace q) (payload_key pr q) = Some v
    \<and> v ''content_hash'' = Some (JStr (content_hash pr q))" if "q \<in> set qs" for q
  proof -
    from snoc.IH [OF _ 1] snoc.prems(1) that obtain v where
      v: "view s1 (payload_namespace q) (payload_key pr q) = Some v" "v ''content_hash'' = Some (JStr (content_hash pr q))"
      by auto
    have "(payload_namespace q, payload_key pr q) \<noteq> (payload_namespace p, payload_key pr p)"
      using snoc.prems(1) that by (auto simp: image_iff)
    from upsert_spec_other [OF this] v show ?thesis by (simp add: s' write_spec_def marks_spec_at)
  qed
  from upsert_spec_own [of "view s1" p pr fw meta, OF ver] obtain w where
    "upsert_spec pr fw p meta (view s1) (payload_namespace p) (payload_key pr p) = Some w"
    "w ''content_hash'' = Some (JStr (content_hash pr p))" by blast
  then have "\<exists>v. view s' (payload_namespace p) (payload_key pr p) = Some v
    \<and> v ''content_hash'' = Some (JStr (content_hash pr p))"
    by (simp add: s' write_spec_def marks_spec_at)
  with old show ?case by auto
qed simp

end

text \<open>
  A batch collapses to one write per natural key, and the last payload of each key wins: when
  the identities of the batch's keys differ, the store ends up holding, for every key of the batch,
  the content hash of the last payload with that key.
\<close>

theorem batch_last_wins:
  assumes "lawful_store st view rank window"
    and "write_batch pr st fuel ps s = (Ok (), s')"
    and "inj_on (record_identity pr) (natural_key ` set ps)" and "p \<in> set ps"
  shows "\<exists>q v. q = last (filter (\<lambda>r. natural_key r = natural_key p) ps) \<and>
    view s' (payload_namespace q) (payload_key pr q) = Some v \<and>
    v ''content_hash'' = Some (JStr (content_hash pr q))"
proof -
  let ?d = "collapse_batch ps" and ?q = "last (filter (\<lambda>r. natural_key r = natural_key p) ps)"
  note keys = collapse_batch_keys [of ps]
  have "map (payload_key pr) (map snd ?d) = map (record_identity pr) (map fst ?d)"
    using keys by (auto simp: payload_key_def)
  moreover have "inj_on (record_identity pr) (set (map fst ?d))" using keys assms(3) by simp
  ultimately have "distinct (map (payload_key pr) (map snd ?d))"
    using keys by (simp only: distinct_map)
  from lawful_store.writes_hold [OF assms(1) this assms(2) [unfolded write_batch_def]]
  have hold: "\<forall>q \<in> snd ` set ?d. \<exists>v. view s' (payload_namespace q) (payload_key pr q) = Some v
    \<and> v ''content_hash'' = Some (JStr (content_hash pr q))" by simp
  have "dict_get ?d (natural_key p) = Some ?q" using assms(4) by (simp add: collapse_batch_last)
  then have "?q \<in> snd ` set ?d" by (force simp: dict_get_def dest: map_of_SomeD)
  with hold show ?thesis by blast
qed

theorem batch_last_wins_witness:
  "\<exists>s' v. write_batch sample_prims (mem_api no_score) 1 [sample_adr, sample_adr_1, sample_adr_v2] [] = (Ok (), s') \<and>
     mem_view s' (payload_namespace sample_adr_v2) (payload_key sample_prims sample_adr_v2) = Some v \<and>
     v ''content_hash'' = Some (JStr (content_hash sample_prims sample_adr_v2))"
proof -
  let ?ps = "[sample_adr, sample_adr_1, sample_adr_v2]"
  have nk: "natural_key sample_adr_v2 = natural_key sample_adr" "natural_key sample_adr_1 \<noteq> natural_key sample_adr"
    by (simp_all add: natural_key_def sample_adr_v2_def sample_adr_1_def sample_adr_def make_key_def)
  then have d: "map snd (collapse_batch ?ps) = [sample_adr_v2, sample_adr_1]"
    by (simp add: collapse_batch_def dict_set_def)
  have "\<exists>s'. write_batch sample_prims (mem_api no_score) 1 ?ps [] = (Ok (), s')"
    unfolding write_batch_def d
    by (rule mem_writes [OF contents_wf_empty]) (simp_all add: sample_writable sample_adr_1_writable FORWARD_PAGE_def)
  then obtain s' where s': "write_batch sample_prims (mem_api no_score) 1 ?ps [] = (Ok (), s')" by blast
  have "inj_on (record_identity sample_prims) (natural_key ` set ?ps)"
    by (simp add: inj_on_def record_identity_def sample_prims_def)
  from batch_last_wins [OF mem.lawful_store_axioms, OF s' this, of sample_adr] s' nk show ?thesis by auto
qed

definition declares_ok :: "stored \<Rightarrow> bool" where
  "declares_ok v \<longleftrightarrow>
     v ''supersedes'' = None
     \<or> (\<exists>xs n. v ''supersedes'' = Some (JList xs) \<and> v ''natural_key'' = Some (JStr n) \<and> n \<noteq> [])"

lemma forward_of_none: "\<forall>it \<in> set its. i_value it ''supersedes'' = None \<Longrightarrow> forward_of nk its = JNull"
  by (induction its) (simp_all add: forward_of_def)

lemma forward_of_found:
  "\<forall>it \<in> set its. declares_ok (i_value it) \<Longrightarrow>
   \<exists>it \<in> set its. \<exists>xs. i_value it ''supersedes'' = Some (JList xs) \<and> JStr nk \<in> set xs \<Longrightarrow>
   \<exists>m. forward_of nk its = JStr m \<and> m \<noteq> []"
proof (induction its)
  case (Cons it its)
  show ?case
  proof (cases "\<exists>xs. i_value it ''supersedes'' = Some (JList xs) \<and> JStr nk \<in> set xs")
    case True
    with Cons.prems(1) show ?thesis by (auto simp: declares_ok_def forward_of_def py_in_def py_get_def)
  next
    case False
    with Cons have "\<exists>m. forward_of nk its = JStr m \<and> m \<noteq> []" by auto
    moreover have "forward_of nk (it # its) = forward_of nk its"
      using False Cons.prems(1) by (auto simp: declares_ok_def forward_of_def py_in_def)
    ultimately show ?thesis by simp
  qed
qed simp

text \<open>
  C6: A declared supersession reaches a predecessor that is written later: if any record of the
  payload's namespace, on any page, lists the payload's natural key in its \<open>supersedes\<close>, the
  fresh record is written with \<open>superseded_by\<close>.
\<close>

theorem forward_supersession_marks:
  assumes "lawful_store st view rank window" and "store_total st" and "writable p" and "contents_wf pr (view s)"
    and "length (rank s (payload_namespace p) None []) < FORWARD_PAGE * fuel"
    and "\<forall>ns k v. view s ns k = Some v \<longrightarrow> declares_ok v"
    and "view s (payload_namespace p) k = Some v" and "v ''supersedes'' = Some (JList xs)"
    and "JStr (natural_key p) \<in> set xs" and "view s (payload_namespace p) (payload_key pr p) = None"
  shows "\<exists>s' w m. writer_write pr st fuel p meta s = (Ok (), s') \<and>
    view s' (payload_namespace p) (payload_key pr p) = Some w \<and> w ''superseded_by'' = Some (JStr m)"
proof -
  let ?its = "rank s (payload_namespace p) None []"
  have "\<exists>s'. writer_write pr st fuel p meta s = (Ok (), s') \<and> view s' =
      write_spec pr (forward_of (natural_key p) ?its) p meta (view s)"
    by (rule lawful_store.write_completes [OF assms(1,2)]) (use assms(3,5,10) in \<open>simp_all add: writable_def\<close>)
  then obtain s' where s': "writer_write pr st fuel p meta s = (Ok (), s')"
    "view s' = write_spec pr (forward_of (natural_key p) ?its) p meta (view s)" by blast
  have "\<forall>it \<in> set ?its. declares_ok (i_value it)"
    using lawful_store.rank_sound [OF assms(1)] assms(6) by blast
  moreover have "\<exists>it \<in> set ?its. \<exists>xs. i_value it ''supersedes'' = Some (JList xs) \<and> JStr (natural_key p) \<in> set xs"
    using lawful_store.rank_complete [OF assms(1,7), of "payload_namespace p" "[]"] assms(8,9)
    by (auto simp: filter_matches_def)
  ultimately obtain m where "forward_of (natural_key p) ?its = JStr m" "m \<noteq> []"
    using forward_of_found by blast
  then obtain w where w: "upsert_spec pr (forward_of (natural_key p) ?its) p meta (view s)
      (payload_namespace p) (payload_key pr p) = Some w" "w ''superseded_by'' = Some (JStr m)"
    by (simp add: upsert_spec_def Let_def assms(10) set_mark_def)
  let ?b = "(payload_namespace p, payload_key pr p) \<in> mark_targets pr (p_supersedes p)"
  have "view s' (payload_namespace p) (payload_key pr p) = Some (marked (natural_key p) ?b w)"
    using s'(2) w(1) by (simp add: write_spec_def marks_spec_at)
  moreover have "\<exists>m. marked (natural_key p) ?b w ''superseded_by'' = Some (JStr m)"
    using w(2) by (simp add: marked_def)
  ultimately show ?thesis using s'(1) by blast
qed

definition sample_successor :: mem_store where
  "sample_successor = [((payload_namespace sample_adr, payload_key sample_prims sample_adr),
     stored_value sample_prims sample_adr (content_hash sample_prims sample_adr) (JInt 1) None)]"

lemma stored_supersedes:
  "stored_value pr p h n meta ''supersedes'' =
     (if p_supersedes p = [] then None else Some (JList (map JStr (p_supersedes p))))"
  by (simp add: stored_value_def with_meta_def with_supersedes_def base_record_def split: option.splits)

theorem forward_supersession_marks_witness:
  "\<exists>s' w m. writer_write sample_prims (mem_api no_score) 1 sample_adr_1 None sample_successor = (Ok (), s') \<and>
    mem_view s' (payload_namespace sample_adr_1) (payload_key sample_prims sample_adr_1) = Some w \<and>
    w ''superseded_by'' = Some (JStr m)"
proof -
  let ?v = "stored_value sample_prims sample_adr (content_hash sample_prims sample_adr) (JInt 1) None"
  have sup: "?v ''supersedes'' = Some (JList [JStr ''adr:guardkit:ADR_1''])"
    by (simp add: stored_supersedes) (simp add: sample_adr_def)
  have view: "mem_view sample_successor ns k =
      (if (ns, k) = (payload_namespace sample_adr, payload_key sample_prims sample_adr) then Some ?v else None)" for ns k
    by (auto simp: sample_successor_def mem_view_def)
  have ns: "payload_namespace sample_adr_1 = payload_namespace sample_adr"
    by (simp add: payload_namespace_def sample_adr_1_def)
  have key: "payload_key sample_prims sample_adr_1 \<noteq> payload_key sample_prims sample_adr"
    by (simp add: payload_key_def record_identity_def sample_prims_def natural_key_def make_key_def sample_adr_1_def
        sample_adr_def)
  show ?thesis
  proof (rule forward_supersession_marks [OF mem.lawful_store_axioms mem_api_store_total sample_adr_1_writable])
    show "contents_wf sample_prims (mem_view sample_successor)"
      unfolding sample_successor_def by (rule wf_singleton [OF sample_writable(1)])
    show "length (mem_rank no_score sample_successor (payload_namespace sample_adr_1) None []) < FORWARD_PAGE * 1"
      using mem_rank_length [of no_score sample_successor "payload_namespace sample_adr_1" None "[]"]
      by (simp add: sample_successor_def FORWARD_PAGE_def)
    show "\<forall>ns k v. mem_view sample_successor ns k = Some v \<longrightarrow> declares_ok v"
      using sup by (auto simp: view declares_ok_def natural_key_def make_key_def)
    show "mem_view sample_successor (payload_namespace sample_adr_1) (payload_key sample_prims sample_adr) = Some ?v"
      by (simp add: view ns)
    show "JStr (natural_key sample_adr_1) \<in> set [JStr ''adr:guardkit:ADR_1'']"
      by (simp add: natural_key_def make_key_def sample_adr_1_def sample_adr_def)
    show "mem_view sample_successor (payload_namespace sample_adr_1) (payload_key sample_prims sample_adr_1) = None"
      using key by (simp add: view)
  qed (rule sup)
qed

text \<open>
  C7: A mark from another project does not survive a change of the predecessor: the versioned
  update rebuilds the record from the payload and looks for successors in the payload's own
  namespace only, so when none is declared there the record loses \<open>superseded_by\<close>, whoever
  had set it.
\<close>

theorem changed_rewrite_drops_mark:
  assumes "lawful_store st view rank window"
    and "writer_write pr st fuel p meta s = (Ok (), s')"
    and "view s (payload_namespace p) (payload_key pr p) = Some v"
    and "v ''content_hash'' \<noteq> Some (JStr (content_hash pr p))"
    and "forward_of (natural_key p) (rank s (payload_namespace p) None []) = JNull"
    and "\<forall>k \<in> set (p_supersedes p). pred_loc pr k \<noteq> Some (payload_namespace p, payload_key pr p)"
  shows "\<exists>w. view s' (payload_namespace p) (payload_key pr p) = Some w \<and> w ''superseded_by'' = None"
proof -
  from lawful_store.write_returns [OF assms(1,2)] assms(3-5) obtain n where
    n: "next_version pr v = Inr n" and s': "view s' = write_spec pr JNull p meta (view s)" by auto
  have "upsert_spec pr JNull p meta (view s) (payload_namespace p) (payload_key pr p)
      = Some (stored_value pr p (content_hash pr p) n meta)"
    using assms(3,4) n by (simp add: upsert_spec_def Let_def set_mark_def)
  moreover have "(payload_namespace p, payload_key pr p) \<notin> mark_targets pr (p_supersedes p)"
    using assms(6) by (auto simp: mark_targets_def)
  ultimately show ?thesis by (simp add: s' write_spec_def marks_spec_at)
qed

definition sample_marked :: mem_store where
  "sample_marked = [((payload_namespace sample_adr_1, payload_key sample_prims sample_adr_1),
     (stored_value sample_prims sample_adr_1 ''old'' (JInt 1) None)(''superseded_by'' \<mapsto> JStr ''adr:other:ADR_9''))]"

theorem changed_rewrite_drops_mark_witness:
  "\<exists>s' v w. writer_write sample_prims (mem_api no_score) 1 sample_adr_1 None sample_marked = (Ok (), s') \<and>
    mem_view sample_marked (payload_namespace sample_adr_1) (payload_key sample_prims sample_adr_1) = Some v \<and>
    v ''superseded_by'' = Some (JStr ''adr:other:ADR_9'') \<and>
    mem_view s' (payload_namespace sample_adr_1) (payload_key sample_prims sample_adr_1) = Some w \<and>
    w ''superseded_by'' = None"
proof -
  let ?v = "(stored_value sample_prims sample_adr_1 ''old'' (JInt 1) None)(''superseded_by'' \<mapsto> JStr ''adr:other:ADR_9'')"
  have none: "p_supersedes sample_adr_1 = []" by (simp add: sample_adr_1_def)
  have wf: "contents_wf sample_prims (mem_view sample_marked)"
    using sample_adr_1_writable record_wf_mark [OF record_wf_stored [of sample_adr_1 1 sample_prims "''old''" None]]
    by (auto simp: contents_wf_def mem_view_def sample_marked_def writable_def)
  obtain s' where s': "writer_write sample_prims (mem_api no_score) 1 sample_adr_1 None sample_marked = (Ok (), s')"
    using mem_write_step [OF wf sample_adr_1_writable, of 1 no_score None]
    by (auto simp: FORWARD_PAGE_def sample_marked_def)
  have v: "mem_view sample_marked (payload_namespace sample_adr_1) (payload_key sample_prims sample_adr_1) = Some ?v"
    by (simp add: sample_marked_def mem_view_def)
  have h: "?v ''content_hash'' \<noteq> Some (JStr (content_hash sample_prims sample_adr_1))"
    by (simp add: content_hash_def sample_prims_def dumps_def)
  have "i_value it ''supersedes'' = None"
    if "it \<in> set (mem_rank no_score sample_marked (payload_namespace sample_adr_1) None [])" for it
  proof -
    have "mem_view sample_marked (i_namespace it) (i_key it) = Some (i_value it)"
      using mem.rank_sound [OF that] by blast
    then have "i_value it = ?v" by (simp add: sample_marked_def mem_view_def split: if_splits)
    then show ?thesis using none by (simp add: stored_supersedes)
  qed
  then have "\<forall>it \<in> set (mem_rank no_score sample_marked (payload_namespace sample_adr_1) None []).
      i_value it ''supersedes'' = None" by blast
  then have f: "forward_of (natural_key sample_adr_1)
      (mem_rank no_score sample_marked (payload_namespace sample_adr_1) None []) = JNull"
    by (rule forward_of_none)
  show ?thesis
    using changed_rewrite_drops_mark [OF mem.lawful_store_axioms, OF s' v h f] none s' v by auto
qed

text \<open>
  Whatever happens during a write (a call of the store that raises, one that raises after
  committing, an error between the record and the marks), the records of payload types stay well
  formed: keyed by the identity of their natural key, in the namespace it names, at version 1 or more.
\<close>

theorem write_keeps_contents_wf:
  assumes "lawful_store st view rank window" and "payload_ok p" and "contents_wf pr (view s)"
  shows "contents_wf pr (view (snd (writer_write pr st fuel p meta s)))"
  by (rule keepsD [OF lawful_store.write_keeps_wf [OF assms(1,2)] assms(3)])

theorem write_keeps_contents_wf_witness:
  "payload_ok sample_adr \<and> contents_wf sample_prims (mem_view sample_store) \<and>
   contents_wf sample_prims (mem_view (snd (writer_write sample_prims (mem_api no_score) 1 sample_adr None sample_store)))"
proof (intro conjI sample_adr_ok)
  show "contents_wf sample_prims (mem_view sample_store)"
    unfolding sample_store_def by (rule wf_singleton [OF sample_adr_1_writable])
  then show "contents_wf sample_prims (mem_view (snd (writer_write sample_prims (mem_api no_score) 1 sample_adr None sample_store)))"
    by (rule write_keeps_contents_wf [OF mem.lawful_store_axioms sample_adr_ok])
qed

end
