(* ===== verification/Chunker.thy ===== *)
theory Chunker
  imports Errors
begin

text \<open>
  The prose chunker (\<open>relay/chunker.py\<close>). The tokenizer is a package outside the repository: its
  \<open>encode\<close> and \<open>decode\<close> are arguments. \<open>encode\<close> is called with its defaults, under which
  tiktoken refuses a text that spells a special token such as \<open><|endoftext|>\<close> with a
  \<open>ValueError\<close>; so it gives token numbers or raises, and everything that measures a text can raise
  with it. The product \<open>int(target_tokens * overlap_ratio)\<close> is a floating-point computation and
  enters as the number \<open>overlap_tokens\<close>.
\<close>

record tokenizer =
  encode :: "string \<Rightarrow> exn + nat list"
  decode :: "nat list \<Rightarrow> string"

definition token_count :: "tokenizer \<Rightarrow> string \<Rightarrow> exn + int" where
  "token_count tk text = (case encode tk text of Inl e \<Rightarrow> Inl e | Inr tokens \<Rightarrow> Inr (int (length tokens)))"

subsection \<open>Sections\<close>

text \<open>\<open>re.match(r"^#{1,6}\s", line)\<close>: one to six hashes, then white space.\<close>

definition is_heading :: "string \<Rightarrow> bool" where
  "is_heading line \<longleftrightarrow>
     (let hashes = takeWhile (\<lambda>c. c = CHR 0x23) line; rest = dropWhile (\<lambda>c. c = CHR 0x23) line in
      1 \<le> length hashes \<and> length hashes \<le> 6 \<and> rest \<noteq> [] \<and> is_space (hd rest))"

abbreviation newline :: char where "newline \<equiv> CHR 0x0A"

fun collect_sections :: "string list \<Rightarrow> string list \<Rightarrow> string list" where
  "collect_sections current [] = (if current \<noteq> [] then [join [newline] current] else [])"
| "collect_sections current (line # lines) =
     (if is_heading line \<and> current \<noteq> []
      then (join [newline] current @ [newline]) # collect_sections [line] lines
      else collect_sections (current @ [line]) lines)"

definition split_into_sections :: "string \<Rightarrow> string list" where
  "split_into_sections text =
     (let sections = collect_sections [] (split_on newline text) in
      if sections = [] then [text] else sections)"

subsection \<open>Windows of a large section\<close>

text \<open>Python's slice \<open>xs[a:b]\<close>, where a negative bound counts from the end.\<close>

definition py_bound :: "'a list \<Rightarrow> int \<Rightarrow> nat" where
  "py_bound xs i = (if 0 \<le> i then min (nat i) (length xs) else nat (int (length xs) + i))"

definition py_slice :: "'a list \<Rightarrow> int \<Rightarrow> int \<Rightarrow> 'a list" where
  "py_slice xs a b = drop (py_bound xs a) (take (py_bound xs b) xs)"

text \<open>
  The \<open>while\<close> loop over the token stream; \<open>None\<close> when it is still running after the given
  number of rounds.
\<close>

fun windows :: "'a list \<Rightarrow> int \<Rightarrow> int \<Rightarrow> nat \<Rightarrow> int \<Rightarrow> 'a list list option" where
  "windows tokens target overlap 0 start = None"
| "windows tokens target overlap (Suc n) start =
     (if start < int (length tokens) then
        (let end = min (start + target) (int (length tokens)); w = py_slice tokens start end in
         if int (length tokens) \<le> end then Some [w]
         else map_option ((#) w)
           (windows tokens target overlap n (if 0 < overlap then end - overlap else end)))
      else Some [])"

text \<open>The texts of the windows; \<open>Stuck\<close> when the loop never ends.\<close>

definition split_large_section :: "tokenizer \<Rightarrow> string \<Rightarrow> int \<Rightarrow> int \<Rightarrow> string list res" where
  "split_large_section tk section target overlap =
     (case encode tk section of
        Inl e \<Rightarrow> Exn e
      | Inr tokens \<Rightarrow>
          if int (length tokens) \<le> target then Ok [section]
          else case windows tokens target overlap (Suc (length tokens)) 0 of
            None \<Rightarrow> Stuck
          | Some ws \<Rightarrow> Ok (map (decode tk) ws))"

definition extract_tail_tokens :: "tokenizer \<Rightarrow> string \<Rightarrow> int \<Rightarrow> exn + string" where
  "extract_tail_tokens tk text num =
     (case encode tk text of
        Inl e \<Rightarrow> Inl e
      | Inr tokens \<Rightarrow>
          if int (length tokens) \<le> num then Inr text
          else Inr (decode tk (py_slice tokens (- num) (int (length tokens))) @ '' ''))"

subsection \<open>Chunks\<close>

record chunk =
  c_index :: nat
  c_text :: string
  c_source_ref :: "string option"
  c_project :: string

definition add_chunk :: "string option \<Rightarrow> string \<Rightarrow> string \<Rightarrow> chunk list \<Rightarrow> chunk list" where
  "add_chunk source_ref project text chunks =
     chunks @ [\<lparr>c_index = length chunks, c_text = strip text, c_source_ref = source_ref, c_project = project\<rparr>]"

definition finalize :: "string option \<Rightarrow> string \<Rightarrow> string \<Rightarrow> chunk list \<Rightarrow> chunk list" where
  "finalize source_ref project text chunks =
     (if strip text \<noteq> [] then add_chunk source_ref project text chunks else chunks)"

text \<open>What the chunk after a full one starts with, before its section.\<close>

definition overlap_buffer :: "tokenizer \<Rightarrow> string \<Rightarrow> int \<Rightarrow> exn + string" where
  "overlap_buffer tk current overlap =
     (if 0 < overlap then extract_tail_tokens tk current overlap else Inr [])"

fun chunk_sections ::
  "tokenizer \<Rightarrow> int \<Rightarrow> int \<Rightarrow> string option \<Rightarrow> string \<Rightarrow> chunk list \<Rightarrow> string \<Rightarrow> string list \<Rightarrow> chunk list res" where
  "chunk_sections tk target overlap sref prj chunks current [] = Ok (finalize sref prj current chunks)"
| "chunk_sections tk target overlap sref prj chunks current (section # sections) =
     (case token_count tk section of
        Inl e \<Rightarrow> Exn e
      | Inr section_tokens \<Rightarrow>
          if target < section_tokens then
            (case split_large_section tk section target overlap of
               Exn e \<Rightarrow> Exn e
             | Stuck \<Rightarrow> Stuck
             | Ok texts \<Rightarrow>
                 chunk_sections tk target overlap sref prj
                   (fold (add_chunk sref prj) texts (finalize sref prj current chunks))
                   (if strip current \<noteq> [] then [] else current) sections)
          else if current = [] then chunk_sections tk target overlap sref prj chunks section sections
          else (case token_count tk (current @ section) of
             Inl e \<Rightarrow> Exn e
           | Inr both_tokens \<Rightarrow>
               if target < both_tokens then
                 (case overlap_buffer tk current overlap of
                    Inl e \<Rightarrow> Exn e
                  | Inr buffer \<Rightarrow>
                      chunk_sections tk target overlap sref prj (add_chunk sref prj current chunks)
                        (buffer @ section) sections)
               else chunk_sections tk target overlap sref prj chunks (current @ section) sections))"

definition chunk_prose ::
  "tokenizer \<Rightarrow> string \<Rightarrow> int \<Rightarrow> int \<Rightarrow> string option \<Rightarrow> string \<Rightarrow> chunk list res" where
  "chunk_prose tk body target overlap sref prj =
     (if body = [] \<or> strip body = [] then Ok []
      else chunk_sections tk target overlap sref prj [] [] (split_into_sections body))"

subsection \<open>Sections lose nothing and start at headings\<close>

lemma collect_sections_join:
  "current \<noteq> [] \<or> lines \<noteq> [] \<Longrightarrow> concat (collect_sections current lines) = join [newline] (current @ lines)"
proof (induction current lines rule: collect_sections.induct)
  case (2 current line lines)
  have snoc: "join [newline] (current @ line # lines) = join [newline] current @ [newline] @ join [newline] (line # lines)"
    if "current \<noteq> []"
    using that by (induction current rule: list_nonempty_induct) (simp_all add: join_Cons)
  show ?case using 2 snoc by auto
qed simp

definition section_ok :: "string list \<Rightarrow> bool" where
  "section_ok lines \<longleftrightarrow> lines \<noteq> [] \<and> list_all (\<lambda>l. \<not> is_heading l) (tl lines)"

lemma collect_sections_shape:
  "current = [] \<or> section_ok current \<Longrightarrow>
   \<exists>groups. concat groups = current @ lines \<and> list_all section_ok groups
     \<and> collect_sections current lines = map (\<lambda>g. join [newline] g @ [newline]) (butlast groups)
         @ (if groups = [] then [] else [join [newline] (last groups)])
     \<and> (\<forall>g \<in> set (tl groups). is_heading (hd g))"
proof (induction current lines rule: collect_sections.induct)
  case (1 current)
  show ?case
  proof (cases "current = []")
    case True
    then show ?thesis by (intro exI [of _ "[]"]) simp
  next
    case False
    with 1 show ?thesis by (intro exI [of _ "[current]"]) simp
  qed
next
  case (2 current line lines)
  show ?case
  proof (cases "is_heading line \<and> current \<noteq> []")
    case True
    have "[line] = [] \<or> section_ok [line]" by (simp add: section_ok_def)
    from "2.IH"(1) [OF True this] obtain groups where
      g: "concat groups = [line] @ lines" "list_all section_ok groups"
        "collect_sections [line] lines = map (\<lambda>g. join [newline] g @ [newline]) (butlast groups)
           @ (if groups = [] then [] else [join [newline] (last groups)])"
        "\<forall>g \<in> set (tl groups). is_heading (hd g)" by blast
    then obtain g0 gs where gs: "groups = g0 # gs" by (cases groups) auto
    have "hd g0 = line" using g(1,2) gs by (cases g0) (auto simp: section_ok_def)
    with g gs True "2.prems" show ?thesis
      by (intro exI [of _ "current # groups"]) auto
  next
    case False
    have "section_ok (current @ [line])" using "2.prems" False by (cases current) (auto simp: section_ok_def)
    with "2.IH"(2) False obtain groups where
      "concat groups = (current @ [line]) @ lines" "list_all section_ok groups"
        "collect_sections (current @ [line]) lines = map (\<lambda>g. join [newline] g @ [newline]) (butlast groups)
           @ (if groups = [] then [] else [join [newline] (last groups)])"
        "\<forall>g \<in> set (tl groups). is_heading (hd g)" by auto
    with False show ?thesis by (intro exI [of _ groups]) auto
  qed
qed

lemma split_into_sections_eq: "split_into_sections text = collect_sections [] (split_on newline text)"
proof -
  have "collect_sections current lines \<noteq> []" if "current \<noteq> [] \<or> lines \<noteq> []" for current lines
    using that by (induction current lines rule: collect_sections.induct) auto
  then show ?thesis by (simp add: split_into_sections_def Let_def)
qed

text \<open>
  Splitting at headings loses nothing and never separates a heading from its text: the sections
  concatenate to the text, the lines fall into groups of which every one after the first begins
  with a heading, and no heading stands inside a group.
\<close>

theorem sections_lossless:
  "concat (split_into_sections text) = text \<and>
   (\<exists>groups. concat groups = split_on newline text \<and> groups \<noteq> [] \<and> list_all section_ok groups \<and>
      split_into_sections text = map (\<lambda>g. join [newline] g @ [newline]) (butlast groups) @ [join [newline] (last groups)] \<and>
      (\<forall>g \<in> set (tl groups). is_heading (hd g)))"
proof (intro conjI)
  show "concat (split_into_sections text) = text"
    using collect_sections_join [of "[]" "split_on newline text"] by (simp add: split_into_sections_eq)
  from collect_sections_shape [of "[]" "split_on newline text"] obtain groups where
    "concat groups = split_on newline text" "list_all section_ok groups"
    "split_into_sections text = map (\<lambda>g. join [newline] g @ [newline]) (butlast groups)
       @ (if groups = [] then [] else [join [newline] (last groups)])"
    "\<forall>g \<in> set (tl groups). is_heading (hd g)" by (auto simp: split_into_sections_eq)
  moreover from calculation have "groups \<noteq> []" by (metis concat.simps(1) split_on_not_Nil)
  ultimately show "\<exists>groups. concat groups = split_on newline text \<and> groups \<noteq> [] \<and> list_all section_ok groups \<and>
      split_into_sections text = map (\<lambda>g. join [newline] g @ [newline]) (butlast groups) @ [join [newline] (last groups)] \<and>
      (\<forall>g \<in> set (tl groups). is_heading (hd g))"
    by (intro exI [of _ groups]) auto
qed

theorem sections_lossless_witness:
  "concat (split_into_sections (''intro'' @ [newline] @ ''# A'' @ [newline] @ ''x'')) = ''intro'' @ [newline] @ ''# A'' @ [newline] @ ''x'' \<and>
   split_into_sections (''intro'' @ [newline] @ ''# A'' @ [newline] @ ''x'') = [''intro'' @ [newline], ''# A'' @ [newline] @ ''x'']"
  using sections_lossless [of "''intro'' @ [newline] @ ''# A'' @ [newline] @ ''x''"]
  by (simp add: split_into_sections_def is_heading_def char_class_defs in_range_def)

subsection \<open>Windows cover the token stream\<close>

text \<open>The step from one window to the next: positive exactly when the overlap is less than the target.\<close>

lemma windows_nonterm:
  assumes "start \<le> 0" and "int (length tokens) > max 0 target" and "target \<le> (if 0 < overlap then overlap else 0)"
  shows "windows tokens target overlap n start = None"
  using assms(1)
proof (induction n arbitrary: start)
  case (Suc n)
  let ?next = "if 0 < overlap then start + target - overlap else start + target"
  have e: "min (start + target) (int (length tokens)) = start + target"
    and lt: "start < int (length tokens)" "start + target < int (length tokens)"
    using Suc.prems assms(2) by linarith+
  have "?next \<le> 0" using Suc.prems assms(3) by (auto split: if_splits)
  from Suc.IH [OF this] lt show ?case by (simp add: Let_def e)
qed simp

lemma py_slice_nat: "a \<le> b \<Longrightarrow> b \<le> length xs \<Longrightarrow> py_slice xs (int a) (int b) = take (b - a) (drop a xs)"
  by (simp add: py_slice_def py_bound_def drop_take min_def)

lemma windows_cover:
  assumes "0 < t" and "v < t" and "s + v \<le> length tokens" and "length tokens < s + n" and "s < length tokens"
  shows "\<exists>ws. windows tokens (int t) (int v) n (int s) = Some ws \<and> ws \<noteq> []
    \<and> hd ws @ concat (map (drop v) (tl ws)) = drop s tokens \<and> (\<forall>w \<in> set ws. length w \<le> t \<and> w \<noteq> [])
    \<and> (\<forall>i. Suc i < length ws \<longrightarrow> length (ws ! i) = t \<and> v \<le> length (ws ! Suc i)
         \<and> drop (t - v) (ws ! i) = take v (ws ! Suc i))"
  using assms(3-5)
proof (induction n arbitrary: s)
  case (Suc n)
  let ?N = "length tokens"
  show ?case
  proof (cases "?N \<le> s + t")
    case True
    have "py_slice tokens (int s) (int ?N) = drop s tokens" using Suc.prems py_slice_nat [of s ?N tokens] by simp
    moreover have "min (int s + int t) (int ?N) = int ?N" using True by simp
    ultimately show ?thesis using Suc.prems True assms(1) by (simp add: Let_def)
  next
    case False
    let ?s = "s + t - v" and ?w = "take t (drop s tokens)"
    have e: "min (int s + int t) (int ?N) = int (s + t)" using False by simp
    have nxt: "(if 0 < int v then int (s + t) - int v else int (s + t)) = int ?s" using assms(2) by simp
    have w: "py_slice tokens (int s) (int (s + t)) = ?w" using py_slice_nat [of s "s + t" tokens] False by simp
    have lw: "length ?w = t" using False by simp
    have pre: "?s + v \<le> ?N" "?N < ?s + n" "?s < ?N" using False Suc.prems assms(2) by auto
    from Suc.IH [OF pre] obtain ws where ws: "windows tokens (int t) (int v) n (int ?s) = Some ws" "ws \<noteq> []"
      "hd ws @ concat (map (drop v) (tl ws)) = drop ?s tokens" "\<forall>w \<in> set ws. length w \<le> t \<and> w \<noteq> []"
      "\<forall>i. Suc i < length ws \<longrightarrow> length (ws ! i) = t \<and> v \<le> length (ws ! Suc i) \<and> drop (t - v) (ws ! i) = take v (ws ! Suc i)"
      by blast
    have c: "(int s < int ?N) = True" "(int ?N \<le> int (s + t)) = False" using Suc.prems False by simp_all
    have step: "windows tokens (int t) (int v) (Suc n) (int s) = Some (?w # ws)"
      by (simp only: windows.simps Let_def e c w nxt ws(1) if_True if_False option.map)
    obtain h tl' where hw: "ws = h # tl'" using ws(2) by (cases ws) auto
    have hv: "v \<le> length h"
    proof (cases tl')
      case Nil
      then show ?thesis using ws(3) hw pre(1) by simp
    next
      case (Cons a as)
      then show ?thesis using ws(5) [rule_format, of 0] hw assms(2) by simp
    qed
    have "take v (drop ?s tokens) = take v h" using ws(3) hw hv by (simp flip: ws(3))
    moreover have "drop (t - v) ?w = take v (drop ?s tokens)"
      using assms(2) by (simp add: drop_take add.commute)
    ultimately have ov: "drop (t - v) ?w = take v h" by simp
    have "drop s tokens = ?w @ drop v (drop ?s tokens)"
      using assms(2) append_take_drop_id [of t "drop s tokens"] by (simp add: add.commute)
    also have "drop v (drop ?s tokens) = drop v h @ concat (map (drop v) tl')"
      using hv by (simp add: hw flip: ws(3))
    finally have cover: "?w @ concat (map (drop v) ws) = drop s tokens" by (simp add: hw)
    have all: "\<forall>i. Suc i < length (?w # ws) \<longrightarrow> length ((?w # ws) ! i) = t \<and> v \<le> length ((?w # ws) ! Suc i)
         \<and> drop (t - v) ((?w # ws) ! i) = take v ((?w # ws) ! Suc i)"
    proof (intro allI impI)
      fix i assume i: "Suc i < length (?w # ws)"
      show "length ((?w # ws) ! i) = t \<and> v \<le> length ((?w # ws) ! Suc i) \<and> drop (t - v) ((?w # ws) ! i) = take v ((?w # ws) ! Suc i)"
        using i ws(5) lw hv ov by (cases i) (simp_all add: hw)
    qed
    have "?w \<noteq> []" using lw assms(1) by auto
    with step cover ws(4) lw all show ?thesis by simp
  qed
qed simp

lemma windows_no_overlap: "overlap \<le> 0 \<Longrightarrow> windows tokens target overlap n start = windows tokens target 0 n start"
  by (induction n arbitrary: start) (simp_all add: Let_def)

declare windows.simps [simp del]

lemma windows_terminate:
  assumes "0 < target" and "overlap < target" and "int (length tokens) > target"
  shows "\<exists>ws. windows tokens target overlap (Suc (length tokens)) 0 = Some ws"
proof -
  have "0 < nat target" "nat overlap < nat target" "0 + nat overlap \<le> length tokens"
    "length tokens < 0 + Suc (length tokens)" "0 < length tokens" using assms by linarith+
  from windows_cover [OF this] obtain ws where
    "windows tokens (int (nat target)) (int (nat overlap)) (Suc (length tokens)) (int 0) = Some ws" by blast
  then show ?thesis using assms(1) windows_no_overlap [of overlap tokens target "Suc (length tokens)" 0]
    by (cases "0 \<le> overlap") simp_all
qed

text \<open>
  C30: The loop that cuts an oversized section ends exactly when the overlap is smaller than the
  target (and the target positive), and then within one round per token; otherwise it runs forever,
  whatever number of rounds is allowed.
\<close>

theorem window_loop_ends_iff:
  assumes "int (length tokens) > max 0 target"
  shows "((\<exists>n ws. windows tokens target overlap n 0 = Some ws) \<longleftrightarrow> 0 < target \<and> overlap < target) \<and>
    (0 < target \<and> overlap < target \<longrightarrow> (\<exists>ws. windows tokens target overlap (Suc (length tokens)) 0 = Some ws))"
proof (cases "0 < target \<and> overlap < target")
  case True
  then have "\<exists>ws. windows tokens target overlap (Suc (length tokens)) 0 = Some ws"
    using assms by (intro windows_terminate) simp_all
  with True show ?thesis by blast
next
  case False
  then have "target \<le> (if 0 < overlap then overlap else 0)" by auto
  then have "windows tokens target overlap n 0 = None" for n
    using assms by (intro windows_nonterm) simp_all
  then show ?thesis using False by simp
qed

theorem window_loop_ends_iff_witness:
  "int (length [1, 2, 3 :: nat]) > max 0 2 \<and> (\<forall>n. windows [1, 2, 3 :: nat] 2 2 n 0 = None) \<and>
   (\<exists>ws. windows [1, 2, 3 :: nat] 2 1 (Suc (length [1, 2, 3 :: nat])) 0 = Some ws)"
proof -
  have l: "int (length [1, 2, 3 :: nat]) > max 0 2" by simp
  from window_loop_ends_iff [OF l, of 2] have "\<nexists>n ws. windows [1, 2, 3 :: nat] 2 2 n 0 = Some ws" by simp
  then have "\<forall>n. windows [1, 2, 3 :: nat] 2 2 n 0 = None" by (metis option.exhaust)
  moreover from window_loop_ends_iff [OF l, of 1] have "\<exists>ws. windows [1, 2, 3 :: nat] 2 1 (Suc (length [1, 2, 3 :: nat])) 0 = Some ws"
    by simp
  ultimately show ?thesis using l by blast
qed

text \<open>
  An oversized section is cut into windows of at most the target number of tokens that cover the
  whole token stream: dropping from each window after the first the tokens it repeats gives the
  stream back, and each window repeats exactly the last \<open>v\<close> tokens of the one before.
\<close>

theorem large_section_covered:
  assumes "0 < t" and "v < t" and "encode tk section = Inr tokens" and "t < length tokens"
  shows "\<exists>ws. split_large_section tk section (int t) (int v) = Ok (map (decode tk) ws) \<and> ws \<noteq> [] \<and>
    hd ws @ concat (map (drop v) (tl ws)) = tokens \<and> (\<forall>w \<in> set ws. length w \<le> t \<and> w \<noteq> []) \<and>
    (\<forall>i. Suc i < length ws \<longrightarrow> length (ws ! i) = t \<and> v \<le> length (ws ! Suc i) \<and>
       drop (t - v) (ws ! i) = take v (ws ! Suc i))"
proof -
  have "0 + v \<le> length tokens" "length tokens < 0 + Suc (length tokens)" "0 < length tokens" using assms by auto
  from windows_cover [OF assms(1,2) this] obtain ws where
    w: "windows tokens (int t) (int v) (Suc (length tokens)) (int 0) = Some ws" and ws: "ws \<noteq> []"
      "hd ws @ concat (map (drop v) (tl ws)) = tokens" "\<forall>w \<in> set ws. length w \<le> t \<and> w \<noteq> []"
      "\<forall>i. Suc i < length ws \<longrightarrow> length (ws ! i) = t \<and> v \<le> length (ws ! Suc i) \<and> drop (t - v) (ws ! i) = take v (ws ! Suc i)"
    by (metis drop0)
  have "split_large_section tk section (int t) (int v) = Ok (map (decode tk) ws)"
    using w assms(3,4) by (simp add: split_large_section_def)
  with ws show ?thesis by blast
qed

text \<open>
  Two tokenizers for the examples: one token per character, and the same with tiktoken's refusal of
  a text in which a special token is spelled.
\<close>

definition char_tokenizer :: tokenizer where
  "char_tokenizer = \<lparr>encode = (\<lambda>t. Inr (map of_char t)), decode = map char_of\<rparr>"

definition special_token :: string where "special_token = ''<|endoftext|>''"

definition special_error :: exn where
  "special_error = ValueError ''Encountered text corresponding to disallowed special token''"

definition special_tokenizer :: tokenizer where
  "special_tokenizer =
     \<lparr>encode = (\<lambda>t. if sublist special_token t then Inl special_error else Inr (map of_char t)), decode = map char_of\<rparr>"

theorem large_section_covered_witness:
  "\<exists>ws. split_large_section char_tokenizer ''abcdef'' (int 3) (int 1) = Ok (map (decode char_tokenizer) ws) \<and>
    hd ws @ concat (map (drop 1) (tl ws)) = map of_char ''abcdef''"
  using large_section_covered [of 3 1 char_tokenizer "''abcdef''"] by (auto simp: char_tokenizer_def)

subsection \<open>Chunks\<close>

definition numbered :: "string option \<Rightarrow> string \<Rightarrow> chunk list \<Rightarrow> bool" where
  "numbered sref prj cs \<longleftrightarrow>
     map c_index cs = [0..<length cs] \<and> list_all (\<lambda>c. c_source_ref c = sref \<and> c_project c = prj) cs"

lemma numbered_add: "numbered sref prj cs \<Longrightarrow> numbered sref prj (add_chunk sref prj t cs)"
  by (simp add: numbered_def add_chunk_def)

lemma numbered_fold: "numbered sref prj cs \<Longrightarrow> numbered sref prj (fold (add_chunk sref prj) ts cs)"
  by (induction ts arbitrary: cs) (simp_all add: numbered_add)

lemma numbered_finalize: "numbered sref prj cs \<Longrightarrow> numbered sref prj (finalize sref prj t cs)"
  by (simp add: finalize_def numbered_add)

text \<open>The ways the chunker can end: with numbered chunks, or with what the encoder raised on some text.\<close>

definition chunker_end :: "tokenizer \<Rightarrow> string option \<Rightarrow> string \<Rightarrow> chunk list res \<Rightarrow> bool" where
  "chunker_end tk sref prj r \<longleftrightarrow>
     (case r of Ok cs \<Rightarrow> numbered sref prj cs | Exn e \<Rightarrow> (\<exists>t. encode tk t = Inl e) | Stuck \<Rightarrow> False)"

lemma token_count_Inl: "token_count tk t = Inl e \<longleftrightarrow> encode tk t = Inl e"
  by (simp add: token_count_def split: sum.splits)

lemma overlap_buffer_Inl: "overlap_buffer tk t n = Inl e \<Longrightarrow> encode tk t = Inl e"
  by (auto simp: overlap_buffer_def extract_tail_tokens_def split: sum.splits if_splits)

lemma split_large_end:
  assumes "0 < target" and "overlap < target"
  shows "(\<exists>ts. split_large_section tk section target overlap = Ok ts) \<or>
    (\<exists>e. encode tk section = Inl e \<and> split_large_section tk section target overlap = Exn e)"
proof (cases "encode tk section")
  case (Inr tokens)
  with windows_terminate [OF assms, of tokens] show ?thesis
    by (cases "int (length tokens) \<le> target") (auto simp: split_large_section_def)
qed (simp add: split_large_section_def)

lemma chunk_sections_end:
  assumes "0 < target" and "overlap < target" and "numbered sref prj cs"
  shows "chunker_end tk sref prj (chunk_sections tk target overlap sref prj cs current sections)"
  using assms
proof (induction tk target overlap sref prj cs current sections rule: chunk_sections.induct)
  case (2 tk target overlap sref prj cs current sec secs)
  show ?case
  proof (cases "token_count tk sec")
    case (Inl e)
    moreover from this have "encode tk sec = Inl e" by (simp add: token_count_Inl)
    ultimately show ?thesis by (auto simp: chunker_end_def)
  next
    case n: (Inr n)
    show ?thesis
    proof (cases "target < n")
      case True
      with n "2.IH"(1) [OF n True _ "2.prems"(1,2)] "2.prems"(3) split_large_end [OF "2.prems"(1,2), of tk sec]
      show ?thesis by (auto simp: numbered_fold numbered_finalize chunker_end_def)
    next
      case small: False
      show ?thesis
      proof (cases "current = []")
        case True
        with n small "2.IH"(2) [OF n small True "2.prems"] show ?thesis by simp
      next
        case cur: False
        show ?thesis
        proof (cases "token_count tk (current @ sec)")
          case (Inl e)
          moreover from this have "encode tk (current @ sec) = Inl e" by (simp add: token_count_Inl)
          ultimately show ?thesis using n small cur by (auto simp: chunker_end_def)
        next
          case m: (Inr m)
          show ?thesis
          proof (cases "target < m")
            case True
            with n small cur m "2.IH"(3) [OF n small cur m True] "2.prems" show ?thesis
              by (auto simp: numbered_add chunker_end_def dest: overlap_buffer_Inl split: sum.split)
          next
            case False
            with n small cur m "2.IH"(4) [OF n small cur m False "2.prems"] show ?thesis by simp
          qed
        qed
      qed
    qed
  qed
qed (simp add: numbered_finalize chunker_end_def)

lemma chunk_prose_end:
  assumes "0 < target" and "overlap < target"
  shows "chunker_end tk sref prj (chunk_prose tk body target overlap sref prj)"
  using chunk_sections_end [OF assms, of sref prj "[]" tk "[]" "split_into_sections body"]
  by (auto simp: chunk_prose_def numbered_def chunker_end_def)

lemma chunk_prose_total:
  assumes "0 < target" and "overlap < target" and "\<forall>t. \<exists>ns. encode tk t = Inr ns"
  shows "\<exists>cs. chunk_prose tk body target overlap sref prj = Ok cs \<and> numbered sref prj cs"
proof -
  have "encode tk t \<noteq> Inl e" for t e using assms(3) by (metis Inl_Inr_False)
  with chunk_prose_end [OF assms(1,2), of tk sref prj body] show ?thesis
    by (auto simp: chunker_end_def split: res.splits)
qed

text \<open>Every section is measured, so a section that the encoder refuses is not passed over.\<close>

lemma chunk_sections_refused:
  assumes "chunk_sections tk target overlap sref prj cs current sections = Ok cs'" and "sec \<in> set sections"
  shows "encode tk sec \<noteq> Inl e"
  using assms
proof (induction tk target overlap sref prj cs current sections rule: chunk_sections.induct)
  case (2 tk target overlap sref prj cs current sec' secs)
  then have ne: "encode tk sec' \<noteq> Inl e" by (auto simp: token_count_def)
  show ?case
  proof (cases "sec = sec'")
    case False
    with 2 show ?thesis by (auto split: sum.splits if_splits res.splits)
  qed (use ne in simp)
qed simp

lemma chunk_prose_refused:
  assumes "0 < target" and "overlap < target" and "strip body \<noteq> []"
    and "sec \<in> set (split_into_sections body)" and "encode tk sec = Inl e"
  shows "\<exists>e. chunk_prose tk body target overlap sref prj = Exn e"
proof -
  let ?r = "chunk_prose tk body target overlap sref prj"
  have "body \<noteq> []" using assms(3) by (auto simp: strip_def strip_by_Nil_iff)
  then have "?r \<noteq> Ok cs" for cs using assms(3-5) chunk_sections_refused by (fastforce simp: chunk_prose_def)
  with chunk_prose_end [OF assms(1,2), of tk sref prj body] show ?thesis by (cases ?r) (auto simp: chunker_end_def)
qed

text \<open>
  C31: With an overlap below the target the chunker's loops always end: it returns chunks that are
  numbered \<open>0, 1, 2, ...\<close> without a gap and carry the given project and source, or it raises what
  the encoder raised on a text it was given. It returns whenever the encoder accepts every text, and
  for a blank body, which gives no chunk. It raises whenever the encoder refuses one section of a
  body that is not blank: no section is dropped to get by.
\<close>

theorem chunk_prose_returns:
  assumes "0 < target" and "overlap < target"
  shows "((\<exists>cs. chunk_prose tk body target overlap sref prj = Ok cs \<and>
        map c_index cs = [0..<length cs] \<and> list_all (\<lambda>c. c_source_ref c = sref \<and> c_project c = prj) cs)
      \<or> (\<exists>e t. chunk_prose tk body target overlap sref prj = Exn e \<and> encode tk t = Inl e)) \<and>
    ((\<forall>t. \<exists>ns. encode tk t = Inr ns) \<longrightarrow> (\<exists>cs. chunk_prose tk body target overlap sref prj = Ok cs)) \<and>
    (strip body = [] \<longrightarrow> chunk_prose tk body target overlap sref prj = Ok []) \<and>
    (strip body \<noteq> [] \<and> (\<exists>sec \<in> set (split_into_sections body). \<exists>e. encode tk sec = Inl e) \<longrightarrow>
       (\<exists>e. chunk_prose tk body target overlap sref prj = Exn e))"
proof (intro conjI impI)
  let ?r = "chunk_prose tk body target overlap sref prj"
  have fin: "chunker_end tk sref prj ?r" using chunk_prose_end [OF assms] .
  then show "(\<exists>cs. ?r = Ok cs \<and> map c_index cs = [0..<length cs] \<and> list_all (\<lambda>c. c_source_ref c = sref \<and> c_project c = prj) cs)
      \<or> (\<exists>e t. ?r = Exn e \<and> encode tk t = Inl e)"
    by (cases ?r) (auto simp: chunker_end_def numbered_def)
  show "\<exists>cs. ?r = Ok cs" if "\<forall>t. \<exists>ns. encode tk t = Inr ns" using chunk_prose_total [OF assms that] by blast
  show "?r = Ok []" if "strip body = []" using that by (simp add: chunk_prose_def)
  show "\<exists>e. ?r = Exn e" if "strip body \<noteq> [] \<and> (\<exists>sec \<in> set (split_into_sections body). \<exists>e. encode tk sec = Inl e)"
    using that chunk_prose_refused [OF assms] by blast
qed

theorem chunk_prose_returns_witness:
  "(\<exists>cs. chunk_prose char_tokenizer ''hello world'' 4 1 None ''p'' = Ok cs) \<and>
   (\<exists>e. chunk_prose special_tokenizer (''the '' @ special_token @ '' token'') 400 60 None ''p'' = Exn e)"
proof -
  let ?b = "''the '' @ special_token @ '' token''"
  have "\<exists>cs. chunk_prose char_tokenizer ''hello world'' 4 1 None ''p'' = Ok cs"
    using chunk_prose_returns [of 4 1 char_tokenizer "''hello world''" None "''p''"] by (simp add: char_tokenizer_def)
  moreover have "split_into_sections ?b = [?b]"
    by (simp add: split_into_sections_def special_token_def is_heading_def)
  moreover have "encode special_tokenizer ?b = Inl special_error"
    using sublist_appendI [of special_token "''the ''" "'' token''"] by (simp add: special_tokenizer_def)
  moreover have "strip ?b \<noteq> []" by (simp add: strip_def strip_by_Nil_iff char_class_defs in_range_def)
  ultimately show ?thesis
    using chunk_prose_returns [of 400 60 special_tokenizer ?b None "''p''"] by auto
qed

end
