(* ===== verification/Relay.thy ===== *)
theory Relay
  imports Writer Chunker
begin

text \<open>
  The relay: envelopes from the MEMORY stream (\<open>relay/schema.py\<close>), the chunk writer
  (\<open>relay/chunk_writer.py\<close>), the service that routes an episode and sorts its failures
  (\<open>relay/service.py\<close>), and the handler that turns them into ack, nak or dead letter
  (\<open>relay/handler.py\<close>). The message broker is an argument. The last part is the life of a message
  on the stream as a step relation.
\<close>

subsection \<open>Episodes\<close>

text \<open>Timestamps are kept as the text \<open>isoformat()\<close> gives.\<close>

record episode =
  e_id :: string
  e_project_id :: string
  e_episode_type :: string
  e_content_format :: string
  e_body :: string
  e_payload_type :: "string option"
  e_source_ref :: "string option"
  e_name :: "string option"
  e_source :: "string option"
  e_occurred_at :: "string option"
  e_published_at :: "string option"
  e_ingest_hints :: "(string \<times> json) list option"

definition opt_str :: "string option \<Rightarrow> json" where
  "opt_str x = (case x of None \<Rightarrow> JNull | Some s \<Rightarrow> JStr s)"

definition make_episode_meta :: "episode \<Rightarrow> episode_meta" where
  "make_episode_meta e =
     [(''episode_type'', JStr (e_episode_type e)), (''name'', opt_str (e_name e)), (''source'', opt_str (e_source e)),
      (''occurred_at'', opt_str (e_occurred_at e)), (''published_at'', opt_str (e_published_at e)),
      (''ingest_hints'', (case e_ingest_hints e of None \<Rightarrow> JNull | Some h \<Rightarrow> JObj h)),
      (''payload_type'', opt_str (e_payload_type e)), (''source_ref'', opt_str (e_source_ref e))]"

subsection \<open>The chunk writer\<close>

definition chunk_seed :: "string \<Rightarrow> nat \<Rightarrow> string" where
  "chunk_seed episode_id index = episode_id @ '':'' @ show_nat index"

definition chunk_store_key :: "prims \<Rightarrow> string \<Rightarrow> nat \<Rightarrow> string" where
  "chunk_store_key pr episode_id index = uuid5 pr FLEET_MEMORY_NAMESPACE (chunk_seed episode_id index)"

definition chunk_namespace :: "chunk \<Rightarrow> namespace" where
  "chunk_namespace c = [''fleet_memory'', c_project c, ''chunk'']"

definition chunk_value :: "string \<Rightarrow> chunk \<Rightarrow> episode_meta option \<Rightarrow> stored" where
  "chunk_value episode_id c meta =
     with_meta meta
       [''content'' \<mapsto> JStr (c_text c), ''episode_id'' \<mapsto> JStr episode_id, ''chunk_index'' \<mapsto> JInt (int (c_index c)),
        ''source_ref'' \<mapsto> opt_str (c_source_ref c), ''project'' \<mapsto> JStr (c_project c)]"

definition write_chunk :: "prims \<Rightarrow> 's store_api \<Rightarrow> string \<Rightarrow> episode_meta option \<Rightarrow> chunk \<Rightarrow> ('s, unit) comp" where
  "write_chunk pr st episode_id meta c =
     bind (lift_res (validate_namespace (chunk_namespace c))) (\<lambda>_.
       st_put st (chunk_namespace c) (chunk_store_key pr episode_id (c_index c)) (chunk_value episode_id c meta))"

definition write_chunks ::
  "prims \<Rightarrow> 's store_api \<Rightarrow> string \<Rightarrow> chunk list \<Rightarrow> episode_meta option \<Rightarrow> ('s, unit) comp" where
  "write_chunks pr st episode_id chunks meta = for_each (write_chunk pr st episode_id meta) chunks"

subsection \<open>The service\<close>

text \<open>
  What the service is built with. \<open>json_error\<close> is the text of the decoder's error for a body
  that is no JSON.
\<close>

record 's service =
  s_prims :: prims
  s_store :: "'s store_api"
  s_pydantic :: pydantic
  s_tokenizer :: tokenizer
  s_chunk_target_tokens :: int
  s_overlap_tokens :: int
  s_forward_fuel :: nat
  s_json_error :: "string \<Rightarrow> string"

text \<open>
  \<open>payload_model(**payload_dict)\<close>: the double star needs a mapping, and its keys become keyword
  arguments next to \<open>self\<close>.
\<close>

definition construct_payload :: "pydantic \<Rightarrow> payload_class \<Rightarrow> json \<Rightarrow> exn + payload" where
  "construct_payload pyd c v =
     (case v of
        JObj kvs \<Rightarrow>
          if ''self'' \<in> fst ` set kvs then Inl (TypeError ''got multiple values for argument self'')
          else payload_init pyd c kvs
      | _ \<Rightarrow> Inl (TypeError ''argument after ** must be a mapping''))"

definition episode_payload :: "'s service \<Rightarrow> episode \<Rightarrow> exn + payload" where
  "episode_payload sv e =
     (case e_payload_type e of
        None \<Rightarrow> Inl (PoisonEpisodeError ''missing payload_type for json episode''
                      (Some ''json episodes must specify payload_type''))
      | Some t \<Rightarrow>
          (case loads (e_body e) of
             None \<Rightarrow> Inl (PoisonEpisodeError ''unparseable json body'' (Some (s_json_error sv (e_body e))))
           | Some v \<Rightarrow>
               (case get_model_for_type t of
                  Inl ex \<Rightarrow> Inl ex
                | Inr c \<Rightarrow> construct_payload (s_pydantic sv) c v)))"

definition ingest_json :: "'s service \<Rightarrow> episode \<Rightarrow> ('s, unit) comp" where
  "ingest_json sv e =
     bind (lift_res (episode_payload sv e)) (\<lambda>p.
       writer_write (s_prims sv) (s_store sv) (s_forward_fuel sv) p (Some (make_episode_meta e)))"

definition ingest_prose :: "'s service \<Rightarrow> episode \<Rightarrow> ('s, unit) comp" where
  "ingest_prose sv e =
     (case chunk_prose (s_tokenizer sv) (e_body e) (s_chunk_target_tokens sv) (s_overlap_tokens sv)
             (e_source_ref e) (e_project_id e) of
        Exn ex \<Rightarrow> throw ex
      | Stuck \<Rightarrow> (\<lambda>s. (Stuck, s))
      | Ok cs \<Rightarrow> write_chunks (s_prims sv) (s_store sv) (e_id e) cs (Some (make_episode_meta e)))"

definition unrecognized_format :: "string \<Rightarrow> exn" where
  "unrecognized_format f =
     PoisonEpisodeError (''unrecognized content_format: '' @ f) (Some ''Only json, markdown, and text are supported'')"

definition route_episode :: "'s service \<Rightarrow> episode \<Rightarrow> ('s, unit) comp" where
  "route_episode sv e =
     (if e_content_format e = ''json'' then ingest_json sv e
      else if e_content_format e = ''markdown'' \<or> e_content_format e = ''text'' then ingest_prose sv e
      else throw (unrecognized_format (e_content_format e)))"

text \<open>The \<open>except\<close> clauses of \<open>ingest\<close>, in their order.\<close>

definition show_opt_int :: "int option \<Rightarrow> string" where
  "show_opt_int x = (case x of None \<Rightarrow> ''None'' | Some i \<Rightarrow> show_int i)"

definition classify_failure :: "exn \<Rightarrow> exn" where
  "classify_failure ex =
     (case ex of
        PoisonEpisodeError r d \<Rightarrow> ex
      | UnknownPayloadTypeError t \<Rightarrow>
          PoisonEpisodeError (''unknown payload_type: '' @ str_json t) (Some ''Not found in dispatch registry'')
      | NamespaceValidationError ns bad \<Rightarrow>
          PoisonEpisodeError (''invalid namespace: '' @ repr_list bad)
            (Some (''Namespace '' @ repr_tuple ns @ '' contains invalid identifiers''))
      | IdentifierValidationError f v \<Rightarrow>
          PoisonEpisodeError (''invalid '' @ f @ '' identifier: '' @ str_json v)
            (Some ''Identifiers must use underscores only'')
      | ValidationError m \<Rightarrow> PoisonEpisodeError ''payload validation failed'' (Some m)
      | EmbedDimensionError a x \<Rightarrow>
          PoisonEpisodeError (''embedding dimension mismatch: '' @ show_int a @ '' != '' @ show_int x)
            (Some ''Check embed_dims configuration'')
      | EmbedRequestError m u sc ty \<Rightarrow>
          PoisonEpisodeError
            (''embed request rejected (HTTP '' @ show_opt_int sc @ '')''
             @ (case ty of None \<Rightarrow> [] | Some t \<Rightarrow> if t = [] then [] else '': '' @ t))
            (Some (exn_str ex))
      | EmbedServiceError m u sc \<Rightarrow> TransientIngestError (''Embedding service unavailable: '' @ exn_str ex)
      | EmbedTimeoutError u t \<Rightarrow> TransientIngestError (''Embedding service unavailable: '' @ exn_str ex)
      | ConnectionError m \<Rightarrow> TransientIngestError (''Connection error: '' @ exn_str ex)
      | TimeoutError m \<Rightarrow> TransientIngestError (''Connection error: '' @ exn_str ex)
      | _ \<Rightarrow> TransientIngestError (''Unexpected error during ingest: '' @ exn_str ex))"

definition ingest :: "'s service \<Rightarrow> episode \<Rightarrow> ('s, unit) comp" where
  "ingest sv e = catch (route_episode sv e) (\<lambda>ex. throw (classify_failure ex))"

subsection \<open>The handler\<close>

text \<open>
  The handler runs over the store, the broker and the progress marker, which records what became of
  a message and never raises. How it ends: it returns (ack), asks for redelivery (nak), or rejects
  (terminate).
\<close>

datatype disposition = Acked | Naked | Rejected

record ('s, 'b) world =
  w_store :: 's
  w_broker :: 'b
  w_marks :: "string list"

definition on_store :: "('s, 'a) comp \<Rightarrow> (('s, 'b) world, 'a) comp" where
  "on_store m w = (case m (w_store w) of (r, s) \<Rightarrow> (r, w\<lparr>w_store := s\<rparr>))"

definition on_broker :: "('b, 'a) comp \<Rightarrow> (('s, 'b) world, 'a) comp" where
  "on_broker m w = (case m (w_broker w) of (r, b) \<Rightarrow> (r, w\<lparr>w_broker := b\<rparr>))"

definition record_mark :: "string \<Rightarrow> (('s, 'b) world, unit) comp" where
  "record_mark d w = (Ok (), w\<lparr>w_marks := w_marks w @ [d]\<rparr>)"

text \<open>Publishing on the broker: a payload and a subject.\<close>

type_synonym 'b publish = "(string \<times> json) list \<Rightarrow> string \<Rightarrow> ('b, unit) comp"

record relay_config =
  max_deliver :: nat
  dlq_subject :: string

definition delivery_count :: "nat option \<Rightarrow> nat" where
  "delivery_count metadata = (case metadata of None \<Rightarrow> 0 | Some n \<Rightarrow> n)"

definition dlq_payload :: "episode \<Rightarrow> string \<Rightarrow> json \<Rightarrow> (string \<times> json) list" where
  "dlq_payload e reason detail =
     [(''episode_id'', JStr (e_id e)), (''project_id'', JStr (e_project_id e)), (''reason'', JStr reason),
      (''detail'', detail), (''content_format'', JStr (e_content_format e)), (''payload_type'', opt_str (e_payload_type e))]"

definition publish_dlq ::
  "relay_config \<Rightarrow> 'b publish \<Rightarrow> episode \<Rightarrow> string \<Rightarrow> json \<Rightarrow> (string \<times> json) list \<Rightarrow> (('s, 'b) world, unit) comp" where
  "publish_dlq cfg pub e reason detail extra =
     on_broker (pub (dlq_payload e reason detail @ extra) (dlq_subject cfg @ ''.'' @ e_project_id e))"

definition route_transient ::
  "relay_config \<Rightarrow> 'b publish \<Rightarrow> episode \<Rightarrow> nat option \<Rightarrow> string \<Rightarrow> string \<Rightarrow> (('s, 'b) world, disposition) comp" where
  "route_transient cfg pub e metadata last_error failure_mode =
     (if max_deliver cfg \<le> delivery_count metadata then
        bind (publish_dlq cfg pub e ''max_deliver_exhausted'' (JStr last_error)
                [(''failure_mode'', JStr failure_mode), (''delivery_count'', JInt (int (delivery_count metadata))),
                 (''max_deliver'', JInt (int (max_deliver cfg)))]) (\<lambda>_.
        bind (record_mark ''dlq'') (\<lambda>_. ret Rejected))
      else bind (record_mark ''nak'') (\<lambda>_. ret Naked))"

definition handle_failure ::
  "relay_config \<Rightarrow> 'b publish \<Rightarrow> episode \<Rightarrow> nat option \<Rightarrow> exn \<Rightarrow> (('s, 'b) world, disposition) comp" where
  "handle_failure cfg pub e metadata ex =
     (case ex of
        PoisonEpisodeError reason detail \<Rightarrow>
          bind (publish_dlq cfg pub e reason (opt_str detail) []) (\<lambda>_.
          bind (record_mark ''dlq'') (\<lambda>_. ret Rejected))
      | TransientIngestError m \<Rightarrow> route_transient cfg pub e metadata m ''transient_ingest_error''
      | _ \<Rightarrow> route_transient cfg pub e metadata (exn_str ex) ''unenumerated_exception'')"

definition handle_memory_episode ::
  "relay_config \<Rightarrow> 'b publish \<Rightarrow> 's service \<Rightarrow> episode \<Rightarrow> nat option \<Rightarrow> (('s, 'b) world, disposition) comp" where
  "handle_memory_episode cfg pub sv e metadata w =
     (case on_store (ingest sv e) w of
        (Ok _, w') \<Rightarrow> bind (record_mark ''ingest'') (\<lambda>_. ret Acked) w'
      | (Exn ex, w') \<Rightarrow> handle_failure cfg pub e metadata ex w'
      | (Stuck, w') \<Rightarrow> (Stuck, w'))"

subsection \<open>Redelivery\<close>

text \<open>
  A sink of deliveries: delivering again from a state with the same contents changes nothing. The
  typed writer, the chunk writer and the whole service over a lawful store are sinks.
\<close>

locale idempotent_sink =
  fixes view :: "'s \<Rightarrow> 'v" and deliver :: "'e \<Rightarrow> ('s, unit) comp"
  assumes again: "deliver e s = (Ok (), s1) \<Longrightarrow> view t = view s1 \<Longrightarrow> deliver e t = (Ok (), s2) \<Longrightarrow> view s2 = view s1"
begin

lemma redelivered:
  "deliver e s = (Ok (), s1) \<Longrightarrow> view t = view s1 \<Longrightarrow> for_each deliver (replicate n e) t = (Ok (), s2) \<Longrightarrow>
   view s2 = view s1"
proof (induction n arbitrary: t)
  case 0
  then show ?case by (simp add: ret_def)
next
  case (Suc n)
  then obtain t1 where 1: "deliver e t = (Ok (), t1)" and 2: "for_each deliver (replicate n e) t1 = (Ok (), s2)"
    by (auto simp: bind_Ok_iff)
  from Suc.IH [OF Suc.prems(1) again [OF Suc.prems(1,2) 1] 2] show ?case .
qed

end

definition put_chunk :: "prims \<Rightarrow> string \<Rightarrow> episode_meta option \<Rightarrow> chunk \<Rightarrow> contents \<Rightarrow> contents" where
  "put_chunk pr episode_id meta c =
     put_at (chunk_namespace c) (chunk_store_key pr episode_id (c_index c)) (chunk_value episode_id c meta)"

lemma fold_put_miss:
  "\<forall>c \<in> set cs. (chunk_namespace c, chunk_store_key pr eid (c_index c)) \<noteq> (ns, k) \<Longrightarrow>
   fold (put_chunk pr eid meta) cs V ns k = V ns k"
  by (induction cs arbitrary: V) (auto simp: put_chunk_def)

lemma fold_put_hit:
  "\<exists>c \<in> set cs. (chunk_namespace c, chunk_store_key pr eid (c_index c)) = (ns, k) \<Longrightarrow>
   fold (put_chunk pr eid meta) cs V ns k = fold (put_chunk pr eid meta) cs V' ns k"
proof (induction cs arbitrary: V V')
  case (Cons c cs)
  show ?case
  proof (cases "\<exists>c \<in> set cs. (chunk_namespace c, chunk_store_key pr eid (c_index c)) = (ns, k)")
    case True
    then show ?thesis using Cons.IH by simp
  next
    case False
    have miss: "fold (put_chunk pr eid meta) cs W ns k = W ns k" for W
      by (rule fold_put_miss) (use False in blast)
    from False Cons.prems have "chunk_namespace c = ns" "chunk_store_key pr eid (c_index c) = k" by auto
    then have "put_chunk pr eid meta c W ns k = Some (chunk_value eid c meta)" for W by (simp add: put_chunk_def)
    then show ?thesis by (simp add: miss)
  qed
qed simp

lemma fold_put_idem: "fold (put_chunk pr eid meta) cs (fold (put_chunk pr eid meta) cs V) = fold (put_chunk pr eid meta) cs V"
proof (intro ext)
  fix ns k
  show "fold (put_chunk pr eid meta) cs (fold (put_chunk pr eid meta) cs V) ns k = fold (put_chunk pr eid meta) cs V ns k"
    using fold_put_miss [of cs pr eid ns k] fold_put_hit [of cs pr eid ns k] by blast
qed

lemma ingest_Ok: "ingest sv e s = (Ok (), s') \<longleftrightarrow> route_episode sv e s = (Ok (), s')"
  by (auto simp: ingest_def catch_def throw_def split: prod.splits res.splits)

context lawful_store
begin

lemma write_chunks_return:
  "write_chunks pr st eid cs meta s = (Ok (), s') \<Longrightarrow>
   view s' = fold (put_chunk pr eid meta) cs (view s) \<and> (\<forall>c \<in> set cs. list_all (full_class ns_char) (chunk_namespace c))"
proof (induction cs arbitrary: s)
  case Nil
  then show ?case by (simp add: write_chunks_def ret_def)
next
  case (Cons c cs)
  then obtain s1 where 1: "write_chunk pr st eid meta c s = (Ok (), s1)" and 2: "write_chunks pr st eid cs meta s1 = (Ok (), s')"
    by (auto simp: write_chunks_def bind_Ok_iff)
  from 1 have ok: "validate_namespace (chunk_namespace c) = Inr ()"
    and put: "st_put st (chunk_namespace c) (chunk_store_key pr eid (c_index c)) (chunk_value eid c meta) s = (Ok (), s1)"
    by (auto simp: write_chunk_def bind_Ok_iff lift_res_Ok_iff)
  have "view s1 = put_chunk pr eid meta c (view s)" using put_returns [OF put] by (simp add: put_chunk_def put_at_def)
  with Cons.IH [OF 2] ok show ?case by (simp add: validate_namespace_ok list_all_iff)
qed

lemma writer_again:
  assumes "writer_write pr st fuel p meta s = (Ok (), s1)" and "view t = view s1"
    and "writer_write pr st fuel' p meta' t = (Ok (), s2)"
  shows "view s2 = view s1"
proof -
  from write_returns [OF assms(1)] obtain fw where
    ver: "\<And>v. view s (payload_namespace p) (payload_key pr p) = Some v \<Longrightarrow>
      v ''content_hash'' \<noteq> Some (JStr (content_hash pr p)) \<Longrightarrow> \<exists>n. next_version pr v = Inr n"
    and 1: "view s1 = write_spec pr fw p meta (view s)" by blast
  from write_returns [OF assms(3)] obtain fw' where "view s2 = write_spec pr fw' p meta' (view s1)"
    by (auto simp: assms(2))
  moreover have "write_spec pr fw' p meta' (view s1) = view s1"
    unfolding 1 by (rule write_spec_idem) (blast intro: ver)
  ultimately show ?thesis by simp
qed

end

sublocale lawful_store \<subseteq> writer_sink: idempotent_sink view "\<lambda>(p, meta). writer_write pr st fuel p meta" for pr fuel
  by unfold_locales (auto intro: writer_again)

sublocale lawful_store \<subseteq> chunk_sink: idempotent_sink view "\<lambda>(eid, cs, meta). write_chunks pr st eid cs meta" for pr
  by unfold_locales (auto dest!: write_chunks_return simp: fold_put_idem)

sublocale lawful_store \<subseteq> relay_sink: idempotent_sink view "ingest (sv\<lparr>s_store := st\<rparr>)" for sv
proof
  fix e s s1 t s2
  let ?sv = "sv\<lparr>s_store := st\<rparr>"
  assume "ingest ?sv e s = (Ok (), s1)" and V: "view t = view s1" and "ingest ?sv e t = (Ok (), s2)"
  then have 1: "route_episode ?sv e s = (Ok (), s1)" and 2: "route_episode ?sv e t = (Ok (), s2)"
    by (simp_all add: ingest_Ok)
  show "view s2 = view s1"
  proof (cases "e_content_format e = ''json''")
    case True
    then show ?thesis using 1 2 V
      by (auto simp: route_episode_def ingest_json_def bind_Ok_iff lift_res_Ok_iff dest: writer_again)
  next
    case False
    then show ?thesis using 1 2 V
      by (auto simp: route_episode_def ingest_prose_def throw_def fold_put_idem split: if_splits res.splits
          dest!: write_chunks_return)
  qed
qed

context lawful_store
begin

lemma ingest_redelivered:
  "ingest (sv\<lparr>s_store := st\<rparr>) e s = (Ok (), s1) \<Longrightarrow>
   for_each (ingest (sv\<lparr>s_store := st\<rparr>)) (replicate n e) s1 = (Ok (), s2) \<Longrightarrow> view s2 = view s1"
  by (rule relay_sink.redelivered [OF _ refl])

end

subsection \<open>Sample service\<close>

definition sample_service :: "mem_store service" where
  "sample_service =
     \<lparr>s_prims = sample_prims, s_store = mem_api no_score, s_pydantic = schema_init, s_tokenizer = char_tokenizer,
      s_chunk_target_tokens = 8, s_overlap_tokens = 2, s_forward_fuel = 1, s_json_error = (\<lambda>b. ''bad'')\<rparr>"

definition sample_episode :: episode where
  "sample_episode =
     \<lparr>e_id = ''ep1'', e_project_id = ''guardkit'', e_episode_type = ''document'', e_content_format = ''text'',
      e_body = ''some text'', e_payload_type = None, e_source_ref = None, e_name = None, e_source = None,
      e_occurred_at = None, e_published_at = None, e_ingest_hints = None\<rparr>"

lemma mem_write_chunks_total:
  "\<forall>c \<in> set cs. validate_namespace (chunk_namespace c) = Inr () \<Longrightarrow>
   \<exists>s'. write_chunks pr (mem_api score) eid cs meta s = (Ok (), s')"
proof (induction cs arbitrary: s)
  case Nil
  then show ?case by (simp add: write_chunks_def ret_def)
next
  case (Cons c cs)
  then have "write_chunk pr (mem_api score) eid meta c s =
      (Ok (), dict_set (chunk_namespace c, chunk_store_key pr eid (c_index c)) (chunk_value eid c meta) s)"
    by (simp add: write_chunk_def mem_api_total)
  with Cons show ?case by (simp add: write_chunks_def comp_simps)
qed

lemma sample_ingest: "\<exists>s'. ingest sample_service sample_episode s = (Ok (), s')"
proof -
  obtain cs where cs: "chunk_prose char_tokenizer ''some text'' 8 2 None ''guardkit'' = Ok cs"
    and prj: "\<forall>c \<in> set cs. c_project c = ''guardkit''"
    using chunk_prose_total [of 8 2 char_tokenizer "''some text''" None "''guardkit''"]
    by (auto simp: numbered_def list_all_iff char_tokenizer_def)
  have "\<forall>c \<in> set cs. validate_namespace (chunk_namespace c) = Inr ()"
    using prj by (auto simp: validate_namespace_ok chunk_namespace_def full_class_def char_class_defs)
  from mem_write_chunks_total [OF this] obtain s' where
    "write_chunks sample_prims (mem_api no_score) ''ep1'' cs (Some (make_episode_meta sample_episode)) s = (Ok (), s')" by blast
  then have "ingest_prose sample_service sample_episode s = (Ok (), s')"
    using cs by (simp add: ingest_prose_def sample_service_def) (simp add: sample_episode_def)
  then show ?thesis by (simp add: ingest_Ok route_episode_def) (simp add: sample_episode_def)
qed

subsection \<open>Properties of the service\<close>

text \<open>
  C9: At-least-once delivery is enough: once an episode has been ingested, any number of further
  deliveries that return leave the contents of the store exactly as they are, for typed payloads
  and for prose.
\<close>

theorem redelivery_changes_nothing:
  assumes "lawful_store (s_store sv) view rank window" and "ingest sv e s = (Ok (), s1)"
    and "for_each (ingest sv) (replicate n e) s1 = (Ok (), s2)"
  shows "view s2 = view s1"
  using lawful_store.ingest_redelivered [OF assms(1), of sv] assms(2,3) by simp

theorem redelivery_changes_nothing_witness:
  "\<exists>s1 s2. ingest sample_service sample_episode [] = (Ok (), s1) \<and>
     for_each (ingest sample_service) (replicate 2 sample_episode) s1 = (Ok (), s2) \<and> mem_view s2 = mem_view s1"
proof -
  obtain s1 where 1: "ingest sample_service sample_episode [] = (Ok (), s1)" using sample_ingest by blast
  obtain t where t: "ingest sample_service sample_episode s1 = (Ok (), t)" using sample_ingest by blast
  obtain s2 where s2: "ingest sample_service sample_episode t = (Ok (), s2)" using sample_ingest by blast
  have 2: "for_each (ingest sample_service) (replicate 2 sample_episode) s1 = (Ok (), s2)"
    using t s2 by (simp add: eval_nat_numeral comp_simps)
  have "lawful_store (s_store sample_service) mem_view (mem_rank no_score) mem_window"
    by (simp add: sample_service_def mem.lawful_store_axioms)
  from redelivery_changes_nothing [OF this 1 2] 1 2 show ?thesis by blast
qed

text \<open>
  What the failures of an ingest are meant to come to, written out by class and apart from the
  \<open>except\<close> clauses: no delivery can succeed where the episode is poison already, its type is not
  registered, its namespace or an identifier is malformed, its payload does not validate, the vectors
  have the wrong dimension, or the embedder refuses the request itself. A failure of the
  infrastructure is a timeout, a lost connection, or an embedding service that is down.
\<close>

definition cannot_succeed :: "exn \<Rightarrow> bool" where
  "cannot_succeed ex \<longleftrightarrow>
     (\<exists>r d. ex = PoisonEpisodeError r d) \<or> (\<exists>t. ex = UnknownPayloadTypeError t) \<or>
     (\<exists>ns bad. ex = NamespaceValidationError ns bad) \<or> (\<exists>f v. ex = IdentifierValidationError f v) \<or>
     (\<exists>m. ex = ValidationError m) \<or> (\<exists>a x. ex = EmbedDimensionError a x) \<or>
     (\<exists>m u sc ty. ex = EmbedRequestError m u sc ty)"

definition recoverable :: "exn \<Rightarrow> bool" where
  "recoverable ex \<longleftrightarrow>
     is_TimeoutError ex \<or> (\<exists>m. ex = ConnectionError m) \<or>
     (is_EmbedServiceError ex \<and> (\<forall>m u sc ty. ex \<noteq> EmbedRequestError m u sc ty))"

text \<open>
  A malformed episode, by its own fields: an unrecognised format, or a JSON episode without a payload
  type, with a body that is no JSON, or with a type that is not registered.
\<close>

definition malformed_episode :: "episode \<Rightarrow> bool" where
  "malformed_episode e \<longleftrightarrow>
     e_content_format e \<notin> {''json'', ''markdown'', ''text''} \<or>
     (e_content_format e = ''json'' \<and>
      (e_payload_type e = None \<or> loads (e_body e) = None \<or> (\<exists>t. e_payload_type e = Some t \<and> \<not> registered t)))"

lemma classify_sorted:
  "if cannot_succeed cause then \<exists>r d. classify_failure cause = PoisonEpisodeError r d
   else \<exists>m. classify_failure cause = TransientIngestError m"
  by (cases cause) (simp_all add: classify_failure_def cannot_succeed_def)

lemma recoverable_succeeds: "recoverable ex \<Longrightarrow> \<not> cannot_succeed ex"
  by (cases ex) (simp_all add: recoverable_def cannot_succeed_def)

lemma ingest_Exn: "ingest sv e s = (Exn ex, s') \<longleftrightarrow>
    (\<exists>cause. route_episode sv e s = (Exn cause, s') \<and> ex = classify_failure cause)"
  by (auto simp: ingest_def catch_def throw_def split: prod.splits res.splits)

lemma bad_format_poison:
  assumes "e_content_format e \<notin> {''json'', ''markdown'', ''text''}"
  shows "ingest sv e s = (Exn (unrecognized_format (e_content_format e)), s)"
  using assms by (auto simp: ingest_def route_episode_def catch_def throw_def classify_failure_def unrecognized_format_def)

text \<open>A malformed episode is poison, and the store is not called.\<close>

lemma malformed_episode_is_poison:
  assumes "malformed_episode e"
  shows "\<exists>r d. ingest sv e s = (Exn (PoisonEpisodeError r d), s)"
proof (cases "e_content_format e = ''json''")
  case False
  with assms show ?thesis using bad_format_poison [of e sv s]
    by (auto simp: malformed_episode_def unrecognized_format_def)
next
  case True
  have "\<exists>ex. episode_payload sv e = Inl ex \<and> cannot_succeed ex"
  proof (cases "e_payload_type e")
    case None
    then show ?thesis by (simp add: episode_payload_def cannot_succeed_def)
  next
    case t: (Some t)
    show ?thesis
    proof (cases "loads (e_body e)")
      case None
      then show ?thesis using t by (simp add: episode_payload_def cannot_succeed_def)
    next
      case (Some v)
      with assms True t have "get_model_for_type t = Inl (UnknownPayloadTypeError (JStr t))"
        by (simp add: malformed_episode_def get_model_Inl)
      then show ?thesis using Some t by (simp add: episode_payload_def cannot_succeed_def)
    qed
  qed
  then obtain ex where ex: "episode_payload sv e = Inl ex" "cannot_succeed ex" by blast
  then have "route_episode sv e s = (Exn ex, s)" using True
    by (simp add: route_episode_def ingest_json_def throw_def)
  then have "ingest sv e s = (Exn (classify_failure ex), s)" by (auto simp: ingest_Exn)
  then show ?thesis using classify_sorted [of ex] ex(2) by auto
qed

text \<open>
  C16: Every failure of an ingest is sorted by what caused it. It is poison exactly when the cause is
  one that no delivery can get past (the classes of \<open>cannot_succeed\<close>) and transient exactly when
  it is any other; so a timeout, a lost connection or an embedding service that is down is retried and
  never parked. And an episode that is malformed by its own fields always fails, as poison, with the
  store untouched.
\<close>

theorem ingest_failures_sorted:
  "(ingest sv e s = (Exn ex, s') \<longrightarrow>
      (\<exists>cause. route_episode sv e s = (Exn cause, s') \<and>
         ((\<exists>r d. ex = PoisonEpisodeError r d) \<longleftrightarrow> cannot_succeed cause) \<and>
         ((\<exists>m. ex = TransientIngestError m) \<longleftrightarrow> \<not> cannot_succeed cause) \<and>
         (recoverable cause \<longrightarrow> (\<exists>m. ex = TransientIngestError m)))) \<and>
   (malformed_episode e \<longrightarrow> (\<exists>r d. ingest sv e s = (Exn (PoisonEpisodeError r d), s)))"
proof (intro conjI impI)
  assume "ingest sv e s = (Exn ex, s')"
  then obtain cause where c: "route_episode sv e s = (Exn cause, s')" and ex: "ex = classify_failure cause"
    by (auto simp: ingest_Exn)
  have "(\<exists>r d. ex = PoisonEpisodeError r d) \<longleftrightarrow> cannot_succeed cause"
    "(\<exists>m. ex = TransientIngestError m) \<longleftrightarrow> \<not> cannot_succeed cause"
    using classify_sorted [of cause] ex by (auto split: if_splits)
  with c recoverable_succeeds [of cause] show "\<exists>cause. route_episode sv e s = (Exn cause, s') \<and>
         ((\<exists>r d. ex = PoisonEpisodeError r d) \<longleftrightarrow> cannot_succeed cause) \<and>
         ((\<exists>m. ex = TransientIngestError m) \<longleftrightarrow> \<not> cannot_succeed cause) \<and>
         (recoverable cause \<longrightarrow> (\<exists>m. ex = TransientIngestError m))" by blast
qed (rule malformed_episode_is_poison)

text \<open>Two failures: an episode of an unknown format, and one that a store without its database refuses.\<close>

definition down_api :: "mem_store store_api" where
  "down_api = (mem_api no_score)\<lparr>st_put := (\<lambda>ns k v. throw (ConnectionError ''refused''))\<rparr>"

theorem ingest_failures_sorted_witness:
  "(\<exists>r d. ingest sample_service (sample_episode\<lparr>e_content_format := ''pdf''\<rparr>) [] = (Exn (PoisonEpisodeError r d), [])) \<and>
   (\<exists>ex. ingest (sample_service\<lparr>s_store := down_api\<rparr>) (sample_episode\<lparr>e_body := ''some''\<rparr>) [] = (Exn ex, []) \<and>
      (\<exists>m. ex = TransientIngestError m))"
proof
  let ?e = "sample_episode\<lparr>e_content_format := ''pdf''\<rparr>"
  have "malformed_episode ?e" by (simp add: malformed_episode_def)
  with ingest_failures_sorted [of sample_service ?e "[]"]
  show "\<exists>r d. ingest sample_service ?e [] = (Exn (PoisonEpisodeError r d), [])" by blast
  let ?sv = "sample_service\<lparr>s_store := down_api\<rparr>" and ?d = "sample_episode\<lparr>e_body := ''some''\<rparr>"
  let ?cause = "ConnectionError ''refused''"
  let ?c = "\<lparr>c_index = 0, c_text = ''some'', c_source_ref = None, c_project = ''guardkit''\<rparr>"
  have cs: "chunk_prose char_tokenizer ''some'' 8 2 None ''guardkit'' = Ok [?c]" by code_simp
  have ns: "validate_namespace (chunk_namespace ?c) = Inr ()"
    by (simp add: validate_namespace_ok chunk_namespace_def full_class_def char_class_defs)
  have "write_chunks sample_prims down_api ''ep1'' [?c] meta [] = (Exn ?cause, [])" for meta
    by (simp add: write_chunks_def write_chunk_def ns down_api_def bind_def throw_def ret_def lift_res_def)
  with cs have "ingest_prose ?sv ?d [] = (Exn ?cause, [])"
    by (simp add: ingest_prose_def sample_service_def sample_episode_def)
  then have r: "route_episode ?sv ?d [] = (Exn ?cause, [])"
    by (simp add: route_episode_def) (simp add: sample_episode_def)
  then have i: "ingest ?sv ?d [] = (Exn (classify_failure ?cause), [])" by (auto simp: ingest_Exn)
  from ingest_failures_sorted [of ?sv ?d "[]" "classify_failure ?cause" "[]"] i
  show "\<exists>ex. ingest ?sv ?d [] = (Exn ex, []) \<and> (\<exists>m. ex = TransientIngestError m)"
    by (auto simp: r recoverable_def)
qed

text \<open>
  A prose episode that spells a special token of the tokenizer, as a text about language models may,
  fails in the chunker with a \<open>ValueError\<close>. That is no poison to the service: the failure counts as
  transient, the store is untouched, and the episode is redelivered although no delivery can succeed.
\<close>

lemma special_token_is_transient:
  assumes "e_content_format e \<in> {''markdown'', ''text''}" and "strip (e_body e) \<noteq> []"
    and "sec \<in> set (split_into_sections (e_body e))" and "encode (s_tokenizer sv) sec = Inl (ValueError m0)"
    and "\<forall>t ex. encode (s_tokenizer sv) t = Inl ex \<longrightarrow> (\<exists>m. ex = ValueError m)"
    and "0 < s_chunk_target_tokens sv" and "s_overlap_tokens sv < s_chunk_target_tokens sv"
  shows "\<exists>m. ingest sv e s = (Exn (TransientIngestError m), s)"
proof -
  let ?r = "chunk_prose (s_tokenizer sv) (e_body e) (s_chunk_target_tokens sv) (s_overlap_tokens sv) (e_source_ref e) (e_project_id e)"
  obtain ex where r: "?r = Exn ex"
    using chunk_prose_refused [OF assms(6,7,2,3,4)] by blast
  moreover have "chunker_end (s_tokenizer sv) (e_source_ref e) (e_project_id e) ?r"
    using chunk_prose_end [OF assms(6,7)] .
  ultimately obtain m where "ex = ValueError m" using assms(5) by (auto simp: chunker_end_def)
  with r assms(1) have "route_episode sv e s = (Exn (ValueError m), s)"
    by (auto simp: route_episode_def ingest_prose_def throw_def)
  then have "ingest sv e s = (Exn (classify_failure (ValueError m)), s)" by (auto simp: ingest_Exn)
  then show ?thesis by (simp add: classify_failure_def)
qed

text \<open>
  A malformed or self-referring \<open>supersedes\<close> list is not treated as the payload validation
  failure it is: the error has no clause of its own, so the service reports a transient failure,
  without having touched the store, and the episode is redelivered although it cannot succeed.
\<close>

theorem bad_supersedes_is_transient:
  assumes "e_content_format e = ''json''" and "e_payload_type e = Some t" and "loads (e_body e) = Some (JObj kvs)"
    and "get_model_for_type t = Inr c" and "''self'' \<notin> fst ` set kvs"
    and "payload_init (s_pydantic sv) c kvs = Inl (SupersessionValidationError m ref)"
  shows "ingest sv e s = (Exn (TransientIngestError (''Unexpected error during ingest: '' @ m)), s)"
  using assms
  by (simp add: ingest_def route_episode_def ingest_json_def episode_payload_def construct_payload_def catch_def
      throw_def classify_failure_def)

definition bad_episode :: episode where
  "bad_episode = sample_episode\<lparr>e_content_format := ''json'', e_payload_type := Some ''adr'',
     e_body := dumps (JObj [(''supersedes'', JList [JStr ''x''])])\<rparr>"

theorem bad_supersedes_is_transient_witness:
  "\<exists>m. ingest sample_service bad_episode [] = (Exn (TransientIngestError m), [])"
proof -
  let ?kvs = "[(''supersedes'', JList [JStr ''x''])]"
  have l: "loads (e_body bad_episode) = Some (JObj ?kvs)"
    using loads_dumps [of "JObj ?kvs"] by (simp add: bad_episode_def)
  have m: "get_model_for_type ''adr'' = Inr ADRPayload" by (simp add: get_model_for_type_def PAYLOAD_REGISTRY_def)
  have "payload_init (s_pydantic sample_service) ADRPayload ?kvs
      = Inl (SupersessionValidationError (bad_ref_msg ''x'' 1) ''x'')"
    by (simp add: payload_init_def check_key_def supersedes_arg_def normalize_supersedes_def)
  from bad_supersedes_is_transient [OF _ _ l m _ this] show ?thesis
    by (auto simp: bad_episode_def)
qed

subsection \<open>Chunks in the store\<close>

lemma chunk_seed_inj: "chunk_seed e i = chunk_seed e' i' \<Longrightarrow> e = e' \<and> i = i'"
proof -
  assume eq: "chunk_seed e i = chunk_seed e' i'"
  have digit: "CHR '':'' \<notin> set (show_nat n)" for n
    using show_nat_digits [of "CHR '':''" n] by (auto simp: char_class_defs)
  have "takeWhile (\<lambda>c. c \<noteq> CHR '':'') (rev (chunk_seed x n)) = rev (show_nat n)" for x n
    using digit by (auto simp: chunk_seed_def takeWhile_append)
  with eq have "rev (show_nat i) = rev (show_nat i')" by metis
  then have "i = i'" by (simp add: show_nat_inj)
  with eq show ?thesis by (simp add: chunk_seed_def)
qed

text \<open>
  Every chunk of an ingested prose episode is in the store under its own key, with its text and
  index, when the name-based UUIDs do not collide: no two chunks of an episode, and no chunks of
  different episodes, share a key seed.
\<close>

theorem chunks_stored:
  assumes "lawful_store st view rank window" and "write_chunks pr st eid cs meta s = (Ok (), s')"
    and "inj (uuid5 pr FLEET_MEMORY_NAMESPACE)" and "distinct (map c_index cs)" and "c \<in> set cs"
  shows "view s' (chunk_namespace c) (chunk_store_key pr eid (c_index c)) = Some (chunk_value eid c meta) \<and>
    (\<forall>eid' i. chunk_store_key pr eid' i = chunk_store_key pr eid (c_index c) \<longrightarrow> eid' = eid \<and> i = c_index c)"
proof -
  have view: "view s' = fold (put_chunk pr eid meta) cs (view s)"
    using lawful_store.write_chunks_return [OF assms(1,2)] by simp
  have key: "eid' = eid \<and> i = c_index c" if "chunk_store_key pr eid' i = chunk_store_key pr eid (c_index c)" for eid' i
    using that chunk_seed_inj injD [OF assms(3)] unfolding chunk_store_key_def by metis
  obtain xs ys where cs: "cs = xs @ c # ys" using assms(5) by (meson split_list)
  have "chunk_store_key pr eid (c_index d) \<noteq> chunk_store_key pr eid (c_index c)" if "d \<in> set ys" for d
    using key [of eid "c_index d"] assms(4) that unfolding cs by (metis distinct.simps(2) distinct_append imageI list.simps(9) map_append set_map)
  then have "fold (put_chunk pr eid meta) ys V (chunk_namespace c) (chunk_store_key pr eid (c_index c))
      = V (chunk_namespace c) (chunk_store_key pr eid (c_index c))" for V
    by (intro fold_put_miss) auto
  then have "view s' (chunk_namespace c) (chunk_store_key pr eid (c_index c)) = Some (chunk_value eid c meta)"
    by (simp add: view cs) (simp add: put_chunk_def)
  with key show ?thesis by blast
qed

theorem chunks_stored_witness:
  "\<exists>s'. write_chunks sample_prims (mem_api no_score) ''ep'' [\<lparr>c_index = 0, c_text = ''t'', c_source_ref = None, c_project = ''p''\<rparr>] None [] = (Ok (), s') \<and>
    mem_view s' [''fleet_memory'', ''p'', ''chunk''] (chunk_store_key sample_prims ''ep'' 0) \<noteq> None"
proof -
  let ?c = "\<lparr>c_index = 0, c_text = ''t'', c_source_ref = None, c_project = ''p''\<rparr>"
  have "validate_namespace (chunk_namespace ?c) = Inr ()"
    by (simp add: validate_namespace_ok chunk_namespace_def full_class_def char_class_defs)
  then obtain s' where s': "write_chunks sample_prims (mem_api no_score) ''ep'' [?c] None [] = (Ok (), s')"
    using mem_write_chunks_total [of "[?c]" sample_prims no_score "''ep''" None "[]"] by auto
  have "inj (uuid5 sample_prims FLEET_MEMORY_NAMESPACE)" by (simp add: sample_prims_def inj_on_def)
  from chunks_stored [OF mem.lawful_store_axioms, OF s' this, of ?c] s' show ?thesis
    by (simp add: chunk_namespace_def)
qed

subsection \<open>The life of a message\<close>

text \<open>
  What the relay relies on in the broker: a publish that returns has added the letter, and no
  publish removes one. The in-process broker keeps the letters in a list.
\<close>

type_synonym letter = "(string \<times> json) list \<times> string"

locale dead_letters =
  fixes pub :: "'b publish" and letters :: "'b \<Rightarrow> letter set"
  assumes pub_ok: "pub p subj b = (Ok (), b') \<Longrightarrow> (p, subj) \<in> letters b'"
    and pub_mono: "letters b \<subseteq> letters (snd (pub p subj b))"

definition list_publish :: "letter list publish" where
  "list_publish p subj b = (Ok (), b @ [(p, subj)])"

interpretation list_broker: dead_letters list_publish set
  by unfold_locales (auto simp: list_publish_def)

text \<open>
  A message on the durable consumer: how often it was delivered, the deliveries being handled, how the
  others ended, and what became of it. JetStream delivers a message that has no outcome yet while it was
  delivered less than \<open>max_deliver\<close> times: at first, after a nak, and when \<open>ack_wait\<close> passed without an
  answer, even while an earlier delivery is still being handled. A delivery ends with the handler's answer;
  with an exception that left the handler; or unanswered, because the relay was killed, the connection
  lost, or \<open>ack_wait\<close> passed.
\<close>

datatype outcome = Stored | Parked | Abandoned

datatype ending = Answered disposition | Escaped exn | Unanswered

record message =
  g_deliveries :: nat
  g_running :: "nat list"
  g_endings :: "(nat \<times> ending) list"
  g_outcome :: "outcome option"

definition new_message :: message where
  "new_message = \<lparr>g_deliveries = 0, g_running = [], g_endings = [], g_outcome = None\<rparr>"

definition deliver_next :: "message \<Rightarrow> message" where
  "deliver_next m = m\<lparr>g_deliveries := Suc (g_deliveries m), g_running := Suc (g_deliveries m) # g_running m\<rparr>"

definition end_delivery :: "nat \<Rightarrow> ending \<Rightarrow> outcome option \<Rightarrow> message \<Rightarrow> message" where
  "end_delivery k en out m =
     m\<lparr>g_running := remove1 k (g_running m), g_endings := g_endings m @ [(k, en)],
       g_outcome := (case g_outcome m of None \<Rightarrow> out | Some x \<Rightarrow> Some x)\<rparr>"

text \<open>An ack stores the message, a reject terminates it, a nak leaves it to be delivered again.\<close>

fun outcome_of :: "disposition \<Rightarrow> outcome option" where
  "outcome_of Acked = Some Stored"
| "outcome_of Rejected = Some Parked"
| "outcome_of Naked = None"

text \<open>
  The steps. The subscriber names no policy for an exception that leaves the handler, so both of the
  framework's are steps: the message goes back to the queue, or it is terminated there and then, with no
  letter. An unanswered delivery may have done any part of its work: the store is whatever it is then,
  and letters may have been added. Between the steps other messages change the store and the marker and
  may add letters.
\<close>

inductive life ::
  "relay_config \<Rightarrow> 'b publish \<Rightarrow> ('b \<Rightarrow> letter set) \<Rightarrow> 's service \<Rightarrow> episode \<Rightarrow>
   message \<times> ('s, 'b) world \<Rightarrow> message \<times> ('s, 'b) world \<Rightarrow> bool"
  for cfg pub letters sv e where
  deliver: "g_outcome m = None \<Longrightarrow> g_deliveries m < max_deliver cfg \<Longrightarrow>
    life cfg pub letters sv e (m, w) (deliver_next m, w)"
| answer: "k \<in> set (g_running m) \<Longrightarrow> handle_memory_episode cfg pub sv e (Some k) w = (Ok d, w') \<Longrightarrow>
    life cfg pub letters sv e (m, w) (end_delivery k (Answered d) (outcome_of d) m, w')"
| requeue: "k \<in> set (g_running m) \<Longrightarrow> handle_memory_episode cfg pub sv e (Some k) w = (Exn ex, w') \<Longrightarrow>
    life cfg pub letters sv e (m, w) (end_delivery k (Escaped ex) None m, w')"
| abandon: "k \<in> set (g_running m) \<Longrightarrow> handle_memory_episode cfg pub sv e (Some k) w = (Exn ex, w') \<Longrightarrow>
    life cfg pub letters sv e (m, w) (end_delivery k (Escaped ex) (Some Abandoned) m, w')"
| unanswered: "k \<in> set (g_running m) \<Longrightarrow> letters (w_broker w) \<subseteq> letters (w_broker w') \<Longrightarrow>
    life cfg pub letters sv e (m, w) (end_delivery k Unanswered None m, w')"
| other: "letters (w_broker w) \<subseteq> letters (w_broker w') \<Longrightarrow> life cfg pub letters sv e (m, w) (m, w')"

inductive reachable ::
  "relay_config \<Rightarrow> 'b publish \<Rightarrow> ('b \<Rightarrow> letter set) \<Rightarrow> 's service \<Rightarrow> episode \<Rightarrow> message \<times> ('s, 'b) world \<Rightarrow> bool"
  for cfg pub letters sv e where
  arrive: "reachable cfg pub letters sv e (new_message, w)"
| step: "reachable cfg pub letters sv e x \<Longrightarrow> life cfg pub letters sv e x y \<Longrightarrow> reachable cfg pub letters sv e y"

text \<open>The exception is one that publishing a letter raised.\<close>

definition publish_refused :: "'b publish \<Rightarrow> exn \<Rightarrow> bool" where
  "publish_refused pub ex \<longleftrightarrow> (\<exists>p subj b b'. pub p subj b = (Exn ex, b'))"

definition has_letter :: "('b \<Rightarrow> letter set) \<Rightarrow> relay_config \<Rightarrow> episode \<Rightarrow> ('s, 'b) world \<Rightarrow> bool" where
  "has_letter letters cfg e w \<longleftrightarrow>
     (\<exists>p. (p, dlq_subject cfg @ ''.'' @ e_project_id e) \<in> letters (w_broker w)
          \<and> dict_get p ''episode_id'' = Some (JStr (e_id e)))"

lemma dlq_payload_id: "dict_get (dlq_payload e r d @ extra) ''episode_id'' = Some (JStr (e_id e))"
  by (simp add: dlq_payload_def)

lemma reject_cases:
  assumes "bind (publish_dlq cfg pub e r dt extra) (\<lambda>_. bind (record_mark k) (\<lambda>_. ret Rejected)) w = (Ok d, w')"
  shows "d = Rejected \<and> (\<exists>b. pub (dlq_payload e r dt @ extra) (dlq_subject cfg @ ''.'' @ e_project_id e) b = (Ok (), w_broker w'))"
  using assms by (auto simp: publish_dlq_def on_broker_def bind_Ok_iff record_mark_def ret_def split: prod.splits)

lemma failure_route:
  "(\<exists>r dt. handle_failure cfg pub e md ex w =
       bind (publish_dlq cfg pub e r dt []) (\<lambda>_. bind (record_mark ''dlq'') (\<lambda>_. ret Rejected)) w)
   \<or> (\<exists>le fm. handle_failure cfg pub e md ex w = route_transient cfg pub e md le fm w)"
  by (cases ex) (auto simp: handle_failure_def)

lemma failure_cases:
  assumes "handle_failure cfg pub e md ex w = (Ok d, w')"
  shows "(d = Naked \<and> delivery_count md < max_deliver cfg)
    \<or> (d = Rejected \<and> (\<exists>r dt extra b. pub (dlq_payload e r dt @ extra) (dlq_subject cfg @ ''.'' @ e_project_id e) b
          = (Ok (), w_broker w')))"
  using failure_route [of cfg pub e md ex w]
proof (elim disjE exE)
  fix r dt assume eq: "handle_failure cfg pub e md ex w =
    bind (publish_dlq cfg pub e r dt []) (\<lambda>_. bind (record_mark ''dlq'') (\<lambda>_. ret Rejected)) w"
  from reject_cases [OF assms [unfolded eq]] show ?thesis by blast
next
  fix le fm assume rt: "handle_failure cfg pub e md ex w = route_transient cfg pub e md le fm w"
  show ?thesis
  proof (cases "max_deliver cfg \<le> delivery_count md")
    case True
    from reject_cases [OF assms [unfolded rt route_transient_def if_P [OF True]]] show ?thesis by blast
  next
    case False
    with assms rt show ?thesis by (simp add: route_transient_def bind_Ok_iff record_mark_def ret_def)
  qed
qed

lemma handle_cases:
  assumes "handle_memory_episode cfg pub sv e md w = (Ok d, w')"
  shows "(d = Acked \<and> ingest sv e (w_store w) = (Ok (), w_store w'))
    \<or> (d = Naked \<and> delivery_count md < max_deliver cfg)
    \<or> (d = Rejected \<and> (\<exists>r dt extra b. pub (dlq_payload e r dt @ extra) (dlq_subject cfg @ ''.'' @ e_project_id e) b
          = (Ok (), w_broker w')))"
proof -
  obtain r s where r: "ingest sv e (w_store w) = (r, s)" by fastforce
  show ?thesis
  proof (cases r)
    case (Ok u)
    then show ?thesis using assms r
      by (auto simp: handle_memory_episode_def on_store_def bind_def record_mark_def ret_def)
  next
    case (Exn ex)
    then have "handle_failure cfg pub e md ex (w\<lparr>w_store := s\<rparr>) = (Ok d, w')"
      using assms r by (simp add: handle_memory_episode_def on_store_def)
    from failure_cases [OF this] show ?thesis by blast
  qed (use assms r in \<open>simp add: handle_memory_episode_def on_store_def\<close>)
qed

text \<open>Only a refused letter makes the handler raise: the store's failures are answered.\<close>

lemma publish_raises:
  "publish_dlq cfg pub e r dt extra w = (Exn ex, w') \<Longrightarrow> publish_refused pub ex"
  unfolding publish_refused_def by (auto simp: publish_dlq_def on_broker_def split: prod.splits)

lemma reject_raises:
  assumes "bind (publish_dlq cfg pub e r dt extra) (\<lambda>_. bind (record_mark k) (\<lambda>_. ret Rejected)) w = (Exn ex, w')"
  shows "publish_refused pub ex"
proof -
  obtain r0 w0 where p: "publish_dlq cfg pub e r dt extra w = (r0, w0)" by fastforce
  with assms have "r0 = Exn ex" by (cases r0) (simp_all add: bind_def record_mark_def ret_def)
  with p show ?thesis by (auto intro: publish_raises)
qed

lemma failure_raises:
  assumes "handle_failure cfg pub e md ex w = (Exn ex', w')"
  shows "publish_refused pub ex'"
  using failure_route [of cfg pub e md ex w]
proof (elim disjE exE)
  fix r dt assume eq: "handle_failure cfg pub e md ex w =
    bind (publish_dlq cfg pub e r dt []) (\<lambda>_. bind (record_mark ''dlq'') (\<lambda>_. ret Rejected)) w"
  from reject_raises [OF assms [unfolded eq]] show ?thesis .
next
  fix le fm assume rt: "handle_failure cfg pub e md ex w = route_transient cfg pub e md le fm w"
  show ?thesis
  proof (cases "max_deliver cfg \<le> delivery_count md")
    case True
    from reject_raises [OF assms [unfolded rt route_transient_def if_P [OF True]]] show ?thesis .
  next
    case False
    with assms rt show ?thesis by (simp add: route_transient_def bind_def record_mark_def ret_def)
  qed
qed

lemma handle_raises:
  assumes "handle_memory_episode cfg pub sv e md w = (Exn ex, w')"
  shows "publish_refused pub ex"
proof -
  obtain r s where r: "ingest sv e (w_store w) = (r, s)" by fastforce
  from assms r obtain ex0 where "handle_failure cfg pub e md ex0 (w\<lparr>w_store := s\<rparr>) = (Exn ex, w')"
    by (cases r) (auto simp: handle_memory_episode_def on_store_def bind_def record_mark_def ret_def)
  from failure_raises [OF this] show ?thesis .
qed

lemma end_delivery_simps [simp]:
  "g_deliveries (end_delivery k en out m) = g_deliveries m"
  "g_running (end_delivery k en out m) = remove1 k (g_running m)"
  "g_endings (end_delivery k en out m) = g_endings m @ [(k, en)]"
  "g_outcome (end_delivery k en out m) = (case g_outcome m of None \<Rightarrow> out | Some x \<Rightarrow> Some x)"
  by (simp_all add: end_delivery_def)

lemma deliver_next_simps [simp]:
  "g_deliveries (deliver_next m) = Suc (g_deliveries m)"
  "g_running (deliver_next m) = Suc (g_deliveries m) # g_running m"
  "g_endings (deliver_next m) = g_endings m"
  "g_outcome (deliver_next m) = g_outcome m"
  by (simp_all add: deliver_next_def)

lemma new_message_simps [simp]:
  "g_deliveries new_message = 0" "g_running new_message = []" "g_endings new_message = []" "g_outcome new_message = None"
  by (simp_all add: new_message_def)

text \<open>What every ended delivery says of the message, and what the outcome rests on.\<close>

definition ending_ok :: "relay_config \<Rightarrow> 'b publish \<Rightarrow> outcome option \<Rightarrow> nat \<Rightarrow> ending \<Rightarrow> bool" where
  "ending_ok cfg pub out k en \<longleftrightarrow>
     (case en of
        Answered d \<Rightarrow> if d = Naked then k < max_deliver cfg else out \<noteq> None
      | Escaped ex \<Rightarrow> publish_refused pub ex
      | Unanswered \<Rightarrow> True)"

definition outcome_ok ::
  "relay_config \<Rightarrow> ('b \<Rightarrow> letter set) \<Rightarrow> 's service \<Rightarrow> episode \<Rightarrow> message \<Rightarrow> ('s, 'b) world \<Rightarrow> bool" where
  "outcome_ok cfg letters sv e m w \<longleftrightarrow>
     (case g_outcome m of
        None \<Rightarrow> True
      | Some Stored \<Rightarrow> \<exists>s s'. ingest sv e s = (Ok (), s')
      | Some Parked \<Rightarrow> has_letter letters cfg e w
      | Some Abandoned \<Rightarrow> \<exists>k ex. (k, Escaped ex) \<in> set (g_endings m))"

definition tracked :: "relay_config \<Rightarrow> 'b publish \<Rightarrow> message \<Rightarrow> bool" where
  "tracked cfg pub m \<longleftrightarrow>
     g_deliveries m \<le> max_deliver cfg \<and>
     (\<forall>k. 0 < k \<and> k \<le> g_deliveries m \<longrightarrow> k \<in> set (g_running m) \<or> (\<exists>en. (k, en) \<in> set (g_endings m))) \<and>
     (\<forall>k en. (k, en) \<in> set (g_endings m) \<longrightarrow> ending_ok cfg pub (g_outcome m) k en)"

lemma tracked_deliver: "tracked cfg pub m \<Longrightarrow> g_deliveries m < max_deliver cfg \<Longrightarrow> tracked cfg pub (deliver_next m)"
  by (auto simp: tracked_def le_Suc_eq Suc_le_eq)

lemma tracked_end:
  assumes "tracked cfg pub m" and "ending_ok cfg pub (g_outcome (end_delivery k en out m)) k en"
  shows "tracked cfg pub (end_delivery k en out m)"
proof -
  have later: "ending_ok cfg pub (g_outcome m) i en' \<Longrightarrow> ending_ok cfg pub (g_outcome (end_delivery k en out m)) i en'" for i en'
    by (auto simp: ending_ok_def split: ending.splits option.splits if_splits)
  have "i \<in> set (remove1 k (g_running m)) \<or> (\<exists>x. (i, x) \<in> set (g_endings m @ [(k, en)]))"
    if "i \<in> set (g_running m) \<or> (\<exists>x. (i, x) \<in> set (g_endings m))" for i
    using that by (cases "i = k") auto
  with assms later show ?thesis unfolding tracked_def end_delivery_simps(1-3) by auto
qed

lemma has_letter_mono: "letters (w_broker w) \<subseteq> letters (w_broker w') \<Longrightarrow> has_letter letters cfg e w \<Longrightarrow> has_letter letters cfg e w'"
  by (auto simp: has_letter_def)

lemma outcome_mono:
  "outcome_ok cfg letters sv e m w \<Longrightarrow> letters (w_broker w) \<subseteq> letters (w_broker w') \<Longrightarrow> outcome_ok cfg letters sv e m w'"
  using has_letter_mono [of letters w w'] by (auto simp: outcome_ok_def split: option.splits outcome.splits)

text \<open>An outcome that stands is not changed by a later ending; otherwise the new one counts.\<close>

lemma outcome_end:
  assumes "outcome_ok cfg letters sv e m w'" and "outcome_ok cfg letters sv e (m\<lparr>g_outcome := out, g_endings := [(k, en)]\<rparr>) w'"
  shows "outcome_ok cfg letters sv e (end_delivery k en out m) w'"
  using assms by (auto simp: outcome_ok_def split: option.splits outcome.splits)

context dead_letters
begin

lemma keeps_publish: "keeps (publish_dlq cfg pub e r dt extra) (\<lambda>w. L \<subseteq> letters (w_broker w))"
proof (rule keepsI)
  fix w :: "('s, 'b) world"
  assume "L \<subseteq> letters (w_broker w)"
  with pub_mono show "L \<subseteq> letters (w_broker (snd (publish_dlq cfg pub e r dt extra w)))"
    unfolding publish_dlq_def on_broker_def by (auto split: prod.splits) (metis snd_conv subset_iff)
qed

lemma keeps_mark: "keeps (record_mark d) (\<lambda>w. L \<subseteq> letters (w_broker w))"
  by (rule keepsI) (simp add: record_mark_def)

lemma keeps_failure: "keeps (handle_failure cfg pub e md ex) (\<lambda>w. L \<subseteq> letters (w_broker w))"
proof -
  have "keeps (route_transient cfg pub e md le fm) (\<lambda>w. L \<subseteq> letters (w_broker w))" for le fm
    by (auto simp: route_transient_def intro!: keeps_bind keeps_publish keeps_mark)
  then show ?thesis by (cases ex) (auto simp: handle_failure_def intro!: keeps_bind keeps_publish keeps_mark)
qed

lemma handle_letters:
  assumes "handle_memory_episode cfg pub sv e md w = (r, w')"
  shows "letters (w_broker w) \<subseteq> letters (w_broker w')"
proof -
  obtain r0 s where r0: "ingest sv e (w_store w) = (r0, s)" by fastforce
  have "letters (w_broker w) \<subseteq> letters (w_broker (snd (handle_failure cfg pub e md ex (w\<lparr>w_store := s\<rparr>))))" for ex
    by (rule keepsD [OF keeps_failure]) simp
  with assms r0 show ?thesis
    by (cases r0) (auto simp: handle_memory_episode_def on_store_def bind_def record_mark_def ret_def,
        metis snd_conv subset_iff)
qed

lemma life_inv:
  assumes "reachable cfg pub letters sv e x"
  shows "tracked cfg pub (fst x) \<and> outcome_ok cfg letters sv e (fst x) (snd x)"
  using assms
proof (induction rule: reachable.induct)
  case (arrive w)
  then show ?case by (auto simp: tracked_def outcome_ok_def)
next
  case (step x y)
  from step(2) show ?case
  proof (cases rule: life.cases)
    case (deliver m w)
    with step.IH show ?thesis by (auto simp: tracked_deliver outcome_ok_def split: option.splits)
  next
    case (answer k m w d w')
    have old: "outcome_ok cfg letters sv e m w'"
      using outcome_mono handle_letters [OF answer(4)] step.IH answer(1) by fastforce
    show ?thesis
    proof (cases d)
      case Acked
      with handle_cases [OF answer(4)] have "ingest sv e (w_store w) = (Ok (), w_store w')" by auto
      then have "outcome_ok cfg letters sv e (m\<lparr>g_outcome := Some Stored, g_endings := [(k, Answered Acked)]\<rparr>) w'"
        by (auto simp: outcome_ok_def)
      with old step.IH answer Acked show ?thesis
        by (auto intro!: outcome_end tracked_end simp: ending_ok_def split: option.splits)
    next
      case Naked
      with handle_cases [OF answer(4)] have "k < max_deliver cfg" by (auto simp: delivery_count_def)
      with old step.IH answer Naked show ?thesis
        by (auto intro!: outcome_end tracked_end simp: ending_ok_def) (auto simp: outcome_ok_def)
    next
      case Rejected
      with handle_cases [OF answer(4)] obtain r dt extra b where
        "pub (dlq_payload e r dt @ extra) (dlq_subject cfg @ ''.'' @ e_project_id e) b = (Ok (), w_broker w')" by auto
      from pub_ok [OF this] have "has_letter letters cfg e w'" unfolding has_letter_def using dlq_payload_id by blast
      then have "outcome_ok cfg letters sv e (m\<lparr>g_outcome := Some Parked, g_endings := [(k, Answered Rejected)]\<rparr>) w'"
        by (auto simp: outcome_ok_def)
      with old step.IH answer Rejected show ?thesis
        by (auto intro!: outcome_end tracked_end simp: ending_ok_def split: option.splits)
    qed
  next
    case (requeue k m w ex w')
    have "outcome_ok cfg letters sv e m w'"
      using outcome_mono handle_letters [OF requeue(4)] step.IH requeue(1) by fastforce
    with step.IH requeue handle_raises [OF requeue(4)] show ?thesis
      by (auto intro!: outcome_end tracked_end simp: ending_ok_def) (auto simp: outcome_ok_def)
  next
    case (abandon k m w ex w')
    have "outcome_ok cfg letters sv e m w'"
      using outcome_mono handle_letters [OF abandon(4)] step.IH abandon(1) by fastforce
    with step.IH abandon handle_raises [OF abandon(4)] show ?thesis
      by (auto intro!: outcome_end tracked_end simp: ending_ok_def) (auto simp: outcome_ok_def)
  next
    case (unanswered k m w w')
    have "outcome_ok cfg letters sv e m w'" using outcome_mono unanswered(1,4) step.IH by fastforce
    with step.IH unanswered show ?thesis
      by (auto intro!: outcome_end tracked_end simp: ending_ok_def) (auto simp: outcome_ok_def)
  next
    case (other w w' m)
    with step.IH outcome_mono [of cfg letters sv e m w w'] show ?thesis by simp
  qed
qed

end



text \<open>
  The hole that is left, on a broker that refuses letters: the poison message is terminated by the
  framework, and there is no letter.
\<close>

definition refusing_publish :: "letter list publish" where
  "refusing_publish p subj b = (Exn (ConnectionError ''nats''), b)"

lemma refused_letter_is_lost:
  "\<exists>m w. reachable \<lparr>max_deliver = 5, dlq_subject = ''dlq''\<rparr> refusing_publish set sample_service
      (sample_episode\<lparr>e_content_format := ''pdf''\<rparr>) (m, w) \<and> g_outcome m = Some Abandoned \<and> w_broker w = []"
proof -
  let ?cfg = "\<lparr>max_deliver = 5, dlq_subject = ''dlq''\<rparr>" and ?e = "sample_episode\<lparr>e_content_format := ''pdf''\<rparr>"
  let ?w = "\<lparr>w_store = [], w_broker = [], w_marks = []\<rparr> :: (mem_store, letter list) world"
  let ?m = "deliver_next new_message" and ?ex = "ConnectionError ''nats''"
  have "ingest sample_service ?e [] = (Exn (unrecognized_format (e_content_format ?e)), [])"
    by (rule bad_format_poison) simp
  then have h: "handle_memory_episode ?cfg refusing_publish sample_service ?e (Some 1) ?w = (Exn ?ex, ?w)"
    by (simp add: handle_memory_episode_def on_store_def unrecognized_format_def handle_failure_def bind_def
        publish_dlq_def on_broker_def refusing_publish_def)
  have "reachable ?cfg refusing_publish set sample_service ?e (?m, ?w)"
    by (rule reachable.step [OF reachable.arrive life.deliver]) simp_all
  from reachable.step [OF this life.abandon [OF _ h]]
  have "reachable ?cfg refusing_publish set sample_service ?e (end_delivery 1 (Escaped ?ex) (Some Abandoned) ?m, ?w)" by simp
  then show ?thesis by (intro exI [of _ "end_delivery 1 (Escaped ?ex) (Some Abandoned) ?m"] exI [of _ ?w]) simp
qed

end
