(* ===== verification/Corpus.thy ===== *)
theory Corpus
  imports Relay
begin

text \<open>
  From a checkout to typed payloads: the walker (\<open>reindex/walker.py\<close>), the ownership manifest
  (\<open>reindex/manifest.py\<close>), the classifier (\<open>reindex/classify.py\<close>) and the parser of completed
  tasks (\<open>reindex/parsers.py\<close>). The file system and the YAML loader are arguments. The results: the
  walker never reads outside the checkout, a file of this pipeline is covered by no directory of the
  other one, and an identifier minted from any task id is valid.
\<close>

subsection \<open>Paths and the file system\<close>

text \<open>
  An absolute path is the list of its components, as \<open>pathlib\<close> holds it: empty components and
  \<open>"."\<close> are dropped when a path is read, \<open>".."\<close> is kept until \<open>resolve\<close>.
\<close>

type_synonym path = "string list"

definition path_parts :: "string \<Rightarrow> path" where
  "path_parts s = filter (\<lambda>p. p \<noteq> [] \<and> p \<noteq> ''.'') (split_on CHR ''/'' s)"

definition path_div :: "path \<Rightarrow> string \<Rightarrow> path" where
  "path_div base s = (if prefix ''/'' s then path_parts s else base @ path_parts s)"

text \<open>\<open>str(path)\<close> of a relative and of an absolute path; \<open>str(Path(s))\<close>.\<close>

definition relative_str :: "path \<Rightarrow> string" where
  "relative_str p = (if p = [] then ''.'' else join ''/'' p)"

definition absolute_str :: "path \<Rightarrow> string" where
  "absolute_str p = CHR ''/'' # join ''/'' p"

definition posix_str :: "string \<Rightarrow> string" where
  "posix_str s =
     (if prefix ''//'' s \<and> \<not> prefix ''///'' s then ''//'' @ join ''/'' (path_parts s)
      else if prefix ''/'' s then absolute_str (path_parts s)
      else relative_str (path_parts s))"

definition replace_char :: "char \<Rightarrow> char \<Rightarrow> string \<Rightarrow> string" where
  "replace_char a b s = map (\<lambda>c. if c = a then b else c) s"

definition slashes :: "string \<Rightarrow> string" where
  "slashes s = replace_char (CHR 0x5C) (CHR ''/'') s"

definition is_relative_to :: "path \<Rightarrow> path \<Rightarrow> bool" where
  "is_relative_to p base \<longleftrightarrow> prefix base p"

text \<open>\<open>path.suffix\<close>: the last dot and what follows it, when neither side of it is empty.\<close>

definition path_suffix :: "path \<Rightarrow> string" where
  "path_suffix p =
     (let name = (if p = [] then [] else last p);
          tail = rev (takeWhile (\<lambda>c. c \<noteq> CHR ''.'') (rev name))
      in if tail \<noteq> [] \<and> Suc (length tail) < length name then CHR ''.'' # tail else [])"

text \<open>
  The calls of the file system. \<open>f_resolve\<close> follows links and gives \<open>None\<close> where it raises
  \<open>OSError\<close> or \<open>RuntimeError\<close>; \<open>f_rglob\<close> lists everything below a directory; \<open>f_read\<close> gives
  \<open>None\<close> for a file that cannot be read or decoded.
\<close>

record filesystem =
  f_resolve :: "path \<Rightarrow> path option"
  f_exists :: "path \<Rightarrow> bool"
  f_is_dir :: "path \<Rightarrow> bool"
  f_is_file :: "path \<Rightarrow> bool"
  f_rglob :: "path \<Rightarrow> path list"
  f_read :: "path \<Rightarrow> string option"

subsection \<open>The walker\<close>

record corpus_document =
  d_path :: path
  d_text :: string

definition walk_entry :: "filesystem \<Rightarrow> path \<Rightarrow> path \<Rightarrow> corpus_document list" where
  "walk_entry fs containment_root entry =
     (if \<not> f_is_file fs entry then []
      else if lower (path_suffix entry) \<noteq> ''.md'' then []
      else case f_resolve fs entry of
        None \<Rightarrow> []
      | Some resolved \<Rightarrow>
          if \<not> is_relative_to resolved containment_root then []
          else (case f_read fs resolved of
                  None \<Rightarrow> []
                | Some text \<Rightarrow> [\<lparr>d_path = resolved, d_text = text\<rparr>]))"

definition walk_within :: "filesystem \<Rightarrow> path \<Rightarrow> path \<Rightarrow> corpus_document list" where
  "walk_within fs scan_root containment_root =
     concat (map (walk_entry fs containment_root) (f_rglob fs scan_root))"

definition unresolved :: "path \<Rightarrow> exn" where
  "unresolved p = OtherError (''cannot resolve '' @ absolute_str p)"

definition walk_corpus :: "filesystem \<Rightarrow> path \<Rightarrow> exn + corpus_document list" where
  "walk_corpus fs corpus_root =
     (case f_resolve fs corpus_root of
        None \<Rightarrow> Inl (unresolved corpus_root)
      | Some resolved \<Rightarrow>
          Inr (if \<not> f_exists fs resolved then [] else if \<not> f_is_dir fs resolved then []
               else walk_within fs resolved resolved))"

definition walk_root :: "filesystem \<Rightarrow> path \<Rightarrow> string \<Rightarrow> corpus_document list" where
  "walk_root fs corpus_root relative_root =
     (case f_resolve fs (path_div corpus_root relative_root) of
        None \<Rightarrow> []
      | Some dir \<Rightarrow>
          if \<not> is_relative_to dir corpus_root then []
          else if \<not> f_exists fs dir \<or> \<not> f_is_dir fs dir then []
          else walk_within fs dir corpus_root)"

definition walk_roots :: "filesystem \<Rightarrow> path \<Rightarrow> string list \<Rightarrow> exn + corpus_document list" where
  "walk_roots fs corpus_root relative_roots =
     (case f_resolve fs corpus_root of
        None \<Rightarrow> Inl (unresolved corpus_root)
      | Some resolved \<Rightarrow>
          Inr (if \<not> f_exists fs resolved \<or> \<not> f_is_dir fs resolved then []
               else concat (map (walk_root fs resolved) relative_roots)))"

subsection \<open>The manifest\<close>

record manifest_entry =
  me_kind :: string
  me_episode_type :: string
  me_directories :: "string list"
  me_owner :: string
  me_content_format :: string

record corpus_manifest =
  cm_schema_version :: int
  cm_project :: string
  cm_entries :: "manifest_entry list"

definition KNOWN_OWNERS :: "string list" where
  "KNOWN_OWNERS = [''harvest'', ''reindex'']"

definition reindex_roots :: "corpus_manifest \<Rightarrow> string list" where
  "reindex_roots m = concat (map me_directories (filter (\<lambda>e. me_owner e = ''reindex'') (cm_entries m)))"

text \<open>A directory covers a path that is the directory or lies below it.\<close>

definition covers :: "string \<Rightarrow> string \<Rightarrow> bool" where
  "covers dir path \<longleftrightarrow> path = dir \<or> prefix (dir @ ''/'') path"

type_synonym kind_match = "(string \<times> string) option \<times> nat"

definition match_dir :: "string \<Rightarrow> manifest_entry \<Rightarrow> string \<Rightarrow> kind_match \<Rightarrow> kind_match" where
  "match_dir path e dir best =
     (if covers (slashes dir) path \<and> snd best < length (slashes dir)
      then (Some (me_kind e, me_owner e), length (slashes dir)) else best)"

definition resolve_kind :: "corpus_manifest \<Rightarrow> string \<Rightarrow> (string \<times> string) option" where
  "resolve_kind m repo_relative_path =
     (let path = slashes (posix_str repo_relative_path) in
      fst (fold (\<lambda>e. fold (match_dir path e) (me_directories e)) (cm_entries m) (None, 0)))"

definition normal_dir :: "string \<Rightarrow> string" where
  "normal_dir dir = rstrip_by (\<lambda>c. c = CHR ''/'') (slashes dir)"

record dir_lists =
  harvest_dirs :: "string list"
  reindex_dirs :: "string list"
  seen_dirs :: "string list"

definition in_quotes :: "string \<Rightarrow> string" where
  "in_quotes s = [CHR 0x27] @ s @ [CHR 0x27]"

fun scan_dirs :: "string \<Rightarrow> string list \<Rightarrow> dir_lists \<Rightarrow> exn + dir_lists" where
  "scan_dirs owner [] acc = Inr acc"
| "scan_dirs owner (dir # dirs) acc =
     (let normalized = normal_dir dir in
      if normalized \<in> set (seen_dirs acc)
      then Inl (ManifestValidationError (''Directory '' @ in_quotes normalized @ '' is covered twice across manifest entries''))
      else
        (let acc1 = acc\<lparr>seen_dirs := seen_dirs acc @ [normalized]\<rparr> in
         scan_dirs owner dirs
           (if owner = ''harvest'' then acc1\<lparr>harvest_dirs := harvest_dirs acc @ [normalized]\<rparr>
            else acc1\<lparr>reindex_dirs := reindex_dirs acc @ [normalized]\<rparr>)))"

fun scan_entries :: "manifest_entry list \<Rightarrow> dir_lists \<Rightarrow> exn + dir_lists" where
  "scan_entries [] acc = Inr acc"
| "scan_entries (e # es) acc =
     (if me_owner e \<notin> set KNOWN_OWNERS
      then Inl (ManifestValidationError
             (''Unknown owner '' @ in_quotes (me_owner e) @ '' on manifest entry '' @ in_quotes (me_kind e)
              @ '': known owners are '' @ repr_list KNOWN_OWNERS))
      else case scan_dirs (me_owner e) (me_directories e) acc of
        Inl ex \<Rightarrow> Inl ex
      | Inr acc' \<Rightarrow> scan_entries es acc')"

definition nested_msg :: "string \<Rightarrow> string \<Rightarrow> string" where
  "nested_msg reindex_dir harvest_dir =
     ''Reindex root '' @ in_quotes reindex_dir @ '' is nested inside harvest directory '' @ in_quotes harvest_dir
     @ '': the same file would be publishable by both pipelines''"

definition nested_pairs :: "dir_lists \<Rightarrow> (string \<times> string) list" where
  "nested_pairs acc =
     filter (\<lambda>(r, h). prefix (h @ ''/'') r) (List.product (reindex_dirs acc) (harvest_dirs acc))"

definition validate_manifest :: "corpus_manifest \<Rightarrow> exn + unit" where
  "validate_manifest m =
     (case scan_entries (cm_entries m) \<lparr>harvest_dirs = [], reindex_dirs = [], seen_dirs = []\<rparr> of
        Inl ex \<Rightarrow> Inl ex
      | Inr acc \<Rightarrow>
          (case nested_pairs acc of
             [] \<Rightarrow> Inr ()
           | (r, h) # _ \<Rightarrow> Inl (ManifestValidationError (nested_msg r h))))"

text \<open>
  \<open>model\<close> is pydantic's construction of the manifest, \<open>json_error\<close> the text of the decoder's error.
\<close>

definition load_manifest ::
  "((string \<times> json) list \<Rightarrow> exn + corpus_manifest) \<Rightarrow> (string \<Rightarrow> string) \<Rightarrow> string \<Rightarrow> string \<Rightarrow> exn + corpus_manifest" where
  "load_manifest model json_error path raw_text =
     (let bad = (\<lambda>m. Inl (ManifestValidationError (''Manifest '' @ path @ m))) in
      case loads raw_text of
        None \<Rightarrow> bad ('' is not valid JSON: '' @ json_error raw_text)
      | Some (JObj raw) \<Rightarrow>
          (case dict_get raw ''schema_version'' of
             None \<Rightarrow> bad '' is missing required field: schema_version''
           | Some _ \<Rightarrow>
               (case model raw of
                  Inl (ValidationError e) \<Rightarrow> bad ('' failed validation: '' @ e)
                | Inl e \<Rightarrow> Inl e
                | Inr m \<Rightarrow> (case validate_manifest m of Inl e \<Rightarrow> Inl e | Inr _ \<Rightarrow> Inr m)))
      | Some _ \<Rightarrow> bad '' must be a JSON object'')"

subsection \<open>YAML values and front matter\<close>

text \<open>
  What \<open>yaml.safe_load\<close> can return. \<open>YOther\<close> is a value of another type (a date, bytes, a set) with
  its truth, its \<open>str\<close> and its \<open>repr\<close>.
\<close>

datatype yaml =
    YNull
  | YBool bool
  | YInt int
  | YFloat string
  | YStr string
  | YList "yaml list"
  | YDict "(yaml \<times> yaml) list"
  | YOther bool string string

fun repr_yaml :: "yaml \<Rightarrow> string" where
  "repr_yaml YNull = ''None''"
| "repr_yaml (YBool b) = (if b then ''True'' else ''False'')"
| "repr_yaml (YInt i) = show_int i"
| "repr_yaml (YFloat l) = l"
| "repr_yaml (YStr s) = repr_str s"
| "repr_yaml (YList xs) = ''['' @ join '', '' (map repr_yaml xs) @ '']''"
| "repr_yaml (YDict kvs) = ''{'' @ join '', '' (map (\<lambda>(k, v). repr_yaml k @ '': '' @ repr_yaml v) kvs) @ ''}''"
| "repr_yaml (YOther b s r) = r"

definition str_yaml :: "yaml \<Rightarrow> string" where
  "str_yaml v = (case v of YStr s \<Rightarrow> s | YOther b s r \<Rightarrow> s | _ \<Rightarrow> repr_yaml v)"

fun truthy_yaml :: "yaml \<Rightarrow> bool" where
  "truthy_yaml YNull = False"
| "truthy_yaml (YBool b) = b"
| "truthy_yaml (YInt i) = (i \<noteq> 0)"
| "truthy_yaml (YFloat l) = (\<not> float_zero l)"
| "truthy_yaml (YStr s) = (s \<noteq> [])"
| "truthy_yaml (YList xs) = (xs \<noteq> [])"
| "truthy_yaml (YDict kvs) = (kvs \<noteq> [])"
| "truthy_yaml (YOther b s r) = b"

type_synonym frontmatter = "(yaml \<times> yaml) list"

definition fm_get :: "frontmatter \<Rightarrow> string \<Rightarrow> yaml option" where
  "fm_get fm k = dict_get fm (YStr k)"

text \<open>
  The pattern \<open>^---\s*\n(.*?)\n---\s*\n\<close> with \<open>DOTALL\<close>. \<open>\s*\n\<close> may end at any newline of the run of
  white space, the last one first; \<open>(.*?)\<close> is the shortest text that the closing fence follows.
\<close>

definition fence_line :: "string \<Rightarrow> bool" where
  "fence_line s \<longleftrightarrow> prefix ''---'' s \<and> newline \<in> set (takeWhile is_space (drop 3 s))"

fun fm_body :: "string \<Rightarrow> string option" where
  "fm_body [] = None"
| "fm_body (c # s) =
     (if c = newline \<and> fence_line s then Some [] else map_option ((#) c) (fm_body s))"

fun fm_open :: "string \<Rightarrow> nat \<Rightarrow> string option" where
  "fm_open s 0 = None"
| "fm_open s (Suc k) =
     (if s ! k = newline \<and> fm_body (drop (Suc k) s) \<noteq> None then fm_body (drop (Suc k) s) else fm_open s k)"

definition fm_match :: "string \<Rightarrow> string option" where
  "fm_match text =
     (if prefix ''---'' text then fm_open (drop 3 text) (length (takeWhile is_space (drop 3 text))) else None)"

text \<open>\<open>yaml.safe_load\<close>: \<open>None\<close> where it raises \<open>YAMLError\<close>.\<close>

type_synonym yaml_loader = "string \<Rightarrow> yaml option"

datatype front = BadYaml | NoFrontmatter | Front yaml

definition extract_frontmatter :: "yaml_loader \<Rightarrow> string \<Rightarrow> front" where
  "extract_frontmatter safe_load text =
     (case fm_match text of
        None \<Rightarrow> NoFrontmatter
      | Some body \<Rightarrow>
          (case safe_load body of
             None \<Rightarrow> BadYaml
           | Some YNull \<Rightarrow> NoFrontmatter
           | Some v \<Rightarrow> Front v))"

subsection \<open>The classifier\<close>

definition TERMINAL_STATUSES :: "string list" where
  "TERMINAL_STATUSES = [''completed'', ''review_complete'', ''closed'', ''superseded'']"

definition AGENT_DEFINITION_KEYS :: "string list" where
  "AGENT_DEFINITION_KEYS = [''name'', ''model'', ''tools'']"

record classification =
  cl_path :: path
  cl_kind :: "string option"
  cl_frontmatter :: "frontmatter option"
  cl_skip_reason :: "string option"

definition publishable :: "classification \<Rightarrow> bool" where
  "publishable c \<longleftrightarrow> cl_skip_reason c = None"

definition skip :: "path \<Rightarrow> frontmatter option \<Rightarrow> string \<Rightarrow> classification" where
  "skip p fm reason = \<lparr>cl_path = p, cl_kind = None, cl_frontmatter = fm, cl_skip_reason = Some reason\<rparr>"

text \<open>
  \<open>path.resolve().relative_to(root.resolve())\<close>: \<open>resolve\<close> raises what the file system raises,
  \<open>relative_to\<close> a \<open>ValueError\<close>.
\<close>

definition repo_relative_path :: "filesystem \<Rightarrow> path \<Rightarrow> path \<Rightarrow> exn + string" where
  "repo_relative_path fs p corpus_root =
     (case (f_resolve fs p, f_resolve fs corpus_root) of
        (Some q, Some r) \<Rightarrow>
          if is_relative_to q r then Inr (slashes (relative_str (drop (length r) q)))
          else Inl (ValueError (in_quotes (absolute_str q) @ '' is not in the subpath of '' @ in_quotes (absolute_str r)))
      | (None, _) \<Rightarrow> Inl (unresolved p)
      | (_, None) \<Rightarrow> Inl (unresolved corpus_root))"

definition status_of :: "frontmatter \<Rightarrow> string" where
  "status_of fm = strip (case fm_get fm ''status'' of None \<Rightarrow> [] | Some v \<Rightarrow> str_yaml v)"

definition id_of :: "frontmatter \<Rightarrow> yaml option" where
  "id_of fm = (case fm_get fm ''id'' of None \<Rightarrow> None | Some v \<Rightarrow> if truthy_yaml v then Some v else None)"

definition classify_front :: "path \<Rightarrow> string \<Rightarrow> frontmatter \<Rightarrow> classification" where
  "classify_front p kind fm =
     (if list_all (\<lambda>k. YStr k \<in> fst ` set fm) AGENT_DEFINITION_KEYS
      then skip p (Some fm) ''agent-definition shape (name/model/tools keys)''
      else if id_of fm = None then skip p (Some fm) ''front-matter without id''
      else if lower (status_of fm) \<notin> set TERMINAL_STATUSES
      then skip p (Some fm) (''non-terminal status: '' @ (if status_of fm = [] then ''(missing)'' else status_of fm))
      else \<lparr>cl_path = p, cl_kind = Some kind, cl_frontmatter = Some fm, cl_skip_reason = None\<rparr>)"

definition classify_document ::
  "filesystem \<Rightarrow> yaml_loader \<Rightarrow> corpus_document \<Rightarrow> corpus_manifest \<Rightarrow> path \<Rightarrow> exn + classification" where
  "classify_document fs safe_load doc m corpus_root =
     (case repo_relative_path fs (d_path doc) corpus_root of
        Inl e \<Rightarrow> Inl e
      | Inr relative \<Rightarrow> Inr
          (case resolve_kind m relative of
             None \<Rightarrow> skip (d_path doc) None ''path outside manifest roots''
           | Some (kind, owner) \<Rightarrow>
               if owner \<noteq> ''reindex'' then skip (d_path doc) None (''harvest-owned kind: '' @ kind)
               else (case extract_frontmatter safe_load (d_text doc) of
                  BadYaml \<Rightarrow> skip (d_path doc) None ''bad YAML''
                | NoFrontmatter \<Rightarrow> skip (d_path doc) None ''no front-matter''
                | Front (YDict fm) \<Rightarrow> classify_front (d_path doc) kind fm
                | Front _ \<Rightarrow> skip (d_path doc) None ''front-matter without id'')))"

subsection \<open>The parser of completed tasks\<close>

text \<open>\<open>re.sub(r"[^A-Za-z0-9_]+", "_", value)\<close>\<close>

function squeeze :: "string \<Rightarrow> string" where
  "squeeze [] = []"
| "squeeze (c # s) =
     (if ident_char c then c # squeeze s else CHR ''_'' # squeeze (dropWhile (\<lambda>d. \<not> ident_char d) s))"
  by pat_completeness auto
termination by (relation "measure length") (auto simp: le_imp_less_Suc length_dropWhile_le)

definition sanitize_identifier :: "string \<Rightarrow> string" where
  "sanitize_identifier value =
     (if value = [] then ''unknown''
      else (let cleaned = strip_by (\<lambda>c. c = CHR ''_'') (squeeze value) in
            if cleaned = [] then ''unknown'' else cleaned))"

text \<open>\<open>str.splitlines()\<close>: a line ends at any line boundary, \<open>\r\n\<close> is one of them, and nothing follows the last.\<close>

definition line_end :: "char \<Rightarrow> bool" where
  "line_end c \<longleftrightarrow> in_range c 10 13 \<or> in_range c 28 30 \<or> of_char c = (133::nat)"

function splitlines :: "string \<Rightarrow> string list" where
  "splitlines s =
     (if s = [] then []
      else (let line = takeWhile (\<lambda>c. \<not> line_end c) s; rest = dropWhile (\<lambda>c. \<not> line_end c) s in
            line # splitlines (if take 2 rest = [CHR 0x0D, newline] then drop 2 rest else drop 1 rest)))"
  by pat_completeness auto
termination
proof (relation "measure length")
  fix s :: string and line rest
  assume "s \<noteq> []" and "line = takeWhile (\<lambda>c. \<not> line_end c) s" and "rest = dropWhile (\<lambda>c. \<not> line_end c) s"
  moreover have "length (dropWhile (\<lambda>c. \<not> line_end c) s) \<le> length s" by (rule length_dropWhile_le)
  ultimately show "(if take 2 rest = [CHR 0x0D, newline] then drop 2 rest else drop 1 rest, s) \<in> measure length"
    by (cases s) (auto simp: diff_less_Suc)
qed simp

declare splitlines.simps [simp del]

text \<open>
  \<open>^(#{2,3})\s+.*(lessons|key learnings).*$\<close>, ignoring case, and \<open>^(#{1,6})\s+\S\<close>: the number of
  hashes when the line matches.
\<close>

definition hashes :: "string \<Rightarrow> nat" where
  "hashes line = length (takeWhile (\<lambda>c. c = CHR 0x23) line)"

definition lessons_heading :: "string \<Rightarrow> nat option" where
  "lessons_heading line =
     (let n = hashes line; rest = drop n line in
      if (n = 2 \<or> n = 3) \<and> rest \<noteq> [] \<and> is_space (hd rest)
         \<and> (sublist ''lessons'' (lower (tl rest)) \<or> sublist ''key learnings'' (lower (tl rest)))
      then Some n else None)"

definition heading_level :: "string \<Rightarrow> nat option" where
  "heading_level line =
     (let n = hashes line; rest = drop n line in
      if 1 \<le> n \<and> n \<le> 6 \<and> rest \<noteq> [] \<and> is_space (hd rest) \<and> dropWhile is_space rest \<noteq> [] then Some n else None)"

fun find_lessons :: "string list \<Rightarrow> (nat \<times> string list) option" where
  "find_lessons [] = None"
| "find_lessons (l # ls) = (case lessons_heading l of Some n \<Rightarrow> Some (n, ls) | None \<Rightarrow> find_lessons ls)"

definition ends_section :: "nat \<Rightarrow> string \<Rightarrow> bool" where
  "ends_section n line \<longleftrightarrow> (case heading_level line of None \<Rightarrow> False | Some k \<Rightarrow> k \<le> n)"

definition extract_lessons :: "string \<Rightarrow> string option" where
  "extract_lessons text =
     (case find_lessons (splitlines text) of
        None \<Rightarrow> None
      | Some (n, rest) \<Rightarrow>
          (let body = strip (join [newline] (takeWhile (\<lambda>l. \<not> ends_section n l) rest)) in
           if body = [] then None else Some body))"

definition normalize_tags :: "yaml option \<Rightarrow> string list" where
  "normalize_tags raw_tags =
     (case raw_tags of
        Some (YList tags) \<Rightarrow> map str_yaml tags
      | Some (YStr s) \<Rightarrow> if strip s \<noteq> [] then [strip s] else []
      | _ \<Rightarrow> [])"

datatype parse_result = ParsedPayload payload path | UnparseableDocument string path

definition task_data :: "string \<Rightarrow> string option \<Rightarrow> string list \<Rightarrow> string \<Rightarrow> (string \<times> json) list" where
  "task_data identifier lessons domain_tags source_ref =
     [(''project'', JStr ''guardkit''), (''identifier'', JStr identifier), (''status'', JStr ''success''),
      (''duration_seconds'', JInt 0), (''task_id'', JStr identifier), (''lessons'', opt_str lessons),
      (''domain_tags'', JList (map JStr domain_tags)), (''source_ref'', JStr source_ref)]"

text \<open>The pipeline always passes the front matter the classifier parsed, a dictionary.\<close>

definition parse_front ::
  "filesystem \<Rightarrow> pydantic \<Rightarrow> corpus_document \<Rightarrow> path \<Rightarrow> frontmatter \<Rightarrow> exn + parse_result" where
  "parse_front fs pyd doc corpus_root fm =
     (case id_of fm of
        None \<Rightarrow> Inr (UnparseableDocument ''Missing required field: id'' (d_path doc))
      | Some raw_id \<Rightarrow>
          if lower (status_of fm) \<notin> set TERMINAL_STATUSES
          then Inr (UnparseableDocument (''Non-terminal status: '' @ (if status_of fm = [] then ''(missing)'' else status_of fm))
                 (d_path doc))
          else
            (case repo_relative_path fs (d_path doc) corpus_root of
               Inl (ValueError _) \<Rightarrow>
                 Inr (UnparseableDocument (''Document path escapes corpus root: '' @ absolute_str (d_path doc)) (d_path doc))
             | Inl e \<Rightarrow> Inl e
             | Inr source_ref \<Rightarrow>
                 (case payload_init pyd BuildOutcomePayload
                         (task_data (sanitize_identifier (str_yaml raw_id)) (extract_lessons (d_text doc))
                            (normalize_tags (fm_get fm ''tags'') @ [''task'', ''fm-status:'' @ status_of fm]) source_ref) of
                    Inl (IdentifierValidationError f v) \<Rightarrow>
                      Inr (UnparseableDocument (''Identifier validation failed: '' @ exn_str (IdentifierValidationError f v)) (d_path doc))
                  | Inl e \<Rightarrow> Inl e
                  | Inr p \<Rightarrow> Inr (ParsedPayload p (d_path doc)))))"

definition parse_completed_task ::
  "filesystem \<Rightarrow> yaml_loader \<Rightarrow> (string \<Rightarrow> string) \<Rightarrow> pydantic \<Rightarrow> corpus_document \<Rightarrow> path \<Rightarrow> frontmatter option \<Rightarrow>
   exn + parse_result" where
  "parse_completed_task fs safe_load yaml_error pyd doc corpus_root front =
     (case front of
        Some fm \<Rightarrow> parse_front fs pyd doc corpus_root fm
      | None \<Rightarrow>
          (case extract_frontmatter safe_load (d_text doc) of
             BadYaml \<Rightarrow> Inr (UnparseableDocument (''Failed to parse YAML front-matter: '' @ yaml_error (d_text doc)) (d_path doc))
           | Front (YDict fm) \<Rightarrow> parse_front fs pyd doc corpus_root fm
           | _ \<Rightarrow> Inr (UnparseableDocument ''No YAML front-matter found'' (d_path doc))))"

subsection \<open>The walker stays inside the checkout\<close>

lemma walk_entry_sound:
  "d \<in> set (walk_entry fs base entry) \<Longrightarrow>
   f_is_file fs entry \<and> lower (path_suffix entry) = ''.md'' \<and> f_resolve fs entry = Some (d_path d) \<and>
   is_relative_to (d_path d) base \<and> f_read fs (d_path d) = Some (d_text d)"
  by (auto simp: walk_entry_def split: if_splits option.splits)

lemma walk_within_sound:
  "d \<in> set (walk_within fs scan base) \<Longrightarrow>
   is_relative_to (d_path d) base \<and> f_read fs (d_path d) = Some (d_text d) \<and>
   (\<exists>entry \<in> set (f_rglob fs scan). f_is_file fs entry \<and> lower (path_suffix entry) = ''.md'' \<and>
      f_resolve fs entry = Some (d_path d))"
  by (auto simp: walk_within_def dest!: walk_entry_sound)

lemma walk_root_in:
  "d \<in> set (walk_root fs base rel) \<Longrightarrow>
   \<exists>dir. f_resolve fs (path_div base rel) = Some dir \<and> is_relative_to dir base \<and> d \<in> set (walk_within fs dir base)"
  by (cases "f_resolve fs (path_div base rel)") (auto simp: walk_root_def split: if_splits)

lemma walk_roots_sound:
  assumes "walk_roots fs corpus_root roots = Inr docs" and "d \<in> set docs"
  shows "\<exists>base dir rel entry. f_resolve fs corpus_root = Some base \<and> rel \<in> set roots \<and>
    f_resolve fs (path_div base rel) = Some dir \<and> is_relative_to dir base \<and>
    entry \<in> set (f_rglob fs dir) \<and> lower (path_suffix entry) = ''.md'' \<and> f_resolve fs entry = Some (d_path d) \<and>
    is_relative_to (d_path d) base \<and> f_read fs (d_path d) = Some (d_text d)"
proof -
  from assms obtain base rel dir where b: "f_resolve fs corpus_root = Some base" "rel \<in> set roots"
    "f_resolve fs (path_div base rel) = Some dir" "is_relative_to dir base" "d \<in> set (walk_within fs dir base)"
    by (auto simp: walk_roots_def split: option.splits if_splits dest!: walk_root_in)
  from walk_within_sound [OF b(5)] b(1-4) show ?thesis by blast
qed

text \<open>
  The walker never reads outside the checkout: every document it yields is a file listed below
  one of the asked roots, that root lies inside the checkout after links are followed, and so does
  the file itself, whose text is what was read there.
\<close>

theorem walk_roots_contained:
  assumes "walk_roots fs corpus_root roots = Inr docs" and "d \<in> set docs"
  shows "\<exists>base dir rel entry. f_resolve fs corpus_root = Some base \<and> rel \<in> set roots \<and>
    f_resolve fs (path_div base rel) = Some dir \<and> is_relative_to dir base \<and>
    entry \<in> set (f_rglob fs dir) \<and> lower (path_suffix entry) = ''.md'' \<and> f_resolve fs entry = Some (d_path d) \<and>
    is_relative_to (d_path d) base \<and> f_read fs (d_path d) = Some (d_text d)"
  by (rule walk_roots_sound [OF assms])

subsection \<open>Longest prefix\<close>

definition manifest_dirs :: "corpus_manifest \<Rightarrow> (manifest_entry \<times> string) list" where
  "manifest_dirs m = concat (map (\<lambda>e. map (Pair e) (me_directories e)) (cm_entries m))"

lemma manifest_dirs_iff: "(e, d) \<in> set (manifest_dirs m) \<longleftrightarrow> e \<in> set (cm_entries m) \<and> d \<in> set (me_directories e)"
  by (auto simp: manifest_dirs_def)

lemma fold_dirs:
  "fold (\<lambda>e. fold (match_dir path e) (me_directories e)) es b =
   fold (\<lambda>(e, d). match_dir path e d) (concat (map (\<lambda>e. map (Pair e) (me_directories e)) es)) b"
proof (induction es arbitrary: b)
  case (Cons e es)
  have "fold (match_dir path e) ds b = fold (\<lambda>(e, d). match_dir path e d) (map (Pair e) ds) b" for ds b
    by (induction ds arbitrary: b) simp_all
  with Cons show ?case by simp
qed simp

lemma match_fold:
  "fold (\<lambda>(e, d). match_dir path e d) xs (b, n) = (b', n') \<Longrightarrow>
   n \<le> n' \<and> (\<forall>(e, d) \<in> set xs. covers (slashes d) path \<longrightarrow> length (slashes d) \<le> n') \<and>
   ((b', n') = (b, n) \<or> (\<exists>(e, d) \<in> set xs. covers (slashes d) path \<and> n < n' \<and> n' = length (slashes d) \<and>
      b' = Some (me_kind e, me_owner e)))"
proof (induction xs arbitrary: b n)
  case (Cons x xs)
  obtain e d where x: "x = (e, d)" by (cases x)
  show ?case
  proof (cases "covers (slashes d) path \<and> n < length (slashes d)")
    case True
    with Cons.prems x have "fold (\<lambda>(e, d). match_dir path e d) xs (Some (me_kind e, me_owner e), length (slashes d)) = (b', n')"
      by (simp add: match_dir_def [of path e d])
    from Cons.IH [OF this] True x show ?thesis by fastforce
  next
    case False
    with Cons.prems x have "fold (\<lambda>(e, d). match_dir path e d) xs (b, n) = (b', n')" by (simp add: match_dir_def [of path e d])
    from Cons.IH [OF this] False x show ?thesis by fastforce
  qed
qed simp

lemma resolve_kind_some:
  assumes "resolve_kind m p = Some (kind, owner)"
  shows "\<exists>e d. (e, d) \<in> set (manifest_dirs m) \<and> covers (slashes d) (slashes (posix_str p)) \<and> kind = me_kind e \<and> owner = me_owner e \<and>
    (\<forall>(e', d') \<in> set (manifest_dirs m). covers (slashes d') (slashes (posix_str p)) \<longrightarrow> length (slashes d') \<le> length (slashes d))"
proof -
  obtain b n where f: "fold (\<lambda>(e, d). match_dir (slashes (posix_str p)) e d) (manifest_dirs m) (None, 0) = (b, n)" by fastforce
  with assms have "b = Some (kind, owner)" by (simp add: resolve_kind_def fold_dirs manifest_dirs_def Let_def)
  with match_fold [OF f] show ?thesis by fastforce
qed

lemma resolve_kind_none:
  assumes "resolve_kind m p = None" and "(e, d) \<in> set (manifest_dirs m)" and "d \<noteq> []"
  shows "\<not> covers (slashes d) (slashes (posix_str p))"
proof -
  obtain b n where f: "fold (\<lambda>(e, d). match_dir (slashes (posix_str p)) e d) (manifest_dirs m) (None, 0) = (b, n)" by fastforce
  with assms(1) have "b = None" by (simp add: resolve_kind_def fold_dirs manifest_dirs_def Let_def)
  with match_fold [OF f] have "n = 0" by auto
  with match_fold [OF f] assms(2,3) show ?thesis by (fastforce simp: slashes_def replace_char_def)
qed

subsection \<open>A validated manifest\<close>

definition lists_ok :: "dir_lists \<Rightarrow> bool" where
  "lists_ok acc \<longleftrightarrow> set (harvest_dirs acc) \<union> set (reindex_dirs acc) = set (seen_dirs acc) \<and>
     set (harvest_dirs acc) \<inter> set (reindex_dirs acc) = {} \<and> distinct (seen_dirs acc)"

lemma scan_dirs_ok:
  "scan_dirs owner ds acc = Inr acc' \<Longrightarrow> lists_ok acc \<Longrightarrow>
   lists_ok acc' \<and> set (harvest_dirs acc') = set (harvest_dirs acc) \<union> (if owner = ''harvest'' then normal_dir ` set ds else {}) \<and>
   set (reindex_dirs acc') = set (reindex_dirs acc) \<union> (if owner = ''harvest'' then {} else normal_dir ` set ds)"
proof (induction ds arbitrary: acc)
  case (Cons dir dirs)
  define nd where "nd = normal_dir dir"
  define next_acc where "next_acc = (if owner = ''harvest''
    then acc\<lparr>seen_dirs := seen_dirs acc @ [nd], harvest_dirs := harvest_dirs acc @ [nd]\<rparr>
    else acc\<lparr>seen_dirs := seen_dirs acc @ [nd], reindex_dirs := reindex_dirs acc @ [nd]\<rparr>)"
  from Cons.prems(1) have new: "nd \<notin> set (seen_dirs acc)" and rest: "scan_dirs owner dirs next_acc = Inr acc'"
    by (auto simp: Let_def nd_def next_acc_def split: if_splits)
  have "lists_ok next_acc" using Cons.prems(2) new by (auto simp: lists_ok_def next_acc_def)
  from Cons.IH [OF rest this] show ?case by (auto simp: next_acc_def nd_def)
qed simp

definition dirs_of :: "string \<Rightarrow> manifest_entry list \<Rightarrow> string set" where
  "dirs_of owner es = {normal_dir d | e d. e \<in> set es \<and> me_owner e = owner \<and> d \<in> set (me_directories e)}"

lemma dirs_of_Cons:
  "dirs_of owner (e # es) = (if me_owner e = owner then normal_dir ` set (me_directories e) else {}) \<union> dirs_of owner es"
  by (auto simp: dirs_of_def)

lemma scan_entries_ok:
  "scan_entries es acc = Inr acc' \<Longrightarrow> lists_ok acc \<Longrightarrow>
   lists_ok acc' \<and> set (harvest_dirs acc') = set (harvest_dirs acc) \<union> dirs_of ''harvest'' es \<and>
   set (reindex_dirs acc') = set (reindex_dirs acc) \<union> dirs_of ''reindex'' es"
proof (induction es acc rule: scan_entries.induct)
  case (2 e es acc)
  from "2.prems"(1) obtain acc1 where owner: "me_owner e \<in> set KNOWN_OWNERS"
    and one: "scan_dirs (me_owner e) (me_directories e) acc = Inr acc1" and rest: "scan_entries es acc1 = Inr acc'"
    by (auto split: sum.splits if_splits)
  note step = scan_dirs_ok [OF one "2.prems"(2)]
  from "2.IH" [OF _ one rest] step owner show ?case by (auto simp: dirs_of_Cons KNOWN_OWNERS_def)
qed (simp add: dirs_of_def)

lemma validated_dirs:
  assumes "validate_manifest m = Inr ()"
  shows "dirs_of ''harvest'' (cm_entries m) \<inter> dirs_of ''reindex'' (cm_entries m) = {}"
    and "r \<in> dirs_of ''reindex'' (cm_entries m) \<Longrightarrow> h \<in> dirs_of ''harvest'' (cm_entries m) \<Longrightarrow> \<not> prefix (h @ ''/'') r"
proof -
  from assms obtain acc where acc: "scan_entries (cm_entries m) \<lparr>harvest_dirs = [], reindex_dirs = [], seen_dirs = []\<rparr> = Inr acc"
    and none: "nested_pairs acc = []"
    by (auto simp: validate_manifest_def split: sum.splits list.splits)
  have "lists_ok \<lparr>harvest_dirs = [], reindex_dirs = [], seen_dirs = []\<rparr>" by (simp add: lists_ok_def)
  note ok = scan_entries_ok [OF acc this, simplified]
  show "dirs_of ''harvest'' (cm_entries m) \<inter> dirs_of ''reindex'' (cm_entries m) = {}" using ok by (auto simp: lists_ok_def)
  show "\<not> prefix (h @ ''/'') r" if "r \<in> dirs_of ''reindex'' (cm_entries m)" "h \<in> dirs_of ''harvest'' (cm_entries m)"
    using none ok that by (auto simp: nested_pairs_def filter_empty_conv)
qed

text \<open>Of two directories that cover a path, the shorter is the longer one or an ancestor of it.\<close>

lemma covers_nested:
  assumes "covers h p" and "covers r p" and "length h \<le> length r"
  shows "h = r \<or> prefix (h @ ''/'') r"
proof -
  have pre: "prefix d p" if "covers d p" for d
    using that by (auto simp: covers_def append_prefixD)
  have "prefix h r" using prefix_length_prefix [OF pre [OF assms(1)] pre [OF assms(2)] assms(3)] .
  then obtain t where r: "r = h @ t" by (auto simp: prefix_def)
  show ?thesis
  proof (cases t)
    case (Cons c cs)
    have "p \<noteq> h" using pre [OF assms(2)] r Cons by (auto simp: prefix_def)
    with assms(1) have "prefix (h @ ''/'') p" by (auto simp: covers_def)
    with pre [OF assms(2)] r Cons have "c = CHR ''/''" by (auto simp: prefix_def)
    with r Cons show ?thesis by (simp add: prefix_def)
  qed (simp add: r)
qed

text \<open>
  C14: No file can be published by both pipelines. In a validated manifest whose directories are
  written without a trailing slash, a path that resolves to this pipeline is covered by no directory
  of the other one, and it is the longest covering directory that decides.
\<close>

theorem ownership_exclusive:
  assumes "validate_manifest m = Inr ()" and "\<forall>(e, d) \<in> set (manifest_dirs m). normal_dir d = slashes d"
    and "resolve_kind m p = Some (kind, ''reindex'')"
  shows "(\<forall>(e, d) \<in> set (manifest_dirs m). covers (slashes d) (slashes (posix_str p)) \<longrightarrow> me_owner e \<noteq> ''harvest'') \<and>
    (\<exists>e d. (e, d) \<in> set (manifest_dirs m) \<and> me_kind e = kind \<and> me_owner e = ''reindex'' \<and> covers (slashes d) (slashes (posix_str p)) \<and>
      (\<forall>(e', d') \<in> set (manifest_dirs m). covers (slashes d') (slashes (posix_str p)) \<longrightarrow> length (slashes d') \<le> length (slashes d)))"
proof -
  let ?p = "slashes (posix_str p)"
  from resolve_kind_some [OF assms(3)] obtain e d where ed: "(e, d) \<in> set (manifest_dirs m)" "covers (slashes d) ?p"
    "kind = me_kind e" "me_owner e = ''reindex''"
    and longest: "\<forall>(e', d') \<in> set (manifest_dirs m). covers (slashes d') ?p \<longrightarrow> length (slashes d') \<le> length (slashes d)" by auto
  have "me_owner e' \<noteq> ''harvest''" if "(e', d') \<in> set (manifest_dirs m)" "covers (slashes d') ?p" for e' d'
  proof
    assume h: "me_owner e' = ''harvest''"
    have norm: "normal_dir d = slashes d" "normal_dir d' = slashes d'" using assms(2) ed(1) that(1) by auto
    have "slashes d \<in> dirs_of ''reindex'' (cm_entries m)" "slashes d' \<in> dirs_of ''harvest'' (cm_entries m)"
      unfolding dirs_of_def norm [symmetric]
      using ed(1,4) that(1) h unfolding manifest_dirs_iff by blast+
    moreover have "slashes d' = slashes d \<or> prefix (slashes d' @ ''/'') (slashes d)"
      using covers_nested [OF that(2) ed(2)] bspec [OF longest that(1)] that(2) by simp
    ultimately show False
      using validated_dirs(1) [OF assms(1)] validated_dirs(2) [OF assms(1), of "slashes d" "slashes d'"] by auto
  qed
  then have "\<forall>(e, d) \<in> set (manifest_dirs m). covers (slashes d) ?p \<longrightarrow> me_owner e \<noteq> ''harvest''" by blast
  moreover have "\<exists>e d. (e, d) \<in> set (manifest_dirs m) \<and> me_kind e = kind \<and> me_owner e = ''reindex'' \<and> covers (slashes d) ?p \<and>
      (\<forall>(e', d') \<in> set (manifest_dirs m). covers (slashes d') ?p \<longrightarrow> length (slashes d') \<le> length (slashes d))"
    by (rule exI [of _ e], rule exI [of _ d]) (intro conjI ed(1,2,4) ed(3) [symmetric] longest)
  ultimately show ?thesis by (rule conjI)
qed

definition sample_entry :: "string \<Rightarrow> string \<Rightarrow> string \<Rightarrow> manifest_entry" where
  "sample_entry kind dir owner =
     \<lparr>me_kind = kind, me_episode_type = kind, me_directories = [dir], me_owner = owner, me_content_format = ''markdown''\<rparr>"

definition sample_manifest :: corpus_manifest where
  "sample_manifest = \<lparr>cm_schema_version = 1, cm_project = ''guardkit'',
     cm_entries = [sample_entry ''adr'' ''docs/adr'' ''harvest'', sample_entry ''build_outcome'' ''tasks/completed'' ''reindex'']\<rparr>"

lemmas sample_manifest_defs = sample_manifest_def sample_entry_def

lemma sample_validated: "validate_manifest sample_manifest = Inr ()"
  by (simp add: sample_manifest_defs validate_manifest_def KNOWN_OWNERS_def normal_dir_def slashes_def replace_char_def rstrip_by_def
      nested_pairs_def Let_def)

lemma sample_resolved: "resolve_kind sample_manifest ''tasks/completed/T1.md'' = Some (''build_outcome'', ''reindex'')"
  by (simp add: sample_manifest_defs resolve_kind_def posix_str_def path_parts_def relative_str_def slashes_def replace_char_def
      match_dir_def covers_def)

theorem ownership_exclusive_witness:
  "validate_manifest sample_manifest = Inr () \<and>
   \<not> covers (slashes ''docs/adr'') (slashes (posix_str ''tasks/completed/T1.md''))"
proof -
  have "\<forall>(e, d) \<in> set (manifest_dirs sample_manifest). normal_dir d = slashes d"
    by (simp add: sample_manifest_defs manifest_dirs_def normal_dir_def slashes_def replace_char_def rstrip_by_def)
  from ownership_exclusive [OF sample_validated this sample_resolved] show ?thesis
    using sample_validated by (simp add: sample_manifest_defs manifest_dirs_def)
qed

text \<open>
  A directory written with a trailing slash passes the validation, which strips it, and is walked, but
  covers no path: \<open>resolve_kind\<close> compares the raw spelling, and no component of a path is empty.
\<close>

lemma split_on_append: "split_on c (s @ c # t) = split_on c s @ split_on c t"
proof (induction s)
  case (Cons x xs)
  obtain p ps where "split_on c xs = p # ps" by (rule split_on_Cons_obtain)
  with Cons show ?case by simp
qed simp

lemma trailing_slash_covers_nothing:
  assumes "\<forall>p \<in> set parts. p \<noteq> [] \<and> CHR ''/'' \<notin> set p" and "parts \<noteq> []"
  shows "\<not> covers (dir @ ''/'') (join ''/'' parts)"
proof
  assume "covers (dir @ ''/'') (join ''/'' parts)"
  then obtain t where t: "join ''/'' parts = dir @ CHR ''/'' # t" "t = [] \<or> (\<exists>t'. t = CHR ''/'' # t')"
    by (auto simp: covers_def prefix_def)
  have "parts = split_on (CHR ''/'') (join ''/'' parts)"
    using split_join [of parts "CHR ''/''"] assms by simp
  also have "\<dots> = split_on (CHR ''/'') dir @ split_on (CHR ''/'') t" by (simp add: t(1) split_on_append)
  finally have "[] \<in> set parts" using t(2) by auto
  with assms(1) show False by blast
qed

subsection \<open>Identifiers minted from task ids\<close>

lemma squeeze_ident: "list_all ident_char (squeeze s)"
proof (induction s rule: squeeze.induct)
  case (2 c s)
  have "ident_char (CHR ''_'')" by (simp add: ident_char_def)
  with 2 show ?case by simp
qed simp

lemma squeeze_id: "list_all ident_char s \<Longrightarrow> squeeze s = s"
  by (induction s) auto

lemma strip_by_id: "s = [] \<or> (\<not> P (hd s) \<and> \<not> P (last s)) \<Longrightarrow> strip_by P s = s"
  using dropWhile_eq_self_iff [of P s] dropWhile_eq_self_iff [of P "rev s"]
  by (auto simp: strip_by_def rstrip_by_def lstrip_by_def hd_rev)

lemma strip_by_ends:
  assumes "strip_by P s \<noteq> []"
  shows "\<not> P (hd (strip_by P s)) \<and> \<not> P (last (strip_by P s))"
proof -
  let ?l = "dropWhile P s"
  have r: "strip_by P s = rev (dropWhile P (rev ?l))" by (simp add: strip_by_def rstrip_by_def lstrip_by_def)
  have "dropWhile P (rev ?l) \<noteq> []" using assms r by simp
  then have last: "\<not> P (last (strip_by P s))" unfolding r by (simp add: last_rev hd_dropWhile)
  have "suffix (dropWhile P (rev ?l)) (rev ?l)" by (rule suffix_dropWhile)
  then have "prefix (strip_by P s) ?l" unfolding r by (simp add: suffix_to_prefix)
  then have "hd (strip_by P s) = hd ?l" using assms by (auto simp: prefix_def)
  moreover have "?l \<noteq> []" using assms r by (metis dropWhile.simps(1) rev.simps(1))
  moreover note hd_dropWhile [of P s]
  ultimately show ?thesis using last by metis
qed

lemma sanitize_ident: "full_class ident_char (sanitize_identifier s)"
proof -
  have "full_class ident_char ''unknown''" by (simp add: full_class_def char_class_defs)
  moreover have "list_all ident_char (strip_by (\<lambda>c. c = CHR ''_'') (squeeze s))"
    using squeeze_ident [of s] set_strip_by [of "\<lambda>c. c = CHR ''_''" "squeeze s"] by (auto simp: list_all_iff)
  ultimately show ?thesis by (auto simp: sanitize_identifier_def Let_def full_class_def)
qed

lemma sanitize_idem: "sanitize_identifier (sanitize_identifier s) = sanitize_identifier s"
proof -
  let ?t = "sanitize_identifier s"
  have t: "?t \<noteq> []" "squeeze ?t = ?t" using sanitize_ident [of s] by (simp_all add: full_class_def squeeze_id)
  have "hd ?t \<noteq> CHR ''_'' \<and> last ?t \<noteq> CHR ''_''"
    using strip_by_ends [of "\<lambda>c. c = CHR ''_''" "squeeze s"] by (simp add: sanitize_identifier_def Let_def)
  then show ?thesis unfolding sanitize_identifier_def [of ?t] using t by (simp add: strip_by_id)
qed

subsection \<open>What is published for a task\<close>

lemma classify_publishable:
  assumes "classify_document fs safe_load doc m corpus_root = Inr c" and "publishable c"
  obtains fm rel where "cl_frontmatter c = Some fm" "cl_path c = d_path doc" "id_of fm \<noteq> None"
    "lower (status_of fm) \<in> set TERMINAL_STATUSES" "repo_relative_path fs (d_path doc) corpus_root = Inr rel"
    "\<exists>kind. cl_kind c = Some kind \<and> resolve_kind m rel = Some (kind, ''reindex'')"
    "extract_frontmatter safe_load (d_text doc) = Front (YDict fm)"
proof -
  have reason: "cl_skip_reason c = None" using assms(2) by (simp add: publishable_def)
  from assms(1) reason obtain rel kind fm where rel: "repo_relative_path fs (d_path doc) corpus_root = Inr rel"
    and kind: "resolve_kind m rel = Some (kind, ''reindex'')"
    and fm: "extract_frontmatter safe_load (d_text doc) = Front (YDict fm)" and c: "c = classify_front (d_path doc) kind fm"
    by (auto simp: classify_document_def skip_def split: sum.splits option.splits if_splits front.splits yaml.splits)
  from reason [unfolded c] have front: "id_of fm \<noteq> None" "lower (status_of fm) \<in> set TERMINAL_STATUSES"
    and full: "c = \<lparr>cl_path = d_path doc, cl_kind = Some kind, cl_frontmatter = Some fm, cl_skip_reason = None\<rparr>"
    unfolding c by (auto simp: classify_front_def skip_def split: if_splits)
  show ?thesis by (rule that [OF _ _ front rel _ fm]) (simp_all add: full kind)
qed

context pydantic_model
begin

lemma task_init:
  assumes "pyd BuildOutcomePayload (task_data (sanitize_identifier s) l t r) = Inr p"
  shows "payload_init pyd BuildOutcomePayload (task_data (sanitize_identifier s) l t r) = Inr p"
proof (rule payload_initI)
  let ?d = "task_data (sanitize_identifier s) l t r"
  show "check_key ''project'' ?d = Inr ()" by (simp add: task_data_def check_key_def validate_identifier_def full_class_def char_class_defs)
  show "check_key ''identifier'' ?d = Inr ()"
    using sanitize_ident [of s] by (simp add: task_data_def check_key_def validate_identifier_def full_class_def)
  show "supersedes_arg ?d = Inr ?d" by (simp add: task_data_def supersedes_arg_def)
  show "pyd BuildOutcomePayload ?d = Inr p" by (rule assms)
  show "natural_key p \<notin> set (p_supersedes p)" using pyd_supersedes [OF assms] by (auto simp: task_data_def)
qed

end

lemma publishable_parses:
  assumes "pydantic_model pyd" and "\<forall>i l t r. \<exists>p. pyd BuildOutcomePayload (task_data i l t r) = Inr p"
    and "classify_document fs safe_load doc m corpus_root = Inr c" and "publishable c"
  shows "\<exists>p fm raw_id. parse_completed_task fs safe_load ye pyd doc corpus_root (cl_frontmatter c) = Inr (ParsedPayload p (d_path doc)) \<and>
    payload_ok p \<and> p_class p = BuildOutcomePayload \<and> p_project p = ''guardkit'' \<and>
    cl_frontmatter c = Some fm \<and> id_of fm = Some raw_id \<and> p_identifier p = sanitize_identifier (str_yaml raw_id)"
proof -
  from classify_publishable [OF assms(3,4)] obtain fm rel where fm: "cl_frontmatter c = Some fm" "id_of fm \<noteq> None"
    "lower (status_of fm) \<in> set TERMINAL_STATUSES" "repo_relative_path fs (d_path doc) corpus_root = Inr rel" by metis
  then obtain raw_id where id: "id_of fm = Some raw_id" by blast
  define d where "d = task_data (sanitize_identifier (str_yaml raw_id)) (extract_lessons (d_text doc))
    (normalize_tags (fm_get fm ''tags'') @ [''task'', ''fm-status:'' @ status_of fm]) rel"
  obtain p where pyd: "pyd BuildOutcomePayload d = Inr p" using assms(2) unfolding d_def by blast
  then have init: "payload_init pyd BuildOutcomePayload d = Inr p" unfolding d_def by (rule pydantic_model.task_init [OF assms(1)])
  have "parse_completed_task fs safe_load ye pyd doc corpus_root (cl_frontmatter c) = Inr (ParsedPayload p (d_path doc))"
    using fm id init by (simp add: parse_completed_task_def parse_front_def d_def)
  moreover have "p_project p = ''guardkit''" "p_identifier p = sanitize_identifier (str_yaml raw_id)"
    using pydantic_model.pyd_project [OF assms(1) pyd] pydantic_model.pyd_identifier [OF assms(1) pyd] by (simp_all add: d_def task_data_def)
  ultimately show ?thesis using pydantic_model.init_ok [OF assms(1) init] fm id by blast
qed

text \<open>
  Every document the classifier lets through becomes a valid build outcome: the parser never
  refuses it, whatever its id is, the identifier is the sanitised id, and that is a valid identifier
  which sanitising again leaves alone.
\<close>

theorem publishable_document_parses:
  assumes "pydantic_model pyd" and "\<forall>i l t r. \<exists>p. pyd BuildOutcomePayload (task_data i l t r) = Inr p"
    and "classify_document fs safe_load doc m corpus_root = Inr c" and "publishable c"
  shows "\<exists>p fm raw_id. parse_completed_task fs safe_load ye pyd doc corpus_root (cl_frontmatter c) = Inr (ParsedPayload p (d_path doc)) \<and>
    payload_ok p \<and> p_class p = BuildOutcomePayload \<and> p_project p = ''guardkit'' \<and>
    cl_frontmatter c = Some fm \<and> id_of fm = Some raw_id \<and> p_identifier p = sanitize_identifier (str_yaml raw_id) \<and>
    full_class ident_char (p_identifier p) \<and> sanitize_identifier (p_identifier p) = p_identifier p"
  using publishable_parses [OF assms, of ye] sanitize_ident sanitize_idem by metis

subsection \<open>Witnesses\<close>

text \<open>A checkout with one completed task, whose id has a dot, and a link that leads outside.\<close>

definition task_text :: string where
  "task_text = ''---'' @ [newline] @ ''front'' @ [newline] @ ''---'' @ [newline] @ ''## Lessons'' @ [newline] @ ''measure twice''"

definition sample_yaml :: yaml_loader where
  "sample_yaml s = (if s = ''front'' then Some (YDict [(YStr ''id'', YStr ''TASK-1.7''), (YStr ''status'', YStr ''Completed'')]) else None)"

definition sample_fs :: filesystem where
  "sample_fs =
     \<lparr>f_resolve = (\<lambda>p. if p = [''repo'', ''tasks'', ''completed'', ''out.md''] then Some [''etc'', ''secret.md''] else Some p),
      f_exists = (\<lambda>p. True), f_is_dir = (\<lambda>p. p \<noteq> [] \<and> last p = ''completed'' \<or> p = [''repo'']), f_is_file = (\<lambda>p. True),
      f_rglob = (\<lambda>p. [p @ [''T.md''], p @ [''out.md'']]), f_read = (\<lambda>p. Some task_text)\<rparr>"

definition task_doc :: corpus_document where
  "task_doc = \<lparr>d_path = [''repo'', ''tasks'', ''completed'', ''T.md''], d_text = task_text\<rparr>"

lemma sample_walk: "walk_roots sample_fs [''repo''] [''tasks/completed''] = Inr [task_doc]"
  by (simp add: walk_roots_def walk_root_def walk_within_def walk_entry_def sample_fs_def path_div_def path_parts_def is_relative_to_def
      path_suffix_def lower_def lower_char_def char_class_defs task_doc_def Let_def)

theorem walk_roots_contained_witness:
  "\<exists>base. f_resolve sample_fs [''repo''] = Some base \<and> is_relative_to (d_path task_doc) base"
  using walk_roots_contained [OF sample_walk, of task_doc] by auto

lemma task_relative: "repo_relative_path sample_fs (d_path task_doc) [''repo''] = Inr ''tasks/completed/T.md''"
  by (simp add: repo_relative_path_def sample_fs_def task_doc_def is_relative_to_def relative_str_def slashes_def replace_char_def)

lemma task_resolved: "resolve_kind sample_manifest ''tasks/completed/T.md'' = Some (''build_outcome'', ''reindex'')"
  by (simp add: sample_manifest_defs resolve_kind_def posix_str_def path_parts_def relative_str_def slashes_def replace_char_def
      match_dir_def covers_def)

definition task_front :: frontmatter where
  "task_front = [(YStr ''id'', YStr ''TASK-1.7''), (YStr ''status'', YStr ''Completed'')]"

lemma task_frontmatter: "extract_frontmatter sample_yaml (d_text task_doc) = Front (YDict task_front)"
proof -
  have "fm_match task_text = Some ''front''"
    by (simp add: fm_match_def task_text_def fence_line_def char_class_defs)
  then show ?thesis by (simp add: extract_frontmatter_def task_doc_def sample_yaml_def task_front_def)
qed

lemma task_status: "status_of task_front = ''Completed''" "lower ''Completed'' = ''completed''"
  by code_simp+

lemma task_classified:
  "classify_document sample_fs sample_yaml task_doc sample_manifest [''repo''] =
   Inr \<lparr>cl_path = d_path task_doc, cl_kind = Some ''build_outcome'', cl_frontmatter = Some task_front, cl_skip_reason = None\<rparr>"
proof -
  have "id_of task_front = Some (YStr ''TASK-1.7'')" by (simp add: id_of_def task_front_def fm_get_def)
  moreover have "\<not> list_all (\<lambda>k. YStr k \<in> fst ` set task_front) AGENT_DEFINITION_KEYS"
    by (simp add: task_front_def AGENT_DEFINITION_KEYS_def)
  ultimately show ?thesis
    by (simp add: classify_document_def task_relative task_resolved task_frontmatter classify_front_def task_status TERMINAL_STATUSES_def)
qed

text \<open>The schema reader accepts the data of every task.\<close>

lemma task_schema:
  "schema_init BuildOutcomePayload (task_data i l t r) = Inr
     \<lparr>p_class = BuildOutcomePayload, p_project = ''guardkit'', p_identifier = i, p_domain_tags = t, p_source_ref = r, p_version = 1,
      p_supersedes = [], p_fields = [(''status'', JStr ''success''), (''duration_seconds'', JInt 0), (''task_id'', JStr i),
        (''lessons'', opt_str l), (''approach'', JNull)]\<rparr>"
proof (rule schema_initI)
  have tags: "accepts (TList TStr) (JList (map JStr t))" by (simp add: list_all_iff)
  then show "read_fields base_fields (task_data i l t r) =
      Inr [(''project'', JStr ''guardkit''), (''identifier'', JStr i), (''domain_tags'', JList (map JStr t)),
        (''source_ref'', JStr r), (''version'', JInt 1), (''supersedes'', JList [])]"
    by (simp add: base_fields_def task_data_def)
  show "read_fields (class_fields BuildOutcomePayload) (task_data i l t r) = Inr [(''status'', JStr ''success''),
      (''duration_seconds'', JInt 0), (''task_id'', JStr i), (''lessons'', opt_str l), (''approach'', JNull)]"
    by (cases l) (simp_all add: build_outcome_fields_def task_data_def opt_str_def)
qed (simp_all add: strs_of_def str_of_def int_of_def model_validators_def role_attributed_def comp_def)

theorem publishable_document_parses_witness:
  "\<exists>p. parse_completed_task sample_fs sample_yaml id schema_init task_doc [''repo''] (Some task_front)
      = Inr (ParsedPayload p (d_path task_doc)) \<and> payload_ok p"
  using publishable_document_parses [OF schema.pydantic_model_axioms _ task_classified, of id] task_schema
  by (fastforce simp: publishable_def)

end
