(* ===== verification/Retrieval.thy ===== *)
theory Retrieval
  imports Writer
begin

text \<open>
  The retrieval surface: the request and its validation (\<open>retrieval/search_request.py\<close>), the
  paged, filtered search (\<open>retrieval/core.py\<close>) and the role defaults
  (\<open>retrieval/role_scope.py\<close>). The search pages through the ranked list of a lawful store;
  \<open>partition_spec\<close> says what it returns without mentioning pages.
\<close>

subsection \<open>Requests\<close>

record search_request =
  r_project :: string
  r_payload_types :: "string list"
  r_domain_tags :: "string list"
  r_query :: "string option"
  r_token_budget :: int
  r_include_superseded :: bool
  r_require_substantive :: bool

text \<open>
  \<open>^[a-zA-Z0-9_-]+(:[a-zA-Z0-9_-]+)?$\<close>, used with \<open>match\<close>: as for \<open>match_class\<close>, one
  trailing newline is let through.
\<close>

definition facet :: "string \<Rightarrow> bool" where
  "facet t \<longleftrightarrow> length (split_on CHR '':'' t) \<le> 2 \<and> list_all (full_class tag_char) (split_on CHR '':'' t)"

definition domain_tag_match :: "string \<Rightarrow> bool" where
  "domain_tag_match t \<longleftrightarrow> facet t \<or> (t \<noteq> [] \<and> last t = CHR 0x0A \<and> facet (butlast t))"

definition quoted_list :: "string list \<Rightarrow> string" where
  "quoted_list ts = join '', '' (map (\<lambda>t. [CHR 0x27] @ t @ [CHR 0x27]) ts)"

definition project_errors :: "string \<Rightarrow> string list" where
  "project_errors prj =
     (if match_class ns_char prj then []
      else [''Project identifier '' @ [CHR 0x27] @ prj @ [CHR 0x27]
            @ '' must use underscores only (match ^[a-z0-9_]+$, no hyphens)''])"

definition payload_type_errors :: "string list \<Rightarrow> string list" where
  "payload_type_errors ts =
     (let unknown = filter (\<lambda>t. \<not> registered t) ts in
      if unknown = [] then []
      else [''Unknown payload type(s) '' @ quoted_list unknown @ '': not found in PAYLOAD_REGISTRY. ''
            @ ''Valid types: '' @ join '', '' (sort (map fst PAYLOAD_REGISTRY))])"

definition domain_tag_errors :: "string list \<Rightarrow> string list" where
  "domain_tag_errors ts =
     (let malformed = filter (\<lambda>t. \<not> domain_tag_match t) ts in
      if malformed = [] then []
      else [''Malformed domain tag(s) '' @ quoted_list malformed @ '': tags must contain only ''
            @ ''letters, digits, underscore, or hyphen (no quotes, operators, or injection characters)''])"

definition token_budget_errors :: "int \<Rightarrow> string list" where
  "token_budget_errors b =
     (if b < 0 then [''token_budget must not be negative, got '' @ show_int b] else [])"

text \<open>
  The field validators all run and their messages are collected; the model validator runs when
  none of them failed.
\<close>

definition query_or_filter_errors :: "search_request \<Rightarrow> string list" where
  "query_or_filter_errors r =
     (if r_query r = None \<and> r_payload_types r = [] \<and> r_domain_tags r = []
      then [''A query or at least one filter (payload_types or domain_tags) is required''] else [])"

definition field_errors :: "search_request \<Rightarrow> string list" where
  "field_errors r =
     project_errors (r_project r) @ payload_type_errors (r_payload_types r)
     @ domain_tag_errors (r_domain_tags r) @ token_budget_errors (r_token_budget r)"

definition make_request :: "search_request \<Rightarrow> string list + search_request" where
  "make_request r =
     (if field_errors r \<noteq> [] then Inl (field_errors r)
      else if query_or_filter_errors r \<noteq> [] then Inl (query_or_filter_errors r)
      else Inr r)"

subsection \<open>Role defaults\<close>

definition ROLE_RETRIEVAL_DEFAULTS :: "(string \<times> int \<times> string list) list" where
  "ROLE_RETRIEVAL_DEFAULTS =
     [(''product-owner'', 4000, [''adr'', ''planning_outcome'', ''spec_survival'', ''document'']),
      (''architect'', 4000, [''adr'', ''pattern'', ''build_outcome'']),
      (''coach'', 2500, [''build_outcome'', ''review_report'', ''warning'']),
      (''qa-verifier'', 1500, [''live_verdict'', ''build_outcome'']),
      (''player'', 6000, [])]"

definition role_tag :: "string \<Rightarrow> string" where
  "role_tag role = ''role:'' @ role"

definition keep_registered :: "string list \<Rightarrow> string list" where
  "keep_registered ts = filter registered ts"

definition role_scoped_request ::
  "string \<Rightarrow> string \<Rightarrow> string option \<Rightarrow> int option \<Rightarrow> string list option \<Rightarrow> string list \<Rightarrow> bool \<Rightarrow> bool \<Rightarrow>
   (string list + search_request) option" where
  "role_scoped_request role project query budget types tags cross_role include_superseded =
     (case dict_get ROLE_RETRIEVAL_DEFAULTS role of
        None \<Rightarrow> None
      | Some (default_budget, default_types) \<Rightarrow>
          Some (make_request
            \<lparr>r_project = project,
             r_payload_types = keep_registered (case types of None \<Rightarrow> default_types | Some ts \<Rightarrow> ts),
             r_domain_tags = (if cross_role \<or> role_tag role \<in> set tags then tags else tags @ [role_tag role]),
             r_query = query,
             r_token_budget = (case budget of None \<Rightarrow> default_budget | Some b \<Rightarrow> b),
             r_include_superseded = include_superseded,
             r_require_substantive = False\<rparr>))"

subsection \<open>Matching one item\<close>

text \<open>
  \<open>item.value.get("natural_key", "")\<close>, read as text: \<open>split\<close> on a value of another type
  raises.
\<close>

definition key_text :: "stored \<Rightarrow> exn + string" where
  "key_text v =
     (case v ''natural_key'' of
        None \<Rightarrow> Inr []
      | Some (JStr s) \<Rightarrow> Inr s
      | Some _ \<Rightarrow> Inl (AttributeError ''object has no attribute split''))"

definition extract_payload_type :: "string \<Rightarrow> string" where
  "extract_payload_type nk = hd (split_on CHR '':'' nk)"

definition matches_project :: "item \<Rightarrow> string \<Rightarrow> bool" where
  "matches_project it project =
     (case i_namespace it of _ # p # _ \<Rightarrow> p = project | _ \<Rightarrow> False)"

definition matches_payload_types :: "item \<Rightarrow> string list \<Rightarrow> exn + bool" where
  "matches_payload_types it types =
     (if types = [] then Inr True
      else case key_text (i_value it) of
        Inl e \<Rightarrow> Inl e
      | Inr nk \<Rightarrow> Inr (extract_payload_type nk \<in> set types))"

definition item_domain_tags :: "item \<Rightarrow> json list" where
  "item_domain_tags it =
     (case i_value it ''domain_tags'' of
        Some (JList ts) \<Rightarrow> ts
      | _ \<Rightarrow>
          (case i_value it ''content'' of
             Some (JStr c) \<Rightarrow>
               (case loads c of
                  Some (JObj kvs) \<Rightarrow>
                    (case dict_get kvs ''domain_tags'' of Some (JList ts) \<Rightarrow> ts | _ \<Rightarrow> [])
                | _ \<Rightarrow> [])
           | _ \<Rightarrow> []))"

definition matches_domain_tags :: "item \<Rightarrow> string list \<Rightarrow> bool" where
  "matches_domain_tags it tags \<longleftrightarrow>
     tags = [] \<or> list_ex (\<lambda>t. JStr t \<in> set (item_domain_tags it)) tags"

definition blank_free_text :: "json option \<Rightarrow> bool" where
  "blank_free_text v = (case v of Some (JStr s) \<Rightarrow> strip s \<noteq> [] | _ \<Rightarrow> False)"

definition has_substantive_content :: "item \<Rightarrow> exn + bool" where
  "has_substantive_content it =
     (case i_value it ''content'' of
        Some (JStr c) \<Rightarrow>
          (case loads c of
             Some (JObj kvs) \<Rightarrow>
               (let t = py_get (i_value it) ''payload_type'' in
                case (if truthy t then Inr t
                      else case key_text (i_value it) of
                        Inl e \<Rightarrow> Inl e | Inr nk \<Rightarrow> Inr (JStr (extract_payload_type nk))) of
                  Inl e \<Rightarrow> Inl e
                | Inr pt \<Rightarrow>
                    Inr (if pt = JStr ''build_outcome''
                         then blank_free_text (dict_get kvs ''approach'') \<or> blank_free_text (dict_get kvs ''lessons'')
                         else if pt = JStr ''document'' then blank_free_text (dict_get kvs ''content'')
                         else False))
           | _ \<Rightarrow> Inr False)
      | _ \<Rightarrow> Inr False)"

definition is_superseded :: "item \<Rightarrow> bool" where
  "is_superseded it \<longleftrightarrow> i_value it ''superseded_by'' \<noteq> None"

text \<open>The checks of the loop body, in their order and each only when those before it passed.\<close>

definition admit :: "search_request \<Rightarrow> string option \<Rightarrow> item \<Rightarrow> exn + bool" where
  "admit r pt it =
     (if \<not> matches_project it (r_project r) then Inr False
      else case (case pt of None \<Rightarrow> Inr True | Some t \<Rightarrow> matches_payload_types it [t]) of
        Inl e \<Rightarrow> Inl e
      | Inr type_ok \<Rightarrow>
          if \<not> type_ok then Inr False
          else if \<not> matches_domain_tags it (r_domain_tags r) then Inr False
          else if \<not> r_include_superseded r \<and> is_superseded it then Inr False
          else if r_require_substantive r then has_substantive_content it
          else Inr True)"

subsection \<open>One partition\<close>

definition RANKED_RESULT_LIMIT :: nat where "RANKED_RESULT_LIMIT = 10"
definition LOGICAL_PAGE_SIZE :: nat where "LOGICAL_PAGE_SIZE = 10"
definition MAX_SCANNED_PER_PARTITION :: nat where "MAX_SCANNED_PER_PARTITION = 1024"

text \<open>
  The \<open>for\<close> loop over a page: items are admitted until the limit is reached. The keys seen are
  those of the accepted items.
\<close>

fun take_page :: "(item \<Rightarrow> exn + bool) \<Rightarrow> item list \<Rightarrow> item list \<Rightarrow> exn + item list" where
  "take_page ok accepted [] = Inr accepted"
| "take_page ok accepted (it # its) =
     (case ok it of
        Inl e \<Rightarrow> Inl e
      | Inr b \<Rightarrow>
          if \<not> b \<or> i_key it \<in> i_key ` set accepted then take_page ok accepted its
          else if RANKED_RESULT_LIMIT \<le> Suc (length accepted) then Inr (accepted @ [it])
          else take_page ok (accepted @ [it]) its)"

definition scan_bound_reached :: "search_request \<Rightarrow> item list \<Rightarrow> ('s, item list) comp" where
  "scan_bound_reached r accepted =
     (if r_require_substantive r
      then throw (RuntimeError ''filtered search incomplete at candidate scan bound'')
      else ret accepted)"

text \<open>
  The paging loop. The fuel bounds the number of pages; \<open>partition_fuel\<close> pages reach the scan
  bound, so the search never runs out of it.
\<close>

primrec partition_loop ::
  "search_request \<Rightarrow> 's store_api \<Rightarrow> string option \<Rightarrow> namespace \<Rightarrow> (string \<times> json) list \<Rightarrow>
   nat \<Rightarrow> item list \<Rightarrow> nat \<Rightarrow> bool \<Rightarrow> ('s, item list) comp" where
  "partition_loop r st pt ns flt 0 accepted offset exhausted = (\<lambda>s. (Stuck, s))"
| "partition_loop r st pt ns flt (Suc n) accepted offset exhausted =
     (if RANKED_RESULT_LIMIT \<le> length accepted \<or> exhausted then ret accepted
      else if MAX_SCANNED_PER_PARTITION \<le> offset then scan_bound_reached r accepted
      else
        (let logical_size = min LOGICAL_PAGE_SIZE (MAX_SCANNED_PER_PARTITION - offset);
             request_limit = offset + logical_size in
         bind (st_search st ns (r_query r) flt request_limit offset) (\<lambda>fetched.
           let page = take logical_size fetched;
               exhausted1 = (length fetched < request_limit \<and> length fetched \<le> logical_size) in
         bind (lift_res (take_page (admit r pt) accepted page)) (\<lambda>accepted'.
           let offset' = offset + length page;
               exhausted' = (exhausted1 \<or> length page < logical_size) in
           if MAX_SCANNED_PER_PARTITION \<le> offset' \<and> length accepted' < RANKED_RESULT_LIMIT \<and> \<not> exhausted'
           then scan_bound_reached r accepted'
           else partition_loop r st pt ns flt n accepted' offset' exhausted'))))"

definition partition_namespace :: "search_request \<Rightarrow> string option \<Rightarrow> namespace" where
  "partition_namespace r pt =
     [''fleet_memory'', r_project r] @ (case pt of None \<Rightarrow> [] | Some t \<Rightarrow> [t])"

definition partition_filter :: "search_request \<Rightarrow> string option \<Rightarrow> (string \<times> json) list" where
  "partition_filter r pt =
     (''project'', JStr (r_project r)) # (case pt of None \<Rightarrow> [] | Some t \<Rightarrow> [(''payload_type'', JStr t)])"

definition partition_fuel :: nat where "partition_fuel = 105"

definition search_partition :: "search_request \<Rightarrow> 's store_api \<Rightarrow> string option \<Rightarrow> ('s, item list) comp" where
  "search_partition r st pt =
     partition_loop r st pt (partition_namespace r pt) (partition_filter r pt) partition_fuel [] 0 False"

subsection \<open>The search\<close>

text \<open>
  Sorting compares the negated score, then the natural key; a natural key that is not text is read
  as empty here, where Python would raise if two scores were equal.
\<close>

definition item_sort_key :: "item \<Rightarrow> real \<times> string" where
  "item_sort_key it =
     (- (case i_score it of None \<Rightarrow> 0 | Some x \<Rightarrow> x),
      case key_text (i_value it) of Inl e \<Rightarrow> [] | Inr nk \<Rightarrow> nk)"

fun try_filter :: "('a \<Rightarrow> exn + bool) \<Rightarrow> 'a list \<Rightarrow> exn + 'a list" where
  "try_filter ok [] = Inr []"
| "try_filter ok (x # xs) =
     (case ok x of
        Inl e \<Rightarrow> Inl e
      | Inr b \<Rightarrow> (case try_filter ok xs of Inl e \<Rightarrow> Inl e | Inr ys \<Rightarrow> Inr (if b then x # ys else ys)))"

definition finish_search :: "search_request \<Rightarrow> item list \<Rightarrow> exn + item list" where
  "finish_search r raw =
     (let in_project = filter (\<lambda>it. matches_project it (r_project r)) raw in
      case try_filter (\<lambda>it. matches_payload_types it (r_payload_types r)) in_project of
        Inl e \<Rightarrow> Inl e
      | Inr typed \<Rightarrow>
          (let tagged = filter (\<lambda>it. matches_domain_tags it (r_domain_tags r)) typed;
               live = (if r_include_superseded r then tagged else filter (\<lambda>it. \<not> is_superseded it) tagged);
               unique = keep_first i_key [] live
           in Inr (take RANKED_RESULT_LIMIT (sort_key item_sort_key unique))))"

fun gather :: "search_request \<Rightarrow> 's store_api \<Rightarrow> string option list \<Rightarrow> ('s, item list) comp" where
  "gather r st [] = ret []"
| "gather r st (pt # pts) =
     bind (search_partition r st pt) (\<lambda>xs. bind (gather r st pts) (\<lambda>ys. ret (xs @ ys)))"

definition partitions :: "search_request \<Rightarrow> string option list" where
  "partitions r =
     (if r_payload_types r = [] then [None] else map Some (sort (remdups (r_payload_types r))))"

text \<open>
  The 20-second bound of \<open>asyncio.timeout\<close> shows as a \<open>TimeoutError\<close> of the store call it
  interrupts, which the function passes on.
\<close>

definition search :: "search_request \<Rightarrow> 's store_api \<Rightarrow> ('s, item list) comp" where
  "search r st = bind (gather r st (partitions r)) (\<lambda>raw. lift_res (finish_search r raw))"

subsection \<open>What a partition returns\<close>

text \<open>
  \<open>decides ok f its\<close>: none of the items makes a check raise, and \<open>f\<close> is the answer. The first
  ten admitted records with distinct keys among the first 1024 of the ranked list are the result;
  the substantive search refuses a shorter result when candidates were left unread.
\<close>

definition decides :: "(item \<Rightarrow> exn + bool) \<Rightarrow> (item \<Rightarrow> bool) \<Rightarrow> item list \<Rightarrow> bool" where
  "decides ok f its \<longleftrightarrow> (\<forall>it \<in> set its. ok it = Inr (f it))"

definition first_admitted :: "(item \<Rightarrow> bool) \<Rightarrow> item list \<Rightarrow> item list" where
  "first_admitted f its = take RANKED_RESULT_LIMIT (keep_first i_key [] (filter f its))"

definition partition_spec :: "search_request \<Rightarrow> (item \<Rightarrow> bool) \<Rightarrow> item list \<Rightarrow> exn + item list" where
  "partition_spec r f ranked =
     (let found = first_admitted f (take MAX_SCANNED_PER_PARTITION ranked) in
      if length found < RANKED_RESULT_LIMIT \<and> MAX_SCANNED_PER_PARTITION < length ranked \<and> r_require_substantive r
      then Inl (RuntimeError ''filtered search incomplete at candidate scan bound'')
      else Inr found)"

lemma keep_first_snoc:
  "keep_first key [] (ys @ [x]) =
     (if key x \<in> key ` set (keep_first key [] ys) then keep_first key [] ys else keep_first key [] ys @ [x])"
  by (simp add: keep_first_append keep_first_set_keys)

lemma take_page_spec:
  assumes "decides ok f its" and "length acc < RANKED_RESULT_LIMIT" and "acc = keep_first i_key [] ys"
  shows "take_page ok acc its = Inr (take RANKED_RESULT_LIMIT (keep_first i_key [] (ys @ filter f its)))"
  using assms
proof (induction its arbitrary: acc ys)
  case (Cons it its)
  then have ok: "ok it = Inr (f it)" and d: "decides ok f its" by (simp_all add: decides_def)
  show ?case
  proof (cases "f it")
    case False
    then show ?thesis using ok Cons.IH [OF d Cons.prems(2,3)] by simp
  next
    case True
    show ?thesis
    proof (cases "i_key it \<in> i_key ` set acc")
      case seen: True
      then have "acc = keep_first i_key [] (ys @ [it])" using Cons.prems(3) by (simp add: keep_first_snoc)
      from Cons.IH [OF d Cons.prems(2) this] show ?thesis using seen ok True by simp
    next
      case new: False
      then have acc: "acc @ [it] = keep_first i_key [] (ys @ [it])" using Cons.prems(3) by (simp add: keep_first_snoc)
      show ?thesis
      proof (cases "RANKED_RESULT_LIMIT \<le> Suc (length acc)")
        case full: True
        have "keep_first i_key [] (ys @ it # filter f its)
            = (acc @ [it]) @ keep_first i_key (map i_key (ys @ [it])) (filter f its)"
          using keep_first_append [of i_key "[]" "ys @ [it]" "filter f its"] by (simp flip: acc)
        moreover have lim: "RANKED_RESULT_LIMIT = Suc (length acc)" using full Cons.prems(2) by simp
        ultimately show ?thesis using new ok True by (simp add: lim)
      next
        case more: False
        with Cons.IH [OF d _ acc] show ?thesis using new ok True by simp
      qed
    qed
  qed
qed simp

lemma first_admitted_prefix:
  assumes "RANKED_RESULT_LIMIT \<le> length (first_admitted f (take m R))" and "m \<le> n"
  shows "first_admitted f (take n R) = first_admitted f (take m R)"
proof -
  have "take n R = take m R @ take (n - m) (drop m R)" using assms(2) by (metis le_add_diff_inverse take_add)
  then have "keep_first i_key [] (filter f (take n R)) = keep_first i_key [] (filter f (take m R))
      @ keep_first i_key (map i_key (filter f (take m R))) (filter f (take (n - m) (drop m R)))"
    by (simp add: keep_first_append)
  with assms(1) show ?thesis by (simp add: first_admitted_def)
qed

definition loop_inv :: "(item \<Rightarrow> bool) \<Rightarrow> item list \<Rightarrow> nat \<Rightarrow> item list \<Rightarrow> nat \<Rightarrow> bool \<Rightarrow> bool" where
  "loop_inv f R n acc offset exhausted \<longleftrightarrow>
     offset \<le> 1024 \<and> acc = first_admitted f (take offset R) \<and> (exhausted \<longrightarrow> length R \<le> offset)
     \<and> (RANKED_RESULT_LIMIT \<le> length acc \<or> exhausted \<or> (offset < 1024 \<and> 1034 \<le> offset + 10 * n)) \<and> 0 < n"

lemma min_window:
  assumes "m < 1024" and "L = min 10 (1024 - m)" and "2 * (m + L) < (W::nat)"
    and "fetched = take (m + L) (drop m (if q then R else take W R))"
  shows "take L fetched = take L (drop m R)"
    and "length fetched < m + L \<and> length fetched \<le> L \<Longrightarrow> length R \<le> m + L"
    and "0 < m \<Longrightarrow> length R \<le> m + L \<Longrightarrow> length fetched < m + L \<and> length fetched \<le> L"
  using assms by (auto simp: drop_take min_def split: if_splits)

context lawful_store
begin

lemma partition_loop_spec:
  assumes total: "store_total st" and ok: "decides (admit r pt) f R"
    and R: "rank s ns (r_query r) flt = R" and inv: "loop_inv f R n acc off exhausted"
  shows "fst (partition_loop r st pt ns flt n acc off exhausted s) =
    (case partition_spec r f R of Inl e \<Rightarrow> Exn e | Inr xs \<Rightarrow> Ok xs)"
  using R inv
proof (induction n arbitrary: s acc off exhausted)
  case 0
  then show ?case by (simp add: loop_inv_def)
next
  case (Suc n)
  from Suc.prems(2) have off: "off \<le> 1024" and acc: "acc = first_admitted f (take off R)"
    and ex: "exhausted \<Longrightarrow> length R \<le> off"
    and go: "\<not> RANKED_RESULT_LIMIT \<le> length acc \<Longrightarrow> \<not> exhausted \<Longrightarrow> off < 1024 \<and> 1034 \<le> off + 10 * Suc n"
    by (auto simp: loop_inv_def)
  note M = MAX_SCANNED_PER_PARTITION_def
  show ?case
  proof (cases "RANKED_RESULT_LIMIT \<le> length acc \<or> exhausted")
    case True
    then have "partition_spec r f R = Inr acc"
    proof
      assume full: "RANKED_RESULT_LIMIT \<le> length acc"
      have "first_admitted f (take 1024 R) = acc"
        using first_admitted_prefix [of f off R 1024] full off by (simp add: acc)
      with full show ?thesis by (simp add: partition_spec_def M Let_def)
    next
      assume exhausted
      with ex off show ?thesis by (simp add: partition_spec_def M Let_def acc)
    qed
    with True show ?thesis by (auto simp: ret_def)
  next
    case False
    then have lt: "off < 1024" and fuel: "1034 \<le> off + 10 * Suc n" and short: "length acc < RANKED_RESULT_LIMIT"
      using go by auto
    define L where "L = min LOGICAL_PAGE_SIZE (MAX_SCANNED_PER_PARTITION - off)"
    have L: "L = min 10 (1024 - off)" by (simp add: L_def M LOGICAL_PAGE_SIZE_def)
    obtain fetched s1 where f1: "st_search st ns (r_query r) flt (off + L) off s = (Ok fetched, s1)"
      using store_totalD(3) [OF total] by blast
    from search_returns [OF f1] Suc.prems(1) have fe: "fetched = take (off + L) (drop off (if r_query r = None then R else take (window (off + L)) R))"
      and R1: "rank s1 ns (r_query r) flt = R" by (simp_all add: store_window_def)
    note win = min_window [OF lt L window_wide fe]
    define page where "page = take L (drop off R)"
    define acc' where "acc' = first_admitted f (take (off + length page) R)"
    have tk: "take (off + length page) R = take off R @ page" by (auto simp: take_add page_def min_def)
    have pd: "decides (admit r pt) f page"
      using ok by (auto simp: decides_def page_def dest: in_set_takeD in_set_dropD)
    have "keep_first i_key [] (filter f (take off R)) = acc"
      using short by (simp add: acc first_admitted_def)
    from take_page_spec [OF pd short this [symmetric]]
    have tp: "take_page (admit r pt) acc page = Inr acc'"
      by (simp add: acc'_def first_admitted_def tk)
    define exh where "exh = (length fetched < off + L \<and> length fetched \<le> L \<or> length page < L)"
    have e1: "length R \<le> off + length page" if exh
    proof -
      have "length R \<le> off + L" using that win(2) by (auto simp: exh_def page_def)
      then show ?thesis by (simp add: page_def)
    qed
    have step: "partition_loop r st pt ns flt (Suc n) acc off exhausted s =
      (if MAX_SCANNED_PER_PARTITION \<le> off + length page \<and> length acc' < RANKED_RESULT_LIMIT \<and> \<not> exh
       then scan_bound_reached r acc'
       else partition_loop r st pt ns flt n acc' (off + length page) exh) s1"
    proof -
      have pg: "take L fetched = page" by (simp only: win(1) page_def)
      have "\<not> MAX_SCANNED_PER_PARTITION \<le> off" using lt by (simp add: M)
      with False have "partition_loop r st pt ns flt (Suc n) acc off exhausted s =
        bind (st_search st ns (r_query r) flt (off + L) off) (\<lambda>fetched.
           let page = take L fetched;
               exhausted1 = (length fetched < off + L \<and> length fetched \<le> L) in
         bind (lift_res (take_page (admit r pt) acc page)) (\<lambda>accepted'.
           let offset' = off + length page;
               exhausted' = (exhausted1 \<or> length page < L) in
           if MAX_SCANNED_PER_PARTITION \<le> offset' \<and> length accepted' < RANKED_RESULT_LIMIT \<and> \<not> exhausted'
           then scan_bound_reached r accepted'
           else partition_loop r st pt ns flt n accepted' offset' exhausted')) s"
        by (simp only: partition_loop.simps Let_def L_def if_False)
      then show ?thesis
        unfolding bind_Ok [of "st_search st ns (r_query r) flt (off + L) off", OF f1]
        by (simp only: Let_def pg tp lift_res_simps bind_ret exh_def)
    qed
    show ?thesis
    proof (cases "MAX_SCANNED_PER_PARTITION \<le> off + length page \<and> length acc' < RANKED_RESULT_LIMIT \<and> \<not> exh")
      case True
      then have full: "off + L = 1024" "length page = L" and pos: "0 < off"
        using lt by (auto simp: L M page_def min_def split: if_splits)
      have "\<not> length R \<le> off + L" using True win(3) [OF pos] by (auto simp: exh_def)
      then have "1024 < length R" using full by simp
      then have "partition_spec r f R = (if r_require_substantive r
          then Inl (RuntimeError ''filtered search incomplete at candidate scan bound'') else Inr acc')"
        using True full by (simp add: partition_spec_def M Let_def acc'_def)
      with True step show ?thesis by (simp add: scan_bound_reached_def ret_def throw_def)
    next
      case go_on: False
      have "loop_inv f R n acc' (off + length page) exh"
        unfolding loop_inv_def
      proof (intro conjI)
        show "off + length page \<le> 1024" using lt by (simp add: page_def L)
        show "exh \<longrightarrow> length R \<le> off + length page" using e1 by simp
        have "\<not> exh \<Longrightarrow> length page = L" by (auto simp: exh_def page_def)
        then show "RANKED_RESULT_LIMIT \<le> length acc' \<or> exh
            \<or> (off + length page < 1024 \<and> 1034 \<le> off + length page + 10 * n)"
          using go_on fuel lt by (auto simp: M L min_def split: if_splits)
        show "0 < n" using fuel lt by (cases n) auto
      qed (simp add: acc'_def)
      from Suc.IH [OF R1 this] go_on step show ?thesis by auto
    qed
  qed
qed

lemma search_partition_spec:
  assumes "store_total st" and "decides (admit r pt) f (rank s (partition_namespace r pt) (r_query r) (partition_filter r pt))"
  shows "fst (search_partition r st pt s) =
    (case partition_spec r f (rank s (partition_namespace r pt) (r_query r) (partition_filter r pt)) of
       Inl e \<Rightarrow> Exn e | Inr xs \<Rightarrow> Ok xs)"
  unfolding search_partition_def
  by (rule partition_loop_spec [OF assms refl])
    (simp add: loop_inv_def first_admitted_def partition_fuel_def)

end

subsection \<open>Soundness and completeness of the search\<close>

text \<open>
  A substantive scan that must be refused: fewer than ten records were admitted among the first 1024
  candidates, and there are more candidates.
\<close>

definition scan_incomplete :: "search_request \<Rightarrow> string option \<Rightarrow> item list \<Rightarrow> bool" where
  "scan_incomplete r pt ranked \<longleftrightarrow> r_require_substantive r \<and> MAX_SCANNED_PER_PARTITION < length ranked \<and>
     length (first_admitted (\<lambda>it. admit r pt it = Inr True) (take MAX_SCANNED_PER_PARTITION ranked)) < RANKED_RESULT_LIMIT"

definition scan_bound_error :: exn where
  "scan_bound_error = RuntimeError ''filtered search incomplete at candidate scan bound''"

abbreviation partition_rank ::
  "('s \<Rightarrow> namespace \<Rightarrow> string option \<Rightarrow> (string \<times> json) list \<Rightarrow> item list) \<Rightarrow> 's \<Rightarrow> search_request \<Rightarrow>
   string option \<Rightarrow> item list" where
  "partition_rank rank s r pt \<equiv> rank s (partition_namespace r pt) (r_query r) (partition_filter r pt)"

text \<open>What the request asks of an item.\<close>

definition satisfies :: "search_request \<Rightarrow> item \<Rightarrow> bool" where
  "satisfies r it \<longleftrightarrow>
     matches_project it (r_project r) \<and> matches_payload_types it (r_payload_types r) = Inr True
     \<and> matches_domain_tags it (r_domain_tags r) \<and> (r_include_superseded r \<or> \<not> is_superseded it)
     \<and> (r_require_substantive r \<longrightarrow> has_substantive_content it = Inr True)"

definition item_ok :: "item \<Rightarrow> bool" where
  "item_ok it \<longleftrightarrow> (\<exists>nk. key_text (i_value it) = Inr nk)"

lemma partitions_types:
  "pt \<in> set (partitions r) \<Longrightarrow>
   (case pt of None \<Rightarrow> r_payload_types r = [] | Some t \<Rightarrow> t \<in> set (r_payload_types r))"
  by (auto simp: partitions_def split: if_splits)

lemma admit_satisfies:
  "pt \<in> set (partitions r) \<Longrightarrow> admit r pt it = Inr True \<Longrightarrow> satisfies r it"
  by (frule partitions_types)
    (auto simp: admit_def satisfies_def matches_payload_types_def split: if_splits option.splits sum.splits)

lemma substantive_total: "item_ok it \<Longrightarrow> \<exists>b. has_substantive_content it = Inr b"
  by (cases "i_value it ''content''")
    (auto simp: item_ok_def has_substantive_content_def Let_def split: option.split json.split)

lemma admit_total: "item_ok it \<Longrightarrow> \<exists>b. admit r pt it = Inr b"
proof -
  assume ok: "item_ok it"
  from substantive_total [OF ok] obtain b where "has_substantive_content it = Inr b" ..
  with ok show ?thesis
    by (cases pt) (auto simp: item_ok_def admit_def matches_payload_types_def intro: exI [of _ False])
qed

lemma admit_decides:
  "\<forall>it \<in> set its. item_ok it \<Longrightarrow> decides (admit r pt) (\<lambda>it. admit r pt it = Inr True) its"
  using admit_total [of _ r pt] by (fastforce simp: decides_def)

lemma take_page_subset:
  "take_page ok acc its = Inr acc' \<Longrightarrow> set acc' \<subseteq> set acc \<union> {it \<in> set its. ok it = Inr True}"
  by (induction ok acc its rule: take_page.induct) (auto split: sum.splits if_splits)

lemma try_filter_id: "\<forall>x \<in> set xs. ok x = Inr True \<Longrightarrow> try_filter ok xs = Inr xs"
  by (induction xs) auto

lemma try_filter_sound: "try_filter ok xs = Inr ys \<Longrightarrow> set ys \<subseteq> {x \<in> set xs. ok x = Inr True}"
  by (induction xs arbitrary: ys) (auto split: sum.splits if_splits)

lemma distinct_map_sort: "distinct (map f (sort_key k xs)) \<longleftrightarrow> distinct (map f xs)"
  by (simp add: distinct_map)

lemma finish_subset:
  assumes "finish_search r raw = Inr xs"
  shows "\<exists>live. xs = take RANKED_RESULT_LIMIT (sort_key item_sort_key (keep_first i_key [] live)) \<and> set live \<subseteq> set raw"
proof -
  from assms obtain typed where
    t: "try_filter (\<lambda>it. matches_payload_types it (r_payload_types r)) (filter (\<lambda>it. matches_project it (r_project r)) raw)
      = Inr typed"
    by (auto simp: finish_search_def Let_def split: sum.splits)
  let ?tagged = "filter (\<lambda>it. matches_domain_tags it (r_domain_tags r)) typed"
  let ?live = "if r_include_superseded r then ?tagged else filter (\<lambda>it. \<not> is_superseded it) ?tagged"
  have "xs = take RANKED_RESULT_LIMIT (sort_key item_sort_key (keep_first i_key [] ?live))"
    using assms t by (simp add: finish_search_def Let_def del: filter_filter)
  moreover have "set ?live \<subseteq> set raw" using try_filter_sound [OF t] by auto
  ultimately show ?thesis by blast
qed

context lawful_store
begin

lemma partition_loop_frame:
  "view (snd (partition_loop r st pt ns flt n acc off exh s)) = view s
   \<and> rank (snd (partition_loop r st pt ns flt n acc off exh s)) = rank s"
proof (induction n arbitrary: acc off exh s)
  case (Suc n)
  have fr: "snd (st_search st ns q flt m k s) = s1 \<Longrightarrow> view s1 = view s \<and> rank s1 = rank s" for q m k s1
    using search_frame search_rank by auto
  show ?case
    by (auto simp: Let_def bind_def lift_res_def ret_def throw_def scan_bound_reached_def Suc
        split: prod.splits res.splits sum.splits) (auto dest!: fr [OF arg_cong [where f = snd]])
qed simp

lemma partition_loop_sound:
  "partition_loop r st pt ns flt n acc off exh s = (Ok xs, s') \<Longrightarrow>
   set xs \<subseteq> set acc \<union> {it \<in> set (rank s ns (r_query r) flt). admit r pt it = Inr True}"
proof (induction n arbitrary: acc off exh s)
  case (Suc n)
  let ?L = "min LOGICAL_PAGE_SIZE (MAX_SCANNED_PER_PARTITION - off)"
  show ?case
  proof (cases "RANKED_RESULT_LIMIT \<le> length acc \<or> exh \<or> MAX_SCANNED_PER_PARTITION \<le> off")
    case True
    then show ?thesis using Suc.prems
      by (auto simp: ret_def throw_def scan_bound_reached_def split: if_splits)
  next
    case False
    with Suc.prems obtain fetched s1 acc' off' exh' where
      f: "st_search st ns (r_query r) flt (off + ?L) off s = (Ok fetched, s1)"
      and t: "take_page (admit r pt) acc (take ?L fetched) = Inr acc'"
      and rest: "scan_bound_reached r acc' s1 = (Ok xs, s') \<or> partition_loop r st pt ns flt n acc' off' exh' s1 = (Ok xs, s')"
      by (auto simp: Let_def bind_Ok_iff lift_res_Ok_iff split: if_splits)
    from search_returns [OF f] have R: "rank s1 = rank s"
      and sub: "set fetched \<subseteq> set (rank s ns (r_query r) flt)"
      by (auto simp: store_window_def dest!: in_set_takeD in_set_dropD split: if_splits)
    have "set xs \<subseteq> set acc' \<union> {it \<in> set (rank s ns (r_query r) flt). admit r pt it = Inr True}"
      using rest Suc.IH [of acc' off' exh' s1]
      by (auto simp: R scan_bound_reached_def ret_def throw_def split: if_splits)
    with take_page_subset [OF t] sub show ?thesis by (auto dest!: in_set_takeD)
  qed
qed simp

lemma gather_frame: "view (snd (gather r st pts s)) = view s \<and> rank (snd (gather r st pts s)) = rank s"
proof (induction pts arbitrary: s)
  case (Cons pt pts)
  have "view (snd (search_partition r st pt s)) = view s \<and> rank (snd (search_partition r st pt s)) = rank s"
    unfolding search_partition_def by (rule partition_loop_frame)
  with Cons show ?case by (auto simp: bind_def ret_def split: prod.splits res.splits) (metis snd_conv)+
qed (simp add: ret_def)

lemma gather_sound:
  "gather r st pts s = (Ok raw, s') \<Longrightarrow>
   \<forall>it \<in> set raw. \<exists>pt \<in> set pts. it \<in> set (partition_rank rank s r pt) \<and> admit r pt it = Inr True"
proof (induction pts arbitrary: s raw s')
  case Nil
  then show ?case by (simp add: ret_def)
next
  case (Cons pt pts)
  from Cons.prems obtain xs s1 ys s2 where x: "search_partition r st pt s = (Ok xs, s1)"
    and y: "gather r st pts s1 = (Ok ys, s2)" and raw: "raw = xs @ ys"
    by (auto simp: bind_Ok_iff ret_def)
  have "rank s1 = rank s"
    using partition_loop_frame [of r pt "partition_namespace r pt" "partition_filter r pt" partition_fuel "[]" 0 False s] x
    by (simp add: search_partition_def)
  with Cons.IH [OF y] partition_loop_sound [OF x [unfolded search_partition_def]] raw show ?case by fastforce
qed

lemma search_sound:
  assumes "search r st s = (Ok xs, s')"
  shows "\<forall>it \<in> set xs. satisfies r it \<and> view s (i_namespace it) (i_key it) = Some (i_value it)"
    and "length xs \<le> 10 \<and> distinct (map i_key xs) \<and> sorted (map item_sort_key xs)"
proof -
  from assms obtain raw s1 where g: "gather r st (partitions r) s = (Ok raw, s1)" and fin: "finish_search r raw = Inr xs"
    by (auto simp: search_def bind_Ok_iff lift_res_Ok_iff)
  from finish_subset [OF fin] obtain live where
    xs: "xs = take RANKED_RESULT_LIMIT (sort_key item_sort_key (keep_first i_key [] live))"
    and sub: "set live \<subseteq> set raw" by blast
  have "it \<in> set raw" if "it \<in> set xs" for it
    using that sub keep_first_subset [of i_key "[]" live] by (auto simp: xs dest!: in_set_takeD)
  with gather_sound [OF g] show "\<forall>it \<in> set xs. satisfies r it \<and> view s (i_namespace it) (i_key it) = Some (i_value it)"
    using admit_satisfies rank_sound by blast
  have "distinct (map i_key (sort_key item_sort_key (keep_first i_key [] live)))"
    by (simp only: distinct_map_sort keep_first_distinct)
  then show "length xs \<le> 10 \<and> distinct (map i_key xs) \<and> sorted (map item_sort_key xs)"
    by (simp add: xs RANKED_RESULT_LIMIT_def sorted_wrt_take flip: take_map)
qed

text \<open>
  When no check raises and the scan bound is not an error, every partition contributes its
  specified result, and the later filters keep all of it.
\<close>

definition part_result :: "'s \<Rightarrow> search_request \<Rightarrow> string option \<Rightarrow> item list" where
  "part_result s r pt = first_admitted (\<lambda>it. admit r pt it = Inr True)
     (take MAX_SCANNED_PER_PARTITION (partition_rank rank s r pt))"

lemma gather_bound:
  assumes total: "store_total st"
  shows "\<forall>pt \<in> set pts. \<forall>it \<in> set (partition_rank rank s r pt). item_ok it \<Longrightarrow>
    \<exists>s'. gather r st pts s =
      (if \<exists>pt \<in> set pts. scan_incomplete r pt (partition_rank rank s r pt) then Exn scan_bound_error
       else Ok (concat (map (part_result s r) pts)), s')"
proof (induction pts arbitrary: s)
  case Nil
  then show ?case by (simp add: ret_def)
next
  case (Cons pt pts)
  obtain res s1 where x: "search_partition r st pt s = (res, s1)" by fastforce
  have "fst (search_partition r st pt s) =
      (if scan_incomplete r pt (partition_rank rank s r pt) then Exn scan_bound_error else Ok (part_result s r pt))"
    using search_partition_spec [OF total admit_decides, of s r pt] Cons.prems
    by (auto simp: partition_spec_def Let_def part_result_def scan_incomplete_def scan_bound_error_def)
  with x have x': "search_partition r st pt s =
      (if scan_incomplete r pt (partition_rank rank s r pt) then Exn scan_bound_error else Ok (part_result s r pt), s1)" by simp
  have R: "rank s1 = rank s"
    using partition_loop_frame [of r pt "partition_namespace r pt" "partition_filter r pt" partition_fuel "[]" 0 False s] x
    by (simp add: search_partition_def)
  have P: "part_result s1 r = part_result s r" by (simp add: part_result_def R fun_eq_iff)
  show ?case
  proof (cases "scan_incomplete r pt (partition_rank rank s r pt)")
    case True
    with x' show ?thesis by (simp add: comp_simps)
  next
    case False
    from Cons.IH [of s1] Cons.prems R P obtain s2 where
      "gather r st pts s1 = (if \<exists>pt \<in> set pts. scan_incomplete r pt (partition_rank rank s r pt) then Exn scan_bound_error
         else Ok (concat (map (part_result s r) pts)), s2)" by auto
    with x' False show ?thesis by (cases "\<exists>pt \<in> set pts. scan_incomplete r pt (partition_rank rank s r pt)") (simp_all add: comp_simps)
  qed
qed

lemma gather_total:
  assumes "store_total st" and "\<not> r_require_substantive r" and "\<forall>pt \<in> set pts. \<forall>it \<in> set (partition_rank rank s r pt). item_ok it"
  shows "\<exists>s'. gather r st pts s = (Ok (concat (map (part_result s r) pts)), s')"
  using gather_bound [OF assms(1,3)] assms(2) by (simp add: scan_incomplete_def)

lemma part_result_admitted: "it \<in> set (part_result s r pt) \<Longrightarrow> admit r pt it = Inr True"
  using keep_first_subset [of i_key "[]"] by (fastforce simp: part_result_def first_admitted_def dest!: in_set_takeD)

lemma finish_admitted:
  assumes "\<forall>it \<in> set raw. satisfies r it"
  shows "finish_search r raw = Inr (take RANKED_RESULT_LIMIT (sort_key item_sort_key (keep_first i_key [] raw)))"
proof -
  have 1: "filter (\<lambda>it. matches_project it (r_project r)) raw = raw"
    and 2: "try_filter (\<lambda>it. matches_payload_types it (r_payload_types r)) raw = Inr raw"
    and 3: "filter (\<lambda>it. matches_domain_tags it (r_domain_tags r)) raw = raw"
    and 4: "r_include_superseded r \<or> filter (\<lambda>it. \<not> is_superseded it) raw = raw"
    using assms by (auto simp: satisfies_def intro!: filter_True try_filter_id)
  from 4 show ?thesis by (auto simp: finish_search_def Let_def 1 2 3)
qed

lemma part_result_short:
  assumes "length (part_result s r pt) < 10" and "admit r pt it = Inr True"
    and "it \<in> set (take MAX_SCANNED_PER_PARTITION (partition_rank rank s r pt))"
  shows "i_key it \<in> i_key ` set (part_result s r pt)"
proof -
  let ?ys = "filter (\<lambda>it. admit r pt it = Inr True) (take MAX_SCANNED_PER_PARTITION (partition_rank rank s r pt))"
  have "part_result s r pt = keep_first i_key [] ?ys"
    using assms(1) by (simp add: part_result_def first_admitted_def RANKED_RESULT_LIMIT_def)
  then have "i_key ` set (part_result s r pt) = i_key ` set ?ys" by (simp add: keep_first_set_keys)
  with assms(2,3) show ?thesis by auto
qed

lemma search_complete:
  assumes total: "store_total st"
    and ok: "\<forall>pt \<in> set (partitions r). \<forall>it \<in> set (partition_rank rank s r pt). item_ok it"
    and sub: "\<forall>pt \<in> set (partitions r). \<not> scan_incomplete r pt (partition_rank rank s r pt)"
    and pt: "pt \<in> set (partitions r)" and it: "admit r pt it = Inr True"
      "it \<in> set (take MAX_SCANNED_PER_PARTITION (partition_rank rank s r pt))"
  shows "\<exists>xs s'. search r st s = (Ok xs, s') \<and> (length xs = 10 \<or> i_key it \<in> i_key ` set xs)"
proof -
  let ?raw = "concat (map (part_result s r) (partitions r))"
  let ?u = "keep_first i_key [] ?raw"
  from gather_bound [OF total ok] sub obtain s' where g: "gather r st (partitions r) s = (Ok ?raw, s')" by auto
  have "\<forall>it \<in> set ?raw. satisfies r it" using part_result_admitted admit_satisfies by fastforce
  from finish_admitted [OF this] g
  have res: "search r st s = (Ok (take 10 (sort_key item_sort_key ?u)), s')"
    by (simp add: search_def comp_simps RANKED_RESULT_LIMIT_def)
  have keys: "i_key ` set ?u = i_key ` set ?raw" by (simp add: keep_first_set_keys)
  have len: "length ?u = card (i_key ` set ?raw)"
    using distinct_card [OF keep_first_distinct [of i_key "[]" ?raw]] keys by simp
  have incl: "set (part_result s r pt) \<subseteq> set ?raw" using pt by auto
  show ?thesis
  proof (cases "length ?u < 10")
    case True
    have "distinct (map i_key (part_result s r pt))"
      by (simp add: part_result_def first_admitted_def distinct_take keep_first_distinct flip: take_map)
    then have "length (part_result s r pt) = card (i_key ` set (part_result s r pt))"
      using distinct_card [of "map i_key (part_result s r pt)"] by simp
    also have "\<dots> \<le> length ?u" unfolding len using incl by (intro card_mono image_mono) auto
    finally have "i_key it \<in> i_key ` set (part_result s r pt)"
      using True by (intro part_result_short [OF _ it]) simp
    with incl keys have "i_key it \<in> i_key ` set ?u" by blast
    with True res show ?thesis by auto
  qed (use res in auto)
qed

end

subsection \<open>Properties of the search\<close>

text \<open>
  C26: Paging is invisible. Over a store that answers, one partition's search returns exactly the
  first ten admitted records with distinct keys among the first 1024 of the ranked list, however
  they are spread over pages and whatever the store's candidate window; it fails only when the
  substantive search is left with fewer than ten and more than 1024 candidates.
\<close>

theorem search_partition_unpaged:
  assumes "lawful_store st view rank window" and "store_total st"
    and "decides (admit r pt) f (rank s (partition_namespace r pt) (r_query r) (partition_filter r pt))"
  shows "fst (search_partition r st pt s) =
    (case partition_spec r f (rank s (partition_namespace r pt) (r_query r) (partition_filter r pt)) of
       Inl e \<Rightarrow> Exn e | Inr xs \<Rightarrow> Ok xs)"
  by (rule lawful_store.search_partition_spec [OF assms])

definition sample_request :: search_request where
  "sample_request =
     \<lparr>r_project = ''guardkit'', r_payload_types = [''adr''], r_domain_tags = [], r_query = None,
      r_token_budget = 100, r_include_superseded = True, r_require_substantive = False\<rparr>"

lemma mem_store_items_ok:
  assumes "\<forall>r \<in> set s. \<exists>nk. key_text (snd r) = Inr nk"
  shows "\<forall>it \<in> set (mem_rank score s ns q flt). item_ok it"
proof
  fix it assume "it \<in> set (mem_rank score s ns q flt)"
  then have "mem_view s (i_namespace it) (i_key it) = Some (i_value it)" using mem.rank_sound by blast
  then have "((i_namespace it, i_key it), i_value it) \<in> set s" by (simp add: mem_view_def map_of_SomeD)
  with assms show "item_ok it" unfolding item_ok_def by (metis snd_conv)
qed

lemma sample_store_ok: "\<forall>r \<in> set sample_store. \<exists>nk. key_text (snd r) = Inr nk"
  by (simp add: sample_store_def key_text_def)

theorem search_partition_unpaged_witness:
  "fst (search_partition sample_request (mem_api no_score) (Some ''adr'') sample_store) =
    (case partition_spec sample_request (\<lambda>it. admit sample_request (Some ''adr'') it = Inr True)
       (mem_rank no_score sample_store (partition_namespace sample_request (Some ''adr'')) (r_query sample_request)
         (partition_filter sample_request (Some ''adr''))) of Inl e \<Rightarrow> Exn e | Inr xs \<Rightarrow> Ok xs)"
  by (rule search_partition_unpaged [OF mem.lawful_store_axioms mem_api_store_total])
    (rule admit_decides [OF mem_store_items_ok [OF sample_store_ok]])

text \<open>
  C27: Nothing foreign is returned. Every result of a search is a record the store holds, of exactly
  the requested project (not a project that shares its name as a prefix), of a requested type, with
  one of the requested tags, not superseded unless asked for, substantive if asked for; there are
  at most ten, with distinct keys, in order of falling score and then natural key.
\<close>

theorem search_results_sound:
  assumes "lawful_store st view rank window" and "search r st s = (Ok xs, s')"
  shows "(\<forall>it \<in> set xs. satisfies r it \<and> view s (i_namespace it) (i_key it) = Some (i_value it)) \<and>
    length xs \<le> 10 \<and> distinct (map i_key xs) \<and> sorted (map item_sort_key xs)"
  using lawful_store.search_sound [OF assms] by blast

lemma sample_search_ok: "\<exists>xs s'. search sample_request (mem_api no_score) sample_store = (Ok xs, s')"
proof -
  have "\<exists>s'. gather sample_request (mem_api no_score) (partitions sample_request) sample_store =
      (Ok (concat (map (lawful_store.part_result (mem_rank no_score) sample_store sample_request)
        (partitions sample_request))), s')"
    by (rule mem.gather_total [OF mem_api_store_total])
      (simp_all add: mem_store_items_ok [OF sample_store_ok], simp add: sample_request_def)
  then obtain raw s' where g: "gather sample_request (mem_api no_score) (partitions sample_request) sample_store = (Ok raw, s')"
    by blast
  have "\<forall>it \<in> set raw. satisfies sample_request it"
    using mem.gather_sound [OF g] admit_satisfies by blast
  from mem.finish_admitted [OF this] g show ?thesis by (auto simp: search_def comp_simps)
qed

theorem search_results_sound_witness:
  "\<exists>xs s'. search sample_request (mem_api no_score) sample_store = (Ok xs, s') \<and>
    (\<forall>it \<in> set xs. satisfies sample_request it \<and> mem_view sample_store (i_namespace it) (i_key it) = Some (i_value it)) \<and>
    length xs \<le> 10"
proof -
  obtain xs s' where x: "search sample_request (mem_api no_score) sample_store = (Ok xs, s')"
    using sample_search_ok by blast
  from search_results_sound [OF mem.lawful_store_axioms x] x show ?thesis by blast
qed

text \<open>
  C28: Nothing that matches is crowded out. Over a store that answers, whose candidates carry natural
  keys that are text or none, take a record the request admits among the first 1024 candidates of its
  partition. An ordinary search then returns, and its result has the record's key or is full: records
  filtered out before it never push it from the answer. A substantive search does the same unless one of
  its partitions reached the scan bound with candidates unread and fewer than ten admitted; then it
  raises, and passes no short list off as complete.
\<close>

theorem search_results_complete:
  assumes "lawful_store st view rank window" and "store_total st"
    and "\<forall>pt \<in> set (partitions r). \<forall>it \<in> set (partition_rank rank s r pt). item_ok it"
    and "pt \<in> set (partitions r)" and "admit r pt it = Inr True"
    and "it \<in> set (take MAX_SCANNED_PER_PARTITION (partition_rank rank s r pt))"
  shows "if r_require_substantive r \<and> (\<exists>p \<in> set (partitions r). MAX_SCANNED_PER_PARTITION < length (partition_rank rank s r p) \<and>
        length (first_admitted (\<lambda>x. admit r p x = Inr True) (take MAX_SCANNED_PER_PARTITION (partition_rank rank s r p))) < 10)
      then \<exists>s'. search r st s = (Exn (RuntimeError ''filtered search incomplete at candidate scan bound''), s')
      else \<exists>xs s'. search r st s = (Ok xs, s') \<and> (length xs = 10 \<or> i_key it \<in> i_key ` set xs)"
proof (cases "\<exists>p \<in> set (partitions r). scan_incomplete r p (partition_rank rank s r p)")
  case True
  with lawful_store.gather_bound [OF assms(1-3)] obtain s' where "gather r st (partitions r) s = (Exn scan_bound_error, s')" by auto
  then have "search r st s = (Exn scan_bound_error, s')" by (simp add: search_def comp_simps)
  with True show ?thesis by (auto simp: scan_incomplete_def scan_bound_error_def RANKED_RESULT_LIMIT_def)
next
  case False
  then have "\<forall>p \<in> set (partitions r). \<not> scan_incomplete r p (partition_rank rank s r p)" by blast
  from lawful_store.search_complete [OF assms(1-3) this assms(4-6)] False show ?thesis
    by (auto simp: scan_incomplete_def RANKED_RESULT_LIMIT_def)
qed

lemma sample_found:
  "\<exists>it \<in> set (take MAX_SCANNED_PER_PARTITION (partition_rank (mem_rank no_score) sample_store sample_request (Some ''adr''))).
     admit sample_request (Some ''adr'') it = Inr True \<and> i_key it = ''adr:guardkit:ADR_1''"
proof -
  let ?v = "stored_value sample_prims sample_adr_1 (content_hash sample_prims sample_adr_1) (JInt 1) None"
  let ?R = "partition_rank (mem_rank no_score) sample_store sample_request (Some ''adr'')"
  have nk: "natural_key sample_adr_1 = ''adr:guardkit:ADR_1''"
    by (simp add: natural_key_def make_key_def sample_adr_1_def sample_adr_def)
  have loc: "payload_namespace sample_adr_1 = [''fleet_memory'', ''guardkit'', ''adr'']"
    "payload_key sample_prims sample_adr_1 = ''adr:guardkit:ADR_1''"
    by (simp add: payload_namespace_def sample_adr_1_def sample_adr_def)
      (simp add: payload_key_def record_identity_def sample_prims_def nk)
  have "mem_view sample_store [''fleet_memory'', ''guardkit'', ''adr''] ''adr:guardkit:ADR_1'' = Some ?v"
    by (simp add: sample_store_def mem_view_def loc)
  moreover have "filter_matches (partition_filter sample_request (Some ''adr'')) ?v"
    by (simp add: filter_matches_def partition_filter_def sample_request_def) (simp add: sample_adr_1_def sample_adr_def)
  moreover have "under (partition_namespace sample_request (Some ''adr'')) [''fleet_memory'', ''guardkit'', ''adr'']"
    by (simp add: under_def partition_namespace_def sample_request_def)
  ultimately obtain it where it: "it \<in> set ?R" "i_namespace it = [''fleet_memory'', ''guardkit'', ''adr'']"
    "i_key it = ''adr:guardkit:ADR_1''" "i_value it = ?v"
    using mem.rank_complete [of sample_store "[''fleet_memory'', ''guardkit'', ''adr'']" "''adr:guardkit:ADR_1''" ?v
        "partition_namespace sample_request (Some ''adr'')" "partition_filter sample_request (Some ''adr'')" no_score]
    by (auto simp: sample_request_def)
  have "length ?R \<le> 1"
    using mem_rank_length [of no_score sample_store "partition_namespace sample_request (Some ''adr'')"
        "r_query sample_request" "partition_filter sample_request (Some ''adr'')"]
    by (simp add: sample_store_def)
  then have "it \<in> set (take MAX_SCANNED_PER_PARTITION ?R)" using it(1) by (simp add: MAX_SCANNED_PER_PARTITION_def)
  moreover have "admit sample_request (Some ''adr'') it = Inr True"
    by (simp add: admit_def matches_project_def it matches_payload_types_def key_text_def nk
        matches_domain_tags_def sample_request_def extract_payload_type_def)
  ultimately show ?thesis using it(3) by blast
qed

lemma substantive_off: "r_require_substantive sample_request = False"
  by (simp add: sample_request_def)

theorem search_results_complete_witness:
  "\<exists>xs s'. search sample_request (mem_api no_score) sample_store = (Ok xs, s') \<and>
     (length xs = 10 \<or> ''adr:guardkit:ADR_1'' \<in> i_key ` set xs)"
proof -
  from sample_found obtain it where
    it: "it \<in> set (take MAX_SCANNED_PER_PARTITION (partition_rank (mem_rank no_score) sample_store sample_request (Some ''adr'')))"
    and ad: "admit sample_request (Some ''adr'') it = Inr True" and k: "i_key it = ''adr:guardkit:ADR_1''" by blast
  have "\<exists>xs s'. search sample_request (mem_api no_score) sample_store = (Ok xs, s') \<and>
      (length xs = 10 \<or> i_key it \<in> i_key ` set xs)"
  proof (rule search_results_complete [where view = mem_view and rank = "mem_rank no_score" and window = mem_window
      and pt = "Some ''adr''", OF mem.lawful_store_axioms mem_api_store_total _ _ ad it, simplified substantive_off simp_thms if_False])
    show "\<forall>pt \<in> set (partitions sample_request).
        \<forall>it \<in> set (partition_rank (mem_rank no_score) sample_store sample_request pt). item_ok it"
      by (intro ballI) (rule bspec [OF mem_store_items_ok [OF sample_store_ok]])
    show "Some ''adr'' \<in> set (partitions sample_request)" by (simp add: partitions_def sample_request_def)
  qed
  then show ?thesis by (simp add: k)
qed

text \<open>
  The tags a payload is written with are the tags it is found by, although the writer keeps
  them only inside the JSON text of the record: reading the text back gives the payload's list, and
  a tag filter matches exactly when it shares a tag with it.
\<close>

theorem domain_tags_round_trip:
  assumes "pydantic_model pyd" and "payload_init pyd c d = Inr p" and "registered (payload_type c)"
    and "i_value it = set_mark fw (stored_value pr p h n meta)"
  shows "item_domain_tags it = map JStr (p_domain_tags p) \<and>
    (matches_domain_tags it ts \<longleftrightarrow> ts = [] \<or> set ts \<inter> set (p_domain_tags p) \<noteq> {})"
proof -
  from assms(2) obtain d' where "pyd c d' = Inr p" by (auto simp: payload_init_def split: sum.splits if_splits)
  from pydantic_model.pyd_fields [OF assms(1) this assms(3)]
  have dist: "distinct (map fst (model_dump p))" and js: "list_all (\<lambda>(k, v). json_ok v) (p_fields p)" by simp_all
  let ?kvs = "sort_key fst (map (\<lambda>(k, v). (k, canon v)) (model_dump p))"
  have "json_ok (JObj (model_dump p))" using dist js by (auto simp: model_dump_def list_all_iff)
  then have loads: "loads (dumps (JObj (model_dump p))) = Some (JObj ?kvs)" by (simp add: loads_dumps)
  have "map fst (map (\<lambda>(k, v). (k, canon v)) (model_dump p)) = map fst (model_dump p)"
    by (simp add: split_beta)
  then have "distinct (map fst ?kvs)" using dist by (simp only: distinct_map_sort)
  moreover have "(''domain_tags'', JList (map JStr (p_domain_tags p))) \<in> set ?kvs"
    unfolding set_sort by (simp add: model_dump_def comp_def)
  ultimately have "dict_get ?kvs ''domain_tags'' = Some (JList (map JStr (p_domain_tags p)))"
    by (simp add: dict_get_def map_of_is_SomeI)
  moreover have "stored_value pr p h n meta ''domain_tags'' = None"
    by (simp add: stored_value_def with_meta_def with_supersedes_def base_record_def split: option.splits)
  ultimately have "item_domain_tags it = map JStr (p_domain_tags p)"
    by (simp add: item_domain_tags_def assms(4) loads)
  then show ?thesis by (auto simp: matches_domain_tags_def list_ex_iff)
qed

definition sample_item :: item where
  "sample_item = \<lparr>i_namespace = [''fleet_memory'', ''guardkit'', ''adr''], i_key = ''adr:guardkit:ADR_2'',
     i_value = set_mark JNull (stored_value sample_prims sample_adr ''h'' (JInt 1) None), i_score = None\<rparr>"

theorem domain_tags_round_trip_witness:
  "item_domain_tags sample_item = [] \<and> \<not> matches_domain_tags sample_item [''env:prod'']"
proof -
  have "i_value sample_item = set_mark JNull (stored_value sample_prims sample_adr ''h'' (JInt 1) None)"
    by (simp add: sample_item_def)
  from domain_tags_round_trip [OF schema.pydantic_model_axioms sample_adr_init _ this, of "[''env:prod'']"]
  show ?thesis by (simp add: registered_code) (simp add: sample_adr_def)
qed

text \<open>
  What a validated request guarantees: registered types, well-formed tags, a budget that is not
  negative, a query or a filter, and a project in the namespace alphabet, except that the pattern
  check lets one trailing newline through in the project and in each tag.
\<close>

theorem make_request_checks:
  "(\<forall>r'. make_request r = Inr r' \<longrightarrow>
      r' = r \<and> list_all registered (r_payload_types r) \<and> list_all domain_tag_match (r_domain_tags r) \<and>
      0 \<le> r_token_budget r \<and> (r_query r \<noteq> None \<or> r_payload_types r \<noteq> [] \<or> r_domain_tags r \<noteq> []) \<and>
      (full_class ns_char (r_project r) \<or>
       (\<exists>prj. full_class ns_char prj \<and> r_project r = prj @ [CHR 0x0A]))) \<and>
   (\<forall>prj. full_class ns_char prj \<longrightarrow> make_request r = Inr r \<longrightarrow>
      make_request (r\<lparr>r_project := prj @ [CHR 0x0A]\<rparr>) = Inr (r\<lparr>r_project := prj @ [CHR 0x0A]\<rparr>))"
proof -
  have ok: "make_request q = Inr q' \<longleftrightarrow> q' = q \<and> match_class ns_char (r_project q) \<and>
      list_all registered (r_payload_types q) \<and> list_all domain_tag_match (r_domain_tags q) \<and> 0 \<le> r_token_budget q \<and>
      (r_query q \<noteq> None \<or> r_payload_types q \<noteq> [] \<or> r_domain_tags q \<noteq> [])" for q q'
    by (auto simp: make_request_def field_errors_def project_errors_def payload_type_errors_def
        domain_tag_errors_def token_budget_errors_def query_or_filter_errors_def Let_def filter_empty_conv list_all_iff)
  have "match_class ns_char s \<longleftrightarrow> full_class ns_char s \<or> (\<exists>prj. full_class ns_char prj \<and> s = prj @ [CHR 0x0A])" for s
    unfolding match_class_def by (metis append_butlast_last_id butlast_snoc last_snoc snoc_eq_iff_butlast)
  then show ?thesis by (auto simp: ok)
qed

theorem make_request_checks_witness:
  "make_request (sample_request\<lparr>r_project := ''guardkit'' @ [CHR 0x0A]\<rparr>)
     = Inr (sample_request\<lparr>r_project := ''guardkit'' @ [CHR 0x0A]\<rparr>)"
proof -
  have c: "full_class ns_char ''guardkit''" by (simp add: full_class_def char_class_defs)
  have "make_request sample_request = Inr sample_request"
    using full_class_match [OF c]
    by (simp add: make_request_def field_errors_def project_errors_def payload_type_errors_def domain_tag_errors_def
        token_budget_errors_def query_or_filter_errors_def sample_request_def registered_code)
  then show ?thesis using make_request_checks [of sample_request] c by blast
qed

end
