(* ===== verification/Assembly.thy ===== *)
theory Assembly
  imports Retrieval
begin

text \<open>
  What happens to ranked results before an agent sees them: the mix by complexity band
  (\<open>retrieval/composition.py\<close>) and the token-budgeted context block
  (\<open>retrieval/assembly.py\<close>). The tokenizer is a package outside the repository and floating-point
  arithmetic is hardware's: both are arguments, and what is proved of the loops holds for every
  tokenizer and every arithmetic. Measuring a text gives its number of tokens or raises: tiktoken's
  \<open>encode\<close>, called with its defaults, refuses a text that spells a special token.
\<close>

subsection \<open>The context block\<close>

record assembly_result =
  context_block :: string
  coverage_score :: real
  contributing_types :: "string set"
  tokens_used :: nat

definition empty_assembly :: assembly_result where
  "empty_assembly = \<lparr>context_block = [], coverage_score = 0, contributing_types = {}, tokens_used = 0\<rparr>"

text \<open>
  \<open>item.value.get("content", "")\<close>: a false value is skipped, a true one that is no string makes
  the concatenation or the tokenizer raise.
\<close>

definition item_content :: "item \<Rightarrow> exn + string" where
  "item_content it =
     (case i_value it ''content'' of
        None \<Rightarrow> Inr []
      | Some v \<Rightarrow>
          if \<not> truthy v then Inr []
          else (case v of JStr c \<Rightarrow> Inr c | _ \<Rightarrow> Inl (TypeError ''can only concatenate str'')))"

definition separator :: string where "separator = [CHR 0x0A, CHR 0x0A]"

definition candidate_block :: "string \<Rightarrow> string \<Rightarrow> string" where
  "candidate_block block content = (if block \<noteq> [] then block @ separator @ content else content)"

fun pack :: "(string \<Rightarrow> exn + nat) \<Rightarrow> int \<Rightarrow> string \<Rightarrow> item list \<Rightarrow> item list \<Rightarrow> exn + string \<times> item list" where
  "pack tokens budget block included [] = Inr (block, included)"
| "pack tokens budget block included (it # its) =
     (case item_content it of
        Inl e \<Rightarrow> Inl e
      | Inr content \<Rightarrow>
          if content = [] then pack tokens budget block included its
          else (case tokens (candidate_block block content) of
             Inl e \<Rightarrow> Inl e
           | Inr n \<Rightarrow>
               if int n \<le> budget
               then pack tokens budget (candidate_block block content) (included @ [it]) its
               else pack tokens budget block included its))"

fun types_of_items :: "item list \<Rightarrow> exn + string set" where
  "types_of_items [] = Inr {}"
| "types_of_items (it # its) =
     (case key_text (i_value it) of
        Inl e \<Rightarrow> Inl e
      | Inr nk \<Rightarrow>
          (case types_of_items its of
             Inl e \<Rightarrow> Inl e
           | Inr ts \<Rightarrow> Inr (if extract_payload_type nk = [] then ts else insert (extract_payload_type nk) ts)))"

definition measured :: "(string \<Rightarrow> exn + nat) \<Rightarrow> string \<Rightarrow> exn + nat" where
  "measured tokens block = (if block \<noteq> [] then tokens block else Inr 0)"

definition assemble_context :: "(string \<Rightarrow> exn + nat) \<Rightarrow> item list \<Rightarrow> int \<Rightarrow> exn + assembly_result" where
  "assemble_context tokens ranked budget =
     (if budget = 0 \<or> ranked = [] then Inr empty_assembly
      else case pack tokens budget [] [] ranked of
        Inl e \<Rightarrow> Inl e
      | Inr (block, included) \<Rightarrow>
          (case measured tokens block of
             Inl e \<Rightarrow> Inl e
           | Inr used \<Rightarrow>
               (case types_of_items included of
                  Inl e \<Rightarrow> Inl e
                | Inr ts \<Rightarrow>
                    Inr \<lparr>context_block = block,
                         coverage_score = (if 0 < budget then real used / real_of_int budget else 0),
                         contributing_types = ts, tokens_used = used\<rparr>)))"

text \<open>A text that was measured and fits.\<close>

definition fits :: "(string \<Rightarrow> exn + nat) \<Rightarrow> int \<Rightarrow> string \<Rightarrow> bool" where
  "fits tokens budget t \<longleftrightarrow> (\<exists>n. tokens t = Inr n \<and> int n \<le> budget)"

lemma join_first_nonempty: "join sep (p # ps) = [] \<Longrightarrow> p = []"
  by (cases ps) simp_all

text \<open>One round of the loop: the item is taken, or passed over.\<close>

lemma pack_Cons:
  "pack tokens budget block included (it # its) = Inr r \<longleftrightarrow>
     (\<exists>c. item_content it = Inr c \<and>
        (if c \<noteq> [] \<and> fits tokens budget (candidate_block block c)
         then pack tokens budget (candidate_block block c) (included @ [it]) its = Inr r
         else (c \<noteq> [] \<longrightarrow> (\<exists>n. tokens (candidate_block block c) = Inr n)) \<and> pack tokens budget block included its = Inr r))"
proof (cases "item_content it")
  case (Inr c)
  then show ?thesis by (cases "tokens (candidate_block block c)") (simp_all add: fits_def)
qed simp

declare pack.simps(2) [simp del]

lemma pack_inv:
  assumes "pack tokens budget block included its = Inr (block', included')"
    and "block = [] \<or> fits tokens budget block"
    and "list_all (\<lambda>it. \<exists>c. item_content it = Inr c \<and> c \<noteq> []) included"
    and "block = join separator (map (\<lambda>it. case item_content it of Inr c \<Rightarrow> c | Inl e \<Rightarrow> []) included)"
  shows "(block' = [] \<or> fits tokens budget block')
    \<and> block' = join separator (map (\<lambda>it. case item_content it of Inr c \<Rightarrow> c | Inl e \<Rightarrow> []) included')
    \<and> (\<exists>xs. included' = included @ xs \<and> subseq xs its) \<and> (block \<noteq> [] \<longrightarrow> block' \<noteq> [])"
  using assms
proof (induction its arbitrary: block included)
  case (Cons it its)
  let ?text = "\<lambda>it. case item_content it of Inr c \<Rightarrow> c | Inl e \<Rightarrow> []"
  from Cons.prems(1) obtain c where c: "item_content it = Inr c" by (auto simp: pack_Cons)
  show ?case
  proof (cases "c \<noteq> [] \<and> fits tokens budget (candidate_block block c)")
    case False
    then have "pack tokens budget block included its = Inr (block', included')"
      using Cons.prems(1) c by (auto simp: pack_Cons split: if_splits)
    from Cons.IH [OF this Cons.prems(2-4)] show ?thesis by auto
  next
    case True
    have block: "candidate_block block c = join separator (map ?text (included @ [it]))"
    proof (cases "included = []")
      case True
      then show ?thesis using Cons.prems(4) by (simp add: candidate_block_def c)
    next
      case False
      have "block \<noteq> []" using Cons.prems(3,4) False by (cases included) (auto dest: join_first_nonempty)
      moreover have "join separator (xs @ [y]) = join separator xs @ separator @ y" if "xs \<noteq> []" for xs y
        using that by (induction xs rule: list_nonempty_induct) (simp_all add: join_Cons)
      ultimately show ?thesis using Cons.prems(4) False by (simp add: candidate_block_def c)
    qed
    have ne: "candidate_block block c \<noteq> []" using True by (simp add: candidate_block_def)
    have "pack tokens budget (candidate_block block c) (included @ [it]) its = Inr (block', included')"
      using Cons.prems(1) c True by (simp add: pack_Cons)
    moreover have "candidate_block block c = [] \<or> fits tokens budget (candidate_block block c)" using True by blast
    moreover have "list_all (\<lambda>it. \<exists>c. item_content it = Inr c \<and> c \<noteq> []) (included @ [it])" using Cons.prems(3) True c by simp
    ultimately have *: "block' = [] \<or> fits tokens budget block'" "block' = join separator (map ?text included')"
      "\<exists>xs. included' = (included @ [it]) @ xs \<and> subseq xs its" "candidate_block block c \<noteq> [] \<longrightarrow> block' \<noteq> []"
      using Cons.IH [OF _ _ _ block] by blast+
    from *(3) obtain xs where "included' = included @ (it # xs)" "subseq xs its" by auto
    then have "\<exists>xs. included' = included @ xs \<and> subseq xs (it # its)" by (intro exI [of _ "it # xs"]) simp
    with *(1,2,4) ne show ?thesis by blast
  qed
qed auto

lemma pack_contents:
  "pack tokens budget block included its = Inr (block', included') \<Longrightarrow>
   \<forall>it \<in> set included'. it \<in> set included \<or> (\<exists>c. item_content it = Inr c)"
proof (induction its arbitrary: block included)
  case (Cons it its)
  from Cons.prems obtain c where c: "item_content it = Inr c"
    and "pack tokens budget (candidate_block block c) (included @ [it]) its = Inr (block', included')
      \<or> pack tokens budget block included its = Inr (block', included')"
    unfolding pack_Cons by meson
  then have "\<forall>x \<in> set included'. x \<in> set (included @ [it]) \<or> (\<exists>c. item_content x = Inr c)
      \<or> x \<in> set included" using Cons.IH by blast
  with c show ?case by auto
qed simp

lemma pack_nonempty:
  "pack tokens budget block included its = Inr (block', included') \<Longrightarrow>
   block \<noteq> [] \<or> (\<exists>it \<in> set its. \<exists>c. item_content it = Inr c \<and> c \<noteq> [] \<and> fits tokens budget c) \<Longrightarrow> block' \<noteq> []"
proof (induction its arbitrary: block included)
  case (Cons it its)
  from Cons.prems(1) obtain c where c: "item_content it = Inr c" by (auto simp: pack_Cons)
  show ?case
  proof (cases "c \<noteq> [] \<and> fits tokens budget (candidate_block block c)")
    case True
    then have "candidate_block block c \<noteq> []" by (simp add: candidate_block_def)
    with True Cons.IH [of "candidate_block block c" "included @ [it]"] Cons.prems(1) c show ?thesis by (simp add: pack_Cons)
  next
    case False
    have "block \<noteq> [] \<or> (\<exists>it \<in> set its. \<exists>c. item_content it = Inr c \<and> c \<noteq> [] \<and> fits tokens budget c)"
      using Cons.prems(2) False c by (auto simp: candidate_block_def)
    with False Cons.IH [of block included] Cons.prems(1) c show ?thesis by (auto simp: pack_Cons split: if_splits)
  qed
qed simp

text \<open>
  C29: The assembled block never exceeds the token budget, for any tokenizer, measured on the whole
  block and not by adding estimates; the reported usage is that measure and the coverage lies
  between 0 and 1. And one oversized top result cannot empty it: if any result fits on its own,
  the block is not empty.
\<close>

theorem assemble_within_budget:
  assumes "assemble_context tokens ranked budget = Inr a" and "0 \<le> budget"
  shows "(if context_block a = [] then tokens_used a = 0
      else tokens (context_block a) = Inr (tokens_used a) \<and> int (tokens_used a) \<le> budget) \<and>
    0 \<le> coverage_score a \<and> coverage_score a \<le> 1 \<and>
    (0 < budget \<and> (\<exists>it \<in> set ranked. \<exists>c n. item_content it = Inr c \<and> c \<noteq> [] \<and> tokens c = Inr n \<and> int n \<le> budget) \<longrightarrow>
       context_block a \<noteq> [])"
proof (cases "budget = 0 \<or> ranked = []")
  case True
  then show ?thesis using assms by (auto simp: assemble_context_def empty_assembly_def)
next
  case False
  with assms(1) obtain block included used ts where p: "pack tokens budget [] [] ranked = Inr (block, included)"
    and used: "measured tokens block = Inr used"
    and a: "a = \<lparr>context_block = block, coverage_score = (if 0 < budget then real used / real_of_int budget else 0),
      contributing_types = ts, tokens_used = used\<rparr>"
    by (auto simp: assemble_context_def split: sum.splits)
  have "block = [] \<or> fits tokens budget block" by (rule conjunct1 [OF pack_inv [OF p]]) simp_all
  then have fit: "if block = [] then used = 0 else tokens block = Inr used \<and> int used \<le> budget"
    using used by (auto simp: measured_def fits_def split: if_splits)
  then have "int used \<le> budget" using assms(2) by (auto split: if_splits)
  then have "real used \<le> real_of_int budget" by (metis of_int_le_iff of_int_of_nat_eq)
  with fit pack_nonempty [OF p] False assms(2) show ?thesis
    by (simp add: a fits_def)
qed

definition sample_tokens :: "string \<Rightarrow> exn + nat" where "sample_tokens t = Inr (length t)"

definition sample_ranked :: "item list" where
  "sample_ranked =
     [\<lparr>i_namespace = [], i_key = ''k1'', i_value = [''content'' \<mapsto> JStr ''much too long''], i_score = None\<rparr>,
      \<lparr>i_namespace = [], i_key = ''k2'', i_value = [''content'' \<mapsto> JStr ''fits''], i_score = None\<rparr>]"

lemma sample_assembly: "assemble_context sample_tokens sample_ranked 5 =
   Inr \<lparr>context_block = ''fits'', coverage_score = 4 / 5, contributing_types = {}, tokens_used = 4\<rparr>"
  by (simp add: assemble_context_def sample_ranked_def item_content_def candidate_block_def sample_tokens_def
      measured_def pack.simps key_text_def extract_payload_type_def)

theorem assemble_within_budget_witness:
  "\<exists>a. assemble_context sample_tokens sample_ranked 5 = Inr a \<and> sample_tokens (context_block a) = Inr (tokens_used a) \<and>
     int (tokens_used a) \<le> 5 \<and> context_block a \<noteq> [] \<and> coverage_score a \<le> 1"
proof -
  have "\<exists>it \<in> set sample_ranked. \<exists>c n. item_content it = Inr c \<and> c \<noteq> [] \<and> sample_tokens c = Inr n \<and> int n \<le> 5"
    by (simp add: sample_ranked_def item_content_def sample_tokens_def)
  then show ?thesis using assemble_within_budget [OF sample_assembly] sample_assembly by auto
qed

text \<open>
  A result that the tokenizer refuses is not passed over: when its text, alone at the top of the
  ranking, cannot be measured, the whole assembly raises.
\<close>

lemma assemble_refused:
  assumes "budget \<noteq> 0" and "item_content it = Inr c" and "c \<noteq> []" and "tokens c = Inl e"
  shows "assemble_context tokens (it # its) budget = Inl e"
  using assms by (simp add: assemble_context_def pack.simps candidate_block_def)

text \<open>
  The block is the contents of a subsequence of the ranked results, best first, joined by blank
  lines: nothing is reordered, cut or invented.
\<close>

theorem assemble_is_subsequence:
  assumes "assemble_context tokens ranked budget = Inr a"
  shows "\<exists>xs cs. subseq xs ranked \<and> map item_content xs = map Inr cs \<and> context_block a = join separator cs"
proof (cases "budget = 0 \<or> ranked = []")
  case True
  then show ?thesis using assms
    by (intro exI [of _ "[]"]) (auto simp: assemble_context_def empty_assembly_def)
next
  case False
  with assms obtain block included where p: "pack tokens budget [] [] ranked = Inr (block, included)"
    and a: "context_block a = block"
    by (auto simp: assemble_context_def split: sum.splits)
  let ?text = "\<lambda>it. case item_content it of Inr c \<Rightarrow> c | Inl e \<Rightarrow> []"
  from pack_inv [OF p] have sub: "subseq included ranked" and block: "block = join separator (map ?text included)"
    by auto
  have "\<exists>c. item_content it = Inr c" if "it \<in> set included" for it
    using pack_contents [OF p] that by simp
  then have "map item_content included = map Inr (map ?text included)" by fastforce
  with sub block a show ?thesis by blast
qed

theorem assemble_is_subsequence_witness:
  "\<exists>xs cs. subseq xs sample_ranked \<and> map item_content xs = map Inr cs \<and> ''fits'' = join separator cs"
  using assemble_is_subsequence [OF sample_assembly] by simp

subsection \<open>Composition by complexity band\<close>

text \<open>The floating-point operations the code uses, as arguments.\<close>

record 'f float_ops =
  f_add :: "'f \<Rightarrow> 'f \<Rightarrow> 'f"
  f_sub :: "'f \<Rightarrow> 'f \<Rightarrow> 'f"
  f_mul :: "'f \<Rightarrow> 'f \<Rightarrow> 'f"
  f_div :: "'f \<Rightarrow> 'f \<Rightarrow> 'f"
  f_ge :: "'f \<Rightarrow> 'f \<Rightarrow> bool"
  f_positive :: "'f \<Rightarrow> bool"
  f_of_nat :: "nat \<Rightarrow> 'f"
  f_tenths :: "nat \<Rightarrow> 'f"
  f_int :: "'f \<Rightarrow> int"

datatype complexity_band = SIMPLE | STANDARD | COMPLEX

text \<open>The weights \<open>0.3\<close>, \<open>1.0\<close>, \<open>2.0\<close>, \<open>0.6\<close> of the table, in tenths.\<close>

fun TYPE_MIX_WEIGHTS :: "complexity_band \<Rightarrow> nat \<times> nat" where
  "TYPE_MIX_WEIGHTS SIMPLE = (3, 10)"
| "TYPE_MIX_WEIGHTS STANDARD = (10, 10)"
| "TYPE_MIX_WEIGHTS COMPLEX = (20, 6)"

definition complexity_of :: "string \<Rightarrow> complexity_band option" where
  "complexity_of s =
     (if s = ''simple'' then Some SIMPLE else if s = ''standard'' then Some STANDARD
      else if s = ''complex'' then Some COMPLEX else None)"

definition is_pattern_or_warning :: "item \<Rightarrow> exn + bool" where
  "is_pattern_or_warning it =
     (case key_text (i_value it) of
        Inl e \<Rightarrow> Inl e
      | Inr nk \<Rightarrow> Inr (extract_payload_type nk \<in> {''pattern'', ''warning''}))"

definition slots :: "'f float_ops \<Rightarrow> nat \<Rightarrow> 'f \<Rightarrow> 'f \<Rightarrow> nat \<Rightarrow> nat" where
  "slots F total_items weight total_weight available =
     nat (max 1 (min (f_int F (f_add F (f_mul F (f_of_nat F total_items) (f_div F weight total_weight)) (f_tenths F 5)))
                     (int available)))"

definition select_items :: "'f float_ops \<Rightarrow> 'f \<Rightarrow> 'f \<Rightarrow> item list \<Rightarrow> item list \<Rightarrow> item list \<times> item list" where
  "select_items F pw_weight other_weight pw other =
     (let total_weight = f_add F pw_weight other_weight; n = length pw + length other in
      if f_positive F total_weight then
        (if pw = [] then ([], other)
         else if other = [] then (pw, [])
         else (take (slots F n pw_weight total_weight (length pw)) pw,
               take (slots F n other_weight total_weight (length other)) other))
      else ([], []))"

text \<open>
  The interleaving loop: both balances grow, the side with the higher balance (patterns on a tie)
  gives its next item, and the other side steps in when it is exhausted. Every round takes one item.
\<close>

function interleave :: "'f float_ops \<Rightarrow> 'f \<Rightarrow> 'f \<Rightarrow> 'f \<Rightarrow> 'f \<Rightarrow> 'a list \<Rightarrow> 'a list \<Rightarrow> 'a list" where
  "interleave F rp ro bp bo pw other =
     (if pw = [] \<and> other = [] then []
      else let bp' = f_add F bp rp; bo' = f_add F bo ro in
        if f_ge F bp' bo' then
          (case pw of
             x # xs \<Rightarrow> x # interleave F rp ro (f_sub F bp' (f_of_nat F 1)) bo' xs other
           | [] \<Rightarrow> hd other # interleave F rp ro bp' (f_sub F bo' (f_of_nat F 1)) pw (tl other))
        else
          (case other of
             y # ys \<Rightarrow> y # interleave F rp ro bp' (f_sub F bo' (f_of_nat F 1)) pw ys
           | [] \<Rightarrow> hd pw # interleave F rp ro (f_sub F bp' (f_of_nat F 1)) bo' (tl pw) other))"
  by pat_completeness auto
termination
  by (relation "measure (\<lambda>(F, rp, ro, bp, bo, pw, other). length pw + length other)")
    (auto simp: neq_Nil_conv)

declare interleave.simps [simp del]

definition apply_weighted_composition :: "'f float_ops \<Rightarrow> item list \<Rightarrow> nat \<times> nat \<Rightarrow> exn + item list" where
  "apply_weighted_composition F items weights =
     (case try_filter is_pattern_or_warning items of
        Inl e \<Rightarrow> Inl e
      | Inr pw \<Rightarrow>
          (let other = filter (\<lambda>it. is_pattern_or_warning it \<noteq> Inr True) items;
               wp = f_tenths F (fst weights); wo = f_tenths F (snd weights); total = f_add F wp wo;
               (spw, sother) = select_items F wp wo pw other;
               rp = (if f_positive F total then f_div F wp total else f_tenths F 5);
               ro = (if f_positive F total then f_div F wo total else f_tenths F 5)
           in Inr (interleave F rp ro (f_of_nat F 0) (f_of_nat F 0) spw sother)))"

definition compose_by_complexity :: "'f float_ops \<Rightarrow> item list \<Rightarrow> string \<Rightarrow> exn + item list" where
  "compose_by_complexity F ranked band =
     (if ranked = [] then Inr []
      else case complexity_of band of
        None \<Rightarrow> Inl (ValueError (repr_str band @ '' is not a valid ComplexityBand''))
      | Some b \<Rightarrow> apply_weighted_composition F ranked (TYPE_MIX_WEIGHTS b))"

lemma interleave_shuffle: "interleave F rp ro bp bo pw other \<in> shuffles pw other"
proof (induction F rp ro bp bo pw other rule: interleave.induct)
  case (1 F rp ro bp bo pw other)
  let ?bp = "f_add F bp rp" and ?bo = "f_add F bo ro"
  consider "pw = [] \<and> other = []" | "f_ge F ?bp ?bo" "pw \<noteq> []" | "f_ge F ?bp ?bo" "pw = []" "other \<noteq> []"
    | "\<not> f_ge F ?bp ?bo" "other \<noteq> []" | "\<not> f_ge F ?bp ?bo" "other = []" "pw \<noteq> []" by blast
  then show ?case
  proof cases
    case 2
    then obtain x xs where pw: "pw = x # xs" by (cases pw) auto
    with 2 1(2) [OF _ refl refl 2(1) pw] show ?thesis
      by (subst interleave.simps) (auto simp: Let_def intro: Cons_in_shuffles_leftI)
  next
    case 4
    then obtain y ys where o: "other = y # ys" by (cases other) auto
    with 4 1(4) [OF _ refl refl 4(1) o] show ?thesis
      by (subst interleave.simps) (auto simp: Let_def intro: Cons_in_shuffles_rightI)
  next
    case 3
    then obtain y ys where o: "other = y # ys" by (cases other) auto
    with 3 1(1) [OF _ refl refl 3(1,2)] show ?thesis by (subst interleave.simps) (simp add: Let_def)
  next
    case 5
    then obtain x xs where p: "pw = x # xs" by (cases pw) auto
    with 5 1(3) [OF _ refl refl 5(1,2)] show ?thesis by (subst interleave.simps) (simp add: Let_def)
  qed (simp add: interleave.simps)
qed

lemma slots_nonzero: "slots F n w t k = 0 \<longleftrightarrow> False"
  by (simp add: slots_def)

lemma select_prefixes:
  assumes "f_positive F (f_add F wp wo)" and "select_items F wp wo pw other = (spw, so)"
  shows "prefix spw pw \<and> prefix so other \<and> (pw \<noteq> [] \<longrightarrow> spw \<noteq> []) \<and> (other \<noteq> [] \<longrightarrow> so \<noteq> [])"
  using assms by (auto simp: select_items_def Let_def take_is_prefix slots_nonzero split: if_splits)

lemma try_filter_eq: "try_filter ok xs = Inr ys \<Longrightarrow> ys = filter (\<lambda>x. ok x = Inr True) xs"
  by (induction xs arbitrary: ys) (auto split: sum.splits if_splits)

text \<open>
  Composition neither invents nor repeats results: whatever the floating-point arithmetic does,
  the outcome shuffles a best-first prefix of the patterns and warnings with a best-first prefix of
  the other results, keeps the order within each group, and leaves no group out that had a result.
\<close>

theorem composition_shuffles_prefixes:
  assumes "compose_by_complexity F ranked band = Inr res" and "ranked \<noteq> []"
    and "\<forall>b. f_positive F (f_add F (f_tenths F (fst (TYPE_MIX_WEIGHTS b))) (f_tenths F (snd (TYPE_MIX_WEIGHTS b))))"
  shows "\<exists>ps os. res \<in> shuffles ps os \<and>
    prefix ps (filter (\<lambda>it. is_pattern_or_warning it = Inr True) ranked) \<and>
    prefix os (filter (\<lambda>it. is_pattern_or_warning it \<noteq> Inr True) ranked) \<and>
    ((\<exists>it \<in> set ranked. is_pattern_or_warning it = Inr True) \<longrightarrow> ps \<noteq> []) \<and>
    ((\<exists>it \<in> set ranked. is_pattern_or_warning it \<noteq> Inr True) \<longrightarrow> os \<noteq> [])"
proof -
  let ?pw = "filter (\<lambda>it. is_pattern_or_warning it = Inr True) ranked"
  let ?ot = "filter (\<lambda>it. is_pattern_or_warning it \<noteq> Inr True) ranked"
  from assms(1,2) obtain b pw where b: "apply_weighted_composition F ranked (TYPE_MIX_WEIGHTS b) = Inr res"
    and pw: "try_filter is_pattern_or_warning ranked = Inr pw"
    by (auto simp: compose_by_complexity_def apply_weighted_composition_def split: option.splits sum.splits)
  let ?wp = "f_tenths F (fst (TYPE_MIX_WEIGHTS b))" and ?wo = "f_tenths F (snd (TYPE_MIX_WEIGHTS b))"
  obtain ps os where sel: "select_items F ?wp ?wo ?pw ?ot = (ps, os)" by fastforce
  have "res \<in> shuffles ps os"
    using b sel interleave_shuffle try_filter_eq [OF pw] pw
    by (auto simp: apply_weighted_composition_def Let_def)
  moreover from select_prefixes [OF _ sel] assms(3)
  have "prefix ps ?pw \<and> prefix os ?ot \<and> (?pw \<noteq> [] \<longrightarrow> ps \<noteq> []) \<and> (?ot \<noteq> [] \<longrightarrow> os \<noteq> [])" by blast
  ultimately show ?thesis by (auto simp: filter_empty_conv)
qed

definition real_ops :: "real float_ops" where
  "real_ops = \<lparr>f_add = (+), f_sub = (-), f_mul = (*), f_div = (/), f_ge = (\<ge>), f_positive = (\<lambda>x. 0 < x),
     f_of_nat = real, f_tenths = (\<lambda>n. real n / 10), f_int = floor\<rparr>"

definition key_item :: "string \<Rightarrow> item" where
  "key_item nk = \<lparr>i_namespace = [], i_key = nk, i_value = [''natural_key'' \<mapsto> JStr nk], i_score = None\<rparr>"

definition sample_mix :: "item list" where
  "sample_mix = map key_item [''document:a:1'', ''document:a:2'', ''pattern:a:3'', ''document:a:4'']"

lemma sample_mix_composed:
  "compose_by_complexity real_ops sample_mix ''standard'' = Inr (map key_item [''pattern:a:3'', ''document:a:1'', ''document:a:2''])"
proof -
  have pw: "is_pattern_or_warning (key_item ''document:a:1'') = Inr False"
    "is_pattern_or_warning (key_item ''document:a:2'') = Inr False"
    "is_pattern_or_warning (key_item ''pattern:a:3'') = Inr True"
    "is_pattern_or_warning (key_item ''document:a:4'') = Inr False"
    by (simp_all add: is_pattern_or_warning_def key_item_def key_text_def extract_payload_type_def)
  have f: "\<lfloor>(5::real) / 2\<rfloor> = 2" by (simp add: floor_eq_iff)
  show ?thesis
    by (simp add: compose_by_complexity_def apply_weighted_composition_def complexity_of_def sample_mix_def pw
        select_items_def Let_def real_ops_def slots_def f interleave.simps)
qed

theorem composition_shuffles_prefixes_witness:
  "compose_by_complexity real_ops sample_mix ''standard'' = Inr (map key_item [''pattern:a:3'', ''document:a:1'', ''document:a:2'']) \<and>
   (\<exists>ps os. map key_item [''pattern:a:3'', ''document:a:1'', ''document:a:2''] \<in> shuffles ps os \<and>
     prefix ps (filter (\<lambda>it. is_pattern_or_warning it = Inr True) sample_mix))"
proof -
  have ne: "sample_mix \<noteq> []" by (simp add: sample_mix_def)
  have pos: "\<forall>b. f_positive real_ops (f_add real_ops (f_tenths real_ops (fst (TYPE_MIX_WEIGHTS b)))
      (f_tenths real_ops (snd (TYPE_MIX_WEIGHTS b))))"
    by (intro allI, rename_tac b, case_tac b) (simp_all add: real_ops_def)
  from composition_shuffles_prefixes [OF sample_mix_composed ne pos] sample_mix_composed show ?thesis by blast
qed

end
