(* ===== verification/Doors.thy ===== *)
theory Doors
  imports Store_Api
begin

text \<open>
  The rules every MCP tool shares: the error envelope that keeps a tool from raising
  (\<open>mcp/degradation.py\<close>), with the message cleaning it applies, and the sandbox doors with the
  projects each of them serves (\<open>mcp/doors.py\<close>).
\<close>

subsection \<open>Cleaning a message\<close>

text \<open>
  Regular expressions as \<open>re\<close> runs them: a matcher takes the character before and the rest of
  the text, and lists where it can end, in the order the backtracking engine tries them; the first
  one is the match. All patterns below consume at least one character.
\<close>

type_synonym pos = "char option \<times> string"
type_synonym matcher = "pos \<Rightarrow> pos list"

definition re_class :: "(char \<Rightarrow> bool) \<Rightarrow> matcher" where
  "re_class P p = (case snd p of [] \<Rightarrow> [] | c # s \<Rightarrow> if P c then [(Some c, s)] else [])"

definition re_seq :: "matcher \<Rightarrow> matcher \<Rightarrow> matcher" where
  "re_seq a b p = concat (map b (a p))"

definition re_alt :: "matcher \<Rightarrow> matcher \<Rightarrow> matcher" where
  "re_alt a b p = a p @ b p"

definition re_opt :: "matcher \<Rightarrow> matcher" where
  "re_opt a p = a p @ [p]"

primrec re_many_upto :: "nat \<Rightarrow> matcher \<Rightarrow> matcher" where
  "re_many_upto 0 a p = [p]"
| "re_many_upto (Suc n) a p =
     concat (map (\<lambda>q. if length (snd q) < length (snd p) then re_many_upto n a q else []) (a p)) @ [p]"

definition re_many :: "matcher \<Rightarrow> matcher" where
  "re_many a p = re_many_upto (length (snd p)) a p"

definition re_some :: "matcher \<Rightarrow> matcher" where
  "re_some a = re_seq a (re_many a)"

primrec re_lit :: "string \<Rightarrow> matcher" where
  "re_lit [] = (\<lambda>p. [p])"
| "re_lit (c # cs) = re_seq (re_class (\<lambda>d. d = c)) (re_lit cs)"

text \<open>\<open>\w\<close> over the characters up to 255, and \<open>\b\<close>.\<close>

definition word_char :: "char \<Rightarrow> bool" where
  "word_char c \<longleftrightarrow> is_digit c \<or> is_lower c \<or> is_upper c \<or> c = CHR ''_'' \<or>
     of_char c \<in> {170, 178, 179, 181, 185, 186, 188, 189, 190 :: nat} \<or>
     (in_range c 192 255 \<and> of_char c \<noteq> (215::nat) \<and> of_char c \<noteq> (247::nat))"

definition re_boundary :: matcher where
  "re_boundary p =
     (let before = (case fst p of None \<Rightarrow> False | Some c \<Rightarrow> word_char c);
          after = (case snd p of [] \<Rightarrow> False | c # s \<Rightarrow> word_char c)
      in if before \<noteq> after then [p] else [])"

function re_sub :: "matcher \<Rightarrow> string \<Rightarrow> char option \<Rightarrow> string \<Rightarrow> string" where
  "re_sub r repl prev [] = []"
| "re_sub r repl prev (c # s) =
     (case r (prev, c # s) of
        q # _ \<Rightarrow>
          if length (snd q) \<le> length s then repl @ re_sub r repl (fst q) (snd q)
          else c # re_sub r repl (Some c) s
      | [] \<Rightarrow> c # re_sub r repl (Some c) s)"
  by pat_completeness auto
termination by (relation "measure (\<lambda>(r, repl, prev, s). length s)") auto

definition non_space :: matcher where "non_space = re_class (\<lambda>c. \<not> is_space c)"
definition host_char :: "char \<Rightarrow> bool" where "host_char c \<longleftrightarrow> word_char c \<or> c = CHR ''.'' \<or> c = CHR ''-''"
definition re_digit :: matcher where "re_digit = re_class is_digit"

definition DSN_PATTERN :: matcher where
  "DSN_PATTERN = re_seq (re_lit ''postgresql://'') (re_some non_space)"

definition URL_PATTERN :: matcher where
  "URL_PATTERN = re_seq (re_lit ''http'') (re_seq (re_opt (re_lit ''s'')) (re_seq (re_lit ''://'') (re_some non_space)))"

definition HOST_PORT_PATTERN :: matcher where
  "HOST_PORT_PATTERN =
     re_seq re_boundary (re_seq (re_some (re_class host_char)) (re_seq (re_lit '':'')
       (re_seq (re_seq re_digit (re_seq re_digit
          (re_opt (re_seq re_digit (re_opt (re_seq re_digit (re_opt re_digit))))))) re_boundary)))"

definition FILE_PATTERN :: matcher where
  "FILE_PATTERN =
     re_seq (re_lit ''/'') (re_seq (re_many (re_seq (re_some (re_class host_char)) (re_lit ''/'')))
       (re_seq (re_some (re_class host_char)) (re_seq (re_lit ''.'')
         (re_alt (re_lit ''key'') (re_alt (re_lit ''pem'') (re_alt (re_lit ''crt'') (re_lit ''token'')))))))"

definition sanitize_message :: "string \<Rightarrow> string" where
  "sanitize_message msg =
     (let m1 = re_sub DSN_PATTERN ''[DATABASE_DSN_REDACTED]'' None msg;
          m2 = re_sub URL_PATTERN ''[URL_REDACTED]'' None m1;
          m3 = re_sub HOST_PORT_PATTERN ''[HOST_PORT_REDACTED]'' None m2
      in re_sub FILE_PATTERN ''[FILE_PATH_REDACTED]'' None m3)"

subsection \<open>The error envelope\<close>

record 'a tool_result =
  is_error :: bool
  error_type :: "string option"
  message :: string
  result_value :: "'a option"

definition infrastructure :: "string \<Rightarrow> 'a tool_result" where
  "infrastructure m = \<lparr>is_error = True, error_type = Some ''infrastructure'', message = m, result_value = None\<rparr>"

definition client_error :: "string \<Rightarrow> 'a tool_result" where
  "client_error m = \<lparr>is_error = True, error_type = Some ''client'', message = m, result_value = None\<rparr>"

definition tool_ok :: "'a \<Rightarrow> 'a tool_result" where
  "tool_ok x = \<lparr>is_error = False, error_type = None, message = [], result_value = Some x\<rparr>"

definition is_EmbedTimeoutError :: "exn \<Rightarrow> bool" where
  "is_EmbedTimeoutError e = (case e of EmbedTimeoutError u t \<Rightarrow> True | _ \<Rightarrow> False)"

definition map_exception_to_result :: "exn \<Rightarrow> 'a tool_result" where
  "map_exception_to_result e =
     (if is_TimeoutError e \<and> \<not> is_EmbedTimeoutError e then infrastructure ''The memory store is unavailable''
      else if is_EmbedTimeoutError e then infrastructure ''The operation is temporarily unavailable''
      else if is_EmbedServiceError e then infrastructure ''The operation is temporarily unavailable''
      else if is_ValueError e then client_error (sanitize_message (exn_str e))
      else infrastructure (''An unexpected error occurred: '' @ sanitize_message (exn_str e)))"

definition tool_safe :: "('s, 'a) comp \<Rightarrow> ('s, 'a tool_result) comp" where
  "tool_safe func =
     catch (bind func (\<lambda>result. ret (tool_ok result))) (\<lambda>e. ret (map_exception_to_result e))"

subsection \<open>The doors\<close>

definition RESERVED_PROJECTS :: "string list" where
  "RESERVED_PROJECTS =
     [''guardkit'', ''guardkitfactory'', ''forge'', ''fleet_memory'', ''nats_core'', ''specialist_agent'',
      ''jarvis'', ''office_manager'', ''ai_transition'', ''software_factory'']"

definition DOOR_PROJECT_REFUSAL :: string where
  "DOOR_PROJECT_REFUSAL = ''this sandbox'' @ [CHR 0x27] @ ''s memory door does not serve that project''"

record sandbox_door =
  d_port :: nat
  d_projects :: "string set"

definition str_partition :: "char \<Rightarrow> string \<Rightarrow> string \<times> bool \<times> string" where
  "str_partition c s = (takeWhile (\<lambda>x. x \<noteq> c) s, c \<in> set s, drop 1 (dropWhile (\<lambda>x. x \<noteq> c) s))"

definition doors_error :: "string \<Rightarrow> exn" where
  "doors_error m = ValueError (''FLEET_MEMORY_MCP_SANDBOX_DOORS: '' @ m)"

text \<open>\<open>[0-9]{1,5}\<close> with \<open>fullmatch\<close>.\<close>

definition port_ok :: "string \<Rightarrow> bool" where
  "port_ok t \<longleftrightarrow> full_class is_digit t \<and> length t \<le> 5 \<and> 1 \<le> nat_of_digits t \<and> nat_of_digits t \<le> 65535"

fun add_names :: "string list \<Rightarrow> string list \<Rightarrow> exn + string list" where
  "add_names seen [] = Inr seen"
| "add_names seen (name # names) =
     (if \<not> full_class ns_char name
      then Inl (doors_error (repr_str name @ '' is not a project name (lower-case letters, digits and ''
             @ [CHR 0x27] @ ''_'' @ [CHR 0x27] @ '' only)''))
      else if lower name \<in> set RESERVED_PROJECTS
      then Inl (doors_error (repr_str name @ '' is a factory shelf and cannot be on a sandbox door''))
      else if name \<in> set seen
      then Inl (doors_error (''project '' @ repr_str name
             @ '' is listed more than once; a project belongs to one door and one sandbox only''))
      else add_names (name # seen) names)"

definition parse_door :: "int \<Rightarrow> nat list \<Rightarrow> string list \<Rightarrow> string \<Rightarrow> exn + sandbox_door \<times> string list" where
  "parse_door main_port seen_ports seen_projects raw =
     (let entry = strip raw; (port_text0, sep, projects_text) = str_partition CHR '':'' entry in
      if entry = [] \<or> \<not> sep
      then Inl (doors_error (''each entry must be '' @ [CHR 0x27] @ ''<port>:<project>|<project>'' @ [CHR 0x27]
             @ '', not '' @ repr_str entry))
      else
        (let port_text = strip port_text0 in
         if \<not> port_ok port_text then Inl (doors_error (repr_str port_text @ '' is not a port number''))
         else
           (let port = nat_of_digits port_text in
            if int port = main_port
            then Inl (doors_error (''port '' @ show_nat port @ '' is the main server'' @ [CHR 0x27] @ ''s own port''))
            else if port \<in> set seen_ports then Inl (doors_error (''port '' @ show_nat port @ '' is listed twice''))
            else
              (let projects = map strip (split_on CHR ''|'' projects_text) in
               if projects = [] \<or> [] \<in> set projects
               then Inl (doors_error (''the door on port '' @ show_nat port
                      @ '' has an empty project name; list at least one project, separated by ''
                      @ [CHR 0x27] @ ''|'' @ [CHR 0x27]))
               else (case add_names seen_projects projects of
                       Inl e \<Rightarrow> Inl e
                     | Inr seen \<Rightarrow> Inr (\<lparr>d_port = port, d_projects = set projects\<rparr>, seen))))))"

fun parse_entries ::
  "int \<Rightarrow> nat list \<Rightarrow> string list \<Rightarrow> sandbox_door list \<Rightarrow> string list \<Rightarrow> exn + sandbox_door list" where
  "parse_entries main_port seen_ports seen_projects doors [] = Inr doors"
| "parse_entries main_port seen_ports seen_projects doors (entry # entries) =
     (case parse_door main_port seen_ports seen_projects entry of
        Inl e \<Rightarrow> Inl e
      | Inr (door, seen) \<Rightarrow>
          parse_entries main_port (d_port door # seen_ports) seen (doors @ [door]) entries)"

definition parse_sandbox_doors :: "string \<Rightarrow> int \<Rightarrow> exn + sandbox_door list" where
  "parse_sandbox_doors value main_port =
     (if strip value = [] then Inr []
      else parse_entries main_port [] [] [] (split_on CHR '','' value))"

definition check_door_project :: "string \<Rightarrow> string set option \<Rightarrow> exn + unit" where
  "check_door_project project allowed_projects =
     (case allowed_projects of
        None \<Rightarrow> Inr ()
      | Some ps \<Rightarrow> if project \<in> ps then Inr () else Inl (ValueError DOOR_PROJECT_REFUSAL))"

subsection \<open>What cleaning removes\<close>

text \<open>
  \<open>leak p s\<close>: somewhere in \<open>s\<close> the text \<open>p\<close> stands before a character that is no space.
\<close>

fun leak_here :: "string \<Rightarrow> string \<Rightarrow> bool" where
  "leak_here [] [] = False"
| "leak_here [] (c # s) = (\<not> is_space c)"
| "leak_here (x # p) [] = False"
| "leak_here (x # p) (c # s) = (x = c \<and> leak_here p s)"

fun leak :: "string \<Rightarrow> string \<Rightarrow> bool" where
  "leak p [] = False"
| "leak p (c # s) = (leak_here p (c # s) \<or> leak p s)"

definition starts_dark :: "matcher \<Rightarrow> bool" where
  "starts_dark r \<longleftrightarrow> (\<forall>prev c s. r (prev, c # s) \<noteq> [] \<longrightarrow> \<not> is_space c)"

text \<open>A match ends in a later part of the text.\<close>

definition forward :: "matcher \<Rightarrow> bool" where
  "forward r \<longleftrightarrow> (\<forall>p. \<forall>q \<in> set (r p). suffix (snd q) (snd p))"

lemma forwardI: "(\<And>p q. q \<in> set (r p) \<Longrightarrow> suffix (snd q) (snd p)) \<Longrightarrow> forward r"
  unfolding forward_def by blast

lemma forwardD: "forward r \<Longrightarrow> q \<in> set (r p) \<Longrightarrow> suffix (snd q) (snd p)"
  unfolding forward_def by blast

lemma forward_class: "forward (re_class P)"
  by (rule forwardI) (auto simp: re_class_def suffix_def split: list.splits if_splits)

lemma forward_boundary: "forward re_boundary"
  by (rule forwardI) (simp add: re_boundary_def Let_def split: if_splits)

lemma forward_seq: "forward a \<Longrightarrow> forward b \<Longrightarrow> forward (re_seq a b)"
proof (rule forwardI)
  fix p q
  assume a: "forward a" and b: "forward b" and "q \<in> set (re_seq a b p)"
  then obtain q' where "q' \<in> set (a p)" "q \<in> set (b q')" by (auto simp: re_seq_def simp del: split_paired_Ex)
  then show "suffix (snd q) (snd p)" using forwardD [OF a] forwardD [OF b] suffix_order.trans by blast
qed

lemma forward_lit: "forward (re_lit cs)"
  by (induction cs) (simp_all add: forward_seq forward_class, rule forwardI, simp)

lemma forward_alt: "forward a \<Longrightarrow> forward b \<Longrightarrow> forward (re_alt a b)"
  by (rule forwardI) (auto simp: re_alt_def simp del: split_paired_All dest: forwardD)

lemma forward_opt: "forward a \<Longrightarrow> forward (re_opt a)"
  by (rule forwardI) (auto simp: re_opt_def simp del: split_paired_All dest: forwardD)

lemma forward_many: "forward a \<Longrightarrow> forward (re_many a)"
proof -
  assume a: "forward a"
  have "forward (re_many_upto n a)" for n
  proof (induction n)
    case (Suc n)
    show ?case
    proof (rule forwardI)
      fix p q
      assume "q \<in> set (re_many_upto (Suc n) a p)"
      then consider "q = p" | q' where "q' \<in> set (a p)" "q \<in> set (re_many_upto n a q')"
        by (auto simp del: split_paired_Ex split: if_splits)
      then show "suffix (snd q) (snd p)"
        by cases (use forwardD [OF a] forwardD [OF Suc] suffix_order.trans in \<open>simp, blast\<close>)
    qed
  qed (rule forwardI, simp)
  then show ?thesis unfolding forward_def re_many_def by blast
qed

lemmas forward_intros =
  forward_class forward_boundary forward_seq forward_lit forward_alt forward_opt forward_many

lemma forward_patterns:
  "forward DSN_PATTERN" "forward URL_PATTERN" "forward HOST_PORT_PATTERN" "forward FILE_PATTERN"
  unfolding DSN_PATTERN_def URL_PATTERN_def HOST_PORT_PATTERN_def FILE_PATTERN_def re_some_def non_space_def re_digit_def
  by (intro forward_intros)+

lemma leak_suffix: "leak p t \<Longrightarrow> suffix t s \<Longrightarrow> leak p s"
  by (induction s) (auto simp: suffix_Cons)

lemma leak_here_sub:
  assumes "starts_dark r" and "repl \<noteq> []"
  shows "leak_here p (re_sub r repl prev s) \<Longrightarrow> set p \<inter> set repl = {} \<Longrightarrow> leak_here p s"
proof (induction p arbitrary: prev s)
  case Nil
  show ?case
  proof (cases s)
    case (Cons c t)
    then show ?thesis using Nil assms(1) by (cases "r (prev, s) = []") (auto simp: starts_dark_def)
  qed (use Nil in simp)
next
  case (Cons x p)
  from \<open>repl \<noteq> []\<close> obtain y ys where repl: "repl = y # ys" by (cases repl) auto
  show ?case
  proof (cases s)
    case (Cons c t)
    have "re_sub r repl prev s = c # re_sub r repl (Some c) t"
      using Cons.prems repl Cons by (auto split: list.splits if_splits)
    then show ?thesis using Cons.prems Cons.IH [of "Some c" t] Cons by auto
  qed (use Cons.prems in simp)
qed

lemma leak_skip: "leak (x # p) (repl @ s) \<Longrightarrow> x \<notin> set repl \<Longrightarrow> leak (x # p) s"
  by (induction repl) auto

lemma leak_sub:
  assumes "starts_dark r" and "forward r" and "repl \<noteq> []" and "set (x # p) \<inter> set repl = {}"
  shows "leak (x # p) (re_sub r repl prev s) \<Longrightarrow> leak (x # p) s"
proof (induction s arbitrary: prev rule: length_induct)
  case (1 s)
  show ?case
  proof (cases s)
    case (Cons c t)
    show ?thesis
    proof (cases "\<exists>q qs. r (prev, s) = q # qs \<and> length (snd q) \<le> length t")
      case True
      then obtain q qs where q: "r (prev, s) = q # qs" "length (snd q) \<le> length t" by blast
      then have "leak (x # p) (repl @ re_sub r repl (fst q) (snd q))" using "1.prems" Cons by simp
      then have "leak (x # p) (re_sub r repl (fst q) (snd q))" using leak_skip assms(4) by simp
      then have "leak (x # p) (snd q)" using "1.IH" q(2) Cons by (metis length_Cons less_Suc_eq_le)
      moreover have "suffix (snd q) s" using \<open>forward r\<close> q(1) unfolding forward_def by (metis list.set_intros(1) snd_conv)
      ultimately show ?thesis by (rule leak_suffix)
    next
      case False
      then have copy: "re_sub r repl prev s = c # re_sub r repl (Some c) t"
        using Cons by (auto split: list.splits)
      consider "leak_here (x # p) (re_sub r repl prev s)" | "leak (x # p) (re_sub r repl (Some c) t)"
        using "1.prems" copy by auto
      then show ?thesis
      proof cases
        case 1
        then show ?thesis using leak_here_sub [OF assms(1,3) 1] assms(4) Cons by simp
      next
        case 2
        then show ?thesis using "1.IH" Cons by (metis leak.simps(2) length_Cons lessI)
      qed
    qed
  qed (use "1.prems" in simp)
qed

text \<open>A pattern that matches every leak at its start leaves none.\<close>

lemma no_leak_sub:
  assumes "starts_dark r" and "repl \<noteq> []" and "set (x # p) \<inter> set repl = {}"
    and "\<And>prev s. leak_here (x # p) s \<Longrightarrow> \<exists>q qs. r (prev, s) = q # qs \<and> length (snd q) < length s"
  shows "\<not> leak (x # p) (re_sub r repl prev s)"
proof (induction s arbitrary: prev rule: length_induct)
  case (1 s)
  show ?case
  proof (cases s)
    case (Cons c t)
    show ?thesis
    proof (cases "\<exists>q qs. r (prev, s) = q # qs \<and> length (snd q) \<le> length t")
      case True
      then obtain q qs where q: "r (prev, s) = q # qs" "length (snd q) \<le> length t" by blast
      then have "\<not> leak (x # p) (re_sub r repl (fst q) (snd q))" using "1.IH" Cons by simp
      then show ?thesis using q Cons leak_skip assms(3) by auto
    next
      case False
      then have copy: "re_sub r repl prev s = c # re_sub r repl (Some c) t"
        using Cons by (auto split: list.splits)
      have "\<not> leak_here (x # p) s" using assms(4) [of s prev] False Cons by auto
      then have "\<not> leak_here (x # p) (re_sub r repl prev s)"
        using leak_here_sub [OF assms(1,2)] assms(3) by blast
      then show ?thesis using copy "1.IH" Cons by simp
    qed
  qed simp
qed

lemma dark_class: "(\<And>c. P c \<Longrightarrow> \<not> is_space c) \<Longrightarrow> starts_dark (re_class P)"
  by (simp add: starts_dark_def re_class_def)

lemma darkD: "starts_dark r \<Longrightarrow> r (prev, c # s) \<noteq> [] \<Longrightarrow> \<not> is_space c"
  unfolding starts_dark_def by blast

lemma darkI: "(\<And>prev c s. r (prev, c # s) \<noteq> [] \<Longrightarrow> \<not> is_space c) \<Longrightarrow> starts_dark r"
  unfolding starts_dark_def by blast

lemma dark_seq: "starts_dark a \<Longrightarrow> starts_dark (re_seq a b)"
  by (rule darkI) (metis darkD concat.simps(1) list.simps(8) re_seq_def)

lemma dark_boundary: "starts_dark b \<Longrightarrow> starts_dark (re_seq re_boundary b)"
  by (rule darkI) (auto simp: re_seq_def re_boundary_def Let_def split: if_splits dest: darkD)

lemma dark_lit: "\<not> is_space x \<Longrightarrow> starts_dark (re_lit (x # cs))"
  unfolding re_lit.simps by (intro dark_seq dark_class) simp

lemma host_char_dark: "host_char c \<Longrightarrow> \<not> is_space c"
  unfolding host_char_def word_char_def by (auto simp: char_class_defs)

lemma dark_literal_chars: "\<not> is_space CHR ''p''" "\<not> is_space CHR ''h''" "\<not> is_space CHR ''/''"
  by (simp_all add: is_space_def in_range_def)

lemma dark_patterns:
  "starts_dark DSN_PATTERN" "starts_dark URL_PATTERN" "starts_dark HOST_PORT_PATTERN" "starts_dark FILE_PATTERN"
proof -
  show "starts_dark DSN_PATTERN" "starts_dark URL_PATTERN" "starts_dark FILE_PATTERN"
    unfolding DSN_PATTERN_def URL_PATTERN_def FILE_PATTERN_def by (intro dark_seq dark_lit dark_literal_chars)+
  show "starts_dark HOST_PORT_PATTERN"
    unfolding HOST_PORT_PATTERN_def re_some_def by (intro dark_boundary dark_seq dark_class host_char_dark)
qed

lemma lit_at: "\<exists>pv. re_lit cs (prev, cs @ u) = [(pv, u)]"
  by (induction cs arbitrary: prev) (auto simp: re_seq_def re_class_def)

lemma lit_shrinks:
  assumes "q \<in> set (re_seq (re_lit (x # cs)) b p)" and "forward b"
  shows "length (snd q) < length (snd p)"
proof -
  obtain c s q' where p: "snd p = c # s" and q': "q' \<in> set (re_lit cs (Some c, s))" and "q \<in> set (b q')"
    using assms(1) by (cases "snd p") (auto simp: re_seq_def re_class_def split: if_splits)
  then have "suffix (snd q) (snd q')" "suffix (snd q') s"
    using forwardD [OF assms(2)] forwardD [OF forward_lit] by fastforce+
  then show ?thesis using p by (metis le_imp_less_Suc length_Cons suffix_length_le suffix_order.trans)
qed

lemma some_dark: "\<not> is_space c \<Longrightarrow> re_some non_space (pv, c # t) \<noteq> []"
  by (cases t) (simp_all add: re_some_def re_seq_def non_space_def re_class_def re_many_def)

lemma leak_here_split: "leak_here p s \<Longrightarrow> \<exists>c t. s = p @ c # t \<and> \<not> is_space c"
  by (induction p s rule: leak_here.induct) auto

lemma seq_at: "a p = [q] \<Longrightarrow> re_seq a b p = b q"
  by (simp add: re_seq_def)

lemma seq_some: "q \<in> set (a p) \<Longrightarrow> b q \<noteq> [] \<Longrightarrow> re_seq a b p \<noteq> []"
  by (auto simp: re_seq_def simp del: split_paired_All split_paired_Ex)

lemma dsn_matches:
  assumes "leak_here ''postgresql://'' s"
  shows "\<exists>q qs. DSN_PATTERN (prev, s) = q # qs \<and> length (snd q) < length s"
proof -
  obtain c t where s: "s = ''postgresql://'' @ c # t" and c: "\<not> is_space c" using leak_here_split [OF assms] by blast
  obtain pv where "re_lit ''postgresql://'' (prev, s) = [(pv, c # t)]" using lit_at s by blast
  then have "DSN_PATTERN (prev, s) \<noteq> []" using some_dark [OF c] by (simp only: DSN_PATTERN_def seq_at not_False_eq_True)
  then obtain q qs where "DSN_PATTERN (prev, s) = q # qs" by (meson neq_Nil_conv)
  moreover from this have "length (snd q) < length s"
    using lit_shrinks [of q "CHR ''p''" "''ostgresql://''" "re_some non_space" "(prev, s)"]
    by (simp add: DSN_PATTERN_def re_some_def non_space_def forward_seq forward_class forward_many del: re_lit.simps)
  ultimately show ?thesis by blast
qed

lemma url_matches:
  assumes "leak_here ''http://'' s \<or> leak_here ''https://'' s"
  shows "\<exists>q qs. URL_PATTERN (prev, s) = q # qs \<and> length (snd q) < length s"
proof -
  let ?rest = "re_seq (re_opt (re_lit ''s'')) (re_seq (re_lit ''://'') (re_some non_space))"
  have "\<exists>z c t. s = ''http'' @ z @ ''://'' @ c # t \<and> (z = [] \<or> z = ''s'') \<and> \<not> is_space c"
    using assms
  proof
    assume "leak_here ''http://'' s"
    then show ?thesis using leak_here_split [of "''http://''" s] by (auto intro: exI [of _ "[]"])
  next
    assume "leak_here ''https://'' s"
    then show ?thesis using leak_here_split [of "''https://''" s] by (auto intro: exI [of _ "''s''"])
  qed
  then obtain z c t where s: "s = ''http'' @ z @ ''://'' @ c # t" and z: "z = [] \<or> z = ''s''" and c: "\<not> is_space c"
    by blast
  obtain p1 where l: "re_lit ''http'' (prev, s) = [(p1, z @ ''://'' @ c # t)]" using lit_at s by blast
  have o: "\<exists>p2. (p2, ''://'' @ c # t) \<in> set (re_opt (re_lit ''s'') (p1, z @ ''://'' @ c # t))"
    using z by (auto simp: re_opt_def re_seq_def re_class_def)
  then obtain p2 where p2: "(p2, ''://'' @ c # t) \<in> set (re_opt (re_lit ''s'') (p1, z @ ''://'' @ c # t))" by blast
  obtain p3 where "re_lit ''://'' (p2, ''://'' @ c # t) = [(p3, c # t)]" using lit_at by blast
  then have "re_seq (re_lit ''://'') (re_some non_space) (p2, ''://'' @ c # t) \<noteq> []"
    using some_dark [OF c] by (simp only: seq_at not_False_eq_True)
  then have "?rest (p1, z @ ''://'' @ c # t) \<noteq> []" by (intro seq_some [where a = "re_opt (re_lit ''s'')", OF p2])
  then have "URL_PATTERN (prev, s) \<noteq> []" using l by (simp only: URL_PATTERN_def seq_at not_False_eq_True)
  then obtain q qs where q: "URL_PATTERN (prev, s) = q # qs" by (meson neq_Nil_conv)
  have "forward ?rest" unfolding re_some_def non_space_def by (intro forward_intros)
  then have "length (snd q) < length s"
    using lit_shrinks [of q "CHR ''h''" "''ttp''" ?rest "(prev, s)"] q
    by (simp add: URL_PATTERN_def del: re_lit.simps)
  with q show ?thesis by blast
qed

text \<open>Each later pass keeps what the earlier ones removed away.\<close>

lemma sanitize_no_leak:
  "\<not> leak ''postgresql://'' (sanitize_message m)" "\<not> leak ''http://'' (sanitize_message m)"
  "\<not> leak ''https://'' (sanitize_message m)"
proof -
  let ?m1 = "re_sub DSN_PATTERN ''[DATABASE_DSN_REDACTED]'' None m"
  let ?m2 = "re_sub URL_PATTERN ''[URL_REDACTED]'' None ?m1"
  have 1: "\<not> leak ''postgresql://'' ?m1" 
    by (rule no_leak_sub [OF dark_patterns(1) _ _ dsn_matches]) simp_all
  have 2: "\<not> leak ''http://'' ?m2" "\<not> leak ''https://'' ?m2"
    by (rule no_leak_sub [OF dark_patterns(2) _ _ url_matches]; simp)+
  have keep: "\<not> leak (x # p) y \<Longrightarrow> set (x # p) \<inter> set ''[URL_REDACTED]'' = {} \<Longrightarrow>
      \<not> leak (x # p) (re_sub URL_PATTERN ''[URL_REDACTED]'' None y)"
    "\<not> leak (x # p) y \<Longrightarrow> set (x # p) \<inter> set ''[HOST_PORT_REDACTED]'' = {} \<Longrightarrow>
      \<not> leak (x # p) (re_sub HOST_PORT_PATTERN ''[HOST_PORT_REDACTED]'' None y)"
    "\<not> leak (x # p) y \<Longrightarrow> set (x # p) \<inter> set ''[FILE_PATH_REDACTED]'' = {} \<Longrightarrow>
      \<not> leak (x # p) (re_sub FILE_PATTERN ''[FILE_PATH_REDACTED]'' None y)" for x p y
    using leak_sub dark_patterns(2,3,4) forward_patterns(2,3,4) by blast+
  show "\<not> leak ''postgresql://'' (sanitize_message m)"
    unfolding sanitize_message_def Let_def by (intro keep 1) simp_all
  show "\<not> leak ''http://'' (sanitize_message m)" "\<not> leak ''https://'' (sanitize_message m)"
    unfolding sanitize_message_def Let_def by (intro keep(2,3) 2; simp)+
qed

subsection \<open>Hosts with a port, and key files\<close>

text \<open>
  \<open>host_port s\<close>: somewhere in \<open>s\<close> a word character stands before a colon and a number of two to five
  digits that ends there, as in \<open>db.example.com:5432\<close>. \<open>key_file s\<close>: somewhere a slash stands before
  a name that ends in one of the extensions of secrets, as in \<open>/etc/ssl/server.key\<close>.
\<close>

definition starts_word :: "string \<Rightarrow> bool" where
  "starts_word s = (case s of [] \<Rightarrow> False | c # t \<Rightarrow> word_char c)"

definition port_here :: "string \<Rightarrow> bool" where
  "port_here s =
     (case s of
        c # d # t \<Rightarrow> word_char c \<and> d = CHR '':'' \<and> 2 \<le> length (takeWhile is_digit t) \<and> length (takeWhile is_digit t) \<le> 5 \<and>
          \<not> starts_word (dropWhile is_digit t)
      | _ \<Rightarrow> False)"

fun host_port :: "string \<Rightarrow> bool" where
  "host_port [] = False"
| "host_port (c # s) = (port_here (c # s) \<or> host_port s)"

definition secret_extensions :: "string list" where
  "secret_extensions = [''.key'', ''.pem'', ''.crt'', ''.token'']"

definition file_here :: "string \<Rightarrow> bool" where
  "file_here s =
     (case s of
        c # t \<Rightarrow> c = CHR ''/'' \<and> list_ex (\<lambda>x. sublist x (drop 1 (takeWhile host_char t))) secret_extensions
      | [] \<Rightarrow> False)"

fun key_file :: "string \<Rightarrow> bool" where
  "key_file [] = False"
| "key_file (c # s) = (file_here (c # s) \<or> key_file s)"

lemma digit_word: "is_digit c \<Longrightarrow> word_char c"
  by (simp add: word_char_def)

lemma word_host: "word_char c \<Longrightarrow> host_char c"
  by (simp add: host_char_def)

lemma port_here_iff: "port_here s \<longleftrightarrow>
    (\<exists>c ds rest. s = c # CHR '':'' # ds @ rest \<and> word_char c \<and> list_all is_digit ds \<and> 2 \<le> length ds \<and> length ds \<le> 5 \<and> \<not> starts_word rest)"
proof
  assume "port_here s"
  then obtain c t where s: "s = c # CHR '':'' # t" "word_char c" "2 \<le> length (takeWhile is_digit t)" "length (takeWhile is_digit t) \<le> 5"
    "\<not> starts_word (dropWhile is_digit t)" by (auto simp: port_here_def split: list.splits)
  moreover have "list_all is_digit (takeWhile is_digit t)" by (auto simp: list_all_iff dest: set_takeWhileD)
  ultimately show "\<exists>c ds rest. s = c # CHR '':'' # ds @ rest \<and> word_char c \<and> list_all is_digit ds \<and> 2 \<le> length ds \<and> length ds \<le> 5 \<and> \<not> starts_word rest"
    by (intro exI [of _ c] exI [of _ "takeWhile is_digit t"] exI [of _ "dropWhile is_digit t"]) simp
next
  assume "\<exists>c ds rest. s = c # CHR '':'' # ds @ rest \<and> word_char c \<and> list_all is_digit ds \<and> 2 \<le> length ds \<and> length ds \<le> 5 \<and> \<not> starts_word rest"
  then obtain c ds rest where s: "s = c # CHR '':'' # ds @ rest" "word_char c" "list_all is_digit ds" "2 \<le> length ds" "length ds \<le> 5"
    "\<not> starts_word rest" by blast
  have "takeWhile is_digit (ds @ rest) = ds \<and> dropWhile is_digit (ds @ rest) = rest"
    using s(3,6) by (induction ds) (auto simp: starts_word_def digit_word split: list.splits)
  with s show "port_here s" by (simp add: port_here_def)
qed

lemma host_port_suffix: "host_port t \<Longrightarrow> suffix t s \<Longrightarrow> host_port s"
  by (induction s) (auto simp: suffix_Cons)

lemma key_file_suffix: "key_file t \<Longrightarrow> suffix t s \<Longrightarrow> key_file s"
  by (induction s) (auto simp: suffix_Cons)

text \<open>Text of the result without the first character of the replacement was copied.\<close>

lemma re_sub_copied:
  assumes "repl = y # ys"
  shows "re_sub r repl prev s = cs @ x \<Longrightarrow> y \<notin> set cs \<Longrightarrow>
    \<exists>t. s = cs @ t \<and> x = re_sub r repl (if cs = [] then prev else Some (last cs)) t"
proof (induction cs arbitrary: prev s)
  case (Cons c cs)
  then obtain d t where s: "s = d # t" by (cases s) auto
  with Cons.prems assms have "d = c" "re_sub r repl (Some c) t = cs @ x" by (auto split: list.splits if_splits)
  with Cons.IH [of "Some c" t] Cons.prems(2) s show ?case by (auto split: if_splits)
qed simp

text \<open>A pattern that, after a word character, starts with no word character.\<close>

definition follows_word :: "matcher \<Rightarrow> bool" where
  "follows_word r \<longleftrightarrow> (\<forall>w c s. word_char w \<longrightarrow> r (Some w, c # s) \<noteq> [] \<longrightarrow> \<not> word_char c)"

lemma follows_copied:
  assumes "follows_word r" and "word_char w" and "\<not> starts_word (re_sub r repl (Some w) t)"
  shows "\<not> starts_word t"
proof (cases t)
  case (Cons c u)
  show ?thesis
  proof (cases "r (Some w, t) = []")
    case True
    with assms(3) Cons show ?thesis by (simp add: starts_word_def)
  next
    case False
    with assms(1,2) Cons show ?thesis unfolding follows_word_def starts_word_def by auto
  qed
qed (simp add: starts_word_def)

lemma port_here_copied:
  assumes "follows_word r" and "repl = CHR ''['' # ys" and "port_here (c # re_sub r repl (Some c) t)"
  shows "port_here (c # t)"
proof -
  from assms(3) obtain ds rest where x: "re_sub r repl (Some c) t = (CHR '':'' # ds) @ rest" and c: "word_char c"
    and ds: "list_all is_digit ds" "2 \<le> length ds" "length ds \<le> 5" and rest: "\<not> starts_word rest"
    unfolding port_here_iff by auto
  have "CHR ''['' \<notin> set (CHR '':'' # ds)" using ds(1) by (auto simp: list_all_iff char_class_defs in_range_def)
  with re_sub_copied [OF assms(2) x] obtain u where u: "t = CHR '':'' # ds @ u"
    "rest = re_sub r repl (if CHR '':'' # ds = [] then Some c else Some (last (CHR '':'' # ds))) u" by auto
  have ne: "ds \<noteq> []" using ds(2) by auto
  then have "word_char (last ds)" using ds(1) by (simp add: list_all_iff digit_word)
  moreover from u(2) ne have "rest = re_sub r repl (Some (last ds)) u" by simp
  ultimately have "\<not> starts_word u" using follows_copied [OF assms(1)] rest by blast
  with u(1) c ds show ?thesis unfolding port_here_iff by blast
qed

text \<open>A pass that is not about ports makes none.\<close>

lemma host_port_sub:
  assumes "follows_word r" and "forward r" and "repl = CHR ''['' # ys" and "\<And>x. host_port (repl @ x) \<Longrightarrow> host_port x"
  shows "host_port (re_sub r repl prev s) \<Longrightarrow> host_port s"
proof (induction s arbitrary: prev rule: length_induct)
  case (1 s)
  show ?case
  proof (cases s)
    case (Cons c t)
    show ?thesis
    proof (cases "\<exists>q qs. r (prev, s) = q # qs \<and> length (snd q) \<le> length t")
      case True
      then obtain q qs where q: "r (prev, s) = q # qs" "length (snd q) \<le> length t" by blast
      then have "host_port (re_sub r repl (fst q) (snd q))" using "1.prems" Cons assms(4) by simp
      then have "host_port (snd q)" using "1.IH" q(2) Cons by (metis length_Cons less_Suc_eq_le)
      moreover have "suffix (snd q) s" using \<open>forward r\<close> q(1) unfolding forward_def by (metis list.set_intros(1) snd_conv)
      ultimately show ?thesis by (rule host_port_suffix)
    next
      case False
      then have copy: "re_sub r repl prev s = c # re_sub r repl (Some c) t" using Cons by (auto split: list.splits)
      consider "port_here (c # re_sub r repl (Some c) t)" | "host_port (re_sub r repl (Some c) t)" using "1.prems" copy by auto
      then show ?thesis
      proof cases
        case 1
        from port_here_copied [OF assms(1,3) 1] show ?thesis using Cons by simp
      next
        case 2
        then show ?thesis using "1.IH" Cons by (metis host_port.simps(2) length_Cons lessI)
      qed
    qed
  qed (use "1.prems" in simp)
qed

text \<open>What the matchers reach.\<close>

lemma seq_mem: "q \<in> set (re_seq a b p) \<longleftrightarrow> (\<exists>q' \<in> set (a p). q \<in> set (b q'))"
  by (simp add: re_seq_def)

lemma many_mem: "list_all P n \<Longrightarrow> length n \<le> k \<Longrightarrow>
    (if n = [] then prev else Some (last n), rest) \<in> set (re_many_upto k (re_class P) (prev, n @ rest))"
proof (induction n arbitrary: k prev)
  case Nil
  then show ?case by (cases k) simp_all
next
  case (Cons c n)
  then obtain k' where k: "k = Suc k'" by (cases k) auto
  from Cons.IH [of k' "Some c"] Cons.prems k show ?case by (auto simp: re_class_def split: if_splits)
qed

lemma some_mem: "n \<noteq> [] \<Longrightarrow> list_all P n \<Longrightarrow> (Some (last n), rest) \<in> set (re_some (re_class P) (prev, n @ rest))"
proof (cases n)
  case (Cons c m)
  assume "list_all P n"
  with Cons many_mem [of P m "length (m @ rest)" "Some c" rest] show ?thesis
    by (auto simp: re_some_def re_seq_def re_class_def re_many_def split: if_splits)
qed simp

lemma lit_mem: "\<exists>pv. (pv, u) \<in> set (re_lit cs (prev, cs @ u))"
  using lit_at [of cs prev u] by auto

lemma digit_seq: "is_digit d \<Longrightarrow> re_seq re_digit b (p, d # s) = b (Some d, s)"
  by (simp add: re_seq_def re_digit_def re_class_def)

lemma digit_one: "is_digit d \<Longrightarrow> re_digit (p, d # s) = [(Some d, s)]"
  by (simp add: re_digit_def re_class_def)

definition port_digits :: matcher where
  "port_digits = re_seq re_digit (re_seq re_digit (re_opt (re_seq re_digit (re_opt (re_seq re_digit (re_opt re_digit))))))"

lemma port_digits_mem:
  assumes "list_all is_digit ds" and "2 \<le> length ds" and "length ds \<le> 5"
  shows "(Some (last ds), rest) \<in> set (port_digits (prev, ds @ rest))"
proof -
  obtain a b ds' where ds: "ds = a # b # ds'" using assms(2) by (cases ds; cases "tl ds") auto
  consider "ds' = []" | c where "ds' = [c]" | c d where "ds' = [c, d]" | c d e where "ds' = [c, d, e]"
    using assms(3) ds by (cases ds'; cases "tl ds'"; cases "tl (tl ds')"; cases "tl (tl (tl ds'))") auto
  then show ?thesis using assms(1) unfolding ds port_digits_def
    by cases (simp_all add: digit_seq digit_one re_opt_def)
qed

lemma HOST_PORT_eq:
  "HOST_PORT_PATTERN = re_seq re_boundary (re_seq (re_some (re_class host_char)) (re_seq (re_lit '':'') (re_seq port_digits re_boundary)))"
  by (simp add: HOST_PORT_PATTERN_def port_digits_def)

definition before_word :: "char option \<Rightarrow> bool" where
  "before_word p = (case p of None \<Rightarrow> False | Some c \<Rightarrow> word_char c)"

lemma boundary_eq: "re_boundary p = (if before_word (fst p) \<noteq> starts_word (snd p) then [p] else [])"
  by (simp add: re_boundary_def Let_def before_word_def starts_word_def)

text \<open>A word that runs up to a port.\<close>

definition runs_to_port :: "string \<Rightarrow> bool" where
  "runs_to_port s \<longleftrightarrow> (\<exists>u t. s = u @ t \<and> list_all word_char u \<and> port_here t)"

lemma runs_to_port_starts: "runs_to_port s \<Longrightarrow> starts_word s"
proof -
  assume "runs_to_port s"
  then obtain u t where "s = u @ t" "list_all word_char u" "port_here t" unfolding runs_to_port_def by blast
  then show ?thesis by (cases u) (auto simp: port_here_iff starts_word_def)
qed

lemma host_port_matches:
  assumes "\<not> before_word prev" and "runs_to_port s"
  shows "HOST_PORT_PATTERN (prev, s) \<noteq> []"
proof -
  obtain u c ds rest where s: "s = (u @ [c]) @ CHR '':'' # ds @ rest" and u: "list_all word_char u" "word_char c"
    and ds: "list_all is_digit ds" "2 \<le> length ds" "length ds \<le> 5" and rest: "\<not> starts_word rest"
    using assms(2) unfolding runs_to_port_def port_here_iff by auto
  have b0: "(prev, s) \<in> set (re_boundary (prev, s))" using assms runs_to_port_starts by (simp add: boundary_eq)
  have h: "(Some (last (u @ [c])), CHR '':'' # ds @ rest) \<in> set (re_some (re_class host_char) (prev, s))"
    unfolding s by (rule some_mem) (use u in \<open>auto simp: list_all_iff word_host\<close>)
  obtain pv where l: "(pv, ds @ rest) \<in> set (re_lit '':'' (Some (last (u @ [c])), CHR '':'' # ds @ rest))"
    using lit_mem [of "ds @ rest" "'':''"] by auto
  have d: "(Some (last ds), rest) \<in> set (port_digits (pv, ds @ rest))" by (rule port_digits_mem [OF ds])
  have "ds \<noteq> []" using ds(2) by auto
  then have b1: "(Some (last ds), rest) \<in> set (re_boundary (Some (last ds), rest))"
    using rest ds(1) by (simp add: boundary_eq before_word_def list_all_iff digit_word)
  have "(Some (last ds), rest) \<in> set (HOST_PORT_PATTERN (prev, s))"
    unfolding HOST_PORT_eq seq_mem using b0 h l d b1 by blast
  then show ?thesis by auto
qed

lemma class_shrinks: "q \<in> set (re_some (re_class P) p) \<Longrightarrow> length (snd q) < length (snd p)"
proof -
  assume "q \<in> set (re_some (re_class P) p)"
  then obtain c s where p: "snd p = c # s" and q: "q \<in> set (re_many (re_class P) (Some c, s))"
    by (cases "snd p") (auto simp: re_some_def re_seq_def re_class_def split: if_splits)
  have "suffix (snd q) s" using forwardD [OF forward_many [OF forward_class] q] by simp
  then show ?thesis using p by (simp add: suffix_length_le le_imp_less_Suc)
qed

lemma host_port_match_end:
  assumes "q \<in> set (HOST_PORT_PATTERN (prev, s))"
  shows "length (snd q) < length s" and "before_word (fst q) \<longrightarrow> \<not> starts_word (snd q)" and "before_word prev \<longrightarrow> \<not> starts_word s"
proof -
  from assms obtain q1 q2 q3 where b: "(prev, s) \<in> set (re_boundary (prev, s))"
    and q1: "q1 \<in> set (re_some (re_class host_char) (prev, s))" and q2: "q2 \<in> set (re_lit '':'' q1)"
    and q3: "q3 \<in> set (port_digits q2)" and q: "q \<in> set (re_boundary q3)"
    unfolding HOST_PORT_eq seq_mem by (auto simp: boundary_eq split: if_splits)
  have "forward port_digits" unfolding port_digits_def re_digit_def by (intro forward_intros)
  from forwardD [OF this q3] forwardD [OF forward_lit q2] forwardD [OF forward_boundary q] class_shrinks [OF q1]
  show "length (snd q) < length s" by (auto dest!: suffix_length_le)
  show "before_word (fst q) \<longrightarrow> \<not> starts_word (snd q)" using q by (auto simp: boundary_eq split: if_splits)
  show "before_word prev \<longrightarrow> \<not> starts_word s" using b by (auto simp: boundary_eq split: if_splits)
qed

lemma follows_host_port: "follows_word HOST_PORT_PATTERN"
  unfolding follows_word_def
proof (intro allI impI)
  fix w c s
  assume "word_char w" and "HOST_PORT_PATTERN (Some w, c # s) \<noteq> []"
  then obtain q where "q \<in> set (HOST_PORT_PATTERN (Some w, c # s))" by (metis list.set_intros(1) neq_Nil_conv)
  from host_port_match_end(3) [OF this] \<open>word_char w\<close> show "\<not> word_char c" by (simp add: before_word_def starts_word_def)
qed

text \<open>The pass for ports leaves none.\<close>

lemma no_host_port_sub:
  assumes "repl = CHR ''['' # ys" and "\<And>x. host_port (repl @ x) \<Longrightarrow> host_port x"
  shows "\<not> before_word prev \<or> \<not> runs_to_port s \<Longrightarrow> \<not> host_port (re_sub HOST_PORT_PATTERN repl prev s)"
proof (induction s arbitrary: prev rule: length_induct)
  case (1 s)
  let ?r = "HOST_PORT_PATTERN"
  show ?case
  proof (cases s)
    case (Cons c t)
    show ?thesis
    proof (cases "?r (prev, s)")
      case (Cons q qs)
      then have end_q: "length (snd q) < length s" "before_word (fst q) \<longrightarrow> \<not> starts_word (snd q)"
        using host_port_match_end [of q prev s] by simp_all
      then have "\<not> before_word (fst q) \<or> \<not> runs_to_port (snd q)" using runs_to_port_starts by blast
      with "1.IH" end_q(1) have "\<not> host_port (re_sub ?r repl (fst q) (snd q))" by blast
      moreover have "re_sub ?r repl prev s = repl @ re_sub ?r repl (fst q) (snd q)"
        using Cons end_q(1) \<open>s = c # t\<close> by simp
      ultimately show ?thesis using assms(2) by metis
    next
      case Nil
      then have copy: "re_sub ?r repl prev s = c # re_sub ?r repl (Some c) t" using Cons by simp
      have np: "\<not> runs_to_port s" using host_port_matches [of prev s] Nil "1.prems" by blast
      have "\<not> port_here (c # re_sub ?r repl (Some c) t)"
      proof
        assume "port_here (c # re_sub ?r repl (Some c) t)"
        from port_here_copied [OF follows_host_port assms(1) this] have "port_here s" using Cons by simp
        then have "runs_to_port s" unfolding runs_to_port_def by (intro exI [of _ "[]"] exI [of _ s]) simp
        with np show False ..
      qed
      moreover have "\<not> before_word (Some c) \<or> \<not> runs_to_port t"
      proof (rule ccontr)
        assume "\<not> ?thesis"
        then obtain u t' where "word_char c" "t = u @ t'" "list_all word_char u" "port_here t'"
          by (auto simp: before_word_def runs_to_port_def)
        then have "runs_to_port s" unfolding runs_to_port_def Cons by (intro exI [of _ "c # u"] exI [of _ t']) simp
        with np show False ..
      qed
      with "1.IH" Cons have "\<not> host_port (re_sub ?r repl (Some c) t)" by simp
      ultimately show ?thesis using copy by simp
    qed
  qed simp
qed

text \<open>Key files.\<close>

lemma file_here_iff: "file_here s \<longleftrightarrow>
    (\<exists>n x rest. s = CHR ''/'' # n @ x @ rest \<and> n \<noteq> [] \<and> list_all host_char n \<and> x \<in> set secret_extensions)"
proof
  assume "file_here s"
  then obtain t x where s: "s = CHR ''/'' # t" and x: "x \<in> set secret_extensions" "sublist x (drop 1 (takeWhile host_char t))"
    by (auto simp: file_here_def list_ex_iff split: list.splits)
  from x(2) obtain a b where ab: "drop 1 (takeWhile host_char t) = a @ x @ b" by (auto simp: sublist_def)
  have "x \<noteq> []" using x(1) by (auto simp: secret_extensions_def)
  with ab obtain h where h: "takeWhile host_char t = h # a @ x @ b" by (cases "takeWhile host_char t") auto
  then have "list_all host_char (h # a)" using set_takeWhileD [of _ host_char t] by (auto simp: list_all_iff)
  moreover have "t = (h # a) @ x @ (b @ dropWhile host_char t)"
    using takeWhile_dropWhile_id [of host_char t] h by simp
  ultimately show "\<exists>n x rest. s = CHR ''/'' # n @ x @ rest \<and> n \<noteq> [] \<and> list_all host_char n \<and> x \<in> set secret_extensions"
    using s x(1) by blast
next
  assume "\<exists>n x rest. s = CHR ''/'' # n @ x @ rest \<and> n \<noteq> [] \<and> list_all host_char n \<and> x \<in> set secret_extensions"
  then obtain n x rest where s: "s = CHR ''/'' # n @ x @ rest" and n: "n \<noteq> []" "list_all host_char n" and x: "x \<in> set secret_extensions"
    by blast
  have "list_all host_char x" using x by (auto simp: secret_extensions_def host_char_def word_char_def char_class_defs)
  with n(2) have "takeWhile host_char (n @ x @ rest) = n @ x @ takeWhile host_char rest" by (simp add: list_all_iff)
  moreover have "sublist x (drop 1 (n @ x @ takeWhile host_char rest))" using n(1) by (cases n) (auto simp: sublist_def)
  ultimately show "file_here s" using s x by (auto simp: file_here_def list_ex_iff)
qed

lemma file_matches:
  assumes "file_here s"
  shows "\<exists>q qs. FILE_PATTERN (prev, s) = q # qs \<and> length (snd q) < length s"
proof -
  let ?ext = "re_alt (re_lit ''key'') (re_alt (re_lit ''pem'') (re_alt (re_lit ''crt'') (re_lit ''token'')))"
  obtain n x rest where s0: "s = CHR ''/'' # n @ x @ rest" and n: "n \<noteq> []" "list_all host_char n"
    and x: "x \<in> set secret_extensions" using assms unfolding file_here_iff by blast
  from x obtain y where y: "x = CHR ''.'' # y" "y \<in> {''key'', ''pem'', ''crt'', ''token''}"
    by (auto simp: secret_extensions_def)
  have s: "s = CHR ''/'' # n @ CHR ''.'' # y @ rest" using s0 y(1) by simp
  obtain p1 where 1: "(p1, n @ CHR ''.'' # y @ rest) \<in> set (re_lit ''/'' (prev, s))" using lit_mem [of _ "''/''"] unfolding s by auto
  have 2: "(p1, n @ CHR ''.'' # y @ rest) \<in> set (re_many a (p1, n @ CHR ''.'' # y @ rest))" for a
    unfolding re_many_def by (cases "length (snd (p1, n @ CHR ''.'' # y @ rest))") simp_all
  have 3: "(Some (last n), CHR ''.'' # y @ rest) \<in> set (re_some (re_class host_char) (p1, n @ CHR ''.'' # y @ rest))"
    by (rule some_mem [OF n])
  obtain p4 where 4: "(p4, y @ rest) \<in> set (re_lit ''.'' (Some (last n), CHR ''.'' # y @ rest))" using lit_mem [of "y @ rest" "''.''"] by auto
  obtain p5 where "(p5, rest) \<in> set (re_lit y (p4, y @ rest))" using lit_mem by blast
  then have 5: "(p5, rest) \<in> set (?ext (p4, y @ rest))" using y(2) by (auto simp: re_alt_def simp del: re_lit.simps)
  have "(p5, rest) \<in> set (FILE_PATTERN (prev, s))" unfolding FILE_PATTERN_def seq_mem using 1 2 3 4 5 by blast
  then obtain q qs where q: "FILE_PATTERN (prev, s) = q # qs" by (meson list.set_cases)
  moreover have "\<exists>b. FILE_PATTERN = re_seq (re_lit ''/'') b \<and> forward b"
    unfolding FILE_PATTERN_def re_some_def by (rule exI, rule conjI, rule refl, intro forward_intros)
  with q lit_shrinks [of q "CHR ''/''" "[]" _ "(prev, s)"] have "length (snd q) < length s" by force
  ultimately show ?thesis by blast
qed

lemma no_key_file_sub:
  assumes "repl = CHR ''['' # ys" and "\<And>x. key_file (repl @ x) \<Longrightarrow> key_file x"
  shows "\<not> key_file (re_sub FILE_PATTERN repl prev s)"
proof (induction s arbitrary: prev rule: length_induct)
  case (1 s)
  let ?r = "FILE_PATTERN"
  show ?case
  proof (cases s)
    case (Cons c t)
    show ?thesis
    proof (cases "\<exists>q qs. ?r (prev, s) = q # qs \<and> length (snd q) \<le> length t")
      case True
      then obtain q qs where q: "?r (prev, s) = q # qs" "length (snd q) \<le> length t" by blast
      then have "\<not> key_file (re_sub ?r repl (fst q) (snd q))" using "1.IH" Cons by simp
      then show ?thesis using q Cons assms(2) by auto
    next
      case False
      then have copy: "re_sub ?r repl prev s = c # re_sub ?r repl (Some c) t" using Cons by (auto split: list.splits)
      have nf: "\<not> file_here s" using file_matches [of s prev] False Cons by auto
      have "\<not> file_here (c # re_sub ?r repl (Some c) t)"
      proof
        assume "file_here (c # re_sub ?r repl (Some c) t)"
        then obtain n x rest where x: "re_sub ?r repl (Some c) t = (n @ x) @ rest" "c = CHR ''/''" "n \<noteq> []" "list_all host_char n"
          "x \<in> set secret_extensions" unfolding file_here_iff by auto
        have "CHR ''['' \<notin> set (n @ x)"
          using x(4,5) by (auto simp: list_all_iff secret_extensions_def host_char_def word_char_def char_class_defs)
        with re_sub_copied [OF assms(1) x(1)] obtain u where "t = (n @ x) @ u" by blast
        with x Cons have "file_here s" unfolding file_here_iff by auto
        with nf show False ..
      qed
      then show ?thesis using copy "1.IH" Cons by simp
    qed
  qed simp
qed

lemma follows_file: "follows_word FILE_PATTERN"
  unfolding follows_word_def
proof (intro allI impI)
  fix w c s
  assume "FILE_PATTERN (Some w, c # s) \<noteq> []"
  then have "c = CHR ''/''" by (auto simp: FILE_PATTERN_def re_seq_def re_class_def split: if_splits)
  then show "\<not> word_char c" by (simp add: word_char_def char_class_defs)
qed

lemma markers_clean:
  "host_port (''[HOST_PORT_REDACTED]'' @ x) \<Longrightarrow> host_port x" "host_port (''[FILE_PATH_REDACTED]'' @ x) \<Longrightarrow> host_port x"
  "key_file (''[FILE_PATH_REDACTED]'' @ x) \<Longrightarrow> key_file x"
proof -
  have b: "\<not> word_char CHR '']''" by (simp add: word_char_def char_class_defs)
  show "host_port (''[HOST_PORT_REDACTED]'' @ x) \<Longrightarrow> host_port x" "host_port (''[FILE_PATH_REDACTED]'' @ x) \<Longrightarrow> host_port x"
    by (cases x; simp add: port_here_def b)+
  show "key_file (''[FILE_PATH_REDACTED]'' @ x) \<Longrightarrow> key_file x" by (simp add: file_here_def)
qed

lemma sanitize_no_address: "\<not> host_port (sanitize_message m)" "\<not> key_file (sanitize_message m)"
proof -
  have 1: "\<not> host_port (re_sub HOST_PORT_PATTERN ''[HOST_PORT_REDACTED]'' None x)" for x
    by (rule no_host_port_sub [OF refl markers_clean(1)]) (simp_all add: before_word_def)
  have 2: "host_port (re_sub FILE_PATTERN ''[FILE_PATH_REDACTED]'' None x) \<Longrightarrow> host_port x" for x
    by (rule host_port_sub [OF follows_file forward_patterns(4) refl markers_clean(2)])
  show "\<not> host_port (sanitize_message m)" unfolding sanitize_message_def Let_def using 1 2 by blast
  show "\<not> key_file (sanitize_message m)" unfolding sanitize_message_def Let_def
    by (rule no_key_file_sub [OF refl markers_clean(3)])
qed

text \<open>
  A text that shows nothing the cleaning is about: no address of a database or web server with its
  scheme, no host with a port, no path of a key file.
\<close>

definition shows_nothing :: "string \<Rightarrow> bool" where
  "shows_nothing t \<longleftrightarrow> \<not> leak ''postgresql://'' t \<and> \<not> leak ''http://'' t \<and> \<not> leak ''https://'' t \<and> \<not> host_port t \<and> \<not> key_file t"

lemma mapped_shows_nothing: "shows_nothing (message (map_exception_to_result e :: 'a tool_result))"
proof -
  have dark: "\<not> word_char CHR '' ''" "\<not> is_digit CHR '' ''" by (simp_all add: word_char_def char_class_defs)
  have clean: "shows_nothing (sanitize_message m)" for m
    by (simp add: shows_nothing_def sanitize_no_leak sanitize_no_address)
  moreover have "shows_nothing (''An unexpected error occurred: '' @ sanitize_message m)" for m
    using clean [of m] dark by (simp add: shows_nothing_def port_here_def file_here_def split: list.split)
  moreover have "shows_nothing ''The memory store is unavailable''" "shows_nothing ''The operation is temporarily unavailable''"
    by (simp_all add: shows_nothing_def port_here_def file_here_def)
  ultimately show ?thesis by (simp add: map_exception_to_result_def infrastructure_def client_error_def)
qed


text \<open>An exception that names the host of the database and a key file.\<close>

definition revealing :: exn where
  "revealing = OtherError ''db.lan:5432 /k/a.key''"

lemma revealing_cleaned: "sanitize_message ''db.lan:5432 /k/a.key'' = ''[HOST_PORT_REDACTED] [FILE_PATH_REDACTED]''"
  by code_simp


subsection \<open>What a door serves\<close>

definition door_ok :: "int \<Rightarrow> sandbox_door \<Rightarrow> bool" where
  "door_ok main_port d \<longleftrightarrow> 1 \<le> d_port d \<and> d_port d \<le> 65535 \<and> int (d_port d) \<noteq> main_port \<and>
     d_projects d \<noteq> {} \<and> (\<forall>n \<in> d_projects d. full_class ns_char n \<and> n \<notin> set RESERVED_PROJECTS)"

definition doors_ok :: "int \<Rightarrow> sandbox_door list \<Rightarrow> bool" where
  "doors_ok main_port ds \<longleftrightarrow> (\<forall>d \<in> set ds. door_ok main_port d) \<and> distinct (map d_port ds) \<and>
     sorted_wrt (\<lambda>a b. d_projects a \<inter> d_projects b = {}) ds"

lemma lower_ns: "full_class ns_char n \<Longrightarrow> lower n = n"
  by (auto simp: lower_def full_class_def list_all_iff intro: map_idI)

lemma add_names_ok:
  "add_names seen names = Inr seen' \<Longrightarrow>
   set seen' = set seen \<union> set names \<and> set names \<inter> set seen = {} \<and>
   (\<forall>n \<in> set names. full_class ns_char n \<and> n \<notin> set RESERVED_PROJECTS)"
  by (induction seen names rule: add_names.induct) (auto simp: lower_ns split: if_splits)

lemma parse_door_ok:
  assumes "parse_door main_port ports seen raw = Inr (d, seen')"
  shows "door_ok main_port d \<and> d_port d \<notin> set ports \<and> d_projects d \<inter> set seen = {} \<and>
    set seen' = set seen \<union> d_projects d"
proof -
  obtain t ps where t: "port_ok t" "int (nat_of_digits t) \<noteq> main_port" "nat_of_digits t \<notin> set ports"
    and names: "add_names seen (map strip (split_on CHR ''|'' ps)) = Inr seen'"
    and d: "d = \<lparr>d_port = nat_of_digits t, d_projects = set (map strip (split_on CHR ''|'' ps))\<rparr>"
    using assms by (auto simp: parse_door_def Let_def split: if_splits prod.splits sum.splits)
  show ?thesis using t add_names_ok [OF names] unfolding d door_ok_def port_ok_def by auto
qed

lemma parse_entries_ok:
  "parse_entries main_port ports seen doors entries = Inr ds \<Longrightarrow> doors_ok main_port doors \<Longrightarrow>
   set ports = d_port ` set doors \<Longrightarrow> set seen = \<Union> (d_projects ` set doors) \<Longrightarrow>
   doors_ok main_port ds \<and> length ds = length doors + length entries"
proof (induction main_port ports seen doors entries rule: parse_entries.induct)
  case (2 main_port ports seen doors e es)
  then obtain d seen' where d: "parse_door main_port ports seen e = Inr (d, seen')"
    by (auto split: sum.splits)
  note ok = parse_door_ok [OF d]
  have "doors_ok main_port (doors @ [d])"
    using "2.prems" ok by (fastforce simp: doors_ok_def sorted_wrt_append)
  then show ?case using "2.IH" [OF d refl] "2.prems" d ok by auto
qed simp

lemma parsed_doors_ok:
  assumes "parse_sandbox_doors value main_port = Inr ds"
  shows "doors_ok main_port ds \<and> (strip value \<noteq> [] \<longrightarrow> length ds = length (split_on CHR '','' value))"
  using assms parse_entries_ok [of main_port "[]" "[]" "[]" "split_on CHR '','' value" ds]
  by (auto simp: parse_sandbox_doors_def doors_ok_def split: if_splits)

text \<open>
  An accepted \<open>FLEET_MEMORY_MCP_SANDBOX_DOORS\<close> gives one door per entry, on distinct valid
  ports other than the main one, each with at least one well-formed project, none of them a factory
  shelf, and no project on two doors. A door then lets through exactly its own projects.
\<close>

theorem parsed_doors_are_disjoint:
  assumes "parse_sandbox_doors value main_port = Inr ds"
  shows "doors_ok main_port ds \<and> (strip value \<noteq> [] \<longrightarrow> length ds = length (split_on CHR '','' value)) \<and>
    (\<forall>d \<in> set ds. \<forall>p. check_door_project p (Some (d_projects d)) = Inr () \<longleftrightarrow> p \<in> d_projects d)"
  using parsed_doors_ok [OF assms] by (simp add: check_door_project_def)

lemma strip_id: "list_all (\<lambda>c. \<not> is_space c) s \<Longrightarrow> strip s = s"
proof -
  have no: "list_all (\<lambda>c. \<not> is_space c) t \<Longrightarrow> dropWhile is_space t = t" for t
    by (cases t) auto
  assume "list_all (\<lambda>c. \<not> is_space c) s"
  then show ?thesis using no [of s] no [of "rev s"]
    by (simp add: strip_def strip_by_def lstrip_by_def rstrip_by_def list_all_iff)
qed

definition two_doors :: string where "two_doors = ''8006:proj_a|proj_b,8007:proj_c''"

lemma two_doors_parsed: "parse_sandbox_doors two_doors 8005 =
    Inr [\<lparr>d_port = 8006, d_projects = {''proj_a'', ''proj_b''}\<rparr>, \<lparr>d_port = 8007, d_projects = {''proj_c''}\<rparr>]"
  by (simp add: two_doors_def parse_sandbox_doors_def parse_door_def Let_def str_partition_def strip_id char_class_defs
    port_ok_def full_class_def nat_of_digits_def digit_val_def lower_def lower_char_def RESERVED_PROJECTS_def)

theorem parsed_doors_are_disjoint_witness:
  "doors_ok 8005 [\<lparr>d_port = 8006, d_projects = {''proj_a'', ''proj_b''}\<rparr>, \<lparr>d_port = 8007, d_projects = {''proj_c''}\<rparr>]"
  using parsed_doors_are_disjoint [OF two_doors_parsed] by simp

end
