(* ===== verification/Mcp.thy ===== *)
theory Mcp
  imports Assembly Relay Doors
begin

text \<open>
  The MCP service: the tools (\<open>mcp/tools/search.py\<close>, \<open>write.py\<close>, \<open>supersede.py\<close>), the
  projects resource (\<open>mcp/resources.py\<close>), the shared context with its lifespan and the registration
  of tools on a server (\<open>mcp/server.py\<close>), and the servers a configuration starts
  (\<open>mcp/__main__.py\<close>). The theorems say what code behind a sandbox door can read and write.
\<close>

subsection \<open>Context\<close>

text \<open>
  The store, the store the writer writes to, and the two settings the tools read: the chunk target
  and the overlap, in tokens.
\<close>

record 's server_context =
  c_store :: "'s store_api option"
  c_writer :: "'s store_api option"
  c_settings :: "(int \<times> int) option"

text \<open>
  The libraries the tools call: the first entry of \<open>errors()\<close> of a refused payload (its field and
  message) or envelope (its path and message), the text of a refused search request, the parser of
  envelopes and the size of an envelope's JSON in bytes.
\<close>

record tool_lib =
  l_prims :: prims
  l_pydantic :: pydantic
  l_tokenizer :: tokenizer
  l_tokens :: "string \<Rightarrow> exn + nat"
  l_fuel :: nat
  l_json_error :: "string \<Rightarrow> string"
  l_request_error :: "string list \<Rightarrow> string"
  l_payload_error :: "string \<Rightarrow> (string \<times> string) option"
  l_envelope :: "json \<Rightarrow> string + episode"
  l_envelope_error :: "string \<Rightarrow> (string list \<times> string) option"
  l_envelope_size :: "episode \<Rightarrow> nat"

subsection \<open>Search\<close>

definition DEFAULT_TOKEN_BUDGET :: int where "DEFAULT_TOKEN_BUDGET = 2000"

record search_args =
  a_project :: string
  a_query :: "string option"
  a_payload_types :: "string list option"
  a_domain_tags :: "string list option"
  a_token_budget :: "int option"
  a_include_superseded :: bool
  a_require_substantive :: bool

definition list_or_empty :: "'a list option \<Rightarrow> 'a list" where
  "list_or_empty x = (case x of None \<Rightarrow> [] | Some xs \<Rightarrow> xs)"

definition budget_or_default :: "int option \<Rightarrow> int" where
  "budget_or_default x = (case x of None \<Rightarrow> DEFAULT_TOKEN_BUDGET | Some b \<Rightarrow> b)"

definition tool_request :: "tool_lib \<Rightarrow> search_args \<Rightarrow> exn + search_request" where
  "tool_request lib a =
     (case make_request
        \<lparr>r_project = a_project a, r_payload_types = list_or_empty (a_payload_types a),
         r_domain_tags = list_or_empty (a_domain_tags a), r_query = a_query a,
         r_token_budget = budget_or_default (a_token_budget a),
         r_include_superseded = a_include_superseded a, r_require_substantive = a_require_substantive a\<rparr> of
        Inl errs \<Rightarrow> Inl (ValidationError (l_request_error lib errs))
      | Inr r \<Rightarrow> Inr r)"

definition require_store :: "'s server_context option \<Rightarrow> exn + 's store_api" where
  "require_store context =
     (case context of
        None \<Rightarrow> Inl (ValueError ''ServerContext is required'')
      | Some c \<Rightarrow>
          (case c_store c of
             None \<Rightarrow> Inl (ValueError ''Store is not available in ServerContext'')
           | Some st \<Rightarrow> Inr st))"

text \<open>What both search tools do before they look at the results.\<close>

definition door_search ::
  "tool_lib \<Rightarrow> 's server_context option \<Rightarrow> string set option \<Rightarrow> search_args \<Rightarrow> ('s, item list) comp" where
  "door_search lib context allowed a =
     bind (lift_res (check_door_project (a_project a) allowed)) (\<lambda>_.
     bind (lift_res (tool_request lib a)) (\<lambda>request.
     bind (lift_res (require_store context)) (\<lambda>st. search request st)))"

definition memory_search ::
  "tool_lib \<Rightarrow> 's server_context option \<Rightarrow> string set option \<Rightarrow> search_args \<Rightarrow> ('s, assembly_result tool_result) comp" where
  "memory_search lib context allowed a =
     tool_safe
       (bind (door_search lib context allowed (a\<lparr>a_require_substantive := False\<rparr>)) (\<lambda>results.
          lift_res (assemble_context (l_tokens lib) results (budget_or_default (a_token_budget a)))))"

record result_row =
  w_natural_key :: json
  w_content :: json
  w_score :: "real option"

definition item_row :: "item \<Rightarrow> result_row" where
  "item_row it =
     \<lparr>w_natural_key = py_get (i_value it) ''natural_key'', w_content = py_get (i_value it) ''content'',
      w_score = i_score it\<rparr>"

definition memory_search_items ::
  "tool_lib \<Rightarrow> 's server_context option \<Rightarrow> string set option \<Rightarrow> search_args \<Rightarrow> ('s, result_row list tool_result) comp" where
  "memory_search_items lib context allowed a =
     tool_safe (bind (door_search lib context allowed a) (\<lambda>results. ret (map item_row results)))"

subsection \<open>Supersede\<close>

definition validate_natural_key :: "string \<Rightarrow> bool" where
  "validate_natural_key key \<longleftrightarrow> length (split_on CHR '':'' key) = 3 \<and> [] \<notin> set (split_on CHR '':'' key)"

definition bad_memory_key :: "string \<Rightarrow> string \<Rightarrow> exn" where
  "bad_memory_key role key =
     ValueError (role @ '' '' @ [CHR 0x27] @ key @ [CHR 0x27]
       @ '' is not a valid memory key: expected format type:project:identifier'')"

definition check_supersede :: "string \<Rightarrow> string list \<Rightarrow> exn + unit" where
  "check_supersede successor_key predecessor_keys =
     (if predecessor_keys = [] then Inl (ValueError ''At least one predecessor is required'')
      else if \<not> validate_natural_key successor_key then Inl (bad_memory_key ''Successor'' successor_key)
      else case find (\<lambda>k. \<not> validate_natural_key k) predecessor_keys of
        Some k \<Rightarrow> Inl (bad_memory_key ''Predecessor'' k)
      | None \<Rightarrow>
          if successor_key \<in> set predecessor_keys then Inl (ValueError ''A memory cannot supersede itself'')
          else Inr ())"

definition marked_msg :: "nat \<Rightarrow> string \<Rightarrow> string" where
  "marked_msg n successor_key =
     ''Marked '' @ show_nat n @ '' '' @ (if n = 1 then ''predecessor'' else ''predecessors'')
     @ '' as superseded by '' @ successor_key"

definition memory_supersede ::
  "prims \<Rightarrow> 's store_api \<Rightarrow> string \<Rightarrow> string list \<Rightarrow> ('s, string tool_result) comp" where
  "memory_supersede pr st successor_key predecessor_keys =
     tool_safe
       (bind (lift_res (check_supersede successor_key predecessor_keys)) (\<lambda>_.
        bind (apply_supersessions pr st successor_key predecessor_keys) (\<lambda>_.
          ret (marked_msg (length predecessor_keys) successor_key))))"

subsection \<open>Write\<close>

definition SANDBOX_REFUSAL :: string where
  "SANDBOX_REFUSAL =
     ''the sandbox'' @ [CHR 0x27] @ ''s memory door accepts only build outcomes that replace nothing, ''
     @ ''and never on the factory'' @ [CHR 0x27] @ ''s own shelves ('' @ join '', '' RESERVED_PROJECTS @ '')''"

text \<open>Looking a JSON value up in the registry: lists and objects are unhashable.\<close>

definition resolve_type :: "json \<Rightarrow> exn + payload_class" where
  "resolve_type v =
     (case v of
        JStr t \<Rightarrow> get_model_for_type t
      | JList xs \<Rightarrow> Inl (TypeError ''unhashable type: list'')
      | JObj kvs \<Rightarrow> Inl (TypeError ''unhashable type: dict'')
      | _ \<Rightarrow> Inl (UnknownPayloadTypeError v))"

definition readable_error :: "tool_lib \<Rightarrow> exn \<Rightarrow> exn" where
  "readable_error lib e =
     (case e of
        ValidationError m \<Rightarrow>
          (case l_payload_error lib m of
             None \<Rightarrow> ValueError ''Payload validation failed''
           | Some (field, msg) \<Rightarrow> ValueError (''Field '' @ [CHR 0x27] @ field @ [CHR 0x27] @ '' '' @ msg))
      | _ \<Rightarrow> e)"

definition tool_payload :: "tool_lib \<Rightarrow> (string \<times> json) list \<Rightarrow> exn + payload" where
  "tool_payload lib payload_dict =
     (case dict_get payload_dict ''payload_type'' of
        None \<Rightarrow> Inl (ValueError ''payload_type is required: every write must specify a registered payload type'')
      | Some t \<Rightarrow>
          (case resolve_type t of
             Inl e \<Rightarrow> Inl e
           | Inr c \<Rightarrow>
               (case construct_payload (l_pydantic lib) c (JObj payload_dict) of
                  Inl e \<Rightarrow> Inl (readable_error lib e)
                | Inr p \<Rightarrow> Inr p)))"

definition sandbox_check :: "bool \<Rightarrow> string set option \<Rightarrow> payload \<Rightarrow> exn + unit" where
  "sandbox_check sandbox allowed p =
     (if sandbox \<and> (payload_type (p_class p) \<noteq> ''build_outcome'' \<or> p_supersedes p \<noteq> []
                    \<or> lower (p_project p) \<in> set RESERVED_PROJECTS)
      then Inl (ValueError SANDBOX_REFUSAL)
      else check_door_project (p_project p) allowed)"

definition memory_write_payload ::
  "tool_lib \<Rightarrow> 's store_api \<Rightarrow> bool \<Rightarrow> string set option \<Rightarrow> (string \<times> json) list \<Rightarrow> ('s, string tool_result) comp" where
  "memory_write_payload lib st sandbox allowed payload_dict =
     tool_safe
       (bind (lift_res (tool_payload lib payload_dict)) (\<lambda>p.
        bind (lift_res (sandbox_check sandbox allowed p)) (\<lambda>_.
        bind (writer_write (l_prims lib) st (l_fuel lib) p None) (\<lambda>_. ret (natural_key p)))))"

subsection \<open>Publish\<close>

definition MAX_ENVELOPE_BYTES :: nat where "MAX_ENVELOPE_BYTES = 921600"

text \<open>\<open>\A[a-zA-Z0-9][a-zA-Z0-9\-_]*\Z\<close>\<close>

definition subject_token :: "string \<Rightarrow> bool" where
  "subject_token s =
     (case s of
        [] \<Rightarrow> False
      | c # cs \<Rightarrow> ident_char c \<and> c \<noteq> CHR ''_'' \<and> list_all (\<lambda>d. ident_char d \<or> d = CHR ''-'') cs)"

definition envelope_error_msg :: "tool_lib \<Rightarrow> string \<Rightarrow> string" where
  "envelope_error_msg lib m =
     (case l_envelope_error lib m of
        None \<Rightarrow> ''Envelope validation failed''
      | Some (path, msg) \<Rightarrow> ''Field '' @ [CHR 0x27] @ join ''.'' path @ [CHR 0x27] @ '' '' @ msg)"

definition bus_limits :: "tool_lib \<Rightarrow> episode \<Rightarrow> string option" where
  "bus_limits lib e =
     (let size = l_envelope_size lib e;
          token_msg = (\<lambda>f. f @ '' must be a plain subject token (letters, digits, '' @ [CHR 0x27] @ ''-'' @ [CHR 0x27]
            @ '' and '' @ [CHR 0x27] @ ''_'' @ [CHR 0x27] @ '', starting with a letter or digit), as the bus requires'') in
      if MAX_ENVELOPE_BYTES < size
      then Some (''the envelope is '' @ show_nat size @ '' bytes, over the '' @ show_nat MAX_ENVELOPE_BYTES
             @ '' byte limit the bus keeps; chunk the content before sending it'')
      else if \<not> subject_token (e_project_id e) then Some (token_msg ''project_id'')
      else if \<not> subject_token (e_episode_type e) then Some (token_msg ''episode_type'')
      else None)"

definition poison_msg :: "string \<Rightarrow> string option \<Rightarrow> string" where
  "poison_msg reason detail =
     (case detail of None \<Rightarrow> reason | Some d \<Rightarrow> if d = [] then reason else reason @ '' ('' @ d @ '')'')"

definition memory_publish_envelope ::
  "tool_lib \<Rightarrow> 's service \<Rightarrow> json \<Rightarrow> ('s, string tool_result) comp" where
  "memory_publish_envelope lib sv envelope =
     (case l_envelope lib envelope of
        Inl m \<Rightarrow> ret (client_error (sanitize_message (envelope_error_msg lib m)))
      | Inr e \<Rightarrow>
          (case bus_limits lib e of
             Some m \<Rightarrow> ret (client_error m)
           | None \<Rightarrow>
               catch (bind (ingest sv e) (\<lambda>_. ret (tool_ok (e_id e))))
                 (\<lambda>ex. case ex of
                    PoisonEpisodeError r d \<Rightarrow> ret (client_error (sanitize_message (poison_msg r d)))
                  | TransientIngestError m \<Rightarrow> ret (infrastructure (sanitize_message m))
                  | _ \<Rightarrow> throw ex)))"

subsection \<open>Projects\<close>

text \<open>
  \<open>alist_namespaces\<close> with a prefix, a depth and a limit is a call of the store; \<open>sorted\<close> is by
  code point.
\<close>

type_synonym 's list_namespaces = "namespace \<Rightarrow> nat \<Rightarrow> nat \<Rightarrow> ('s, namespace list) comp"

definition read_projects ::
  "'s list_namespaces option \<Rightarrow> string set option \<Rightarrow> ('s, string list tool_result) comp" where
  "read_projects store allowed =
     tool_safe
       (case store of
          None \<Rightarrow> throw (TimeoutError ''Store is not initialized'')
        | Some list_ns \<Rightarrow>
            bind (list_ns [''fleet_memory''] 2 1000) (\<lambda>namespaces.
              let projects = map (\<lambda>ns. ns ! 1) (filter (\<lambda>ns. 2 \<le> length ns) namespaces);
                  kept = (case allowed of None \<Rightarrow> projects | Some ps \<Rightarrow> filter (\<lambda>p. p \<in> ps) projects)
              in ret (sort (remdups kept))))"

text \<open>The JSON value the resource answers with.\<close>

definition projects_resource :: "string list tool_result \<Rightarrow> json" where
  "projects_resource r =
     (if is_error r
      then JObj [(''is_error'', JBool True),
             (''error_type'', case error_type r of None \<Rightarrow> JNull | Some t \<Rightarrow> JStr t), (''message'', JStr (message r))]
      else case result_value r of None \<Rightarrow> JNull | Some ps \<Rightarrow> JList (map JStr ps))"

subsection \<open>Servers\<close>

text \<open>
  A tool as it is registered: its name and what its closure fixes, the narrow-door flag and the
  projects it serves.
\<close>

datatype tool =
    ProjectsResource "string set option"
  | MemorySearch "string set option"
  | MemorySearchItems "string set option"
  | MemorySupersede
  | MemoryWritePayload bool "string set option"
  | MemoryPublishEnvelope

definition register_search :: "string set option \<Rightarrow> tool list" where
  "register_search allowed = [MemorySearch allowed, MemorySearchItems allowed]"

definition register_write :: "bool \<Rightarrow> string set option \<Rightarrow> tool list" where
  "register_write sandbox allowed =
     MemoryWritePayload sandbox allowed # (if sandbox then [] else [MemoryPublishEnvelope])"

definition register_all :: "bool \<Rightarrow> string set option \<Rightarrow> exn + tool list" where
  "register_all sandbox allowed =
     (if allowed \<noteq> None \<and> \<not> sandbox then Inl (ValueError ''a door bound to projects must also be a sandbox door'')
      else Inr (ProjectsResource allowed # register_search allowed @ (if sandbox then [] else [MemorySupersede])
                @ register_write sandbox allowed))"

text \<open>
  \<open>int(text)\<close>: white space around, a sign, digits that single underscores may separate.
\<close>

definition py_int :: "string \<Rightarrow> int option" where
  "py_int text =
     (let t = strip text;
          (neg, digits) = (case t of c # cs \<Rightarrow> if c = CHR ''-'' then (True, cs) else if c = CHR ''+'' then (False, cs) else (False, t)
                           | [] \<Rightarrow> (False, t));
          parts = split_on CHR ''_'' digits
      in if list_all (full_class is_digit) parts
         then Some (if neg then - int (nat_of_digits (concat parts)) else int (nat_of_digits (concat parts)))
         else None)"

record mcp_settings =
  mcp_port :: int
  mcp_sandbox_port :: string
  mcp_sandbox_doors :: string
  mcp_allowed_hosts :: string

definition http_guard_options :: "mcp_settings \<Rightarrow> string list option \<times> bool option" where
  "http_guard_options st =
     (let allowed_hosts = filter (\<lambda>h. h \<noteq> []) (map strip (split_on CHR '','' (mcp_allowed_hosts st))) in
      if allowed_hosts = [] then (None, None) else (Some allowed_hosts, Some True))"

fun serve_doors :: "sandbox_door list \<Rightarrow> exn + (tool list \<times> int) list" where
  "serve_doors [] = Inr []"
| "serve_doors (d # ds) =
     (case register_all True (Some (d_projects d)) of
        Inl e \<Rightarrow> Inl e
      | Inr tools \<Rightarrow>
          (case serve_doors ds of Inl e \<Rightarrow> Inl e | Inr served \<Rightarrow> Inr ((tools, int (d_port d)) # served)))"

definition single_door :: "string \<Rightarrow> exn + (tool list \<times> int) list" where
  "single_door single_port =
     (if single_port = [] then Inr []
      else case register_all True None of
        Inl e \<Rightarrow> Inl e
      | Inr tools \<Rightarrow>
          (case py_int single_port of
             None \<Rightarrow> Inl (ValueError (''invalid literal for int() with base 10: '' @ repr_str single_port))
           | Some port \<Rightarrow> Inr [(tools, port)]))"

definition build_servers :: "mcp_settings \<Rightarrow> exn + tool list \<times> (tool list \<times> int) list" where
  "build_servers st =
     (case parse_sandbox_doors (mcp_sandbox_doors st) (mcp_port st) of
        Inl e \<Rightarrow> Inl e
      | Inr doors \<Rightarrow>
          (let single_port = strip (mcp_sandbox_port st) in
           if doors \<noteq> [] \<and> single_port \<noteq> []
           then Inl (ValueError ''set FLEET_MEMORY_MCP_SANDBOX_DOORS or FLEET_MEMORY_MCP_SANDBOX_PORT, not both'')
           else case register_all False None of
             Inl e \<Rightarrow> Inl e
           | Inr main \<Rightarrow>
               (case single_door single_port of
                  Inl e \<Rightarrow> Inl e
                | Inr single \<Rightarrow>
                    (case serve_doors doors of
                       Inl e \<Rightarrow> Inl e
                     | Inr served \<Rightarrow> Inr (main, single @ served)))))"

text \<open>
  The lifespan: opening gives the store or raises; the flag tells whether this server owns the store
  and closes it. A second server over the context, an injected store or missing settings leave the
  context alone, and so does a store that cannot be reached.
\<close>

definition lifespan_enter ::
  "bool \<Rightarrow> exn + 's store_api \<Rightarrow> 's server_context \<Rightarrow> 's server_context \<times> bool" where
  "lifespan_enter opens_store opened c =
     (if \<not> opens_store \<or> c_settings c = None \<or> c_store c \<noteq> None then (c, False)
      else case opened of
        Inl e \<Rightarrow> (c, False)
      | Inr st \<Rightarrow> (c\<lparr>c_store := Some st, c_writer := Some st\<rparr>, True))"

definition lifespan_exit :: "bool \<Rightarrow> 's server_context \<Rightarrow> 's server_context" where
  "lifespan_exit owned c = (if owned then c\<lparr>c_store := None, c_writer := None\<rparr> else c)"

text \<open>
  What a registered tool answers, with the context of the call. The writer of a context is built
  over its store (\<open>lifespan_one_store\<close> below), so the publishing tool runs the relay over that one.
\<close>

definition write_tool ::
  "tool_lib \<Rightarrow> 's server_context \<Rightarrow> bool \<Rightarrow> string set option \<Rightarrow> (string \<times> json) list \<Rightarrow> ('s, string tool_result) comp" where
  "write_tool lib c sandbox allowed payload =
     (case c_writer c of
        None \<Rightarrow> ret (infrastructure ''The memory writer is unavailable'')
      | Some st \<Rightarrow> memory_write_payload lib st sandbox allowed payload)"

definition supersede_tool ::
  "tool_lib \<Rightarrow> 's server_context \<Rightarrow> string \<Rightarrow> string list \<Rightarrow> ('s, string tool_result) comp" where
  "supersede_tool lib c successor_key predecessor_keys =
     (case c_store c of
        None \<Rightarrow> ret (infrastructure ''The memory store is unavailable'')
      | Some st \<Rightarrow> memory_supersede (l_prims lib) st successor_key predecessor_keys)"

definition publish_tool :: "tool_lib \<Rightarrow> 's server_context \<Rightarrow> json \<Rightarrow> ('s, string tool_result) comp" where
  "publish_tool lib c envelope =
     (case (c_store c, c_writer c, c_settings c) of
        (Some st, Some w, Some (target, overlap)) \<Rightarrow>
          memory_publish_envelope lib
            \<lparr>s_prims = l_prims lib, s_store = st, s_pydantic = l_pydantic lib, s_tokenizer = l_tokenizer lib,
             s_chunk_target_tokens = target, s_overlap_tokens = overlap, s_forward_fuel = l_fuel lib,
             s_json_error = l_json_error lib\<rparr> envelope
      | _ \<Rightarrow> ret (infrastructure ''The memory store is unavailable''))"

lemma lifespan_one_store:
  "c_writer c = c_store c \<Longrightarrow> c_writer (fst (lifespan_enter opens opened c)) = c_store (fst (lifespan_enter opens opened c))"
  "c_writer c = c_store c \<Longrightarrow> c_writer (lifespan_exit b c) = c_store (lifespan_exit b c)"
  by (simp_all add: lifespan_enter_def lifespan_exit_def split: sum.splits)

subsection \<open>What a door can write\<close>

context lawful_store
begin

lemma write_confined:
  assumes "p_supersedes p = []"
    and put: "\<And>V x. P V \<Longrightarrow> P (V(payload_namespace p := (V (payload_namespace p))(payload_key pr p \<mapsto> x)))"
  shows "keeps (writer_write pr st fuel p meta) (\<lambda>s. P (view s))"
proof -
  let ?ns = "payload_namespace p" and ?key = "payload_key pr p"
  have "keeps (write_record pr st fuel ?ns ?key p h n meta) (\<lambda>s. P (view s))" for h n
    unfolding write_record_def check_and_apply_forward_supersession_def
    by (intro keeps_bind keeps_ret keeps_put put) (simp add: keeps_def apply_forward_frame)
  moreover have "keeps (write_supersessions pr st p) (\<lambda>s. P (view s))"
    using assms(1) by (simp add: write_supersessions_def)
  ultimately have "keeps (upsert pr st fuel p meta existing) (\<lambda>s. P (view s))" for existing
    by (cases existing) (auto simp: upsert_def intro!: keeps_bind)
  then show ?thesis
    unfolding writer_write_def by (auto intro!: keeps_bind keeps_get)
qed

end

lemma keeps_tool_safe: "keeps m I \<Longrightarrow> keeps (tool_safe m) I"
  unfolding tool_safe_def by (intro keeps_catch keeps_bind keeps_ret)

text \<open>A step that keeps \<open>I\<close> when its checked argument passes the test keeps it always.\<close>

lemma keeps_lift_bind: "(\<And>x. r = Inr x \<Longrightarrow> keeps (k x) I) \<Longrightarrow> keeps (bind (lift_res r) k) I"
  by (cases r) auto

lemma sandbox_check_ok:
  "sandbox_check True allowed p = Inr () \<longleftrightarrow>
   payload_type (p_class p) = ''build_outcome'' \<and> p_supersedes p = [] \<and> lower (p_project p) \<notin> set RESERVED_PROJECTS
   \<and> (\<forall>ps. allowed = Some ps \<longrightarrow> p_project p \<in> ps)"
  by (auto simp: sandbox_check_def check_door_project_def split: option.splits)

lemma sandbox_write_frame:
  assumes "lawful_store st view rank window"
    and "\<And>project. ns = [''fleet_memory'', project, ''build_outcome''] \<Longrightarrow> lower project \<notin> set RESERVED_PROJECTS \<Longrightarrow>
      \<exists>ps. allowed = Some ps \<and> project \<notin> ps"
  shows "view (snd (memory_write_payload lib st True allowed d s)) ns = view s ns"
proof -
  let ?P = "\<lambda>V. V ns = view s ns"
  have "keeps (writer_write (l_prims lib) st (l_fuel lib) p None) (\<lambda>s. ?P (view s))"
    if "sandbox_check True allowed p = Inr ()" for p
  proof (rule lawful_store.write_confined [where P = ?P, OF assms(1)])
    show "p_supersedes p = []" using that by (simp add: sandbox_check_ok)
    have "ns \<noteq> payload_namespace p" using assms(2) that by (auto simp: sandbox_check_ok payload_namespace_def)
    then show "V ns = view s ns \<Longrightarrow>
        (V(payload_namespace p := (V (payload_namespace p))(payload_key (l_prims lib) p \<mapsto> x))) ns = view s ns" for V x
      by simp
  qed
  then have "keeps (memory_write_payload lib st True allowed d) (\<lambda>s. ?P (view s))"
    unfolding memory_write_payload_def by (intro keeps_tool_safe keeps_lift_bind keeps_bind keeps_ret) simp
  from keepsD [OF this, of s] show ?thesis by simp
qed

text \<open>
  C36: Code behind a sandbox door can plant records only among the build outcomes of a project its
  door serves, and never on a factory shelf: whatever dictionary the write tool is given and
  whatever way the call ends, every other namespace holds what it held before.
\<close>

theorem sandbox_write_confined:
  assumes "lawful_store st view rank window"
    and "view (snd (memory_write_payload lib st True allowed d s)) ns \<noteq> view s ns"
  shows "\<exists>project. ns = [''fleet_memory'', project, ''build_outcome''] \<and> lower project \<notin> set RESERVED_PROJECTS \<and>
    (\<forall>ps. allowed = Some ps \<longrightarrow> project \<in> ps)"
proof (rule ccontr)
  assume "\<not> ?thesis"
  then have "view (snd (memory_write_payload lib st True allowed d s)) ns = view s ns"
    by (intro sandbox_write_frame [OF assms(1)]) blast
  with assms(2) show False by simp
qed

subsection \<open>What a door can read\<close>

lemma tool_safe_value:
  fixes m :: "('s, 'v) comp"
  shows "tool_safe m s = (Ok r, s') \<Longrightarrow> result_value r = Some x \<Longrightarrow> m s = (Ok x, s')"
proof (cases "m s")
  case (Pair q t)
  assume "tool_safe m s = (Ok r, s')" and "result_value r = Some x"
  moreover have "result_value (map_exception_to_result e :: 'v tool_result) = None" for e
    by (simp add: map_exception_to_result_def infrastructure_def client_error_def)
  ultimately show ?thesis using Pair
    by (cases q) (auto simp: tool_safe_def catch_def bind_def ret_def tool_ok_def)
qed

lemma door_search_sound:
  assumes "lawful_store st view rank window" and "c_store c = Some st"
    and "door_search lib (Some c) (Some ps) a s = (Ok xs, s')"
  shows "a_project a \<in> ps \<and> length xs \<le> 10 \<and>
    (\<forall>it \<in> set xs. \<exists>top rest. i_namespace it = top # a_project a # rest \<and> view s (i_namespace it) (i_key it) = Some (i_value it))"
proof -
  from assms(2,3) obtain r where ps: "a_project a \<in> ps" and r: "tool_request lib a = Inr r" and "search r st s = (Ok xs, s')"
    by (auto simp: door_search_def bind_Ok_iff lift_res_Ok_iff require_store_def check_door_project_def split: if_splits)
  note search = lawful_store.search_sound [OF assms(1) this(3)]
  have prj: "r_project r = a_project a"
    using r by (auto simp: tool_request_def make_request_def split: sum.splits if_splits)
  have "\<exists>top rest. i_namespace it = top # a_project a # rest" if "it \<in> set xs" for it
  proof -
    from search(1) that have "matches_project it (a_project a)" by (simp add: satisfies_def prj)
    then show ?thesis by (auto simp: matches_project_def split: list.splits)
  qed
  then show ?thesis using ps search by blast
qed

lemma door_search_refused:
  "a_project a \<notin> ps \<Longrightarrow> door_search lib context (Some ps) a s = (Exn (ValueError DOOR_PROJECT_REFUSAL), s)"
  by (simp add: door_search_def check_door_project_def throw_def)

definition row_of :: "stored \<Rightarrow> result_row \<Rightarrow> bool" where
  "row_of v row \<longleftrightarrow> w_natural_key row = py_get v ''natural_key'' \<and> w_content row = py_get v ''content''"

lemma items_sound:
  assumes "lawful_store st view rank window" and "c_store c = Some st"
    and "memory_search_items lib (Some c) (Some ps) a s = (Ok r, s')" and "result_value r = Some rows"
  shows "a_project a \<in> ps \<and> length rows \<le> 10 \<and>
    (\<forall>row \<in> set rows. \<exists>top rest k v. view s (top # a_project a # rest) k = Some v \<and> row_of v row)"
proof -
  from tool_safe_value [OF assms(3) [unfolded memory_search_items_def] assms(4)] obtain xs where
    "door_search lib (Some c) (Some ps) a s = (Ok xs, s')" and rows: "rows = map item_row xs"
    by (auto simp: bind_Ok_iff ret_def)
  note sound = door_search_sound [OF assms(1,2) this(1)]
  have "\<exists>top rest k v. view s (top # a_project a # rest) k = Some v \<and> row_of v row" if "row \<in> set rows" for row
  proof -
    obtain it where "it \<in> set xs" "row = item_row it" using \<open>row \<in> set rows\<close> rows by auto
    moreover from this(1) sound obtain top rest where
      "i_namespace it = top # a_project a # rest" "view s (i_namespace it) (i_key it) = Some (i_value it)" by blast
    ultimately show ?thesis by (force simp: item_row_def row_of_def)
  qed
  with sound rows show ?thesis by simp
qed

text \<open>
  A door answers only for its own projects: a search for any other project is refused in the
  same words before the store is asked, and every row a search returns is a stored record of the
  project that was asked for.
\<close>

theorem door_search_isolated:
  assumes "lawful_store st view rank window" and "c_store c = Some st"
  shows "(a_project a \<notin> ps \<longrightarrow>
      memory_search_items lib (Some c) (Some ps) a s = (Ok (client_error (sanitize_message DOOR_PROJECT_REFUSAL)), s) \<and>
      memory_search lib (Some c) (Some ps) a s = (Ok (client_error (sanitize_message DOOR_PROJECT_REFUSAL)), s)) \<and>
    (memory_search_items lib (Some c) (Some ps) a s = (Ok r, s') \<longrightarrow> result_value r = Some rows \<longrightarrow>
      a_project a \<in> ps \<and> length rows \<le> 10 \<and>
      (\<forall>row \<in> set rows. \<exists>top rest k v. view s (top # a_project a # rest) k = Some v \<and> row_of v row))"
proof -
  have "a_project (a\<lparr>a_require_substantive := b\<rparr>) = a_project a" for b by simp
  then have "a_project a \<notin> ps \<Longrightarrow>
      memory_search_items lib (Some c) (Some ps) a s = (Ok (client_error (sanitize_message DOOR_PROJECT_REFUSAL)), s) \<and>
      memory_search lib (Some c) (Some ps) a s = (Ok (client_error (sanitize_message DOOR_PROJECT_REFUSAL)), s)"
    using door_search_refused [of _ ps lib "Some c" s]
    by (simp add: memory_search_items_def memory_search_def tool_safe_def comp_simps map_exception_to_result_def
        is_EmbedTimeoutError_def)
  then show ?thesis using items_sound [OF assms] by blast
qed

subsection \<open>The tool's write and the relay's\<close>

definition same_but_meta :: "stored option \<Rightarrow> stored option \<Rightarrow> bool" where
  "same_but_meta x y \<longleftrightarrow>
     rel_option (\<lambda>v w. \<forall>f. f \<noteq> ''episode_type'' \<and> f \<noteq> ''episode_meta'' \<longrightarrow> v f = w f) x y"

lemma with_meta_fields: "f \<noteq> ''episode_type'' \<Longrightarrow> f \<noteq> ''episode_meta'' \<Longrightarrow> with_meta m v f = v f"
  by (simp add: with_meta_def split: option.splits)

lemma set_mark_at: "set_mark fw v f = (if f = ''superseded_by'' \<and> truthy fw then Some fw else v f)"
  by (simp add: set_mark_def)

lemma upsert_spec_meta:
  "same_but_meta (upsert_spec pr fw p m V ns k) (upsert_spec pr fw p m' V ns k)"
proof (cases "ns = payload_namespace p \<and> k = payload_key pr p")
  case False
  then show ?thesis by (auto simp: upsert_spec_other same_but_meta_def option.rel_refl)
next
  case True
  have "rel_option (\<lambda>v w. \<forall>f. f \<noteq> ''episode_type'' \<and> f \<noteq> ''episode_meta'' \<longrightarrow> v f = w f) x x" for x :: "stored option"
    by (simp add: option.rel_refl)
  then show ?thesis
    by (auto simp: True same_but_meta_def upsert_spec_def Let_def stored_value_def with_meta_fields set_mark_at
        split: option.splits sum.splits)
qed

lemma write_spec_meta: "same_but_meta (write_spec pr fw p m V ns k) (write_spec pr fw p m' V ns k)"
  using upsert_spec_meta [of pr fw p m V ns k m']
  by (auto simp: write_spec_def marks_spec_at same_but_meta_def marked_def option.rel_map
      elim!: option.rel_mono_strong)

lemma tool_write_returns:
  assumes "tool_payload lib d = Inr p" and "sandbox_check sandbox allowed p = Inr ()"
    and "writer_write (l_prims lib) st (l_fuel lib) p None s = (Ok (), s')"
  shows "memory_write_payload lib st sandbox allowed d s = (Ok (tool_ok (natural_key p)), s')"
  using assms by (simp add: memory_write_payload_def tool_safe_def comp_simps)

text \<open>
  C37: There is one write path: for a payload both accept, the write tool returns the natural key
  and leaves the store as the relay's ingestion of the same payload does, in every field of every
  record except the two that carry the envelope of the episode.
\<close>

theorem tool_write_matches_relay:
  assumes "lawful_store st view rank window" and "store_total st" and "contents_wf (l_prims lib) (view s)"
    and "tool_payload lib d = Inr p" and "sandbox_check sandbox allowed p = Inr ()" and "writable p"
    and "length (rank s (payload_namespace p) None []) < FORWARD_PAGE * l_fuel lib"
    and "episode_payload sv e = Inr p" and "s_store sv = st" and "s_prims sv = l_prims lib" and "s_forward_fuel sv = l_fuel lib"
  shows "\<exists>s1 s2. memory_write_payload lib st sandbox allowed d s = (Ok (tool_ok (natural_key p)), s1) \<and>
    ingest_json sv e s = (Ok (), s2) \<and> (\<forall>ns k. same_but_meta (view s1 ns k) (view s2 ns k))"
proof -
  let ?fw = "forward_of (natural_key p) (rank s (payload_namespace p) None [])"
  have w: "\<exists>s'. writer_write (l_prims lib) st (l_fuel lib) p meta s = (Ok (), s') \<and>
      view s' = write_spec (l_prims lib) ?fw p meta (view s)" for meta
  proof (rule lawful_store.write_completes [OF assms(1,2)])
    show "\<exists>n. next_version (l_prims lib) v = Inr n" if "view s (payload_namespace p) (payload_key (l_prims lib) p) = Some v" for v
      using wf_next_version [OF assms(3,6) that] by blast
  qed (use assms(6,7) in \<open>simp_all add: writable_def\<close>)
  obtain s1 where s1: "writer_write (l_prims lib) st (l_fuel lib) p None s = (Ok (), s1)"
    "view s1 = write_spec (l_prims lib) ?fw p None (view s)" using w by blast
  obtain s2 where s2: "writer_write (l_prims lib) st (l_fuel lib) p (Some (make_episode_meta e)) s = (Ok (), s2)"
    "view s2 = write_spec (l_prims lib) ?fw p (Some (make_episode_meta e)) (view s)" using w by blast
  have "ingest_json sv e s = (Ok (), s2)" using assms(8-11) s2(1) by (simp add: ingest_json_def)
  then show ?thesis using tool_write_returns [OF assms(4,5) s1(1)] s1(2) s2(2) write_spec_meta by auto
qed

subsection \<open>Declaring supersession through the tool\<close>

lemma natural_key_valid:
  assumes "payload_ok p"
  shows "validate_natural_key (natural_key p)"
proof -
  have "payload_type (p_class p) \<noteq> []" by (cases "p_class p") simp_all
  then show ?thesis
    using assms split_natural_key [OF assms] by (auto simp: validate_natural_key_def payload_ok_def full_class_def)
qed

lemma mark_absent:
  assumes "lawful_store st view rank window" and "store_total st" and "payload_ok p"
    and "view s (payload_namespace p) (payload_key pr p) = None"
  shows "\<exists>s'. mark_predecessor pr st succ (natural_key p) s = (Ok (), s') \<and> view s' = view s \<and> rank s' = rank s"
proof -
  obtain r s' where g: "st_get st (payload_namespace p) (payload_key pr p) s = (Ok r, s')"
    using store_totalD(1) [OF assms(2)] by blast
  with lawful_store.get_returns [OF assms(1) g] assms(4)
  have "r = None" "view s' = view s" "rank s' = rank s" by simp_all
  then show ?thesis using g split_natural_key [OF assms(3)]
    by (simp add: mark_predecessor_def payload_namespace_def payload_key_def comp_simps)
qed

text \<open>
  A declaration through the supersede tool against a memory that is not written yet is answered
  as a success and leaves no trace: when the memory is written afterwards, its record is not marked
  as superseded.
\<close>

theorem supersede_of_unwritten_is_lost:
  assumes "lawful_store st view rank window" and "store_total st" and "writable p" and "p_supersedes p = []"
    and "view s (payload_namespace p) (payload_key pr p) = None"
    and "\<forall>it \<in> set (rank s (payload_namespace p) None []). i_value it ''supersedes'' = None"
    and "length (rank s (payload_namespace p) None []) < FORWARD_PAGE * fuel"
    and "validate_natural_key succ" and "succ \<noteq> natural_key p"
  shows "\<exists>s1 s2 v. memory_supersede pr st succ [natural_key p] s = (Ok (tool_ok (marked_msg 1 succ)), s1) \<and>
    view s1 = view s \<and> writer_write pr st fuel p meta s1 = (Ok (), s2) \<and>
    view s2 (payload_namespace p) (payload_key pr p) = Some v \<and> v ''superseded_by'' = None"
proof -
  have p: "payload_ok p" "registered (payload_type (p_class p))" "full_class ns_char (p_project p)"
    using assms(3) by (simp_all add: writable_def)
  obtain s1 where m: "mark_predecessor pr st succ (natural_key p) s = (Ok (), s1)" and s1: "view s1 = view s" "rank s1 = rank s"
    using mark_absent [OF assms(1,2) p(1) assms(5)] by blast
  have "memory_supersede pr st succ [natural_key p] s = (Ok (tool_ok (marked_msg 1 succ)), s1)"
    using m assms(8,9) natural_key_valid [OF p(1)]
    by (simp add: memory_supersede_def check_supersede_def apply_supersessions_def tool_safe_def comp_simps)
  moreover have "\<exists>s2. writer_write pr st fuel p meta s1 = (Ok (), s2) \<and>
      view s2 = write_spec pr (forward_of (natural_key p) (rank s1 (payload_namespace p) None [])) p meta (view s1)"
    by (rule lawful_store.write_completes [OF assms(1,2) p]) (use assms(5,7) s1 in simp_all)
  then obtain s2 where "writer_write pr st fuel p meta s1 = (Ok (), s2)" and "view s2 = write_spec pr JNull p meta (view s)"
    using forward_of_none [OF assms(6)] s1 by auto
  moreover from this(2) have "view s2 (payload_namespace p) (payload_key pr p)
      = Some (stored_value pr p (content_hash pr p) (JInt 1) meta)"
    using assms(4,5) by (simp add: write_spec_def marks_spec_def upsert_spec_def Let_def set_mark_def)
  ultimately show ?thesis using s1 by (metis stored_value_fields(7))
qed

subsection \<open>Publishing through the tool\<close>

lemma ingest_failure_kinds:
  assumes "ingest sv e s = (Exn ex, s')"
  shows "(\<exists>r d. ex = PoisonEpisodeError r d) \<or> (\<exists>m. ex = TransientIngestError m)"
proof -
  from assms obtain cause where "ex = classify_failure cause"
    by (auto simp: ingest_def catch_def throw_def split: prod.splits res.splits)
  then show ?thesis by (cases cause) (auto simp: classify_failure_def)
qed

text \<open>
  Publishing through the tool is the relay's ingestion: within the limits of the bus the store
  ends as \<open>ingest\<close> leaves it, poison comes back as a client error and a transient failure as an
  infrastructure error; outside them nothing is stored; and the tool, which has no envelope around
  it, never raises.
\<close>

theorem publish_is_ingestion:
  "(\<forall>ex. fst (memory_publish_envelope lib sv j s) \<noteq> Exn ex) \<and>
   (case l_envelope lib j of
      Inl m \<Rightarrow> snd (memory_publish_envelope lib sv j s) = s
    | Inr e \<Rightarrow>
        if bus_limits lib e \<noteq> None then snd (memory_publish_envelope lib sv j s) = s
        else snd (memory_publish_envelope lib sv j s) = snd (ingest sv e s) \<and>
          (\<forall>r. fst (memory_publish_envelope lib sv j s) = Ok r \<longrightarrow>
             (is_error r \<longleftrightarrow> fst (ingest sv e s) \<noteq> Ok ()) \<and>
             (error_type r = Some ''client'' \<longleftrightarrow> (\<exists>reason d. fst (ingest sv e s) = Exn (PoisonEpisodeError reason d)))))"
proof (cases "l_envelope lib j")
  case (Inr e)
  show ?thesis
  proof (cases "bus_limits lib e")
    case None
    obtain q t where i: "ingest sv e s = (q, t)" by fastforce
    show ?thesis
    proof (cases q)
      case (Exn ex)
      have "(\<exists>r d. ex = PoisonEpisodeError r d) \<or> (\<exists>m. ex = TransientIngestError m)"
        using ingest_failure_kinds [of sv e s ex t] i Exn by simp
      then show ?thesis using Inr None i Exn
        by (auto simp: memory_publish_envelope_def comp_simps client_error_def infrastructure_def)
    qed (use Inr None i in \<open>simp_all add: memory_publish_envelope_def catch_def bind_def ret_def tool_ok_def\<close>)
  qed (use Inr in \<open>simp add: memory_publish_envelope_def ret_def\<close>)
qed (simp add: memory_publish_envelope_def ret_def)

subsection \<open>What each server offers\<close>

text \<open>The tools of a sandbox server: no supersede, no publish, every tool bound to its projects.\<close>

fun bound_to :: "string set option \<Rightarrow> tool \<Rightarrow> bool" where
  "bound_to allowed (ProjectsResource a) = (a = allowed)"
| "bound_to allowed (MemorySearch a) = (a = allowed)"
| "bound_to allowed (MemorySearchItems a) = (a = allowed)"
| "bound_to allowed MemorySupersede = False"
| "bound_to allowed (MemoryWritePayload sandbox a) = (sandbox \<and> a = allowed)"
| "bound_to allowed MemoryPublishEnvelope = False"

lemma serve_doors_ok:
  "\<exists>served. serve_doors ds = Inr served \<and> map snd served = map (\<lambda>d. int (d_port d)) ds \<and>
     list_all2 (\<lambda>d sv. list_all (bound_to (Some (d_projects d))) (fst sv)) ds served"
  by (induction ds) (auto simp: register_all_def register_search_def register_write_def)

text \<open>
  A configuration the service starts with never opens a door wider than intended: the servers
  beside the main one are either one narrow door or, one per entry of the doors setting, a door on
  its own port whose every tool is bound to its own projects; none of them offers supersession or
  publishing, and their ports and projects are disjoint.
\<close>

theorem servers_are_narrow:
  assumes "build_servers st = Inr (main, served)"
  shows "(\<forall>(tools, port) \<in> set served. \<exists>allowed. list_all (bound_to allowed) tools) \<and>
    (strip (mcp_sandbox_doors st) \<noteq> [] \<longrightarrow>
      (\<exists>ds. parse_sandbox_doors (mcp_sandbox_doors st) (mcp_port st) = Inr ds \<and> doors_ok (mcp_port st) ds \<and>
        map snd served = map (\<lambda>d. int (d_port d)) ds \<and>
        list_all2 (\<lambda>d sv. list_all (bound_to (Some (d_projects d))) (fst sv)) ds served))"
proof -
  let ?port = "strip (mcp_sandbox_port st)"
  from assms obtain ds single doors where ds: "parse_sandbox_doors (mcp_sandbox_doors st) (mcp_port st) = Inr ds"
    and one: "ds = [] \<or> ?port = []" and single: "single_door ?port = Inr single"
    and doors: "serve_doors ds = Inr doors" and served: "served = single @ doors"
    by (auto simp: build_servers_def Let_def split: sum.splits if_splits)
  from serve_doors_ok [of ds] doors have ok: "map snd doors = map (\<lambda>d. int (d_port d)) ds"
    "list_all2 (\<lambda>d sv. list_all (bound_to (Some (d_projects d))) (fst sv)) ds doors" by auto
  have "\<exists>allowed. list_all (bound_to allowed) (fst sv)" if "sv \<in> set doors" for sv
    using ok(2) that by (metis list_all2_conv_all_nth in_set_conv_nth)
  moreover have "list_all (bound_to None) (fst sv)" if "sv \<in> set single" for sv
    using single that
    by (auto simp: single_door_def register_all_def register_search_def register_write_def split: if_splits option.splits)
  ultimately have all: "\<forall>(tools, port) \<in> set served. \<exists>allowed. list_all (bound_to allowed) tools"
    unfolding served by fastforce
  have "served = doors" if "strip (mcp_sandbox_doors st) \<noteq> []"
  proof -
    have "length ds \<noteq> 0" using parsed_doors_ok [OF ds] that by simp
    then have "?port = []" using one by auto
    then show ?thesis using single served by (simp add: single_door_def)
  qed
  with all ok ds parsed_doors_ok [OF ds] show ?thesis by blast
qed

subsection \<open>Witnesses\<close>

definition sample_lib :: tool_lib where
  "sample_lib =
     \<lparr>l_prims = sample_prims, l_pydantic = schema_init, l_tokenizer = char_tokenizer, l_tokens = (\<lambda>t. Inr (length t)), l_fuel = 1,
      l_json_error = (\<lambda>b. ''bad''), l_request_error = concat, l_payload_error = (\<lambda>m. Some (m, ''is required'')),
      l_envelope = (\<lambda>j. Inr sample_episode), l_envelope_error = (\<lambda>m. None), l_envelope_size = (\<lambda>e. length (e_body e))\<rparr>"

definition outcome_data :: "(string \<times> json) list" where
  "outcome_data =
     [(''payload_type'', JStr ''build_outcome''), (''project'', JStr ''proj_a''), (''identifier'', JStr ''B_1''),
      (''source_ref'', JStr ''build''), (''status'', JStr ''passed''), (''duration_seconds'', JInt 5)]"

definition sample_outcome :: payload where
  "sample_outcome =
     \<lparr>p_class = BuildOutcomePayload, p_project = ''proj_a'', p_identifier = ''B_1'', p_domain_tags = [],
      p_source_ref = ''build'', p_version = 1, p_supersedes = [],
      p_fields = [(''status'', JStr ''passed''), (''duration_seconds'', JInt 5), (''task_id'', JNull), (''lessons'', JNull),
        (''approach'', JNull)]\<rparr>"

lemma outcome_schema: "schema_init BuildOutcomePayload outcome_data = Inr sample_outcome"
proof (rule schema_initI)
  show "read_fields base_fields outcome_data =
      Inr [(''project'', JStr ''proj_a''), (''identifier'', JStr ''B_1''), (''domain_tags'', JList []),
        (''source_ref'', JStr ''build''), (''version'', JInt 1), (''supersedes'', JList [])]"
    by (simp add: base_fields_def outcome_data_def)
  show "read_fields (class_fields BuildOutcomePayload) outcome_data = Inr (p_fields sample_outcome)"
    by (simp add: build_outcome_fields_def outcome_data_def sample_outcome_def)
qed (simp_all add: sample_outcome_def strs_of_def str_of_def int_of_def model_validators_def role_attributed_def)

lemma outcome_init: "payload_init schema_init BuildOutcomePayload outcome_data = Inr sample_outcome"
proof (rule payload_initI)
  show "check_key ''project'' outcome_data = Inr ()" "check_key ''identifier'' outcome_data = Inr ()"
    by (simp_all add: outcome_data_def check_key_def validate_identifier_def full_class_def char_class_defs)
  show "supersedes_arg outcome_data = Inr outcome_data" by (simp add: outcome_data_def supersedes_arg_def)
qed (simp_all add: outcome_schema, simp add: sample_outcome_def)

lemma outcome_construct: "construct_payload schema_init BuildOutcomePayload (JObj outcome_data) = Inr sample_outcome"
proof -
  have "''self'' \<notin> fst ` set outcome_data" by (simp add: outcome_data_def)
  then show ?thesis by (simp add: construct_payload_def outcome_init)
qed

lemma outcome_payload: "tool_payload sample_lib outcome_data = Inr sample_outcome"
proof -
  have "dict_get outcome_data ''payload_type'' = Some (JStr ''build_outcome'')" by (simp add: outcome_data_def)
  then show ?thesis
    by (simp add: tool_payload_def resolve_type_def get_model_for_type_def PAYLOAD_REGISTRY_def sample_lib_def outcome_construct)
qed

lemma outcome_writable: "writable sample_outcome"
  by (simp add: writable_def payload_ok_def sample_outcome_def registered_code natural_key_def full_class_def char_class_defs)

lemma outcome_allowed: "''proj_a'' \<in> ps \<Longrightarrow> sandbox_check True (Some ps) sample_outcome = Inr ()"
  by (simp add: sandbox_check_ok sample_outcome_def RESERVED_PROJECTS_def lower_def lower_char_def char_class_defs)

lemma outcome_write:
  assumes "''proj_a'' \<in> ps"
  shows "\<exists>s' fw. memory_write_payload sample_lib (mem_api no_score) True (Some ps) outcome_data []
      = (Ok (tool_ok (natural_key sample_outcome)), s') \<and>
    mem_view s' = write_spec sample_prims fw sample_outcome None (mem_view []) \<and>
    mem_view s' (payload_namespace sample_outcome) \<noteq> mem_view [] (payload_namespace sample_outcome)"
proof -
  have "\<exists>s'. writer_write sample_prims (mem_api no_score) 1 sample_outcome None [] = (Ok (), s') \<and> mem_view s' =
      write_spec sample_prims (forward_of (natural_key sample_outcome)
        (mem_rank no_score [] (payload_namespace sample_outcome) None [])) sample_outcome None (mem_view [])"
    using outcome_writable
    by (intro mem.write_completes mem_api_store_total) (simp_all add: writable_def mem_view_def mem_rank_def FORWARD_PAGE_def)
  then obtain s' fw where s': "writer_write sample_prims (mem_api no_score) 1 sample_outcome None [] = (Ok (), s')"
    "mem_view s' = write_spec sample_prims fw sample_outcome None (mem_view [])" by blast
  have "mem_view s' (payload_namespace sample_outcome) (payload_key sample_prims sample_outcome) \<noteq> None"
    by (simp add: s'(2) write_spec_def marks_spec_at upsert_spec_def Let_def mem_view_def)
  moreover have "mem_view [] ns k = None" for ns k by (simp add: mem_view_def)
  ultimately have "mem_view s' (payload_namespace sample_outcome) \<noteq> mem_view [] (payload_namespace sample_outcome)" by metis
  moreover have "memory_write_payload sample_lib (mem_api no_score) True (Some ps) outcome_data []
      = (Ok (tool_ok (natural_key sample_outcome)), s')"
    by (rule tool_write_returns [OF outcome_payload outcome_allowed [OF assms]])
      (simp add: s'(1) [unfolded One_nat_def] sample_lib_def)
  ultimately show ?thesis using s'(2) by blast
qed

theorem sandbox_write_confined_witness:
  "\<exists>project. payload_namespace sample_outcome = [''fleet_memory'', project, ''build_outcome''] \<and>
     lower project \<notin> set RESERVED_PROJECTS \<and> project \<in> {''proj_a''}"
proof -
  obtain s' where s': "memory_write_payload sample_lib (mem_api no_score) True (Some {''proj_a''}) outcome_data []
      = (Ok (tool_ok (natural_key sample_outcome)), s')"
    "mem_view s' (payload_namespace sample_outcome) \<noteq> mem_view [] (payload_namespace sample_outcome)"
    using outcome_write [of "{''proj_a''}"] by blast
  then have "mem_view (snd (memory_write_payload sample_lib (mem_api no_score) True (Some {''proj_a''}) outcome_data []))
      (payload_namespace sample_outcome) \<noteq> mem_view [] (payload_namespace sample_outcome)" by simp
  from sandbox_write_confined [OF mem.lawful_store_axioms this] show ?thesis by simp
qed

definition outcome_episode :: episode where
  "outcome_episode = sample_episode\<lparr>e_content_format := ''json'', e_payload_type := Some ''build_outcome'',
     e_body := emit (JObj outcome_data)\<rparr>"

lemma outcome_episode_payload: "episode_payload sample_service outcome_episode = Inr sample_outcome"
proof -
  have "json_ok (JObj outcome_data)" by (simp add: outcome_data_def)
  then have "loads (e_body outcome_episode) = Some (JObj outcome_data)" by (simp add: outcome_episode_def loads_emit del: emit.simps json_ok.simps)
  moreover have "e_payload_type outcome_episode = Some ''build_outcome''" by (simp add: outcome_episode_def)
  ultimately show ?thesis
    by (simp add: episode_payload_def get_model_for_type_def PAYLOAD_REGISTRY_def sample_service_def outcome_construct)
qed

theorem tool_write_matches_relay_witness:
  "\<exists>s1 s2. memory_write_payload sample_lib (mem_api no_score) True (Some {''proj_a''}) outcome_data []
      = (Ok (tool_ok (natural_key sample_outcome)), s1) \<and>
    ingest_json sample_service outcome_episode [] = (Ok (), s2) \<and>
    (\<forall>ns k. same_but_meta (mem_view s1 ns k) (mem_view s2 ns k))"
  by (rule tool_write_matches_relay [OF mem.lawful_store_axioms mem_api_store_total _ outcome_payload outcome_allowed
      outcome_writable _ outcome_episode_payload])
    (simp_all add: sample_lib_def sample_service_def contents_wf_empty mem_rank_def FORWARD_PAGE_def)

theorem supersede_of_unwritten_is_lost_witness:
  "\<exists>s1 s2 v. memory_supersede sample_prims (mem_api no_score) ''adr:guardkit:ADR_9'' [natural_key sample_adr_1] []
      = (Ok (tool_ok (marked_msg 1 ''adr:guardkit:ADR_9'')), s1) \<and> mem_view s1 = mem_view [] \<and>
    writer_write sample_prims (mem_api no_score) 1 sample_adr_1 None s1 = (Ok (), s2) \<and>
    mem_view s2 (payload_namespace sample_adr_1) (payload_key sample_prims sample_adr_1) = Some v \<and> v ''superseded_by'' = None"
  by (rule supersede_of_unwritten_is_lost [OF mem.lawful_store_axioms mem_api_store_total sample_adr_1_writable])
    (simp_all add: mem_view_def mem_rank_def FORWARD_PAGE_def validate_natural_key_def sample_adr_1_def sample_adr_def
      natural_key_def make_key_def)

definition sample_context :: "mem_store server_context" where
  "sample_context = \<lparr>c_store = Some (mem_api no_score), c_writer = Some (mem_api no_score), c_settings = Some (8, 2)\<rparr>"

definition foreign_search :: search_args where
  "foreign_search = \<lparr>a_project = ''proj_b'', a_query = Some ''q'', a_payload_types = None, a_domain_tags = None,
     a_token_budget = None, a_include_superseded = False, a_require_substantive = False\<rparr>"

theorem door_search_isolated_witness:
  "memory_search_items sample_lib (Some sample_context) (Some {''proj_a''}) foreign_search []
     = (Ok (client_error (sanitize_message DOOR_PROJECT_REFUSAL)), [])"
proof -
  have "c_store sample_context = Some (mem_api no_score)" "a_project foreign_search \<notin> {''proj_a''}"
    by (simp_all add: sample_context_def foreign_search_def)
  then show ?thesis using door_search_isolated [OF mem.lawful_store_axioms, of sample_context no_score] by blast
qed

definition doors_settings :: mcp_settings where
  "doors_settings = \<lparr>mcp_port = 8005, mcp_sandbox_port = [], mcp_sandbox_doors = two_doors, mcp_allowed_hosts = []\<rparr>"

lemma doors_settings_start: "\<exists>main served. build_servers doors_settings = Inr (main, served)"
proof -
  obtain served where "serve_doors [\<lparr>d_port = 8006, d_projects = {''proj_a'', ''proj_b''}\<rparr>,
      \<lparr>d_port = 8007, d_projects = {''proj_c''}\<rparr>] = Inr served" using serve_doors_ok by blast
  then show ?thesis
    by (simp add: build_servers_def doors_settings_def two_doors_parsed single_door_def strip_id register_all_def)
qed

theorem servers_are_narrow_witness:
  "\<exists>main served ds. build_servers doors_settings = Inr (main, served) \<and> doors_ok 8005 ds \<and>
     map snd served = map (\<lambda>d. int (d_port d)) ds"
proof -
  obtain main served where b: "build_servers doors_settings = Inr (main, served)" using doors_settings_start by blast
  have "strip (mcp_sandbox_doors doors_settings) \<noteq> []"
    by (simp add: doors_settings_def two_doors_def strip_id char_class_defs)
  moreover have "mcp_port doors_settings = 8005" by (simp add: doors_settings_def)
  ultimately show ?thesis using servers_are_narrow [OF b] b by auto
qed

theorem publish_is_ingestion_witness:
  "snd (memory_publish_envelope sample_lib sample_service JNull []) = snd (ingest sample_service sample_episode [])"
proof -
  have "l_envelope sample_lib JNull = Inr sample_episode" by (simp add: sample_lib_def)
  moreover have "bus_limits sample_lib sample_episode = None"
    by (simp add: bus_limits_def sample_lib_def sample_episode_def MAX_ENVELOPE_BYTES_def subject_token_def char_class_defs)
  ultimately show ?thesis using publish_is_ingestion [of sample_lib sample_service JNull "[]"] by simp
qed

end
