(* ===== verification/Json_Text.thy ===== *)
theory Json_Text
  imports Json
begin

text \<open>
  The layouts of \<open>json.dumps\<close> that put white space between the tokens, and what \<open>json.loads\<close>
  makes of them. \<open>is_text v t\<close> says that \<open>t\<close> is a text of the value \<open>v\<close>, whatever
  white space stands between its tokens; every such text is read back as \<open>v\<close>.
\<close>

subsection \<open>Layouts\<close>

text \<open>
  \<open>ensure_ascii=False\<close>: only quotes, backslashes and control characters are escaped.
\<close>

definition esc_plain :: "char \<Rightarrow> string" where
  "esc_plain c = (if (of_char c :: nat) < 32 \<or> c = CHR 0x22 \<or> c = CHR 0x5C then esc_char c else [c])"

definition quote_plain :: "string \<Rightarrow> string" where
  "quote_plain s = [CHR 0x22] @ concat (map esc_plain s) @ [CHR 0x22]"

text \<open>The arguments \<open>indent\<close> and \<open>ensure_ascii\<close>; the separators are the default ones of \<open>indent\<close>.\<close>

record layout =
  l_indent :: "nat option"
  l_ascii :: bool

abbreviation spaced :: layout where "spaced \<equiv> \<lparr>l_indent = None, l_ascii = True\<rparr>"
abbreviation indented :: layout where "indented \<equiv> \<lparr>l_indent = Some 2, l_ascii = True\<rparr>"

definition write_str :: "layout \<Rightarrow> string \<Rightarrow> string" where
  "write_str lay s = (if l_ascii lay then quote s else quote_plain s)"

definition newline_at :: "layout \<Rightarrow> nat \<Rightarrow> string" where
  "newline_at lay level =
     (case l_indent lay of None \<Rightarrow> [] | Some n \<Rightarrow> CHR 0x0A # replicate (n * level) (CHR '' ''))"

definition after_comma :: "layout \<Rightarrow> nat \<Rightarrow> string" where
  "after_comma lay level = (case l_indent lay of None \<Rightarrow> '' '' | Some n \<Rightarrow> newline_at lay level)"

fun emit_at :: "layout \<Rightarrow> nat \<Rightarrow> json \<Rightarrow> string" where
  "emit_at lay level (JStr s) = write_str lay s"
| "emit_at lay level (JList xs) =
     (if xs = [] then ''[]''
      else ''['' @ newline_at lay (Suc level) @ join ('','' @ after_comma lay (Suc level)) (map (emit_at lay (Suc level)) xs)
           @ newline_at lay level @ '']'')"
| "emit_at lay level (JObj kvs) =
     (if kvs = [] then ''{}''
      else ''{'' @ newline_at lay (Suc level)
           @ join ('','' @ after_comma lay (Suc level))
               (map (\<lambda>(k, v). write_str lay k @ '': '' @ emit_at lay (Suc level) v) kvs)
           @ newline_at lay level @ ''}'')"
| "emit_at lay level v = emit v"

definition json_text :: "layout \<Rightarrow> json \<Rightarrow> string" where
  "json_text lay v = emit_at lay 0 v"

subsection \<open>Texts of a value\<close>

definition blank :: "string \<Rightarrow> bool" where
  "blank w \<longleftrightarrow> list_all is_ws w"

text \<open>A string literal: what follows its opening quote is read as the string, with nothing of the rest.\<close>

definition str_text :: "string \<Rightarrow> string \<Rightarrow> bool" where
  "str_text s t \<longleftrightarrow> (\<exists>b. t = CHR 0x22 # b \<and> (\<forall>rest. p_str (b @ rest) = Some (s, rest)))"

inductive is_text :: "json \<Rightarrow> string \<Rightarrow> bool"
  and elems_text :: "json list \<Rightarrow> string \<Rightarrow> bool"
  and members_text :: "(string \<times> json) list \<Rightarrow> string \<Rightarrow> bool" where
  null: "is_text JNull ''null''"
| bool: "is_text (JBool b) (emit (JBool b))"
| int: "is_text (JInt i) (show_int i)"
| str: "str_text s q \<Longrightarrow> is_text (JStr s) q"
| no_elems: "blank w \<Longrightarrow> is_text (JList []) (CHR ''['' # w @ '']'')"
| elems: "blank w \<Longrightarrow> elems_text xs t \<Longrightarrow> is_text (JList xs) (CHR ''['' # w @ t)"
| no_members: "blank w \<Longrightarrow> is_text (JObj []) (CHR ''{'' # w @ ''}'')"
| members: "blank w \<Longrightarrow> members_text kvs t \<Longrightarrow> distinct (map fst kvs) \<Longrightarrow> is_text (JObj kvs) (CHR ''{'' # w @ t)"
| last_elem: "is_text x t \<Longrightarrow> blank w \<Longrightarrow> elems_text [x] (t @ w @ '']'')"
| elem: "is_text x t \<Longrightarrow> blank w \<Longrightarrow> blank w' \<Longrightarrow> elems_text xs u \<Longrightarrow>
    elems_text (x # xs) (t @ w @ CHR '','' # w' @ u)"
| last_member: "str_text k q \<Longrightarrow> is_text v t \<Longrightarrow> blank w \<Longrightarrow> blank w' \<Longrightarrow> blank w'' \<Longrightarrow>
    members_text [(k, v)] (q @ w @ CHR '':'' # w' @ t @ w'' @ ''}'')"
| member: "str_text k q \<Longrightarrow> is_text v t \<Longrightarrow> blank w \<Longrightarrow> blank w' \<Longrightarrow> blank w'' \<Longrightarrow> blank z \<Longrightarrow> members_text kvs u \<Longrightarrow>
    members_text ((k, v) # kvs) (q @ w @ CHR '':'' # w' @ t @ w'' @ CHR '','' # z @ u)"

lemma skip_ws_blank: "blank w \<Longrightarrow> skip_ws (w @ s) = skip_ws s"
  unfolding skip_ws_def blank_def by (induction w) auto

lemma ends_value_blank: "blank w \<Longrightarrow> ends_value r \<Longrightarrow> ends_value (w @ r)"
  by (cases w) (auto simp: blank_def ends_value_def)

lemma starts_value_text:
  "is_text v t \<Longrightarrow> starts_value t"
  "elems_text xs t \<Longrightarrow> starts_value t"
  "members_text kvs t \<Longrightarrow> starts_value t"
proof (induction rule: is_text_elems_text_members_text.inducts)
  case (bool b)
  then show ?case using starts_value_emit [of "JBool b"] by simp
next
  case (int i)
  then show ?case using starts_value_emit [of "JInt i"] by simp
qed (auto simp: starts_value_def is_ws_def str_text_def)

lemma skip_ws_text:
  "is_text v t \<Longrightarrow> skip_ws (t @ r) = t @ r"
  "elems_text xs t \<Longrightarrow> skip_ws (t @ r) = t @ r"
  "members_text kvs t \<Longrightarrow> skip_ws (t @ r) = t @ r"
  by (simp_all add: skip_ws_starts starts_value_append starts_value_text)

text \<open>The parser reads every text of a value, with the length of the text as fuel.\<close>

lemma p_val_text:
  "is_text v t \<Longrightarrow> (\<And>r n. ends_value r \<Longrightarrow> length t \<le> n \<Longrightarrow> p_val n (t @ r) = Some (v, r))"
  "elems_text xs t \<Longrightarrow> (\<And>r n. length t \<le> n \<Longrightarrow> p_elems n (t @ r) = Some (xs, r))"
  "members_text kvs t \<Longrightarrow> (\<And>r n. length t \<le> n \<Longrightarrow> p_members n (t @ r) = Some (kvs, r))"
proof (induction rule: is_text_elems_text_members_text.inducts)
  case null
  then show ?case using p_val_emit [of JNull r n] by simp
next
  case (bool b)
  then show ?case using p_val_emit [of "JBool b" r n] by simp
next
  case (int i)
  then show ?case using p_val_emit [of "JInt i" r n] by simp
next
  case (str s q)
  then obtain b where q: "q = CHR 0x22 # b" "p_str (b @ r) = Some (s, r)" by (auto simp: str_text_def)
  with str obtain m where "n = Suc m" by (cases n) auto
  with q show ?case by (simp add: p_scalar_def)
next
  case (no_elems w)
  then obtain m where "n = Suc m" by (cases n) auto
  with no_elems show ?case by (simp add: skip_ws_blank)
next
  case (elems w xs t)
  then obtain m where n: "n = Suc m" "length t \<le> m" by (cases n) auto
  obtain c u where cu: "t @ r = c # u" "c \<noteq> CHR '']''"
    using starts_value_text(2) [OF elems.hyps(2)] by (cases t) (auto simp: starts_value_def)
  have "skip_ws (c # u) = c # u" using skip_ws_text(2) [OF elems.hyps(2), of r] cu(1) by simp
  with elems.IH [OF n(2), of r] cu n(1) elems.hyps show ?case by (simp add: skip_ws_blank)
next
  case (no_members w)
  then obtain m where "n = Suc m" by (cases n) auto
  with no_members show ?case by (simp add: skip_ws_blank)
next
  case (members w kvs t)
  then obtain m where n: "n = Suc m" "length t \<le> m" by (cases n) auto
  obtain c u where cu: "t @ r = c # u" "c \<noteq> CHR ''}''"
    using starts_value_text(3) [OF members.hyps(2)] by (cases t) (auto simp: starts_value_def)
  have "skip_ws (c # u) = c # u" using skip_ws_text(3) [OF members.hyps(2), of r] cu(1) by simp
  with members.IH [OF n(2), of r] cu n(1) members.hyps show ?case by (simp add: skip_ws_blank fold_dict_set_id)
next
  case (last_elem x t w)
  then obtain m where n: "n = Suc m" "length t \<le> m" by (cases n) auto
  with last_elem show ?case by (simp add: ends_value_blank skip_ws_blank)
next
  case (elem x t w w' xs u)
  then obtain m where n: "n = Suc m" "length t \<le> m" "length u \<le> m" by (cases n) auto
  with elem show ?case by (simp add: ends_value_blank skip_ws_blank skip_ws_text(2) [OF elem.hyps(4)])
next
  case (last_member k q v t w w' w'')
  then obtain b where q: "q = CHR 0x22 # b" "\<And>rest. p_str (b @ rest) = Some (k, rest)" by (auto simp: str_text_def)
  with last_member obtain m where n: "n = Suc m" "length t \<le> m" by (cases n) auto
  with last_member q show ?case
    by (simp add: ends_value_blank skip_ws_blank skip_ws_text(1) [OF last_member.hyps(2)])
next
  case (member k q v t w w' w'' z kvs u)
  then obtain b where q: "q = CHR 0x22 # b" "\<And>rest. p_str (b @ rest) = Some (k, rest)" by (auto simp: str_text_def)
  with member obtain m where n: "n = Suc m" "length t \<le> m" "length u \<le> m" by (cases n) auto
  with member q show ?case
    by (simp add: ends_value_blank skip_ws_blank skip_ws_text(1) [OF member.hyps(2)] skip_ws_text(3) [OF member.hyps(7)])
qed

theorem loads_text:
  assumes "is_text v t" and "blank w" and "blank w'"
  shows "loads (w @ t @ w') = Some v"
proof -
  have "p_val (Suc (length (w @ t @ w'))) (t @ w') = Some (v, w')"
    using p_val_text(1) [OF assms(1), of w'] ends_value_blank [OF assms(3), of "[]"] by (simp del: p_val.simps)
  with assms show ?thesis
    using skip_ws_blank [OF assms(3), of "[]"] by (simp add: loads_def skip_ws_blank skip_ws_text(1) del: p_val.simps)
       (simp add: skip_ws_def)
qed

subsection \<open>Every layout is a text of its value\<close>

lemma blank_layout [simp]: "blank (newline_at lay level)" "blank (after_comma lay level)" "blank '' ''" "blank []"
  by (cases "l_indent lay"; auto simp: blank_def is_ws_def list_all_iff newline_at_def after_comma_def)+

lemma p_str_esc_plain: "p_str (esc_plain c @ t) = push_char c (p_str t)"
  by (simp add: esc_plain_def p_str_esc_char)

lemma p_str_plain: "p_str (concat (map esc_plain s) @ CHR 0x22 # rest) = Some (s, rest)"
  by (induction s) (simp_all add: p_str_esc_plain push_char_def)

lemma str_text_written: "str_text s (write_str lay s)"
  by (simp add: str_text_def write_str_def quote_def quote_plain_def p_str_escaped p_str_plain)

lemma elems_text_join:
  assumes "xs \<noteq> []" and "\<And>x. x \<in> set xs \<Longrightarrow> is_text x (f x)" and "blank w" and "blank w'"
  shows "elems_text xs (join (CHR '','' # w) (map f xs) @ w' @ '']'')"
  using assms
proof (induction xs)
  case (Cons x xs)
  show ?case
  proof (cases "xs = []")
    case True
    with Cons.prems show ?thesis by (simp add: last_elem)
  next
    case False
    with Cons have "elems_text xs (join (CHR '','' # w) (map f xs) @ w' @ '']'')" by simp
    from elem [OF Cons.prems(2) [of x], of "[]" w, OF _ _ Cons.prems(3) this] False show ?thesis by (simp add: join_Cons)
  qed
qed simp

lemma members_text_join:
  assumes "kvs \<noteq> []" and "\<And>k v. (k, v) \<in> set kvs \<Longrightarrow> is_text v (f v)" and "blank w" and "blank w'"
  shows "members_text kvs (join (CHR '','' # w) (map (\<lambda>(k, v). write_str lay k @ '': '' @ f v) kvs) @ w' @ ''}'')"
  using assms
proof (induction kvs)
  case (Cons kv kvs)
  obtain k v where kv: "kv = (k, v)" by (cases kv)
  with Cons.prems(2) [of k v] have v: "is_text v (f v)" by simp
  show ?case
  proof (cases "kvs = []")
    case True
    with last_member [OF str_text_written v, of "[]" "'' ''" w' k lay] Cons.prems kv show ?thesis by simp
  next
    case False
    with Cons have "members_text kvs (join (CHR '','' # w) (map (\<lambda>(k, v). write_str lay k @ '': '' @ f v) kvs) @ w' @ ''}'')" by auto
    from member [OF str_text_written v, of "[]" "'' ''" "[]" w, OF _ _ _ Cons.prems(3) this, of k lay] False kv show ?thesis by (simp add: join_Cons)
  qed
qed simp

lemma emit_at_text: "json_ok v \<Longrightarrow> is_text v (emit_at lay level v)"
proof (induction lay level v rule: emit_at.induct)
  case (2 lay level xs)
  then have "elems_text xs (join (CHR '','' # after_comma lay (Suc level)) (map (emit_at lay (Suc level)) xs)
      @ newline_at lay level @ '']'')" if "xs \<noteq> []"
    using that by (intro elems_text_join) (auto simp: list_all_iff)
  then show ?case using elems [OF blank_layout(1)] no_elems [of "[]"] by auto
next
  case (3 lay level kvs)
  then have "members_text kvs (join (CHR '','' # after_comma lay (Suc level))
      (map (\<lambda>(k, v). write_str lay k @ '': '' @ emit_at lay (Suc level) v) kvs) @ newline_at lay level @ ''}'')" if "kvs \<noteq> []"
    using that by (intro members_text_join) (auto simp: list_all_iff)
  then show ?case using members [OF blank_layout(1)] no_members [of "[]"] 3(2) by auto
qed (use null bool int str str_text_written in auto)

text \<open>Reading a written value back, in every layout and with a line end after it.\<close>

theorem loads_json_text: "json_ok v \<Longrightarrow> blank w \<Longrightarrow> loads (json_text lay v @ w) = Some v"
  using loads_text [OF emit_at_text, of v "[]" w] by (simp add: json_text_def)

end
