(* ===== verification/Reindex.thy ===== *)
theory Reindex
  imports Corpus Mcp Json_Text
begin

text \<open>
  The re-index run: the pipeline from walked documents to published episodes (\<open>reindex/pipeline.py\<close>),
  the JetStream publisher (\<open>reindex/publisher.py\<close>), reviewed backfill (\<open>reindex/backfill.py\<close>), the
  dead-letter reader (\<open>reindex/dlq_client.py\<close>), the audit (\<open>reindex/audit.py\<close>) and the runs of the
  command line (\<open>reindex/__main__.py\<close>). The stream is an argument; a message is its subject, the JSON
  object of its data and its message id.
\<close>

subsection \<open>The publisher\<close>

definition MAX_EPISODE_BODY_BYTES :: nat where "MAX_EPISODE_BODY_BYTES = 921600"

definition derive_episode_id :: "prims \<Rightarrow> string \<Rightarrow> string" where
  "derive_episode_id pr nk = ''ep-'' @ take 16 (sha256_hex pr nk)"

definition episode_subject :: "string \<Rightarrow> string \<Rightarrow> string" where
  "episode_subject project ptype = ''memory.episode.'' @ project @ ''.'' @ ptype"

definition envelope_body :: "payload \<Rightarrow> string" where
  "envelope_body p = dumps (JObj (model_dump p))"

definition build_envelope :: "prims \<Rightarrow> payload \<Rightarrow> (string \<times> json) list" where
  "build_envelope pr p =
     [(''episode_id'', JStr (derive_episode_id pr (natural_key p))), (''project_id'', JStr (p_project p)),
      (''episode_type'', JStr (payload_type (p_class p))), (''content_format'', JStr ''json''),
      (''body'', JStr (envelope_body p)), (''payload_type'', JStr (payload_type (p_class p))),
      (''source_ref'', JStr (p_source_ref p))]"

text \<open>\<open>js.publish(subject, data, headers={"Nats-Msg-Id": id})\<close>\<close>

type_synonym 'w js_publish = "string \<Rightarrow> (string \<times> json) list \<Rightarrow> string \<Rightarrow> ('w, unit) comp"

record 'w reindex_publisher =
  rp_url :: string
  rp_js :: "'w js_publish option"

definition URL_UNSET :: string where
  "URL_UNSET = ''FLEET_MEMORY_PUBLISH_NATS_URL is unset: a publish run has nowhere to publish. ''
     @ ''Set it (or use --dry-run for a census without publishing).''"

definition make_publisher :: "string option \<Rightarrow> exn + 'w reindex_publisher" where
  "make_publisher publish_nats_url =
     (case publish_nats_url of
        None \<Rightarrow> Inl (ReindexPublishError URL_UNSET)
      | Some url \<Rightarrow>
          if url = [] then Inl (ReindexPublishError URL_UNSET)
          else Inr \<lparr>rp_url = url, rp_js = None\<rparr>)"

definition publisher_connect :: "(string \<Rightarrow> 'w js_publish) \<Rightarrow> 'w reindex_publisher \<Rightarrow> 'w reindex_publisher" where
  "publisher_connect nats p = p\<lparr>rp_js := Some (nats (rp_url p))\<rparr>"

definition publisher_close :: "'w reindex_publisher \<Rightarrow> 'w reindex_publisher" where
  "publisher_close p = p\<lparr>rp_js := None\<rparr>"

definition oversize_msg :: "nat \<Rightarrow> string" where
  "oversize_msg n =
     ''payload body '' @ show_nat n @ '' bytes exceeds MAX_EPISODE_BODY_BYTES ('' @ show_nat MAX_EPISODE_BODY_BYTES @ '')''"

definition publisher_publish :: "prims \<Rightarrow> 'w reindex_publisher \<Rightarrow> payload \<Rightarrow> ('w, string option) comp" where
  "publisher_publish pr rp p =
     (case rp_js rp of
        None \<Rightarrow> throw (ReindexPublishError ''ReindexPublisher.publish called before connect()'')
      | Some js \<Rightarrow>
          (let body_bytes = length (envelope_body p) in
           if MAX_EPISODE_BODY_BYTES \<le> body_bytes then ret (Some (oversize_msg body_bytes))
           else bind (js (episode_subject (p_project p) (payload_type (p_class p))) (build_envelope pr p)
                        (derive_episode_id pr (natural_key p))) (\<lambda>_. ret None)))"

text \<open>\<open>publish_episode\<close> over the module's active publisher.\<close>

definition publish_episode :: "prims \<Rightarrow> 'w reindex_publisher option \<Rightarrow> payload \<Rightarrow> ('w, unit) comp" where
  "publish_episode pr active p =
     (case active of
        None \<Rightarrow> throw (ReindexPublishError (''No active ReindexPublisher: publish runs must enter ''
               @ ''active_publisher(settings) before publishing episodes.''))
      | Some rp \<Rightarrow>
          bind (publisher_publish pr rp p) (\<lambda>skip_reason.
            case skip_reason of
              None \<Rightarrow> ret ()
            | Some r \<Rightarrow> throw (ReindexPublishError (''Refusing to publish '' @ natural_key p @ '': '' @ r))))"

subsection \<open>Reviewed backfill\<close>

definition marker_path :: "path \<Rightarrow> path" where
  "marker_path p = butlast p @ [last p @ ''.reviewed'']"

definition has_review_marker :: "filesystem \<Rightarrow> path \<Rightarrow> bool" where
  "has_review_marker fs p = f_exists fs (marker_path p)"

definition path_stem :: "path \<Rightarrow> string" where
  "path_stem p = (let name = (if p = [] then [] else last p) in take (length name - length (path_suffix p)) name)"

definition backfill_data :: "path \<Rightarrow> json \<Rightarrow> exn + (string \<times> json) list" where
  "backfill_data p v =
     (case v of
        JObj content \<Rightarrow>
          (if truthy (json_get content ''payload_type'') then Inr content
           else if prefix ''ADR_'' (path_stem p) then Inr (dict_set ''payload_type'' (JStr ''adr'') content)
           else Inl (ValueError (''Cannot infer payload_type for '' @ absolute_str p
                  @ '': no payload_type field and filename pattern not recognized'')))
      | _ \<Rightarrow> Inl (AttributeError ''object has no attribute get''))"

definition backfill_payload :: "(string \<Rightarrow> string) \<Rightarrow> pydantic \<Rightarrow> path \<Rightarrow> string \<Rightarrow> exn + payload" where
  "backfill_payload json_error pyd p raw =
     (case loads raw of
        None \<Rightarrow> Inl (JSONDecodeError (json_error raw))
      | Some v \<Rightarrow>
          (case backfill_data p v of
             Inl e \<Rightarrow> Inl e
           | Inr content \<Rightarrow>
               (case resolve_type (json_get content ''payload_type'') of
                  Inl e \<Rightarrow> Inl e
                | Inr c \<Rightarrow> construct_payload pyd c (JObj content))))"

definition process_backfill_payload ::
  "prims \<Rightarrow> filesystem \<Rightarrow> (string \<Rightarrow> string) \<Rightarrow> pydantic \<Rightarrow> 'w reindex_publisher option \<Rightarrow> path \<Rightarrow> ('w, unit) comp" where
  "process_backfill_payload pr fs json_error pyd active p =
     (if \<not> has_review_marker fs p then ret ()
      else case f_read fs p of
        None \<Rightarrow> throw (OtherError (''cannot read '' @ absolute_str p))
      | Some raw \<Rightarrow> bind (lift_res (backfill_payload json_error pyd p raw)) (publish_episode pr active))"

subsection \<open>The pipeline\<close>

record run_report =
  walked_count :: nat
  published_count :: nat
  skipped_count :: nat
  unparseable_count :: nat
  per_kind_counts :: "(string \<times> nat) list"
  published_natural_keys :: "string list"
  skipped :: "(string \<times> string) list"
  unparseable :: "(string \<times> string) list"

definition report_line :: "string \<times> string \<Rightarrow> json" where
  "report_line x = JObj [(''path'', JStr (fst x)), (''reason'', JStr (snd x))]"

definition to_json_dict :: "run_report \<Rightarrow> (string \<times> json) list" where
  "to_json_dict r =
     [(''walked_count'', JInt (int (walked_count r))), (''published_count'', JInt (int (published_count r))),
      (''skipped_count'', JInt (int (skipped_count r))), (''unparseable_count'', JInt (int (unparseable_count r))),
      (''per_kind_counts'', JObj (map (\<lambda>(k, n). (k, JInt (int n))) (per_kind_counts r))),
      (''published_natural_keys'', JList (map JStr (published_natural_keys r))),
      (''skipped'', JList (map report_line (skipped r))), (''unparseable'', JList (map report_line (unparseable r)))]"

text \<open>The report as it is printed, and the report file of a run.\<close>

definition report_printed :: "run_report \<Rightarrow> nat option \<Rightarrow> string list" where
  "report_printed r backfill_count =
     [[CHR 0x0A] @ ''=== Re-Index Run Report ==='', ''Walked: '' @ show_nat (walked_count r),
      ''Published: '' @ show_nat (published_count r)]
     @ (case backfill_count of None \<Rightarrow> [] | Some n \<Rightarrow> [''Backfill published: '' @ show_nat n])
     @ [''Skipped (named reasons): '' @ show_nat (skipped_count r), ''Unparseable: '' @ show_nat (unparseable_count r)]
     @ map (\<lambda>(kind, n). ''  '' @ kind @ '': '' @ show_nat n) (sort_key fst (per_kind_counts r))
     @ [''=== End Report ==='' @ [CHR 0x0A]]"

definition report_text :: "run_report \<Rightarrow> string" where
  "report_text r = json_text indented (JObj (to_json_dict r)) @ [CHR 0x0A]"

record candidate =
  ca_path :: string
  ca_title :: "string option"
  ca_payload :: payload
  ca_kind :: string

definition relative_path :: "filesystem \<Rightarrow> path \<Rightarrow> path \<Rightarrow> exn + string" where
  "relative_path fs p corpus_root =
     (case repo_relative_path fs p corpus_root of
        Inl (ValueError _) \<Rightarrow> Inr (absolute_str p)
      | r \<Rightarrow> r)"

text \<open>Collisions: the candidates by identifier, in the order their identifiers first appear.\<close>

definition group_by_identifier :: "candidate list \<Rightarrow> (string \<times> candidate list) list" where
  "group_by_identifier cs =
     fold (\<lambda>c d. let i = p_identifier (ca_payload c) in
              dict_set i ((case dict_get d i of None \<Rightarrow> [] | Some g \<Rightarrow> g) @ [c]) d) cs []"

definition path_depth :: "string \<Rightarrow> nat" where
  "path_depth s = length (path_parts s) + (if prefix ''/'' s then 1 else 0)"

definition depth_key :: "candidate \<Rightarrow> nat \<times> string" where
  "depth_key c = (path_depth (ca_path c), ca_path c)"

text \<open>\<open>max(group, key=...)\<close>: the position of the first greatest.\<close>

fun max_index :: "candidate \<Rightarrow> nat \<Rightarrow> nat \<Rightarrow> candidate list \<Rightarrow> nat" where
  "max_index best b i [] = b"
| "max_index best b i (c # cs) =
     (if depth_key best < depth_key c then max_index c i (Suc i) cs else max_index best b (Suc i) cs)"

definition distinct_msg :: "candidate list \<Rightarrow> string" where
  "distinct_msg cs = ''id collision across distinct tasks: '' @ repr_list (sort (map ca_path cs))"

definition shadowed_msg :: "candidate \<Rightarrow> string" where
  "shadowed_msg w = ''id collision (same task): shadowed by deeper path '' @ ca_path w"

fun settle_group :: "candidate list \<Rightarrow> candidate list \<times> (string \<times> string) list" where
  "settle_group [] = ([], [])"
| "settle_group (c # cs) =
     (if cs = [] then ([c], [])
      else if \<exists>d \<in> set cs. ca_title d \<noteq> ca_title c
      then ([], map (\<lambda>d. (ca_path d, distinct_msg (c # cs))) (c # cs))
      else
        (let i = max_index c 0 1 cs; w = (c # cs) ! i in
         ([w], map (\<lambda>d. (ca_path d, shadowed_msg w)) (take i (c # cs) @ drop (Suc i) (c # cs)))))"

definition resolve_collisions ::
  "candidate list \<Rightarrow> (string \<times> string) list \<Rightarrow> candidate list \<times> (string \<times> string) list" where
  "resolve_collisions cs skipped0 =
     (let settled = map (\<lambda>(i, g). settle_group g) (group_by_identifier cs) in
      (concat (map fst settled), skipped0 @ concat (map snd settled)))"

text \<open>Lessons already stored are carried forward.\<close>

definition stored_object :: "json \<Rightarrow> json option" where
  "stored_object content =
     (if \<not> truthy content then Some (JObj []) else case content of JStr s \<Rightarrow> loads s | _ \<Rightarrow> None)"

definition lessons_of :: "json \<Rightarrow> exn + json" where
  "lessons_of v = (case v of JObj kvs \<Rightarrow> Inr (json_get kvs ''lessons'') | _ \<Rightarrow> Inl (AttributeError ''object has no attribute get''))"

definition with_lessons :: "payload \<Rightarrow> json \<Rightarrow> payload" where
  "with_lessons p l = p\<lparr>p_fields := dict_set ''lessons'' l (p_fields p)\<rparr>"

definition merge_lessons :: "payload \<Rightarrow> stored option \<Rightarrow> exn + payload" where
  "merge_lessons p existing =
     (case existing of
        None \<Rightarrow> Inr p
      | Some v \<Rightarrow>
          (case stored_object (py_get v ''content'') of
             Some obj \<Rightarrow>
               (case lessons_of obj of
                  Inl e \<Rightarrow> Inl e
                | Inr l \<Rightarrow> if truthy l then Inr (with_lessons p l) else Inr p)
           | None \<Rightarrow> Inr p))"

definition preserve_existing_lessons :: "prims \<Rightarrow> 'w store_api \<Rightarrow> payload \<Rightarrow> ('w, payload) comp" where
  "preserve_existing_lessons pr st p =
     (if dict_get (p_fields p) ''lessons'' \<noteq> Some JNull then ret p
      else bind (st_get st (payload_namespace p) (payload_key pr p)) (\<lambda>existing. lift_res (merge_lessons p existing)))"

text \<open>The loop over the documents.\<close>

record scan_state =
  sc_skipped :: "(string \<times> string) list"
  sc_unparseable :: "(string \<times> string) list"
  sc_candidates :: "candidate list"

record corpus_lib =
  b_prims :: prims
  b_fs :: filesystem
  b_yaml :: yaml_loader
  b_yaml_error :: "string \<Rightarrow> string"
  b_pydantic :: pydantic
  b_json_error :: "string \<Rightarrow> string"

definition title_of :: "frontmatter option \<Rightarrow> string option" where
  "title_of front =
     (case front of
        None \<Rightarrow> None
      | Some fm \<Rightarrow> (case fm_get fm ''title'' of None \<Rightarrow> None | Some YNull \<Rightarrow> None | Some v \<Rightarrow> Some (str_yaml v)))"

definition scan_document ::
  "corpus_lib \<Rightarrow> corpus_manifest \<Rightarrow> path \<Rightarrow> corpus_document \<Rightarrow> scan_state \<Rightarrow> exn + scan_state" where
  "scan_document lib m corpus_root doc sc =
     (case relative_path (b_fs lib) (d_path doc) corpus_root of
        Inl e \<Rightarrow> Inl e
      | Inr rel \<Rightarrow>
          (case classify_document (b_fs lib) (b_yaml lib) doc m corpus_root of
             Inl e \<Rightarrow> Inl e
           | Inr c \<Rightarrow> Inr
               (case cl_skip_reason c of
                  Some reason \<Rightarrow> sc\<lparr>sc_skipped := sc_skipped sc @ [(rel, reason)]\<rparr>
                | None \<Rightarrow>
                    (case parse_completed_task (b_fs lib) (b_yaml lib) (b_yaml_error lib) (b_pydantic lib) doc corpus_root
                            (cl_frontmatter c) of
                       Inl e \<Rightarrow> sc\<lparr>sc_unparseable := sc_unparseable sc @ [(rel, ''Parser error: '' @ exn_str e)]\<rparr>
                     | Inr (UnparseableDocument reason _) \<Rightarrow> sc\<lparr>sc_unparseable := sc_unparseable sc @ [(rel, reason)]\<rparr>
                     | Inr (ParsedPayload p _) \<Rightarrow>
                         sc\<lparr>sc_candidates := sc_candidates sc @
                           [\<lparr>ca_path = rel, ca_title = title_of (cl_frontmatter c), ca_payload = p,
                             ca_kind = (case cl_kind c of None \<Rightarrow> ''build_outcome'' | Some k \<Rightarrow> if k = [] then ''build_outcome'' else k)\<rparr>]\<rparr>))))"

fun scan_documents ::
  "corpus_lib \<Rightarrow> corpus_manifest \<Rightarrow> path \<Rightarrow> corpus_document list \<Rightarrow> scan_state \<Rightarrow> exn + scan_state" where
  "scan_documents lib m corpus_root [] sc = Inr sc"
| "scan_documents lib m corpus_root (doc # docs) sc =
     (case scan_document lib m corpus_root doc sc of
        Inl e \<Rightarrow> Inl e
      | Inr sc' \<Rightarrow> scan_documents lib m corpus_root docs sc')"

text \<open>The loop over the winners.\<close>

record publish_state =
  ps_keys :: "string list"
  ps_kinds :: "(string \<times> nat) list"
  ps_skipped :: "(string \<times> string) list"

type_synonym 'w publisher_fn = "payload \<Rightarrow> ('w, string option) comp"

definition publish_one ::
  "prims \<Rightarrow> 'w publisher_fn option \<Rightarrow> 'w store_api option \<Rightarrow> candidate \<Rightarrow> ('w, payload \<times> string option) comp" where
  "publish_one pr publisher store c =
     bind (case store of None \<Rightarrow> ret (ca_payload c) | Some st \<Rightarrow> preserve_existing_lessons pr st (ca_payload c)) (\<lambda>p.
     bind (case publisher of None \<Rightarrow> ret None | Some f \<Rightarrow> f p) (\<lambda>skip_reason. ret (p, skip_reason)))"

definition count_published :: "candidate \<Rightarrow> payload \<times> string option \<Rightarrow> publish_state \<Rightarrow> publish_state" where
  "count_published c r ps =
     (case snd r of
        Some reason \<Rightarrow> ps\<lparr>ps_skipped := ps_skipped ps @ [(ca_path c, reason)]\<rparr>
      | None \<Rightarrow> ps\<lparr>ps_keys := ps_keys ps @ [natural_key (fst r)],
          ps_kinds := dict_set (ca_kind c) (Suc (case dict_get (ps_kinds ps) (ca_kind c) of None \<Rightarrow> 0 | Some n \<Rightarrow> n)) (ps_kinds ps)\<rparr>)"

fun publish_winners ::
  "prims \<Rightarrow> 'w publisher_fn option \<Rightarrow> 'w store_api option \<Rightarrow> candidate list \<Rightarrow> publish_state \<Rightarrow> ('w, publish_state) comp" where
  "publish_winners pr publisher store [] ps = ret ps"
| "publish_winners pr publisher store (c # cs) ps =
     bind (publish_one pr publisher store c) (\<lambda>r. publish_winners pr publisher store cs (count_published c r ps))"

definition make_report :: "nat \<Rightarrow> (string \<times> string) list \<Rightarrow> publish_state \<Rightarrow> run_report" where
  "make_report walked unparsed ps =
     \<lparr>walked_count = walked, published_count = length (ps_keys ps), skipped_count = length (ps_skipped ps),
      unparseable_count = length unparsed, per_kind_counts = ps_kinds ps, published_natural_keys = ps_keys ps,
      skipped = ps_skipped ps, unparseable = unparsed\<rparr>"

definition reindex_corpus ::
  "corpus_lib \<Rightarrow> path \<Rightarrow> corpus_manifest \<Rightarrow> 'w publisher_fn option \<Rightarrow> 'w store_api option \<Rightarrow> ('w, run_report) comp" where
  "reindex_corpus lib corpus_root m publisher store =
     bind (lift_res (walk_roots (b_fs lib) corpus_root (reindex_roots m))) (\<lambda>docs.
     bind (lift_res (scan_documents lib m corpus_root docs \<lparr>sc_skipped = [], sc_unparseable = [], sc_candidates = []\<rparr>)) (\<lambda>sc.
       let (winners, skipped1) = resolve_collisions (sc_candidates sc) (sc_skipped sc) in
       bind (publish_winners (b_prims lib) publisher store winners \<lparr>ps_keys = [], ps_kinds = [], ps_skipped = skipped1\<rparr>) (\<lambda>ps.
         ret (make_report (length docs) (sc_unparseable sc) ps))))"

subsection \<open>The dead-letter reader and the audit\<close>

definition parse_episode_id :: "string \<Rightarrow> string option" where
  "parse_episode_id data =
     (case loads data of
        Some (JObj body) \<Rightarrow> (let i = json_get body ''episode_id'' in if truthy i then Some (str_json i) else None)
      | _ \<Rightarrow> None)"

record dlq_client =
  dc_subject :: string
  dc_episode_ids :: "string set option"

definition make_dlq_client :: "string \<Rightarrow> string \<Rightarrow> dlq_client" where
  "make_dlq_client dlq_subj project = \<lparr>dc_subject = dlq_subj @ ''.'' @ project, dc_episode_ids = None\<rparr>"

definition dlq_ingest :: "string list \<Rightarrow> string set" where
  "dlq_ingest payloads = set (List.map_filter parse_episode_id payloads)"

text \<open>
  What one reading of a subject meets: connecting, subscribing, the messages, unsubscribing and closing.
  Each can raise (\<open>Some\<close> of what it raises), and the messages come until a read times out, which ends the
  reading, or raises something else. The two \<open>finally\<close> clauses unsubscribe and close in every case; what
  they raise replaces what was on its way.
\<close>

record dlq_stream =
  ds_connect :: "string \<Rightarrow> exn option"
  ds_subscribe :: "string \<Rightarrow> exn option"
  ds_messages :: "string \<Rightarrow> string list \<times> exn option"
  ds_unsubscribe :: "string \<Rightarrow> exn option"
  ds_close :: "string \<Rightarrow> exn option"

definition and_finally :: "exn + 'a \<Rightarrow> exn option \<Rightarrow> exn + 'a" where
  "and_finally r cleanup = (case cleanup of Some e \<Rightarrow> Inl e | None \<Rightarrow> r)"

definition read_subject :: "dlq_stream \<Rightarrow> string \<Rightarrow> exn + string list" where
  "read_subject ds subj =
     (case ds_connect ds subj of
        Some e \<Rightarrow> Inl e
      | None \<Rightarrow>
          and_finally
            (case ds_subscribe ds subj of
               Some e \<Rightarrow> Inl e
             | None \<Rightarrow>
                 and_finally
                   (case ds_messages ds subj of (bodies, None) \<Rightarrow> Inr bodies | (bodies, Some e) \<Rightarrow> Inl e)
                   (ds_unsubscribe ds subj))
            (ds_close ds subj))"

text \<open>
  \<open>load\<close> reads the whole subject once, and a client whose reading raised has no set;
  \<open>check_episode_on_dlq\<close> loads on first use and answers from the set.
\<close>

definition dlq_load :: "dlq_stream \<Rightarrow> (dlq_client, unit) comp" where
  "dlq_load ds c =
     (case read_subject ds (dc_subject c) of
        Inl e \<Rightarrow> (Exn e, c)
      | Inr payloads \<Rightarrow> (Ok (), c\<lparr>dc_episode_ids := Some (dlq_ingest payloads)\<rparr>))"

definition check_episode_on_dlq :: "dlq_stream \<Rightarrow> string \<Rightarrow> (dlq_client, bool) comp" where
  "check_episode_on_dlq ds episode_id =
     bind (\<lambda>c. if dc_episode_ids c = None then dlq_load ds c else (Ok (), c))
       (\<lambda>_ c. (Ok (episode_id \<in> the (dc_episode_ids c)), c))"

fun check_clients :: "dlq_stream \<Rightarrow> string \<Rightarrow> (dlq_client list, bool) comp" where
  "check_clients ds episode_id [] = (Ok False, [])"
| "check_clients ds episode_id (c # cs) =
     (case check_episode_on_dlq ds episode_id c of
        (Ok found, c') \<Rightarrow>
          if found then (Ok True, c' # cs)
          else (case check_clients ds episode_id cs of (r, cs') \<Rightarrow> (r, c' # cs'))
      | (Exn e, c') \<Rightarrow> (Exn e, c' # cs)
      | (Stuck, c') \<Rightarrow> (Stuck, c' # cs))"

record audit_result =
  total_published :: nat
  stored_count :: nat
  dlq_count :: nat
  unaccounted_episodes :: "string list"

definition unaccounted_count :: "audit_result \<Rightarrow> nat" where
  "unaccounted_count r = length (unaccounted_episodes r)"

definition is_100_percent_accounted :: "audit_result \<Rightarrow> bool" where
  "is_100_percent_accounted r \<longleftrightarrow> unaccounted_count r = 0"

definition namespace_for_key :: "string \<Rightarrow> namespace option" where
  "namespace_for_key nk =
     (case split_on CHR '':'' nk of [t, prj, ident] \<Rightarrow> Some [''fleet_memory'', prj, t] | _ \<Rightarrow> None)"

fun audit_keys ::
  "prims \<Rightarrow> 'w store_api \<Rightarrow> (string \<Rightarrow> ('w, bool) comp) \<Rightarrow> string list \<Rightarrow> audit_result \<Rightarrow> ('w, audit_result) comp" where
  "audit_keys pr st on_dlq [] r = ret r"
| "audit_keys pr st on_dlq (nk # nks) r =
     (case namespace_for_key nk of
        None \<Rightarrow> audit_keys pr st on_dlq nks (r\<lparr>unaccounted_episodes := unaccounted_episodes r @ [nk]\<rparr>)
      | Some ns \<Rightarrow>
          bind (st_get st ns (record_identity pr nk)) (\<lambda>rec.
            if rec \<noteq> None then audit_keys pr st on_dlq nks (r\<lparr>stored_count := Suc (stored_count r)\<rparr>)
            else bind (on_dlq (derive_episode_id pr nk)) (\<lambda>dead.
              if dead then audit_keys pr st on_dlq nks (r\<lparr>dlq_count := Suc (dlq_count r)\<rparr>)
              else audit_keys pr st on_dlq nks (r\<lparr>unaccounted_episodes := unaccounted_episodes r @ [nk]\<rparr>))))"

definition audit_published_episodes ::
  "prims \<Rightarrow> 'w store_api \<Rightarrow> (string \<Rightarrow> ('w, bool) comp) \<Rightarrow> string list \<Rightarrow> ('w, audit_result) comp" where
  "audit_published_episodes pr st on_dlq keys =
     audit_keys pr st on_dlq keys
       \<lparr>total_published = length keys, stored_count = 0, dlq_count = 0, unaccounted_episodes = []\<rparr>"

subsection \<open>The runs of the command line\<close>

record reindex_settings =
  rs_corpus_manifest :: "string option"
  rs_publish_nats_url :: "string option"
  rs_corpus_root :: path
  rs_backfill_dir :: path
  rs_dlq_subject :: string

definition unset :: "string option \<Rightarrow> bool" where
  "unset x \<longleftrightarrow> x = None \<or> x = Some []"

text \<open>The exit code of \<open>SystemExit\<close>, when a setting is missing.\<close>

definition fail_loud_prewalk :: "reindex_settings \<Rightarrow> bool \<Rightarrow> int option" where
  "fail_loud_prewalk rs need_publish_url =
     (if unset (rs_corpus_manifest rs) then Some 2
      else if need_publish_url \<and> unset (rs_publish_nats_url rs) then Some 2
      else None)"

text \<open>\<open>read_manifest\<close> reads the file and runs \<open>load_manifest\<close> on its text. A run ends with its exit code and the report it writes.\<close>

definition run_dry_run ::
  "corpus_lib \<Rightarrow> (string \<Rightarrow> exn + corpus_manifest) \<Rightarrow> reindex_settings \<Rightarrow> ('w, int \<times> run_report option) comp" where
  "run_dry_run lib read_manifest rs =
     (case fail_loud_prewalk rs False of
        Some code \<Rightarrow> ret (code, None)
      | None \<Rightarrow>
          bind (lift_res (read_manifest (the (rs_corpus_manifest rs)))) (\<lambda>m.
          bind (reindex_corpus lib (rs_corpus_root rs) m None None) (\<lambda>report. ret (0, Some report))))"

definition backfill_files :: "filesystem \<Rightarrow> path \<Rightarrow> path list" where
  "backfill_files fs dir =
     (if f_exists fs dir then sort (filter (\<lambda>p. p \<noteq> [] \<and> suffix ''.json'' (last p)) (f_rglob fs dir)) else [])"

fun run_backfill ::
  "corpus_lib \<Rightarrow> 'w reindex_publisher option \<Rightarrow> path list \<Rightarrow> nat \<Rightarrow> ('w, nat) comp" where
  "run_backfill lib active [] count = ret count"
| "run_backfill lib active (p # ps) count =
     bind (process_backfill_payload (b_prims lib) (b_fs lib) (b_json_error lib) (b_pydantic lib) active p) (\<lambda>_.
       run_backfill lib active ps (Suc count))"

text \<open>
  A publish run: the exit code, the report, and the number printed after \<open>Backfill published\<close>. Every
  exception inside the connections becomes exit code 1; the report is written whenever there is one.
\<close>

definition publish_corpus ::
  "corpus_lib \<Rightarrow> (string \<Rightarrow> 'w js_publish) \<Rightarrow> 'w store_api \<Rightarrow> reindex_settings \<Rightarrow> corpus_manifest \<Rightarrow>
   ('w, int \<times> run_report option \<times> nat) comp" where
  "publish_corpus lib nats st rs m =
     catch
       (bind (lift_res (make_publisher (rs_publish_nats_url rs))) (\<lambda>rp0.
          let rp = publisher_connect nats rp0 in
          bind (reindex_corpus lib (rs_corpus_root rs) m (Some (publisher_publish (b_prims lib) rp)) (Some st)) (\<lambda>report.
            catch (bind (run_backfill lib (Some rp) (backfill_files (b_fs lib) (rs_backfill_dir rs)) 0)
                     (\<lambda>n. ret (0, Some report, n)))
              (\<lambda>_. ret (1, Some report, 0)))))
       (\<lambda>_. ret (1, None, 0))"

definition run_publish ::
  "corpus_lib \<Rightarrow> (string \<Rightarrow> exn + corpus_manifest) \<Rightarrow> (string \<Rightarrow> 'w js_publish) \<Rightarrow> 'w store_api \<Rightarrow> reindex_settings \<Rightarrow>
   ('w, int \<times> run_report option \<times> nat) comp" where
  "run_publish lib read_manifest nats st rs =
     (case fail_loud_prewalk rs True of
        Some code \<Rightarrow> ret (code, None, 0)
      | None \<Rightarrow> bind (lift_res (read_manifest (the (rs_corpus_manifest rs)))) (publish_corpus lib nats st rs))"

text \<open>
  The audit run. The report is the text of the report file, \<open>None\<close> when there is no file, and
  \<open>json_error\<close> the decoder's message for a text that is no JSON. Its state beside the store is one
  dead-letter client per project of the report. The store is open; nothing is caught.
\<close>

definition report_keys :: "(string \<times> json) list \<Rightarrow> exn + string list" where
  "report_keys data =
     (case dict_get data ''published_natural_keys'' of
        None \<Rightarrow> Inr []
      | Some v \<Rightarrow>
          (case py_iter v of
             Inl e \<Rightarrow> Inl e
           | Inr xs \<Rightarrow>
               if list_all (\<lambda>x. case x of JStr s \<Rightarrow> True | _ \<Rightarrow> False) xs then Inr (map str_of xs)
               else Inl (AttributeError ''object has no attribute split'')))"

definition audit_projects :: "string list \<Rightarrow> string list" where
  "audit_projects keys =
     sort (remdups (map (\<lambda>k. split_on CHR '':'' k ! 1) (filter (\<lambda>k. length (split_on CHR '':'' k) = 3) keys)))"

definition world_store :: "'s store_api \<Rightarrow> ('s, 'b) world store_api" where
  "world_store st =
     \<lparr>st_get = (\<lambda>ns k. on_store (st_get st ns k)), st_put = (\<lambda>ns k x. on_store (st_put st ns k x)),
      st_search = (\<lambda>ns q f n m. on_store (st_search st ns q f n m))\<rparr>"

definition multi_dlq :: "dlq_stream \<Rightarrow> string \<Rightarrow> (('s, dlq_client list) world, bool) comp" where
  "multi_dlq ds episode_id = on_broker (check_clients ds episode_id)"

definition audit_world :: "string \<Rightarrow> string list \<Rightarrow> 's \<Rightarrow> ('s, dlq_client list) world" where
  "audit_world dlq_subj keys s =
     \<lparr>w_store = s, w_broker = map (make_dlq_client dlq_subj) (audit_projects keys), w_marks = []\<rparr>"

definition audit_report_keys :: "(string \<Rightarrow> string) \<Rightarrow> string \<Rightarrow> exn + string list" where
  "audit_report_keys json_error report =
     (case loads report of
        None \<Rightarrow> Inl (JSONDecodeError (json_error report))
      | Some (JObj data) \<Rightarrow> report_keys data
      | Some v \<Rightarrow> Inl (AttributeError ''object has no attribute get''))"

definition run_audit ::
  "prims \<Rightarrow> dlq_stream \<Rightarrow> (string \<Rightarrow> string) \<Rightarrow> 's store_api \<Rightarrow> reindex_settings \<Rightarrow> string option \<Rightarrow> ('s, int) comp" where
  "run_audit pr ds json_error st rs report_file s =
     (case report_file of
        None \<Rightarrow> ret 2 s
      | Some report \<Rightarrow>
          (case audit_report_keys json_error report of
             Inl e \<Rightarrow> throw e s
           | Inr keys \<Rightarrow>
               (case audit_published_episodes pr (world_store st) (multi_dlq ds) keys (audit_world (rs_dlq_subject rs) keys s) of
                  (Ok r, w) \<Rightarrow> (Ok (if is_100_percent_accounted r then 0 else 1), w_store w)
                | (Exn e, w) \<Rightarrow> (Exn e, w_store w)
                | (Stuck, w) \<Rightarrow> (Stuck, w_store w))))"

subsection \<open>Every document is accounted for\<close>

lemma scan_document_counts:
  "scan_document lib m corpus_root doc sc = Inr sc' \<Longrightarrow>
   length (sc_skipped sc') + length (sc_unparseable sc') + length (sc_candidates sc') =
   Suc (length (sc_skipped sc) + length (sc_unparseable sc) + length (sc_candidates sc))"
  by (auto simp: scan_document_def split: sum.splits option.splits parse_result.splits)

lemma scan_documents_counts:
  "scan_documents lib m corpus_root docs sc = Inr sc' \<Longrightarrow>
   length (sc_skipped sc') + length (sc_unparseable sc') + length (sc_candidates sc') =
   length docs + length (sc_skipped sc) + length (sc_unparseable sc) + length (sc_candidates sc)"
  by (induction lib m corpus_root docs sc rule: scan_documents.induct)
    (auto dest!: scan_document_counts split: sum.splits)

text \<open>A candidate carries the payload the parser built.\<close>

definition cand_ident :: "candidate \<Rightarrow> string" where
  "cand_ident c = p_identifier (ca_payload c)"

definition task_payload :: "payload \<Rightarrow> bool" where
  "task_payload p \<longleftrightarrow> payload_ok p \<and> p_class p = BuildOutcomePayload"

lemma parsed_task_payload:
  assumes "pydantic_model pyd" and "parse_completed_task fs y ye pyd doc corpus_root front = Inr (ParsedPayload p q)"
  shows "task_payload p"
proof -
  from assms(2) obtain fm where "parse_front fs pyd doc corpus_root fm = Inr (ParsedPayload p q)"
    by (auto simp: parse_completed_task_def split: option.splits front.splits yaml.splits)
  then obtain d where "payload_init pyd BuildOutcomePayload d = Inr p"
    by (auto simp: parse_front_def split: option.splits if_splits sum.splits exn.splits)
  from pydantic_model.init_ok [OF assms(1) this] show ?thesis by (simp add: task_payload_def)
qed

lemma scan_document_payloads:
  assumes "pydantic_model (b_pydantic lib)" and "scan_document lib m corpus_root doc sc = Inr sc'"
    and "\<forall>c \<in> set (sc_candidates sc). task_payload (ca_payload c)"
  shows "\<forall>c \<in> set (sc_candidates sc'). task_payload (ca_payload c)"
  using assms(2,3)
  by (auto simp: scan_document_def split: sum.splits option.splits parse_result.splits
      dest!: parsed_task_payload [OF assms(1)])

lemma scan_documents_payloads:
  assumes "pydantic_model (b_pydantic lib)" and "scan_documents lib m corpus_root docs sc = Inr sc'"
    and "\<forall>c \<in> set (sc_candidates sc). task_payload (ca_payload c)"
  shows "\<forall>c \<in> set (sc_candidates sc'). task_payload (ca_payload c)"
  using assms(2,3)
proof (induction docs arbitrary: sc)
  case (Cons doc docs)
  then obtain sc1 where 1: "scan_document lib m corpus_root doc sc = Inr sc1" "scan_documents lib m corpus_root docs sc1 = Inr sc'"
    by (auto split: sum.splits)
  from Cons.IH [OF 1(2) scan_document_payloads [OF assms(1) 1(1) Cons.prems(2)]] show ?case .
qed simp

subsection \<open>Collisions\<close>

lemma group_snoc:
  "group_by_identifier (cs @ [c]) =
   dict_set (cand_ident c) ((case dict_get (group_by_identifier cs) (cand_ident c) of None \<Rightarrow> [] | Some g \<Rightarrow> g) @ [c])
     (group_by_identifier cs)"
  by (simp add: group_by_identifier_def cand_ident_def Let_def)

lemma group_get:
  "dict_get (group_by_identifier cs) i =
   (let g = filter (\<lambda>c. cand_ident c = i) cs in if g = [] then None else Some g)"
proof (induction cs rule: rev_induct)
  case Nil
  show ?case by (simp add: group_by_identifier_def)
next
  case (snoc c cs)
  then show ?case by (auto simp: group_snoc dict_simps Let_def split: option.splits if_splits)
qed

lemma group_distinct: "distinct (map fst (group_by_identifier cs))"
proof (induction cs rule: rev_induct)
  case Nil
  show ?case by (simp add: group_by_identifier_def)
next
  case (snoc c cs)
  then show ?case by (simp add: group_snoc dict_set_distinct)
qed

lemma group_keys: "fst ` set (group_by_identifier cs) = cand_ident ` set cs"
  by (induction cs rule: rev_induct) (simp_all add: group_snoc dict_set_keys, simp add: group_by_identifier_def)

lemma group_in:
  assumes "(i, g) \<in> set (group_by_identifier cs)"
  shows "g = filter (\<lambda>c. cand_ident c = i) cs" and "g \<noteq> []"
proof -
  have "dict_get (group_by_identifier cs) i = Some g"
    using assms group_distinct [of cs] by (simp add: dict_get_def)
  then show "g = filter (\<lambda>c. cand_ident c = i) cs" and "g \<noteq> []" by (auto simp: group_get Let_def split: if_splits)
qed

lemma group_length: "(\<Sum>(i, g) \<leftarrow> group_by_identifier cs. length g) = length cs"
proof -
  have "(\<Sum>(i, g) \<leftarrow> group_by_identifier cs. length g) =
      (\<Sum>i \<leftarrow> map fst (group_by_identifier cs). length (filter (\<lambda>c. cand_ident c = i) cs))"
    by (auto simp: comp_def intro!: arg_cong [where f = sum_list] dest!: group_in(1))
  also have "\<dots> = (\<Sum>i \<in> cand_ident ` set cs. length (filter (\<lambda>c. cand_ident c = i) cs))"
    by (simp only: sum_list_distinct_conv_sum_set [OF group_distinct] set_map group_keys)
  also have "\<dots> = (\<Sum>i \<in> set (map cand_ident cs). count_list (map cand_ident cs) i)"
    by (intro sum.cong) (auto simp: count_list_eq_length_filter filter_map comp_def eq_commute)
  also have "\<dots> = length cs" by (simp only: sum_count_set [OF subset_refl finite_set] length_map)
  finally show ?thesis .
qed

lemma max_index_spec:
  "b < i \<Longrightarrow> i = length pre \<Longrightarrow> pre ! b = best \<Longrightarrow> \<forall>c \<in> set pre. depth_key c \<le> depth_key best \<Longrightarrow>
   max_index best b i cs < length (pre @ cs) \<and>
   (\<forall>c \<in> set (pre @ cs). depth_key c \<le> depth_key ((pre @ cs) ! max_index best b i cs))"
proof (induction cs arbitrary: best b i pre)
  case (Cons c cs)
  show ?case
  proof (cases "depth_key best < depth_key c")
    case True
    with Cons.prems have "\<forall>d \<in> set (pre @ [c]). depth_key d \<le> depth_key c" by fastforce
    from Cons.IH [of i "Suc i" "pre @ [c]" c, OF _ _ _ this] True Cons.prems show ?thesis by simp
  next
    case False
    with Cons.prems have "\<forall>d \<in> set (pre @ [c]). depth_key d \<le> depth_key best" by auto
    from Cons.IH [of b "Suc i" "pre @ [c]" best, OF _ _ _ this] False Cons.prems show ?thesis by (simp add: nth_append)
  qed
qed simp

lemma settle_spec:
  assumes "g \<noteq> []"
  shows "length (fst (settle_group g)) + length (snd (settle_group g)) = length g"
    and "(\<exists>c \<in> set g. \<exists>d \<in> set g. ca_title c \<noteq> ca_title d) \<Longrightarrow> fst (settle_group g) = []"
    and "\<not> (\<exists>c \<in> set g. \<exists>d \<in> set g. ca_title c \<noteq> ca_title d) \<Longrightarrow>
      \<exists>w \<in> set g. fst (settle_group g) = [w] \<and> (\<forall>c \<in> set g. depth_key c \<le> depth_key w)"
proof -
  obtain c cs where g: "g = c # cs" using assms by (cases g) auto
  have m: "max_index c 0 1 cs < length (c # cs) \<and> (\<forall>d \<in> set (c # cs). depth_key d \<le> depth_key ((c # cs) ! max_index c 0 1 cs))"
    using max_index_spec [of 0 1 "[c]" c cs] by simp
  show "length (fst (settle_group g)) + length (snd (settle_group g)) = length g"
    using m unfolding g by (auto simp: Let_def)
  show "(\<exists>c \<in> set g. \<exists>d \<in> set g. ca_title c \<noteq> ca_title d) \<Longrightarrow> fst (settle_group g) = []"
    unfolding g by auto
  assume same: "\<not> (\<exists>c \<in> set g. \<exists>d \<in> set g. ca_title c \<noteq> ca_title d)"
  show "\<exists>w \<in> set g. fst (settle_group g) = [w] \<and> (\<forall>c \<in> set g. depth_key c \<le> depth_key w)"
  proof (cases "cs = []")
    case False
    define w where "w = (c # cs) ! max_index c 0 1 cs"
    have w: "w \<in> set g" unfolding w_def g using m by (intro nth_mem) simp
    have eq: "ca_title d = ca_title c" if "d \<in> set cs" for d
    proof -
      have "d \<in> set g" "c \<in> set g" using that by (simp_all add: g)
      with same show ?thesis by metis
    qed
    have t: "\<not> (\<exists>d \<in> set cs. ca_title d \<noteq> ca_title c)" by (simp add: eq)
    have "fst (settle_group g) = [w]"
      by (simp only: g w_def settle_group.simps Let_def if_not_P [OF False] if_not_P [OF t] fst_conv)
    moreover have "\<forall>c \<in> set g. depth_key c \<le> depth_key w" using m unfolding g w_def by simp
    ultimately show ?thesis using w by (intro bexI [of _ w] conjI)
  qed (simp add: g)
qed

text \<open>What the groups of a list of candidates leave: their winners and their skipped lines.\<close>

definition group_winners :: "(string \<times> candidate list) list \<Rightarrow> candidate list" where
  "group_winners gs = concat (map (\<lambda>(i, g). fst (settle_group g)) gs)"

lemma resolve_collisions_groups:
  "resolve_collisions cs sk = (ws, sk') \<Longrightarrow> ws = group_winners (group_by_identifier cs) \<and>
   sk' = sk @ concat (map (\<lambda>(i, g). snd (settle_group g)) (group_by_identifier cs))"
  by (auto simp: resolve_collisions_def group_winners_def Let_def comp_def case_prod_unfold)

lemma group_member: "(i, g) \<in> set (group_by_identifier cs) \<Longrightarrow> c \<in> set g \<longleftrightarrow> cand_ident c = i \<and> c \<in> set cs"
  using group_in(1) [of i g cs] by auto

lemma group_winner:
  assumes "(i, g) \<in> set (group_by_identifier cs)"
  shows "(\<exists>w \<in> set g. fst (settle_group g) = [w] \<and> (\<forall>c \<in> set g. ca_title c = ca_title w \<and> depth_key c \<le> depth_key w)) \<or>
    fst (settle_group g) = [] \<and> (\<exists>c \<in> set g. \<exists>d \<in> set g. ca_title c \<noteq> ca_title d)"
  using settle_spec(2,3) [OF group_in(2) [OF assms]] by metis

lemma winners_ident:
  "set gs \<subseteq> set (group_by_identifier cs) \<Longrightarrow>
   map cand_ident (group_winners gs) = map fst (filter (\<lambda>(i, g). fst (settle_group g) \<noteq> []) gs)"
proof (induction gs)
  case (Cons x gs)
  obtain i g where x: "x = (i, g)" by (cases x)
  with Cons group_winner [of i g cs] group_member [of i g cs] show ?case by (auto simp: group_winners_def)
qed (simp add: group_winners_def)

lemma winner_group:
  assumes "w \<in> set (group_winners (group_by_identifier cs))"
  obtains g where "(cand_ident w, g) \<in> set (group_by_identifier cs)" "w \<in> set g"
    "\<forall>c \<in> set g. ca_title c = ca_title w \<and> depth_key c \<le> depth_key w"
proof -
  from assms obtain i g where g: "(i, g) \<in> set (group_by_identifier cs)" and w: "w \<in> set (fst (settle_group g))"
    by (auto simp: group_winners_def)
  from group_winner [OF g] show ?thesis
  proof
    assume "\<exists>w \<in> set g. fst (settle_group g) = [w] \<and> (\<forall>c \<in> set g. ca_title c = ca_title w \<and> depth_key c \<le> depth_key w)"
    then obtain w' where w': "w' \<in> set g" "fst (settle_group g) = [w']"
      "\<forall>c \<in> set g. ca_title c = ca_title w' \<and> depth_key c \<le> depth_key w'" by blast
    with w have eq: "w' = w" by simp
    have i: "i = cand_ident w" using group_member [OF g, of w] w'(1) unfolding eq by simp
    show ?thesis by (rule that [OF g [unfolded i] w'(1,3) [unfolded eq]])
  next
    assume "fst (settle_group g) = [] \<and> (\<exists>c \<in> set g. \<exists>d \<in> set g. ca_title c \<noteq> ca_title d)"
    with w show ?thesis by simp
  qed
qed

lemma winners_spec:
  assumes "resolve_collisions cs sk = (ws, sk')"
  shows "length ws + length sk' = length cs + length sk" and "distinct (map cand_ident ws)" and "set ws \<subseteq> set cs"
    and "w \<in> set ws \<Longrightarrow> c \<in> set cs \<Longrightarrow> cand_ident c = cand_ident w \<Longrightarrow> ca_title c = ca_title w \<and> depth_key c \<le> depth_key w"
    and "c \<in> set cs \<Longrightarrow> (\<And>d. d \<in> set cs \<Longrightarrow> cand_ident d = cand_ident c \<Longrightarrow> ca_title d = ca_title c) \<Longrightarrow>
      \<exists>w \<in> set ws. cand_ident w = cand_ident c"
proof -
  let ?groups = "group_by_identifier cs"
  note ws = conjunct1 [OF resolve_collisions_groups [OF assms]]
    and sk = conjunct2 [OF resolve_collisions_groups [OF assms]]
  have "length ws + (length sk' - length sk) = (\<Sum>(i, g) \<leftarrow> ?groups. length (fst (settle_group g)) + length (snd (settle_group g)))"
    by (simp add: ws sk group_winners_def length_concat comp_def case_prod_unfold sum_list_addf)
  also have "\<dots> = (\<Sum>(i, g) \<leftarrow> ?groups. length g)"
    by (auto intro!: arg_cong [where f = sum_list] simp: settle_spec(1) dest!: group_in(2))
  finally show "length ws + length sk' = length cs + length sk" by (simp add: group_length sk)
  show "distinct (map cand_ident ws)"
    unfolding ws winners_ident [OF subset_refl] using group_distinct [of cs] by (simp add: distinct_map_filter)
  show "set ws \<subseteq> set cs" unfolding ws using group_member by (blast elim: winner_group)
  show "w \<in> set ws \<Longrightarrow> c \<in> set cs \<Longrightarrow> cand_ident c = cand_ident w \<Longrightarrow> ca_title c = ca_title w \<and> depth_key c \<le> depth_key w"
    unfolding ws using group_member by (blast elim: winner_group)
  assume c: "c \<in> set cs" and same: "\<And>d. d \<in> set cs \<Longrightarrow> cand_ident d = cand_ident c \<Longrightarrow> ca_title d = ca_title c"
  have "cand_ident c \<in> fst ` set ?groups" using c by (simp add: group_keys)
  then obtain g where g: "(cand_ident c, g) \<in> set ?groups" by force
  have "ca_title d = ca_title c" if "d \<in> set g" for d using group_member [OF g, of d] that same by blast
  with group_winner [OF g] have "\<exists>w \<in> set g. fst (settle_group g) = [w]" by auto
  then obtain w where w: "w \<in> set g" "fst (settle_group g) = [w]" by blast
  have "w \<in> set ws" unfolding ws group_winners_def using g w(2) by force
  with group_member [OF g, of w] w(1) show "\<exists>w \<in> set ws. cand_ident w = cand_ident c" by blast
qed

text \<open>
  Collisions are settled without a silent last-wins. Of the documents that share an identifier
  at most one wins; it wins only if all of them carry its title, and then it is the deepest; if they
  all agree one does win; and every document that does not win is in the list of skipped ones.
\<close>

theorem collisions_settled:
  assumes "resolve_collisions cs sk = (ws, sk')"
  shows "distinct (map cand_ident ws) \<and> set ws \<subseteq> set cs \<and> length ws + length sk' = length cs + length sk \<and>
    (\<forall>w \<in> set ws. \<forall>c \<in> set cs. cand_ident c = cand_ident w \<longrightarrow> ca_title c = ca_title w \<and> depth_key c \<le> depth_key w) \<and>
    (\<forall>c \<in> set cs. (\<forall>d \<in> set cs. cand_ident d = cand_ident c \<longrightarrow> ca_title d = ca_title c) \<longrightarrow>
      (\<exists>w \<in> set ws. cand_ident w = cand_ident c))"
  using winners_spec [OF assms] by (intro conjI) blast+

subsection \<open>The published keys\<close>

lemma with_lessons_key [simp]: "natural_key (with_lessons p l) = natural_key p" "payload_namespace (with_lessons p l) = payload_namespace p"
  by (simp_all add: with_lessons_def natural_key_def payload_namespace_def)

lemma merge_lessons_key: "merge_lessons p existing = Inr q \<Longrightarrow> natural_key q = natural_key p"
  by (auto simp: merge_lessons_def split: option.splits sum.splits if_splits)

lemma publish_one_key:
  "publish_one pr f st c s = (Ok (p, r), s') \<Longrightarrow> natural_key p = natural_key (ca_payload c)"
  by (auto simp: publish_one_def preserve_existing_lessons_def bind_Ok_iff ret_def lift_res_Ok_iff merge_lessons_key
      split: option.splits if_splits)

lemma publish_winners_spec:
  "publish_winners pr f st cs ps s = (Ok ps', s') \<Longrightarrow>
   length (ps_keys ps') + length (ps_skipped ps') = length cs + length (ps_keys ps) + length (ps_skipped ps) \<and>
   (\<exists>done. subseq done cs \<and> ps_keys ps' = ps_keys ps @ map (\<lambda>c. natural_key (ca_payload c)) done)"
proof (induction cs arbitrary: ps s)
  case Nil
  then show ?case by (simp add: ret_def)
next
  case (Cons c cs)
  then obtain p r s1 where one: "publish_one pr f st c s = (Ok (p, r), s1)"
    and rest: "publish_winners pr f st cs (count_published c (p, r) ps) s1 = (Ok ps', s')"
    by (auto simp: bind_Ok_iff)
  note key = publish_one_key [OF one]
  from Cons.IH [OF rest] obtain dn where dn: "subseq dn cs"
    "ps_keys ps' = ps_keys (count_published c (p, r) ps) @ map (\<lambda>c. natural_key (ca_payload c)) dn"
    "length (ps_keys ps') + length (ps_skipped ps') =
      length cs + length (ps_keys (count_published c (p, r) ps)) + length (ps_skipped (count_published c (p, r) ps))" by blast
  show ?case
  proof (cases r)
    case None
    with dn key have "subseq (c # dn) (c # cs)" "ps_keys ps' = ps_keys ps @ map (\<lambda>c. natural_key (ca_payload c)) (c # dn)"
      by (simp_all add: count_published_def)
    moreover have "length (ps_keys ps') + length (ps_skipped ps') = length (c # cs) + length (ps_keys ps) + length (ps_skipped ps)"
      using dn(3) None by (simp add: count_published_def)
    ultimately show ?thesis by blast
  next
    case (Some reason)
    with dn have "subseq dn (c # cs)" "ps_keys ps' = ps_keys ps @ map (\<lambda>c. natural_key (ca_payload c)) dn"
      by (auto simp: count_published_def)
    moreover have "length (ps_keys ps') + length (ps_skipped ps') = length (c # cs) + length (ps_keys ps) + length (ps_skipped ps)"
      using dn(3) Some by (simp add: count_published_def)
    ultimately show ?thesis by blast
  qed
qed

lemma run_parts:
  assumes "reindex_corpus lib corpus_root m f st s = (Ok r, s')"
  obtains docs sc ws sk ps where "walk_roots (b_fs lib) corpus_root (reindex_roots m) = Inr docs"
    "scan_documents lib m corpus_root docs \<lparr>sc_skipped = [], sc_unparseable = [], sc_candidates = []\<rparr> = Inr sc"
    "resolve_collisions (sc_candidates sc) (sc_skipped sc) = (ws, sk)"
    "publish_winners (b_prims lib) f st ws \<lparr>ps_keys = [], ps_kinds = [], ps_skipped = sk\<rparr> s = (Ok ps, s')"
    "r = make_report (length docs) (sc_unparseable sc) ps"
proof -
  from assms obtain docs sc where docs: "walk_roots (b_fs lib) corpus_root (reindex_roots m) = Inr docs"
    and sc: "scan_documents lib m corpus_root docs \<lparr>sc_skipped = [], sc_unparseable = [], sc_candidates = []\<rparr> = Inr sc"
    and body: "(let (winners, skipped1) = resolve_collisions (sc_candidates sc) (sc_skipped sc) in
       bind (publish_winners (b_prims lib) f st winners \<lparr>ps_keys = [], ps_kinds = [], ps_skipped = skipped1\<rparr>) (\<lambda>ps.
         ret (make_report (length docs) (sc_unparseable sc) ps))) s = (Ok r, s')"
    unfolding reindex_corpus_def bind_Ok_iff lift_res_Ok_iff by blast
  obtain ws sk where ws: "resolve_collisions (sc_candidates sc) (sc_skipped sc) = (ws, sk)" by fastforce
  with body obtain ps where "publish_winners (b_prims lib) f st ws \<lparr>ps_keys = [], ps_kinds = [], ps_skipped = sk\<rparr> s = (Ok ps, s')"
    "r = make_report (length docs) (sc_unparseable sc) ps"
    by (auto simp: bind_Ok_iff ret_def)
  with that [OF docs sc ws] show thesis by blast
qed

lemma subseq_distinct: "subseq xs ys \<Longrightarrow> distinct ys \<Longrightarrow> distinct xs"
  by (auto simp: subseq_conv_nths distinct_nthsI)

lemma natural_key_distinct:
  assumes "\<forall>c \<in> set cs. task_payload (ca_payload c)" and "distinct (map cand_ident cs)"
  shows "distinct (map (\<lambda>c. natural_key (ca_payload c)) cs)"
proof -
  have "cand_ident c = cand_ident d"
    if "c \<in> set cs" "d \<in> set cs" "natural_key (ca_payload c) = natural_key (ca_payload d)" for c d
    using natural_key_inj [of "ca_payload c" "ca_payload d"] assms(1) that by (auto simp: task_payload_def cand_ident_def)
  with assms(2) show ?thesis unfolding distinct_map inj_on_def by metis
qed

text \<open>
  C11: The accounting of a run adds up: each walked document is published, skipped with a reason or
  unparseable, the counts are the lengths of the lists, and no natural key is published twice.
\<close>

theorem run_accounted:
  assumes "pydantic_model (b_pydantic lib)" and "reindex_corpus lib corpus_root m f st s = (Ok r, s')"
  shows "walked_count r = published_count r + skipped_count r + unparseable_count r \<and>
    published_count r = length (published_natural_keys r) \<and> skipped_count r = length (skipped r) \<and>
    unparseable_count r = length (unparseable r) \<and> distinct (published_natural_keys r) \<and>
    (\<exists>docs. walk_roots (b_fs lib) corpus_root (reindex_roots m) = Inr docs \<and> walked_count r = length docs)"
proof -
  from run_parts [OF assms(2)] obtain docs sc ws sk ps where parts: "walk_roots (b_fs lib) corpus_root (reindex_roots m) = Inr docs"
    "scan_documents lib m corpus_root docs \<lparr>sc_skipped = [], sc_unparseable = [], sc_candidates = []\<rparr> = Inr sc"
    "resolve_collisions (sc_candidates sc) (sc_skipped sc) = (ws, sk)"
    "publish_winners (b_prims lib) f st ws \<lparr>ps_keys = [], ps_kinds = [], ps_skipped = sk\<rparr> s = (Ok ps, s')"
    "r = make_report (length docs) (sc_unparseable sc) ps" by metis
  note scan = scan_documents_counts [OF parts(2), simplified]
  from publish_winners_spec [OF parts(4)] obtain dn where dn: "subseq dn ws" "ps_keys ps = map (\<lambda>c. natural_key (ca_payload c)) dn"
    "length (ps_keys ps) + length (ps_skipped ps) = length ws + length sk" by auto
  have "\<forall>c \<in> set (sc_candidates sc). task_payload (ca_payload c)" by (rule scan_documents_payloads [OF assms(1) parts(2)]) simp
  then have "\<forall>c \<in> set ws. task_payload (ca_payload c)" using winners_spec(3) [OF parts(3)] by blast
  from natural_key_distinct [OF this winners_spec(2) [OF parts(3)]] have "distinct (ps_keys ps)"
    unfolding dn(2) by (rule subseq_distinct [OF subseq_map [OF dn(1)]])
  then show ?thesis using scan dn(3) winners_spec(1) [OF parts(3)] parts(1) by (simp add: parts(5) make_report_def)
qed

subsection \<open>Reading a dump back\<close>

text \<open>
  What the publisher and the relay rely on in pydantic beyond construction: for the registered classes
  the dumped fields hold no nested objects and none is called \<open>self\<close>, and constructing from a dump, in
  whatever order its keys come and with the computed \<open>natural_key\<close> among them, gives the instance back.
\<close>

locale pydantic_dump = pydantic_model +
  assumes dump_flat: "pyd c d = Inr p \<Longrightarrow> registered (payload_type c) \<Longrightarrow>
      list_all (\<lambda>(k, v). canon v = v \<and> k \<noteq> ''self'') (p_fields p)"
    and dump_back: "pyd c d = Inr p \<Longrightarrow> registered (payload_type c) \<Longrightarrow> dict_get d' = dict_get (model_dump p) \<Longrightarrow> pyd c d' = Inr p"

lemma map_of_eq_set:
  "distinct (map fst xs) \<Longrightarrow> distinct (map fst ys) \<Longrightarrow> set xs = set ys \<Longrightarrow> map_of xs = map_of ys"
  by (metis map_of_inject_set)

lemma canon_dict_get:
  assumes "distinct (map fst kvs)" and "list_all (\<lambda>(k, v). canon v = v) kvs"
  shows "\<exists>kvs'. canon (JObj kvs) = JObj kvs' \<and> dict_get kvs' = dict_get kvs \<and> fst ` set kvs' = fst ` set kvs"
proof -
  have "map (\<lambda>(k, v). (k, canon v)) kvs = kvs" using assms(2) by (auto simp: list_all_iff intro!: map_idI)
  moreover have "map_of (sort_key fst kvs) = map_of kvs"
  proof (rule map_of_eq_set)
    show "distinct (map fst (sort_key fst kvs))" using assms(1) by (simp add: distinct_map)
  qed (simp_all add: assms(1))
  ultimately show ?thesis by (auto simp: dict_get_def fun_eq_iff)
qed

lemma collapse_distinct:
  "distinct rs \<Longrightarrow> set rs \<inter> set seen = {} \<Longrightarrow> list_all hashable rs \<Longrightarrow> collapse_refs seen rs = Inr rs"
  by (induction rs arbitrary: seen) auto

lemma check_refs_id: "list_all (\<lambda>r. length (split_on CHR '':'' r) = 3) us \<Longrightarrow> check_refs (map JStr us) = Inr us"
  by (induction us) auto

lemma supersedes_arg_again:
  assumes "distinct us" and "list_all (\<lambda>r. length (split_on CHR '':'' r) = 3) us"
    and "dict_get d ''supersedes'' = Some (JList (map JStr us))"
  shows "\<exists>d'. supersedes_arg d = Inr d' \<and> dict_get d' = dict_get d"
proof -
  have "distinct (map JStr us)" using assms(1) by (simp add: distinct_map inj_on_def)
  moreover have "list_all hashable (map JStr us)" by (simp add: list_all_iff)
  ultimately have "normalize_supersedes (JList (map JStr us)) = Inr us"
    using check_refs_id [OF assms(2)] by (simp add: normalize_supersedes_def collapse_distinct)
  then show ?thesis using assms(3) by (auto simp: supersedes_arg_def dict_simps fun_eq_iff)
qed

context pydantic_dump
begin

lemma dump_json:
  assumes "pyd c d = Inr p" and "registered (payload_type c)"
  shows "json_ok (JObj (model_dump p))" and "list_all (\<lambda>(k, v). canon v = v) (model_dump p)" and "''self'' \<notin> fst ` set (model_dump p)"
proof -
  show "json_ok (JObj (model_dump p))"
    using pyd_fields [OF assms] by (auto simp: model_dump_def list_all_iff)
  have "canon (JList (map JStr xs)) = JList (map JStr xs)" for xs by (simp add: comp_def)
  then show "list_all (\<lambda>(k, v). canon v = v) (model_dump p)" "''self'' \<notin> fst ` set (model_dump p)"
    using dump_flat [OF assms] by (auto simp: model_dump_def list_all_iff)
qed

lemma dump_get:
  "pyd c d = Inr p \<Longrightarrow> registered (payload_type c) \<Longrightarrow> dict_get (model_dump p) ''project'' = Some (JStr (p_project p)) \<and>
   dict_get (model_dump p) ''identifier'' = Some (JStr (p_identifier p)) \<and>
   dict_get (model_dump p) ''supersedes'' = Some (JList (map JStr (p_supersedes p)))"
  by (simp add: model_dump_def)

lemma init_again:
  assumes "payload_init pyd c d = Inr p" and "registered (payload_type c)" and "dict_get d' = dict_get (model_dump p)"
  shows "payload_init pyd c d' = Inr p"
proof -
  from assms(1) obtain d0 where pyd: "pyd c d0 = Inr p"
    by (auto simp: payload_init_def split: sum.splits if_splits)
  have ok: "payload_ok p" using init_ok [OF assms(1)] by simp
  note get = dump_get [OF pyd assms(2)]
  obtain d'' where sup: "supersedes_arg d' = Inr d''" "dict_get d'' = dict_get d'"
    using supersedes_arg_again [of "p_supersedes p" d'] ok get assms(3) by (auto simp: payload_ok_def)
  show ?thesis
  proof (rule payload_initI [OF _ _ sup(1)])
    show "check_key ''project'' d' = Inr ()" "check_key ''identifier'' d' = Inr ()"
      using ok get assms(3) by (auto simp: check_key_def payload_ok_def validate_identifier_ok)
    show "pyd c d'' = Inr p" by (rule dump_back [OF pyd assms(2)]) (simp add: sup(2) assms(3))
    show "natural_key p \<notin> set (p_supersedes p)" using ok by (simp add: payload_ok_def)
  qed
qed

lemma body_read_back:
  assumes "payload_init pyd c d = Inr p" and "registered (payload_type c)"
  shows "\<exists>v. loads (envelope_body p) = Some v \<and> construct_payload pyd c v = Inr p"
proof -
  from assms(1) obtain d0 where pyd: "pyd c d0 = Inr p"
    by (auto simp: payload_init_def split: sum.splits if_splits)
  note js = dump_json [OF pyd assms(2)]
  from js(1) have "distinct (map fst (model_dump p))" by simp
  from canon_dict_get [OF this js(2)] obtain kvs where kvs: "canon (JObj (model_dump p)) = JObj kvs"
    "dict_get kvs = dict_get (model_dump p)" "fst ` set kvs = fst ` set (model_dump p)" by blast
  have "construct_payload pyd c (JObj kvs) = Inr p"
    using init_again [OF assms kvs(2)] js(3) kvs(3) by (simp add: construct_payload_def)
  then show ?thesis using loads_dumps [OF js(1)] kvs(1) by (simp add: envelope_body_def del: canon.simps json_ok.simps)
qed

end

subsection \<open>The schema reads its own dumps\<close>

lemma read_fields_again:
  assumes "read_fields fs d = Inr kvs" and "distinct (map fst fs)"
    and "list_all (\<lambda>(n, t, dflt). case dflt of None \<Rightarrow> True | Some v \<Rightarrow> accepts t v) fs"
    and "\<And>n. n \<in> set (map fst fs) \<Longrightarrow> dict_get d' n = dict_get kvs n"
  shows "read_fields fs d' = Inr kvs"
  using assms
proof (induction fs arbitrary: kvs)
  case (Cons f fs)
  obtain n t df where f: "f = (n, t, df)" by (cases f) auto
  from Cons.prems(1) f obtain v rest where kvs: "kvs = (n, v) # rest" and rest: "read_fields fs d = Inr rest"
    and v: "accepts t v \<or> df = Some v"
    by (auto split: option.splits sum.splits if_splits)
  have "accepts t v" using v Cons.prems(3) f by (auto split: option.splits)
  moreover have "read_fields fs d' = Inr rest"
  proof (rule Cons.IH [OF rest])
    show "dict_get d' m = dict_get rest m" if "m \<in> set (map fst fs)" for m
      using Cons.prems(4) [of m] Cons.prems(2) that f kvs by auto
  qed (use Cons.prems(2,3) in auto)
  moreover have "dict_get d' n = Some v" using Cons.prems(4) [of n] f kvs by simp
  ultimately show ?case by (simp add: f kvs)
qed simp

lemma registered_defaults:
  "registered (payload_type c) \<Longrightarrow>
   list_all (\<lambda>(n, t, dflt). case dflt of None \<Rightarrow> True | Some v \<Rightarrow> accepts t v) (class_fields c) \<and> ''self'' \<notin> fst ` set (class_fields c)"
  by (cases c) (simp_all add: payload_simps class_field_defs)

lemma canon_plain: "plain_type t \<Longrightarrow> accepts t v \<Longrightarrow> canon v = v"
proof (induction t arbitrary: v)
  case (TList t)
  then show ?case by (cases v) (auto simp: list_all_iff intro!: map_idI)
next
  case (TOpt t)
  then show ?case by (cases "v = JNull") auto
qed (auto split: json.splits)

lemma read_fields_canon:
  "read_fields fs d = Inr kvs \<Longrightarrow> list_all (\<lambda>(n, t, dflt). plain_type t \<and> (case dflt of None \<Rightarrow> True | Some v \<Rightarrow> accepts t v)) fs \<Longrightarrow>
   list_all (\<lambda>(k, v). canon v = v) kvs"
proof (induction fs arbitrary: kvs)
  case (Cons f fs)
  obtain n t df where f: "f = (n, t, df)" by (cases f) auto
  from Cons.prems(1) f obtain v rest where kvs: "kvs = (n, v) # rest"
    and rest: "read_fields fs d = Inr rest" and v: "accepts t v \<or> df = Some v"
    by (auto split: option.splits sum.splits if_splits)
  from Cons.prems(2) f v have "canon v = v" by (auto intro: canon_plain split: option.splits)
  with Cons.IH [OF rest] Cons.prems(2) kvs show ?case by simp
qed simp

lemma schema_init_all:
  assumes "schema_init c d = Inr p"
  shows "p = \<lparr>p_class = c, p_project = p_project p, p_identifier = p_identifier p, p_domain_tags = p_domain_tags p,
      p_source_ref = p_source_ref p, p_version = p_version p, p_supersedes = p_supersedes p, p_fields = p_fields p\<rparr>"
    and "read_fields (class_fields c) d = Inr (p_fields p)" and "model_validators p = Inr ()"
  using assms by (auto simp: schema_init_def Let_def split: sum.splits)

interpretation schema_dump: pydantic_dump schema_init
proof unfold_locales
  fix c d p
  assume init: "schema_init c d = Inr p" and reg: "registered (payload_type c)"
  note all = schema_init_all [OF init]
  have plain: "list_all (\<lambda>(n, t, dflt). plain_type t \<and> (case dflt of None \<Rightarrow> True | Some v \<Rightarrow> accepts t v)) (class_fields c)"
    using registered_fields_plain [OF reg] registered_defaults [OF reg] by (auto simp: list_all_iff split: option.splits)
  have keys: "map fst (p_fields p) = map fst (class_fields c)" by (rule read_fields_keys [OF all(2)])
  then have "''self'' \<notin> fst ` set (p_fields p)" using registered_defaults [OF reg] by (metis set_map)
  then show "list_all (\<lambda>(k, v). canon v = v \<and> k \<noteq> ''self'') (p_fields p)"
    using read_fields_canon [OF all(2) plain] by (force simp: list_all_iff)
  fix d'
  assume d': "dict_get d' = dict_get (model_dump p)"
  show "schema_init c d' = Inr p"
  proof (rule schema_initI)
    show "read_fields base_fields d' = Inr [(''project'', JStr (p_project p)), (''identifier'', JStr (p_identifier p)),
        (''domain_tags'', JList (map JStr (p_domain_tags p))), (''source_ref'', JStr (p_source_ref p)), (''version'', JInt (p_version p)),
        (''supersedes'', JList (map JStr (p_supersedes p)))]"
      by (simp add: base_fields_def d' model_dump_def list_all_iff)
    show "read_fields (class_fields c) d' = Inr (p_fields p)"
    proof (rule read_fields_again [OF all(2)])
      show "distinct (map fst (class_fields c))" using registered_field_names [OF reg] by blast
      show "list_all (\<lambda>(n, t, dflt). case dflt of None \<Rightarrow> True | Some v \<Rightarrow> accepts t v) (class_fields c)"
        using registered_defaults [OF reg] by blast
      fix n
      assume n: "n \<in> set (map fst (class_fields c))"
      then have "n \<in> dom (map_of (p_fields p))" by (simp add: dom_map_of_conv_image_fst keys flip: set_map)
      moreover have "n \<notin> {''project'', ''identifier'', ''domain_tags'', ''source_ref'', ''version'', ''supersedes'', ''natural_key''}"
        by (rule disjoint_iff [THEN iffD1, rule_format, OF conjunct2 [OF registered_field_names [OF reg]] n])
      ultimately show "dict_get d' n = dict_get (p_fields p) n"
        by (auto simp: d' model_dump_def dict_get_def map_add_def split: option.splits)
    qed
  qed (use all in \<open>simp_all add: strs_of_def str_of_def int_of_def comp_def\<close>)
qed

subsection \<open>What is published is what the relay writes\<close>

text \<open>The episode the relay reads from an envelope: the fields of the object, and no others here.\<close>

definition reads_envelope :: "episode \<Rightarrow> (string \<times> json) list \<Rightarrow> bool" where
  "reads_envelope e env \<longleftrightarrow>
     dict_get env ''episode_id'' = Some (JStr (e_id e)) \<and> dict_get env ''project_id'' = Some (JStr (e_project_id e)) \<and>
     dict_get env ''episode_type'' = Some (JStr (e_episode_type e)) \<and> dict_get env ''content_format'' = Some (JStr (e_content_format e)) \<and>
     dict_get env ''body'' = Some (JStr (e_body e)) \<and> dict_get env ''payload_type'' = Some (opt_str (e_payload_type e)) \<and>
     dict_get env ''source_ref'' = Some (opt_str (e_source_ref e))"

lemma opt_str_JStr: "opt_str x = JStr s \<longleftrightarrow> x = Some s"
  by (simp add: opt_str_def split: option.splits)

lemma envelope_fields:
  assumes "reads_envelope e (build_envelope pr p)"
  shows "e_id e = derive_episode_id pr (natural_key p)" and "e_project_id e = p_project p" and "e_content_format e = ''json''"
    and "e_body e = envelope_body p" and "e_payload_type e = Some (payload_type (p_class p))"
proof -
  have "dict_get (build_envelope pr p) ''payload_type'' = Some (opt_str (e_payload_type e))"
    using assms by (simp only: reads_envelope_def)
  then have "opt_str (e_payload_type e) = JStr (payload_type (p_class p))" by (simp add: build_envelope_def)
  then show "e_payload_type e = Some (payload_type (p_class p))" by (simp only: opt_str_JStr)
qed (use assms in \<open>simp_all add: reads_envelope_def build_envelope_def\<close>)

lemma relay_reads_payload:
  assumes "pydantic_dump (s_pydantic sv)" and "payload_init (s_pydantic sv) (p_class p) d = Inr p"
    and "registered (payload_type (p_class p))" and "reads_envelope e (build_envelope pr p)"
  shows "episode_payload sv e = Inr p"
proof -
  obtain v where v: "loads (envelope_body p) = Some v" "construct_payload (s_pydantic sv) (p_class p) v = Inr p"
    using pydantic_dump.body_read_back [OF assms(1-3)] by blast
  have "get_model_for_type (payload_type (p_class p)) = Inr (p_class p)"
    using assms(3) by (cases "p_class p") (auto simp: get_model_for_type_def PAYLOAD_REGISTRY_def payload_simps)
  then show ?thesis using v by (simp add: episode_payload_def envelope_fields [OF assms(4)])
qed

text \<open>
  An episode of a re-index run reaches the store as the payload it was built from: the relay,
  which knows only the envelope, reconstructs exactly the published payload, so that ingesting the
  episode is one write of it.
\<close>

theorem published_payload_round_trip:
  assumes "pydantic_dump (s_pydantic sv)" and "payload_init (s_pydantic sv) (p_class p) d = Inr p"
    and "registered (payload_type (p_class p))" and "reads_envelope e (build_envelope pr p)"
  shows "episode_payload sv e = Inr p \<and>
    route_episode sv e s = writer_write (s_prims sv) (s_store sv) (s_forward_fuel sv) p (Some (make_episode_meta e)) s"
  using relay_reads_payload [OF assms] envelope_fields(3) [OF assms(4)] by (simp add: route_episode_def ingest_json_def)

subsection \<open>Stored lessons survive a run\<close>

lemma dict_set_again: "dict_set k v (dict_set k w d) = dict_set k v d"
  by (simp add: dict_set_def)

lemma dict_set_same: "dict_get d k = Some v \<Longrightarrow> dict_set k v d = d"
  by (simp add: dict_set_def dict_get_def update_triv)

lemma dump_field:
  assumes "dict_get (p_fields p) f = Some v" and "distinct (map fst (model_dump p))"
  shows "dict_get (model_dump p) f = Some v"
proof -
  have "(f, v) \<in> set (p_fields p)" using assms(1) by (simp add: dict_get_def map_of_SomeD)
  then have "(f, v) \<in> set (model_dump p)" by (simp add: model_dump_def)
  with assms(2) show ?thesis by (simp only: dict_get_def map_of_is_SomeI)
qed

lemma merge_carries:
  assumes "pydantic_dump pyd" and "payload_init pyd c d = Inr q" and "registered (payload_type c)"
    and "dict_get (p_fields q) ''lessons'' = Some l" and "truthy l" and "v ''content'' = Some (JStr (dumps (JObj (model_dump q))))"
  shows "merge_lessons (with_lessons q JNull) (Some v) = Inr q"
proof -
  from assms(2) obtain d0 where pyd: "pyd c d0 = Inr q" by (auto simp: payload_init_def split: sum.splits if_splits)
  note js = pydantic_dump.dump_json [OF assms(1) pyd assms(3)]
  from js(1) have dist: "distinct (map fst (model_dump q))" by simp
  from canon_dict_get [OF this js(2)] obtain kvs where kvs: "canon (JObj (model_dump q)) = JObj kvs"
    "dict_get kvs = dict_get (model_dump q)" by blast
  have ne: "dumps (JObj (model_dump q)) \<noteq> []" using emit_nonempty [OF json_ok_canon [OF js(1)]] unfolding dumps_def .
  have "loads (dumps (JObj (model_dump q))) = Some (JObj kvs)" using loads_dumps [OF js(1)] kvs(1) by simp
  with ne have "stored_object (py_get v ''content'') = Some (JObj kvs)" using assms(6) by (simp add: stored_object_def py_get_def)
  moreover have "lessons_of (JObj kvs) = Inr l" using dump_field [OF assms(4) dist] kvs(2) by (simp add: lessons_of_def json_get_def)
  moreover have "with_lessons (with_lessons q JNull) l = q"
    using dict_set_same [OF assms(4)] by (simp add: with_lessons_def dict_set_again model_dump_def)
  ultimately show ?thesis using assms(5) by (simp add: merge_lessons_def)
qed

text \<open>
  C12: A run never erases distilled lessons, and republishing an unchanged task changes nothing: when
  the outgoing payload has no lessons and the store holds the same task with some, the published
  payload carries them, and writing it leaves the contents of the store as they are.
\<close>

theorem lessons_survive:
  assumes "pydantic_dump pyd" and "lawful_store st view rank window" and "store_total st"
    and "payload_init pyd c d = Inr q" and "writable q" and "p_supersedes q = []"
    and "dict_get (p_fields q) ''lessons'' = Some l" and "truthy l"
    and "view s (payload_namespace q) (payload_key pr q) = Some v" and "v ''content'' = Some (JStr (dumps (JObj (model_dump q))))"
    and "v ''content_hash'' = Some (JStr (content_hash pr q))"
  shows "\<exists>s1 s2. preserve_existing_lessons pr st (with_lessons q JNull) s = (Ok q, s1) \<and>
    writer_write pr st fuel q meta s1 = (Ok (), s2) \<and> view s1 = view s \<and> view s2 = view s"
proof -
  have p: "payload_namespace (with_lessons q JNull) = payload_namespace q" "payload_key pr (with_lessons q JNull) = payload_key pr q"
    "dict_get (p_fields (with_lessons q JNull)) ''lessons'' = Some JNull"
    by (simp_all add: payload_key_def) (simp add: with_lessons_def dict_simps)
  have c: "p_class q = c" using pydantic_model.init_ok [OF pydantic_dump.axioms(1) [OF assms(1)] assms(4)] by simp
  have w: "registered (payload_type c)" "validate_namespace (payload_namespace q) = Inr ()"
    using assms(5) c fleet_memory_ns payload_type_ns by (auto simp: writable_def payload_namespace_def validate_namespace_ok)
  obtain r1 s1 where g1: "st_get st (payload_namespace q) (payload_key pr q) s = (Ok r1, s1)" using store_totalD(1) [OF assms(3)] by blast
  with lawful_store.get_returns [OF assms(2) g1] assms(9) have r1: "r1 = Some v" "view s1 = view s" by simp_all
  obtain r2 s2 where g2: "st_get st (payload_namespace q) (payload_key pr q) s1 = (Ok r2, s2)" using store_totalD(1) [OF assms(3)] by blast
  with lawful_store.get_returns [OF assms(2) g2] assms(9) r1(2) have r2: "r2 = Some v" "view s2 = view s" by simp_all
  have "preserve_existing_lessons pr st (with_lessons q JNull) s = (Ok q, s1)"
    using g1 merge_carries [where v = v, OF assms(1,4) w(1) assms(7,8,10)] by (simp add: preserve_existing_lessons_def p comp_simps r1(1))
  moreover have "writer_write pr st fuel q meta s1 = (Ok (), s2)"
    using g2 w c assms(6,11) by (simp add: writer_write_def comp_simps r2(1) upsert_def write_supersessions_def)
  ultimately show ?thesis using r1(2) r2(2) by blast
qed

subsection \<open>The audit\<close>

text \<open>A lawful store is lawful as the store part of a larger state.\<close>

lemma on_store_snd: "w_store (snd (on_store m w)) = snd (m (w_store w))" "fst (on_store m w) = fst (m (w_store w))"
  by (simp_all add: on_store_def split: prod.splits)

context lawful_store
begin

lemma lawful_world: "lawful_store (world_store st) (\<lambda>w. view (w_store w)) (\<lambda>w. rank (w_store w)) window"
  by (unfold_locales, unfold world_store_def store_api.simps on_store_snd)
    (rule get_frame get_rank put_any search_frame search_rank no_hang window_wide
      | (rule get_ok put_ok search_ok rank_sound rank_complete; assumption))+

end

lemma world_store_total: "store_total st \<Longrightarrow> store_total (world_store st)"
  by (auto simp: store_total_def world_store_def on_store_def case_prod_unfold)

text \<open>
  What asking the subjects one after the other comes to, without clients: the first that has a letter
  answers, and one that cannot be read before that raises.
\<close>

fun look_subjects :: "dlq_stream \<Rightarrow> string \<Rightarrow> string list \<Rightarrow> exn + bool" where
  "look_subjects ds eid [] = Inr False"
| "look_subjects ds eid (subj # subjs) =
     (case read_subject ds subj of
        Inl e \<Rightarrow> Inl e
      | Inr bodies \<Rightarrow> if eid \<in> dlq_ingest bodies then Inr True else look_subjects ds eid subjs)"

definition as_res :: "exn + 'a \<Rightarrow> 'a res" where
  "as_res r = (case r of Inl e \<Rightarrow> Exn e | Inr x \<Rightarrow> Ok x)"

lemma as_res_simps [simp]: "as_res (Inl e) = Exn e" "as_res (Inr x) = Ok x"
  by (simp_all add: as_res_def)

lemma look_subjects_raises: "look_subjects ds eid subjs = Inl e \<Longrightarrow> \<exists>subj \<in> set subjs. read_subject ds subj = Inl e"
  by (induction subjs) (auto split: sum.splits if_splits)

lemma look_subjects_found:
  "look_subjects ds eid subjs = Inr b \<Longrightarrow> b \<longleftrightarrow> (\<exists>subj \<in> set subjs. \<exists>bodies. read_subject ds subj = Inr bodies \<and> eid \<in> dlq_ingest bodies)"
  by (induction subjs) (auto split: sum.splits if_splits)

lemma look_subjects_all_read: "look_subjects ds eid subjs = Inr False \<Longrightarrow> \<not> (\<exists>subj \<in> set subjs. \<exists>e. read_subject ds subj = Inl e)"
  by (induction subjs) (auto split: sum.splits if_splits)

text \<open>A client has nothing, or what its subject holds.\<close>

definition fresh_client :: "dlq_stream \<Rightarrow> dlq_client \<Rightarrow> bool" where
  "fresh_client ds c \<longleftrightarrow> dc_episode_ids c = None \<or>
     (\<exists>bodies. read_subject ds (dc_subject c) = Inr bodies \<and> dc_episode_ids c = Some (dlq_ingest bodies))"

lemma check_one_spec:
  assumes "fresh_client ds c" and "check_episode_on_dlq ds eid c = (r, c')"
  shows "r = as_res (case read_subject ds (dc_subject c) of Inl e \<Rightarrow> Inl e | Inr bodies \<Rightarrow> Inr (eid \<in> dlq_ingest bodies)) \<and>
    fresh_client ds c' \<and> dc_subject c' = dc_subject c"
  using assms by (auto simp: check_episode_on_dlq_def bind_def dlq_load_def fresh_client_def split: sum.splits if_splits)

lemma check_clients_spec:
  assumes "list_all (fresh_client ds) cs" and "check_clients ds eid cs = (r, cs')"
  shows "r = as_res (look_subjects ds eid (map dc_subject cs)) \<and> list_all (fresh_client ds) cs' \<and> map dc_subject cs' = map dc_subject cs"
  using assms
proof (induction cs arbitrary: r cs')
  case (Cons c cs)
  obtain r1 c1 where one: "check_episode_on_dlq ds eid c = (r1, c1)" by fastforce
  obtain r2 cs2 where rest: "check_clients ds eid cs = (r2, cs2)" by fastforce
  have fresh: "fresh_client ds c" "list_all (fresh_client ds) cs" using Cons.prems(1) by simp_all
  note c = check_one_spec [OF fresh(1) one] and cs = Cons.IH [OF fresh(2) rest]
  show ?case
  proof (cases "read_subject ds (dc_subject c)")
    case (Inl e)
    with c Cons.prems(2) one fresh(2) show ?thesis by auto
  next
    case (Inr bodies)
    with c cs Cons.prems(2) one rest fresh(2) show ?thesis by (cases "eid \<in> dlq_ingest bodies") auto
  qed
qed simp

text \<open>The specification: a key is accounted for when its record is stored or its episode is dead-lettered.\<close>

definition key_stored :: "prims \<Rightarrow> contents \<Rightarrow> string \<Rightarrow> bool" where
  "key_stored pr V nk \<longleftrightarrow> (\<exists>ns. namespace_for_key nk = Some ns \<and> V ns (record_identity pr nk) \<noteq> None)"

definition key_dead :: "prims \<Rightarrow> string set \<Rightarrow> string \<Rightarrow> bool" where
  "key_dead pr dead nk \<longleftrightarrow> namespace_for_key nk \<noteq> None \<and> derive_episode_id pr nk \<in> dead"

definition audit_spec :: "prims \<Rightarrow> contents \<Rightarrow> string set \<Rightarrow> string list \<Rightarrow> audit_result \<Rightarrow> audit_result" where
  "audit_spec pr V dead nks r =
     r\<lparr>stored_count := stored_count r + length (filter (key_stored pr V) nks),
       dlq_count := dlq_count r + length (filter (\<lambda>k. \<not> key_stored pr V k \<and> key_dead pr dead k) nks),
       unaccounted_episodes := unaccounted_episodes r @ filter (\<lambda>k. \<not> key_stored pr V k \<and> \<not> key_dead pr dead k) nks\<rparr>"

text \<open>Where the loop stops early: at the first key without a record whose letter cannot be looked for.\<close>

fun audit_error :: "prims \<Rightarrow> contents \<Rightarrow> (string \<Rightarrow> exn + bool) \<Rightarrow> string list \<Rightarrow> exn option" where
  "audit_error pr V look [] = None"
| "audit_error pr V look (nk # nks) =
     (if namespace_for_key nk \<noteq> None \<and> \<not> key_stored pr V nk
      then (case look (derive_episode_id pr nk) of Inl e \<Rightarrow> Some e | Inr b \<Rightarrow> audit_error pr V look nks)
      else audit_error pr V look nks)"

definition audit_end ::
  "prims \<Rightarrow> contents \<Rightarrow> (string \<Rightarrow> exn + bool) \<Rightarrow> string list \<Rightarrow> audit_result \<Rightarrow> audit_result res" where
  "audit_end pr V look nks r =
     (case audit_error pr V look nks of
        Some e \<Rightarrow> Exn e
      | None \<Rightarrow> Ok (audit_spec pr V {eid. look eid = Inr True} nks r))"

context lawful_store
begin

lemma audit_keys_spec:
  assumes "store_total st" and dlq: "\<And>eid w. I w \<Longrightarrow> \<exists>w'. on_dlq eid w = (as_res (look eid), w') \<and> view w' = view w \<and> I w'"
    and keep: "\<And>ns k w. I w \<Longrightarrow> I (snd (st_get st ns k w))" and "I w"
  shows "\<exists>w'. audit_keys pr st on_dlq nks r w = (audit_end pr (view w) look nks r, w') \<and> view w' = view w \<and> I w'"
  using \<open>I w\<close>
proof (induction nks arbitrary: r w)
  case Nil
  then show ?case by (simp add: audit_end_def audit_spec_def ret_def)
next
  case (Cons nk nks)
  let ?dead = "{eid. look eid = Inr True}"
  show ?case
  proof (cases "namespace_for_key nk")
    case None
    then have "\<not> key_stored pr (view w) nk" "\<not> key_dead pr ?dead nk" by (simp_all add: key_stored_def key_dead_def)
    then show ?thesis
      using Cons.IH [OF Cons.prems, of "r\<lparr>unaccounted_episodes := unaccounted_episodes r @ [nk]\<rparr>"] None
      by (cases "audit_error pr (view w) look nks") (simp_all add: audit_end_def audit_spec_def)
  next
    case (Some ns)
    obtain v w1 where g: "st_get st ns (record_identity pr nk) w = (Ok v, w1)" using store_totalD(1) [OF assms(1)] by blast
    with get_returns [OF g] keep [OF Cons.prems, of ns "record_identity pr nk"]
    have v: "v = view w ns (record_identity pr nk)" "view w1 = view w" "I w1" by simp_all
    show ?thesis
    proof (cases "v = None")
      case False
      then have "key_stored pr (view w) nk" using v Some by (simp add: key_stored_def)
      with Cons.IH [OF v(3), of "r\<lparr>stored_count := Suc (stored_count r)\<rparr>"] Some g False v(2) show ?thesis
        by (cases "audit_error pr (view w) look nks") (auto simp: audit_end_def audit_spec_def comp_simps)
    next
      case True
      then have ns: "\<not> key_stored pr (view w) nk" using v Some by (simp add: key_stored_def)
      obtain w2 where d: "on_dlq (derive_episode_id pr nk) w1 = (as_res (look (derive_episode_id pr nk)), w2)" "view w2 = view w" "I w2"
        using dlq [OF v(3), of "derive_episode_id pr nk"] v(2) by auto
      show ?thesis
      proof (cases "look (derive_episode_id pr nk)")
        case (Inl e)
        with Some g True ns d show ?thesis by (simp add: audit_end_def comp_simps)
      next
        case (Inr b)
        show ?thesis
        proof (cases b)
          case in_dead: True
          with Some Inr have "key_dead pr ?dead nk" by (simp add: key_dead_def)
          with Cons.IH [OF d(3), of "r\<lparr>dlq_count := Suc (dlq_count r)\<rparr>"] Some g True ns d in_dead Inr show ?thesis
            by (cases "audit_error pr (view w) look nks") (simp_all add: audit_end_def audit_spec_def comp_simps)
        next
          case out: False
          with Inr have "\<not> key_dead pr ?dead nk" by (simp add: key_dead_def)
          with Cons.IH [OF d(3), of "r\<lparr>unaccounted_episodes := unaccounted_episodes r @ [nk]\<rparr>"] Some g True ns d out Inr show ?thesis
            by (cases "audit_error pr (view w) look nks") (simp_all add: audit_end_def audit_spec_def comp_simps)
        qed
      qed
    qed
  qed
qed

end

lemma audit_error_raises:
  "audit_error pr V look nks = Some e \<Longrightarrow>
   \<exists>nk \<in> set nks. namespace_for_key nk \<noteq> None \<and> \<not> key_stored pr V nk \<and> look (derive_episode_id pr nk) = Inl e"
  by (induction nks) (auto split: sum.splits if_splits)

lemma audit_error_none:
  "audit_error pr V look nks = None \<longleftrightarrow>
   (\<forall>nk \<in> set nks. namespace_for_key nk \<noteq> None \<and> \<not> key_stored pr V nk \<longrightarrow> (\<exists>b. look (derive_episode_id pr nk) = Inr b))"
  by (induction nks) (auto split: sum.splits)

definition dlq_subjects :: "string \<Rightarrow> string list \<Rightarrow> string list" where
  "dlq_subjects dlq_subj keys = map (\<lambda>prj. dlq_subj @ ''.'' @ prj) (audit_projects keys)"

text \<open>The episodes with a letter on a subject of the report's projects that could be read.\<close>

definition dead_ids :: "dlq_stream \<Rightarrow> string list \<Rightarrow> string set" where
  "dead_ids ds subjs = {eid. \<exists>subj \<in> set subjs. \<exists>bodies. read_subject ds subj = Inr bodies \<and> eid \<in> dlq_ingest bodies}"

lemma multi_dlq_spec:
  assumes "list_all (fresh_client ds) (w_broker w)" and "map dc_subject (w_broker w) = subjects"
  shows "\<exists>w'. multi_dlq ds eid w = (as_res (look_subjects ds eid subjects), w') \<and> w_store w' = w_store w \<and>
    list_all (fresh_client ds) (w_broker w') \<and> map dc_subject (w_broker w') = subjects"
proof -
  obtain r cs where c: "check_clients ds eid (w_broker w) = (r, cs)" by fastforce
  from check_clients_spec [OF assms(1) c] c assms(2) show ?thesis by (simp add: multi_dlq_def on_broker_def)
qed

definition empty_audit :: "string list \<Rightarrow> audit_result" where
  "empty_audit keys = \<lparr>total_published = length keys, stored_count = 0, dlq_count = 0, unaccounted_episodes = []\<rparr>"

lemma audit_returns:
  assumes "lawful_store st view rank window" and "store_total st"
  shows "\<exists>w'. audit_published_episodes pr (world_store st) (multi_dlq ds) keys (audit_world subj keys s) =
    (audit_end pr (view s) (\<lambda>eid. look_subjects ds eid (dlq_subjects subj keys)) keys (empty_audit keys), w') \<and> view (w_store w') = view s"
proof -
  let ?subjects = "dlq_subjects subj keys"
  let ?I = "\<lambda>w. list_all (fresh_client ds) (w_broker w) \<and> map dc_subject (w_broker w) = ?subjects"
  have broker: "w_broker (snd (st_get (world_store st) ns k w)) = w_broker w" for ns k w
    by (simp add: world_store_def on_store_def split: prod.splits)
  have start: "?I (audit_world subj keys s)"
    by (simp add: audit_world_def list_all_iff make_dlq_client_def fresh_client_def comp_def dlq_subjects_def)
  have dlq: "\<exists>w'. multi_dlq ds eid w = (as_res (look_subjects ds eid ?subjects), w') \<and> view (w_store w') = view (w_store w) \<and> ?I w'"
    if "?I w" for eid w
    using multi_dlq_spec [of ds w ?subjects eid] that by auto
  have keep: "?I (snd (st_get (world_store st) ns k w))" if "?I w" for ns k w using that by (simp only: broker)
  have "view (w_store (audit_world subj keys s)) = view s" by (simp add: audit_world_def)
  with lawful_store.audit_keys_spec [OF lawful_store.lawful_world [OF assms(1)] world_store_total [OF assms(2)],
      where I = ?I and look = "\<lambda>eid. look_subjects ds eid ?subjects" and on_dlq = "multi_dlq ds", OF dlq keep start]
  show ?thesis unfolding audit_published_episodes_def empty_audit_def by metis
qed

lemma filter_split3:
  "length (filter P xs) + length (filter (\<lambda>x. \<not> P x \<and> Q x) xs) + length (filter (\<lambda>x. \<not> P x \<and> \<not> Q x) xs) = length xs"
  by (induction xs) auto

definition unaccounted_keys :: "prims \<Rightarrow> contents \<Rightarrow> string set \<Rightarrow> string list \<Rightarrow> string list" where
  "unaccounted_keys pr V dead keys = filter (\<lambda>k. \<not> key_stored pr V k \<and> \<not> key_dead pr dead k) keys"

text \<open>A finished audit judged each key by the letters of the readable subjects.\<close>

lemma audit_spec_dead:
  assumes "audit_error pr V (\<lambda>eid. look_subjects ds eid subjs) nks = None"
  shows "audit_spec pr V {eid. look_subjects ds eid subjs = Inr True} nks r = audit_spec pr V (dead_ids ds subjs) nks r"
proof -
  have "key_dead pr {eid. look_subjects ds eid subjs = Inr True} nk \<longleftrightarrow> key_dead pr (dead_ids ds subjs) nk"
    if nk: "nk \<in> set nks" "\<not> key_stored pr V nk" for nk
  proof (cases "namespace_for_key nk = None")
    case False
    with assms nk obtain b where b: "look_subjects ds (derive_episode_id pr nk) subjs = Inr b"
      unfolding audit_error_none by blast
    from look_subjects_found [OF this] b False show ?thesis by (simp add: key_dead_def dead_ids_def)
  qed (simp add: key_dead_def)
  then have "filter (\<lambda>k. \<not> key_stored pr V k \<and> key_dead pr {eid. look_subjects ds eid subjs = Inr True} k) nks
      = filter (\<lambda>k. \<not> key_stored pr V k \<and> key_dead pr (dead_ids ds subjs) k) nks"
    "filter (\<lambda>k. \<not> key_stored pr V k \<and> \<not> key_dead pr {eid. look_subjects ds eid subjs = Inr True} k) nks
      = filter (\<lambda>k. \<not> key_stored pr V k \<and> \<not> key_dead pr (dead_ids ds subjs) k) nks"
    by (auto intro!: filter_cong)
  then show ?thesis unfolding audit_spec_def by simp
qed


lemma report_read_back: "report_keys (to_json_dict r) = Inr (published_natural_keys r)"
  by (simp add: report_keys_def to_json_dict_def list_all_iff str_of_def comp_def)

lemma report_text_reads_back:
  assumes "distinct (map fst (per_kind_counts r))"
  shows "loads (report_text r) = Some (JObj (to_json_dict r))"
  unfolding report_text_def
proof (rule loads_json_text)
  show "json_ok (JObj (to_json_dict r))"
    using assms by (auto simp: to_json_dict_def report_line_def list_all_iff comp_def case_prod_beta')
qed (simp add: blank_def is_ws_def)

text \<open>The audit of a report file finds the keys the run published.\<close>

lemma report_file_keys:
  assumes "distinct (map fst (per_kind_counts r))"
  shows "\<exists>d. loads (report_text r) = Some (JObj d) \<and> report_keys d = Inr (published_natural_keys r)"
  using report_text_reads_back [OF assms] report_read_back by blast

subsection \<open>From the relay to the audit\<close>

lemma write_spec_present:
  assumes "\<And>v. V (payload_namespace p) (payload_key pr p) = Some v \<Longrightarrow>
      v ''content_hash'' \<noteq> Some (JStr (content_hash pr p)) \<Longrightarrow> \<exists>n. next_version pr v = Inr n"
  shows "write_spec pr fw p meta V (payload_namespace p) (payload_key pr p) \<noteq> None"
  using assms by (auto simp: write_spec_def marks_spec_at upsert_spec_def Let_def split: option.splits sum.splits)

lemma natural_key_namespace: "payload_ok p \<Longrightarrow> namespace_for_key (natural_key p) = Some (payload_namespace p)"
  by (simp add: namespace_for_key_def split_natural_key payload_namespace_def)

lemma ingested_key_stored:
  assumes "lawful_store (s_store sv) view rank window" and "episode_payload sv e = Inr p" and "e_content_format e = ''json''"
    and "payload_ok p" and "ingest sv e s = (Ok (), s')"
  shows "key_stored (s_prims sv) (view s') (natural_key p)"
proof -
  from assms(2,3,5) have "writer_write (s_prims sv) (s_store sv) (s_forward_fuel sv) p (Some (make_episode_meta e)) s = (Ok (), s')"
    by (simp add: ingest_Ok route_episode_def ingest_json_def)
  from lawful_store.write_returns [OF assms(1) this] obtain fw where
    "\<And>v. view s (payload_namespace p) (payload_key (s_prims sv) p) = Some v \<Longrightarrow>
      v ''content_hash'' \<noteq> Some (JStr (content_hash (s_prims sv) p)) \<Longrightarrow> \<exists>n. next_version (s_prims sv) v = Inr n"
    and "view s' = write_spec (s_prims sv) fw p (Some (make_episode_meta e)) (view s)" by blast
  with write_spec_present [of "view s" p "s_prims sv" fw] have "view s' (payload_namespace p) (payload_key (s_prims sv) p) \<noteq> None" by auto
  then show ?thesis using natural_key_namespace [OF assms(4)] by (simp add: key_stored_def payload_key_def)
qed

lemma letter_is_dead:
  assumes "loads data = Some (JObj l)" and "dict_get l ''episode_id'' = Some (JStr (derive_episode_id pr nk))" and "data \<in> set payloads"
  shows "derive_episode_id pr nk \<in> dlq_ingest payloads"
proof -
  have "parse_episode_id data = Some (derive_episode_id pr nk)"
    using assms(1,2) by (simp add: parse_episode_id_def json_get_def str_json_def Let_def derive_episode_id_def)
  then show ?thesis using assms(3) by (force simp: dlq_ingest_def map_filter_def)
qed

text \<open>
  C10: What the relay settles, the audit accounts for: when the handler has acknowledged or rejected
  the episode of a published payload, its natural key has a record in the store, or its episode id is
  among the letters of its project's dead-letter subject.
\<close>

theorem settled_episode_is_accounted:
  assumes "lawful_store (s_store sv) view rank window" and "dead_letters pub letters" and "pydantic_dump (s_pydantic sv)"
    and "payload_init (s_pydantic sv) (p_class p) d = Inr p" and "registered (payload_type (p_class p))"
    and "reads_envelope e (build_envelope (s_prims sv) p)"
    and "handle_memory_episode cfg pub sv e md w = (Ok disp, w')" and "disp \<noteq> Naked"
    and "\<forall>(l, subj) \<in> letters (w_broker w'). \<exists>data \<in> set (drain subj). loads data = Some (JObj l)"
  shows "key_stored (s_prims sv) (view (w_store w')) (natural_key p) \<or>
    derive_episode_id (s_prims sv) (natural_key p) \<in> dlq_ingest (drain (dlq_subject cfg @ ''.'' @ p_project p))"
proof -
  note env = envelope_fields [OF assms(6)]
  have ok: "payload_ok p" using pydantic_model.init_ok [OF pydantic_dump.axioms(1) [OF assms(3)] assms(4)] by simp
  from handle_cases [OF assms(7)] assms(8) consider "ingest sv e (w_store w) = (Ok (), w_store w')"
    | r dt extra b where "pub (dlq_payload e r dt @ extra) (dlq_subject cfg @ ''.'' @ e_project_id e) b = (Ok (), w_broker w')" by blast
  then show ?thesis
  proof cases
    case 1
    then show ?thesis using ingested_key_stored [OF assms(1) relay_reads_payload [OF assms(3-6)] env(3) ok] by blast
  next
    case 2
    have "(dlq_payload e r dt @ extra, dlq_subject cfg @ ''.'' @ p_project p) \<in> letters (w_broker w')"
      using dead_letters.pub_ok [OF assms(2) 2] env(2) by simp
    with assms(9) obtain data where "data \<in> set (drain (dlq_subject cfg @ ''.'' @ p_project p))"
      "loads data = Some (JObj (dlq_payload e r dt @ extra))" by blast
    from letter_is_dead [OF this(2) _ this(1), of "s_prims sv" "natural_key p"] show ?thesis by (simp add: dlq_payload_id env(1))
  qed
qed

subsection \<open>Backfill\<close>

text \<open>
  Nothing unreviewed is published: a backfill run does to the stream exactly what a run over the
  files with a review marker does. The number it prints as published, however, counts every file.
\<close>

theorem backfill_only_reviewed:
  assumes "run_backfill lib active ps n w = (Ok k, w')"
  shows "run_backfill lib active (filter (has_review_marker (b_fs lib)) ps) n w =
      (Ok (n + length (filter (has_review_marker (b_fs lib)) ps)), w') \<and> k = n + length ps"
proof -
  have "\<forall>m. run_backfill lib active (filter (has_review_marker (b_fs lib)) ps) m w =
      (Ok (m + length (filter (has_review_marker (b_fs lib)) ps)), w') \<and> k = n + length ps"
    using assms
  proof (induction ps arbitrary: n w)
    case Nil
    then show ?case by (simp add: ret_def)
  next
    case (Cons p ps)
    then obtain w1 where one: "process_backfill_payload (b_prims lib) (b_fs lib) (b_json_error lib) (b_pydantic lib) active p w = (Ok (), w1)"
      and rest: "run_backfill lib active ps (Suc n) w1 = (Ok k, w')" by (auto simp: bind_Ok_iff)
    have "\<not> has_review_marker (b_fs lib) p \<Longrightarrow> w1 = w" using one by (simp add: process_backfill_payload_def ret_def)
    with Cons.IH [OF rest] one show ?case by (auto simp: comp_simps)
  qed
  then show ?thesis by blast
qed

subsection \<open>Witnesses\<close>

definition sample_corpus_lib :: corpus_lib where
  "sample_corpus_lib =
     \<lparr>b_prims = sample_prims, b_fs = sample_fs, b_yaml = sample_yaml, b_yaml_error = id, b_pydantic = schema_init, b_json_error = id\<rparr>"

definition two_candidates :: "candidate list" where
  "two_candidates =
     [\<lparr>ca_path = ''a/x.md'', ca_title = Some ''t'', ca_payload = sample_outcome, ca_kind = ''build_outcome''\<rparr>,
      \<lparr>ca_path = ''a/b/x.md'', ca_title = Some ''t'', ca_payload = sample_outcome, ca_kind = ''build_outcome''\<rparr>]"

theorem collisions_settled_witness:
  "\<exists>ws sk. resolve_collisions two_candidates [] = (ws, sk) \<and> length ws + length sk = 2 \<and> distinct (map cand_ident ws)"
proof -
  obtain ws sk where r: "resolve_collisions two_candidates [] = (ws, sk)" by fastforce
  from collisions_settled [OF r] r show ?thesis by (simp add: two_candidates_def)
qed

text \<open>A census of the sample checkout: no store, no publisher.\<close>

definition task_outcome :: payload where
  "task_outcome =
     \<lparr>p_class = BuildOutcomePayload, p_project = ''guardkit'', p_identifier = ''TASK_1_7'',
      p_domain_tags = [''task'', ''fm-status:Completed''], p_source_ref = ''tasks/completed/T.md'', p_version = 1, p_supersedes = [],
      p_fields = [(''status'', JStr ''success''), (''duration_seconds'', JInt 0), (''task_id'', JStr ''TASK_1_7''),
        (''lessons'', JStr ''measure twice''), (''approach'', JNull)]\<rparr>"

definition task_outcome_data :: "(string \<times> json) list" where
  "task_outcome_data = task_data ''TASK_1_7'' (Some ''measure twice'') [''task'', ''fm-status:Completed''] ''tasks/completed/T.md''"

lemma task_sanitized: "sanitize_identifier ''TASK-1.7'' = ''TASK_1_7''" "extract_lessons task_text = Some ''measure twice''"
  by code_simp+

lemma task_outcome_init: "payload_init schema_init BuildOutcomePayload task_outcome_data = Inr task_outcome"
  using schema.task_init [OF task_schema [of "sanitize_identifier ''TASK-1.7''"]]
  unfolding task_sanitized(1) task_outcome_data_def task_outcome_def by (simp add: opt_str_def)

lemma census_winners:
  "publish_winners pr None None cs ps = ret (fold (\<lambda>c. count_published c (ca_payload c, None)) cs ps)"
  by (induction cs arbitrary: ps) (simp_all add: publish_one_def)

lemma sample_census:
  "\<exists>r. reindex_corpus sample_corpus_lib [''repo''] sample_manifest None None s = (Ok r, s) \<and> published_count r = 1"
proof -
  obtain p fm raw where p: "parse_completed_task sample_fs sample_yaml id schema_init task_doc [''repo''] (Some task_front)
      = Inr (ParsedPayload p (d_path task_doc))"
    using publishable_parses [OF schema.pydantic_model_axioms _ task_classified, of id] task_schema
    by (fastforce simp: publishable_def)
  have roots: "reindex_roots sample_manifest = [''tasks/completed'']" by (simp add: sample_manifest_defs reindex_roots_def)
  have "relative_path sample_fs (d_path task_doc) [''repo''] = Inr ''tasks/completed/T.md''"
    by (simp add: relative_path_def task_relative)
  moreover define sc where "sc = \<lparr>sc_skipped = [], sc_unparseable = [], sc_candidates = [\<lparr>ca_path = ''tasks/completed/T.md'',
    ca_title = title_of (Some task_front), ca_payload = p, ca_kind = ''build_outcome''\<rparr>]\<rparr>"
  ultimately have "scan_documents sample_corpus_lib sample_manifest [''repo''] [task_doc]
      \<lparr>sc_skipped = [], sc_unparseable = [], sc_candidates = []\<rparr> = Inr sc"
    using p by (simp add: sample_corpus_lib_def scan_document_def task_classified)
  moreover have "resolve_collisions (sc_candidates sc) (sc_skipped sc) = (sc_candidates sc, [])"
    by (simp add: sc_def resolve_collisions_def group_by_identifier_def Let_def dict_set_def)
  moreover have "walk_roots (b_fs sample_corpus_lib) [''repo''] (reindex_roots sample_manifest) = Inr [task_doc]"
    by (simp add: sample_corpus_lib_def roots sample_walk)
  ultimately show ?thesis
    by (simp add: reindex_corpus_def census_winners comp_simps make_report_def) (simp add: sc_def count_published_def)
qed

theorem run_accounted_witness:
  "\<exists>r. reindex_corpus sample_corpus_lib [''repo''] sample_manifest None None () = (Ok r, ()) \<and> published_count r = 1 \<and>
     walked_count r = 1 + skipped_count r + unparseable_count r"
proof -
  obtain r where r: "reindex_corpus sample_corpus_lib [''repo''] sample_manifest None None () = (Ok r, ())" "published_count r = 1"
    using sample_census [of "()"] by metis
  have "pydantic_model (b_pydantic sample_corpus_lib)" by (simp add: sample_corpus_lib_def schema.pydantic_model_axioms)
  from run_accounted [OF this r(1)] r show ?thesis by auto
qed

definition task_episode :: episode where
  "task_episode = sample_episode\<lparr>e_id := derive_episode_id sample_prims (natural_key task_outcome), e_project_id := ''guardkit'',
     e_episode_type := ''build_outcome'', e_content_format := ''json'', e_body := envelope_body task_outcome,
     e_payload_type := Some ''build_outcome'', e_source_ref := Some ''tasks/completed/T.md''\<rparr>"

lemma task_outcome_class: "p_class task_outcome = BuildOutcomePayload" "registered (payload_type (p_class task_outcome))"
  by (simp_all add: task_outcome_def registered_code)

lemma task_reads: "reads_envelope task_episode (build_envelope sample_prims task_outcome)"
  by (simp add: reads_envelope_def build_envelope_def task_episode_def opt_str_def) (simp add: task_outcome_def)

lemma sample_service_dump: "pydantic_dump (s_pydantic sample_service)"
  "payload_init (s_pydantic sample_service) (p_class task_outcome) task_outcome_data = Inr task_outcome"
  by (simp_all add: sample_service_def schema_dump.pydantic_dump_axioms task_outcome_class task_outcome_init)

theorem published_payload_round_trip_witness: "episode_payload sample_service task_episode = Inr task_outcome"
  using published_payload_round_trip [OF sample_service_dump task_outcome_class(2) task_reads] by blast

lemma task_writable: "writable task_outcome"
  by (simp add: writable_def payload_ok_def task_outcome_def registered_code natural_key_def full_class_def char_class_defs)

definition task_stored :: stored where
  "task_stored = [''content'' \<mapsto> JStr (dumps (JObj (model_dump task_outcome))), ''content_hash'' \<mapsto> JStr (content_hash sample_prims task_outcome)]"

definition task_store :: mem_store where
  "task_store = [((payload_namespace task_outcome, payload_key sample_prims task_outcome), task_stored)]"

theorem lessons_survive_witness:
  "\<exists>s1. preserve_existing_lessons sample_prims (mem_api no_score) (with_lessons task_outcome JNull) task_store = (Ok task_outcome, s1)"
proof -
  have "dict_get (p_fields task_outcome) ''lessons'' = Some (JStr ''measure twice'')" "p_supersedes task_outcome = []"
    by (simp_all add: task_outcome_def)
  moreover have "mem_view task_store (payload_namespace task_outcome) (payload_key sample_prims task_outcome) = Some task_stored"
    by (simp add: mem_view_def task_store_def)
  ultimately show ?thesis
    using lessons_survive [OF schema_dump.pydantic_dump_axioms mem.lawful_store_axioms mem_api_store_total task_outcome_init task_writable,
        where l = "JStr ''measure twice''" and v = task_stored and s = task_store and pr = sample_prims]
    by (simp add: task_stored_def) blast
qed

definition sample_reindex_settings :: reindex_settings where
  "sample_reindex_settings =
     \<lparr>rs_corpus_manifest = Some ''m.json'', rs_publish_nats_url = Some ''nats'', rs_corpus_root = [''repo''], rs_backfill_dir = [''bf''],
      rs_dlq_subject = ''memory.dlq''\<rparr>"

definition lost_report :: "(string \<times> json) list" where
  "lost_report = [(''published_natural_keys'', JList [JStr ''build_outcome:guardkit:T1''])]"

text \<open>A broker that answers with no letters, and one that refuses the connection.\<close>

definition empty_stream :: dlq_stream where
  "empty_stream = \<lparr>ds_connect = (\<lambda>_. None), ds_subscribe = (\<lambda>_. None), ds_messages = (\<lambda>_. ([], None)),
     ds_unsubscribe = (\<lambda>_. None), ds_close = (\<lambda>_. None)\<rparr>"

definition refusing_stream :: dlq_stream where
  "refusing_stream = empty_stream\<lparr>ds_connect := (\<lambda>_. Some (ConnectionError ''refused''))\<rparr>"


theorem settled_episode_is_accounted_witness:
  "\<exists>w'. handle_memory_episode \<lparr>max_deliver = 3, dlq_subject = ''memory.dlq''\<rparr> list_publish sample_service task_episode (Some 1)
      \<lparr>w_store = [], w_broker = [], w_marks = []\<rparr> = (Ok Acked, w') \<and>
    key_stored sample_prims (mem_view (w_store w')) (natural_key task_outcome)"
proof -
  let ?cfg = "\<lparr>max_deliver = 3, dlq_subject = ''memory.dlq''\<rparr>" and ?w = "\<lparr>w_store = [], w_broker = [], w_marks = []\<rparr> :: (mem_store, letter list) world"
  obtain s1 where "writer_write sample_prims (mem_api no_score) 1 task_outcome (Some (make_episode_meta task_episode)) [] = (Ok (), s1)"
    using mem_write_step [OF contents_wf_empty task_writable, of 1 sample_prims no_score] by (auto simp: FORWARD_PAGE_def)
  moreover have "episode_payload sample_service task_episode = Inr task_outcome"
    by (rule relay_reads_payload [OF sample_service_dump task_outcome_class(2) task_reads])
  moreover have "e_content_format task_episode = ''json''" by (simp add: task_episode_def)
  ultimately have ing: "ingest sample_service task_episode [] = (Ok (), s1)"
    by (simp add: ingest_Ok route_episode_def ingest_json_def) (simp add: sample_service_def)
  let ?w' = "\<lparr>w_store = s1, w_broker = [], w_marks = [''ingest'']\<rparr> :: (mem_store, letter list) world"
  have h: "handle_memory_episode ?cfg list_publish sample_service task_episode (Some 1) ?w = (Ok Acked, ?w')"
    by (simp add: handle_memory_episode_def on_store_def ing comp_simps record_mark_def)
  have prims: "s_prims sample_service = sample_prims" "s_store sample_service = mem_api no_score" by (simp_all add: sample_service_def)
  have "lawful_store (s_store sample_service) mem_view (mem_rank no_score) mem_window" by (simp add: prims mem.lawful_store_axioms)
  from settled_episode_is_accounted [where drain = "\<lambda>subj. []" and p = task_outcome, OF this list_broker.dead_letters_axioms sample_service_dump
      task_outcome_class(2) _ h] task_reads
  have "key_stored sample_prims (mem_view s1) (natural_key task_outcome)" by (simp add: prims dlq_ingest_def map_filter_def)
  with h show ?thesis by auto
qed

theorem backfill_only_reviewed_witness:
  "\<exists>w'. run_backfill (sample_corpus_lib\<lparr>b_fs := sample_fs\<lparr>f_exists := \<lambda>p. False\<rparr>\<rparr>) (None :: unit reindex_publisher option)
      [[''bf'', ''ADR_1.json'']] 0 () = (Ok 1, w')"
proof -
  let ?lib = "sample_corpus_lib\<lparr>b_fs := sample_fs\<lparr>f_exists := \<lambda>p. False\<rparr>\<rparr>"
  have "run_backfill ?lib (None :: unit reindex_publisher option) [[''bf'', ''ADR_1.json'']] 0 () = (Ok 1, ())"
    by (simp add: process_backfill_payload_def has_review_marker_def ret_def)
  from backfill_only_reviewed [OF this] this show ?thesis by blast
qed

end
