(* ===== verification/Fence.thy ===== *)
theory Fence
  imports Store_Api
begin

text \<open>
  The liveness fence (\<open>fence/\<close>): the relay's progress marker (\<open>marker.py\<close>), the build receipts
  (\<open>builds.py\<close>), the freshness facts of the store (\<open>store_age.py\<close>), the dated acknowledgement
  (\<open>ack.py\<close>) and the decision table over them (\<open>check.py\<close>), with its report and exit code
  (\<open>__init__.py\<close>, \<open>__main__.py\<close>). The theorems say when the fence is allowed to report that
  memory is alive.
\<close>

subsection \<open>Time\<close>

text \<open>
  An aware datetime is the number of microseconds since the epoch, a date its ordinal. Formatting
  and parsing of the ISO forms and the local time zone are arguments; \<open>iso\<close> is
  \<open>datetime.isoformat\<close>, \<open>date_iso\<close> that of dates, \<open>hours2\<close> the literal of a duration in
  hours rounded to two digits. The dash of the messages is written as its three UTF-8 bytes.
\<close>

record calendar =
  iso :: "int \<Rightarrow> string"
  from_iso :: "string \<Rightarrow> int option"
  date_iso :: "int \<Rightarrow> string"
  date_from_iso :: "string \<Rightarrow> int option"
  local_to_utc :: "int list \<Rightarrow> int"
  hours2 :: "int \<Rightarrow> string"

definition second :: int where "second = 1000000"
definition minute :: int where "minute = 60 * second"
definition hour :: int where "hour = 60 * minute"
definition day :: int where "day = 24 * hour"

definition dash :: string where "dash = [CHR 0xE2, CHR 0x80, CHR 0x94]"

definition quoted :: "string \<Rightarrow> string" where "quoted s = [CHR 0x27] @ s @ [CHR 0x27]"

definition opt_json :: "('a \<Rightarrow> string) \<Rightarrow> 'a option \<Rightarrow> json" where
  "opt_json f x = (case x of None \<Rightarrow> JNull | Some v \<Rightarrow> JStr (f v))"

text \<open>
  Reading a file that should hold JSON: it is missing, cannot be read, its bytes are no UTF-8 (with the
  decoder's message), or its text is (no) JSON.
\<close>

datatype file_read = NotFound | OSErr string | NotUtf8 string | Content "json option"

subsection \<open>The progress marker\<close>

record marker_state =
  started_at :: "int option"
  last_message_at :: "int option"
  last_ingest_at :: "int option"
  messages_since_start :: int
  ingests_since_start :: int
  last_disposition :: "string option"

record marker_read =
  mk_state :: "marker_state option"
  mk_problem :: "string option"
  mk_path :: string

definition marker_blind :: "marker_read \<Rightarrow> bool" where
  "marker_blind m \<longleftrightarrow> mk_state m = None"

definition replace_Z :: "string \<Rightarrow> string" where
  "replace_Z s = concat (map (\<lambda>c. if c = CHR ''Z'' then ''+00:00'' else [c]) s)"

definition parse_iso :: "calendar \<Rightarrow> json \<Rightarrow> int option" where
  "parse_iso cal v = (case v of JStr s \<Rightarrow> if s = [] then None else from_iso cal (replace_Z s) | _ \<Rightarrow> None)"

text \<open>
  \<open>int(value)\<close>, zero when it raises \<open>TypeError\<close> or \<open>ValueError\<close>. Texts follow the integer
  syntax; \<open>float_int\<close> is \<open>int\<close> of a float, which raises for the floats that are not finite.
\<close>

definition digits_int :: "string \<Rightarrow> int option" where
  "digits_int s =
     (let t = strip s;
          body = (case t of c # cs \<Rightarrow> if c = CHR ''-'' \<or> c = CHR ''+'' then cs else t | [] \<Rightarrow> t);
          parts = split_on CHR ''_'' body
      in if list_all (full_class is_digit) parts
         then Some ((if t \<noteq> [] \<and> hd t = CHR ''-'' then - 1 else 1) * int (nat_of_digits (concat parts)))
         else None)"

definition int_or_zero :: "(string \<Rightarrow> exn + int) \<Rightarrow> json \<Rightarrow> exn + int" where
  "int_or_zero float_int v =
     (case v of
        JInt i \<Rightarrow> Inr i
      | JBool b \<Rightarrow> Inr (if b then 1 else 0)
      | JFloat l \<Rightarrow>
          (case float_int l of
             Inr i \<Rightarrow> Inr i
           | Inl e \<Rightarrow> if is_ValueError e \<or> (case e of TypeError m \<Rightarrow> True | _ \<Rightarrow> False) then Inr 0 else Inl e)
      | JStr s \<Rightarrow> Inr (case digits_int s of None \<Rightarrow> 0 | Some i \<Rightarrow> i)
      | _ \<Rightarrow> Inr 0)"

definition marker_problem :: "string \<Rightarrow> string \<Rightarrow> marker_read" where
  "marker_problem path m = \<lparr>mk_state = None, mk_problem = Some m, mk_path = path\<rparr>"

definition read_state :: "calendar \<Rightarrow> (string \<Rightarrow> exn + int) \<Rightarrow> (string \<times> json) list \<Rightarrow> int \<Rightarrow> exn + marker_state" where
  "read_state cal float_int data t =
     (case int_or_zero float_int (json_get data ''messages_since_start'') of
        Inl e \<Rightarrow> Inl e
      | Inr messages \<Rightarrow>
          (case int_or_zero float_int (json_get data ''ingests_since_start'') of
             Inl e \<Rightarrow> Inl e
           | Inr ingests \<Rightarrow>
               Inr \<lparr>started_at = Some t,
                    last_message_at = parse_iso cal (json_get data ''last_message_at''),
                    last_ingest_at = parse_iso cal (json_get data ''last_ingest_at''),
                    messages_since_start = messages, ingests_since_start = ingests,
                    last_disposition = (case json_get data ''last_disposition'' of JStr s \<Rightarrow> Some s | _ \<Rightarrow> None)\<rparr>))"

text \<open>
  The read catches \<open>OSError\<close> and the JSON decoder's error; the error of the UTF-8 decoder is neither
  and leaves the function.
\<close>

definition read_marker :: "calendar \<Rightarrow> (string \<Rightarrow> exn + int) \<Rightarrow> string \<Rightarrow> file_read \<Rightarrow> exn + marker_read" where
  "read_marker cal float_int path f =
     (case f of
        NotFound \<Rightarrow> Inr (marker_problem path
          ''the relay has not written one yet; either it has not been rebuilt with the fence, or its state directory is not mounted'')
      | OSErr e \<Rightarrow> Inr (marker_problem path (''the progress marker cannot be read ('' @ e @ '')''))
      | NotUtf8 e \<Rightarrow> Inl (UnicodeDecodeError e)
      | Content None \<Rightarrow> Inr (marker_problem path ''the progress marker is not readable JSON (truncated or corrupt)'')
      | Content (Some (JObj data)) \<Rightarrow>
          (case parse_iso cal (json_get data ''started_at'') of
             None \<Rightarrow> Inr (marker_problem path
               (''the progress marker carries no start time, so the relay'' @ [CHR 0x27] @ ''s state is unknown''))
           | Some t \<Rightarrow>
               (case read_state cal float_int data t of
                  Inl e \<Rightarrow> Inl e
                | Inr st \<Rightarrow> Inr \<lparr>mk_state = Some st, mk_problem = None, mk_path = path\<rparr>))
      | Content (Some v) \<Rightarrow> Inr (marker_problem path ''the progress marker is not in the expected shape''))"

text \<open>
  The writer's side: the fields of \<open>RelayMarker\<close>, with stamps as the texts it writes. A write
  replaces the file or, when the file system refuses, leaves it; either way the method returns.
\<close>

record relay_marker =
  m_started_at :: "string option"
  m_last_message_at :: "string option"
  m_last_ingest_at :: "string option"
  m_last_disposition :: "string option"
  m_messages :: nat
  m_ingests :: nat

definition marker_payload :: "relay_marker \<Rightarrow> (string \<times> json) list" where
  "marker_payload m =
     [(''schema'', JInt 1), (''started_at'', opt_json id (m_started_at m)),
      (''last_message_at'', opt_json id (m_last_message_at m)), (''last_ingest_at'', opt_json id (m_last_ingest_at m)),
      (''messages_since_start'', JInt (int (m_messages m))), (''ingests_since_start'', JInt (int (m_ingests m))),
      (''last_disposition'', opt_json id (m_last_disposition m))]"

definition marker_write :: "bool \<Rightarrow> relay_marker \<Rightarrow> file_read \<Rightarrow> file_read" where
  "marker_write writable_dir m f = (if writable_dir then Content (Some (JObj (marker_payload m))) else f)"

text \<open>\<open>stamp\<close> is \<open>strftime("%Y-%m-%dT%H:%M:%SZ")\<close>.\<close>

definition record_start ::
  "calendar \<Rightarrow> (string \<Rightarrow> exn + int) \<Rightarrow> (int \<Rightarrow> string) \<Rightarrow> int \<Rightarrow> bool \<Rightarrow> relay_marker \<times> file_read \<Rightarrow>
   exn + relay_marker \<times> file_read" where
  "record_start cal float_int stamp now ok mf =
     (case mf of (m, f) \<Rightarrow>
        (case read_marker cal float_int [] f of
           Inl e \<Rightarrow> Inl e
         | Inr rd \<Rightarrow>
             (let m1 = (case mk_state rd of
                          None \<Rightarrow> m
                        | Some prior \<Rightarrow> m\<lparr>m_last_message_at := map_option stamp (last_message_at prior),
                                          m_last_ingest_at := map_option stamp (last_ingest_at prior),
                                          m_last_disposition := last_disposition prior\<rparr>);
                  m2 = m1\<lparr>m_started_at := Some (stamp now), m_messages := 0, m_ingests := 0\<rparr>
              in Inr (m2, marker_write ok m2 f))))"

definition record_ingest :: "(int \<Rightarrow> string) \<Rightarrow> int \<Rightarrow> bool \<Rightarrow> relay_marker \<times> file_read \<Rightarrow> relay_marker \<times> file_read" where
  "record_ingest stamp now ok mf =
     (case mf of (m, f) \<Rightarrow>
        (let m' = m\<lparr>m_ingests := Suc (m_ingests m), m_messages := Suc (m_messages m),
                   m_last_ingest_at := Some (stamp now), m_last_message_at := Some (stamp now),
                   m_last_disposition := Some ''ack''\<rparr>
         in (m', marker_write ok m' f)))"

definition record_message ::
  "(int \<Rightarrow> string) \<Rightarrow> int \<Rightarrow> string \<Rightarrow> bool \<Rightarrow> relay_marker \<times> file_read \<Rightarrow> relay_marker \<times> file_read" where
  "record_message stamp now disposition ok mf =
     (case mf of (m, f) \<Rightarrow>
        (let m' = m\<lparr>m_messages := Suc (m_messages m), m_last_message_at := Some (stamp now),
                   m_last_disposition := Some disposition\<rparr>
         in (m', marker_write ok m' f)))"

subsection \<open>Build receipts\<close>

record build_receipt =
  b_name :: string
  b_feature :: string
  b_finished_at :: int
  b_skewed :: bool

record build_scan =
  bs_receipts :: "build_receipt list"
  bs_malformed :: "string list"
  bs_skewed :: "string list"
  bs_problem :: "string option"
  bs_path :: string

definition builds_blind :: "build_scan \<Rightarrow> bool" where
  "builds_blind b \<longleftrightarrow> bs_problem b \<noteq> None"

definition finished_since :: "build_scan \<Rightarrow> int \<Rightarrow> build_receipt list" where
  "finished_since b t = filter (\<lambda>r. t \<le> b_finished_at r) (bs_receipts b)"

definition is_skewed :: "int \<Rightarrow> int \<Rightarrow> bool" where
  "is_skewed finished mtime \<longleftrightarrow> hour < finished - mtime \<or> 7 * day < mtime - finished"

text \<open>
  \<open>^build-(?P<feat>.+)-(?P<stamp>\d{14})$\<close> with \<open>match\<close>: the feature has no newline, and the dollar
  lets one trailing newline through.
\<close>

definition match_receipt :: "string \<Rightarrow> (string \<times> string) option" where
  "match_receipt name =
     (let n = (if name \<noteq> [] \<and> last name = CHR 0x0A then butlast name else name);
          stamp = drop (length n - 14) n; front = take (length n - 14) n
      in if 14 \<le> length n \<and> list_all is_digit stamp \<and> prefix ''build-'' front \<and> front \<noteq> [] \<and> last front = CHR ''-''
            \<and> 7 < length front \<and> CHR 0x0A \<notin> set (drop 6 (butlast front))
         then Some (drop 6 (butlast front), stamp) else None)"

definition leap :: "nat \<Rightarrow> bool" where
  "leap y \<longleftrightarrow> y mod 4 = 0 \<and> (y mod 100 \<noteq> 0 \<or> y mod 400 = 0)"

definition days_in_month :: "nat \<Rightarrow> nat \<Rightarrow> nat" where
  "days_in_month y m = (if m = 2 then (if leap y then 29 else 28) else if m \<in> {4, 6, 9, 11} then 30 else 31)"

text \<open>\<open>strptime(stamp, "%Y%m%d%H%M%S")\<close> on fourteen digits, read as local time.\<close>

definition parse_stamp :: "calendar \<Rightarrow> string \<Rightarrow> int option" where
  "parse_stamp cal s =
     (let num = (\<lambda>i n. nat_of_digits (take n (drop i s)));
          y = num 0 4; mo = num 4 2; d = num 6 2; h = num 8 2; mi = num 10 2; se = num 12 2
      in if 1 \<le> y \<and> 1 \<le> mo \<and> mo \<le> 12 \<and> 1 \<le> d \<and> d \<le> days_in_month y mo \<and> h < 24 \<and> mi < 60 \<and> se < 60
         then Some (local_to_utc cal (map int [y, mo, d, h, mi, se])) else None)"

text \<open>
  A directory entry: its name, whether it is a directory (\<open>None\<close> when that cannot be told) and its
  modification time (\<open>None\<close> when that cannot be read).
\<close>

record dir_entry =
  de_name :: string
  de_is_dir :: "bool option"
  de_mtime :: "int option"

datatype dir_read = DirNotFound | DirErr string | Entries "dir_entry list"

definition scan_entry :: "calendar \<Rightarrow> dir_entry \<Rightarrow> build_scan \<Rightarrow> build_scan" where
  "scan_entry cal en b =
     (let bad = b\<lparr>bs_malformed := bs_malformed b @ [de_name en]\<rparr> in
      case de_is_dir en of
        None \<Rightarrow> bad
      | Some False \<Rightarrow> b
      | Some True \<Rightarrow>
          (case match_receipt (de_name en) of
             None \<Rightarrow> bad
           | Some (feat, stamp) \<Rightarrow>
               (case parse_stamp cal stamp of
                  None \<Rightarrow> bad
                | Some finished \<Rightarrow>
                    (let sk = (case de_mtime en of None \<Rightarrow> False | Some mt \<Rightarrow> is_skewed finished mt) in
                     b\<lparr>bs_skewed := bs_skewed b @ (if sk then [de_name en] else []),
                       bs_receipts := bs_receipts b @ [\<lparr>b_name = de_name en, b_feature = feat, b_finished_at = finished,
                         b_skewed = sk\<rparr>]\<rparr>))))"

definition empty_scan :: "string \<Rightarrow> build_scan" where
  "empty_scan path = \<lparr>bs_receipts = [], bs_malformed = [], bs_skewed = [], bs_problem = None, bs_path = path\<rparr>"

definition scan_builds :: "calendar \<Rightarrow> string \<Rightarrow> dir_read \<Rightarrow> build_scan" where
  "scan_builds cal path d =
     (case d of
        DirNotFound \<Rightarrow> (empty_scan path)\<lparr>bs_problem := Some
          ''the build receipts directory does not exist, so the fence cannot tell whether builds have been running''\<rparr>
      | DirErr e \<Rightarrow> (empty_scan path)\<lparr>bs_problem := Some
          (''the build receipts directory cannot be read ('' @ e @ ''), so the fence cannot count builds'')\<rparr>
      | Entries es \<Rightarrow>
          (let b = fold (scan_entry cal) (sort_key de_name es) (empty_scan path)
           in b\<lparr>bs_receipts := sort_key b_finished_at (bs_receipts b)\<rparr>))"

subsection \<open>Freshness of the store\<close>

record project_facts =
  pf_project :: string
  pf_newest_updated_at :: "int option"
  pf_newest_created_at :: "int option"
  pf_row_count :: int

record store_facts =
  sf_target :: string
  sf_reachable :: bool
  sf_newest_updated_at :: "int option"
  sf_newest_created_at :: "int option"
  sf_row_count :: int
  sf_per_project :: "project_facts list"
  sf_problem :: "string option"

definition escape_like :: "string \<Rightarrow> string" where
  "escape_like s =
     concat (map (\<lambda>c. if c = CHR 0x5C \<or> c = CHR ''_'' \<or> c = CHR ''%'' then [CHR 0x5C, c] else [c]) s)"

definition project_patterns :: "string \<Rightarrow> string \<times> string" where
  "project_patterns project =
     (let exact = ''fleet_memory.'' @ project in (exact, escape_like exact @ ''.%''))"

text \<open>
  A connection: opening it, running a statement and fetching its row can raise. A row is the newest
  update, the newest creation and the count. \<open>scrub\<close> takes the secrets out of an error text,
  \<open>label\<close> names the target without credentials, and \<open>type_of\<close> is the class name of an exception.
\<close>

record 's sql =
  sql_connect :: "('s, unit) comp"
  sql_execute :: "string \<Rightarrow> ('s, unit) comp"
  sql_store_age :: "('s, (int option \<times> int option \<times> int) option) comp"
  sql_project_age :: "string \<Rightarrow> string \<Rightarrow> ('s, (int option \<times> int option \<times> int) option) comp"
  scrub :: "string \<Rightarrow> string"
  label :: string
  type_of :: "exn \<Rightarrow> string"

definition READ_ONLY_SESSION_SQL :: "string list" where
  "READ_ONLY_SESSION_SQL =
     [''SET TRANSACTION READ ONLY'', ''SET default_transaction_read_only = on'', ''SET TIME ZONE '' @ quoted ''UTC'']"

definition row_facts :: "string \<Rightarrow> (int option \<times> int option \<times> int) option \<Rightarrow> project_facts" where
  "row_facts project row =
     (case row of
        None \<Rightarrow> \<lparr>pf_project = project, pf_newest_updated_at = None, pf_newest_created_at = None, pf_row_count = 0\<rparr>
      | Some (u, c, n) \<Rightarrow> \<lparr>pf_project = project, pf_newest_updated_at = u, pf_newest_created_at = c, pf_row_count = n\<rparr>)"

definition read_project :: "'s sql \<Rightarrow> string \<Rightarrow> ('s, project_facts) comp" where
  "read_project q project =
     (case project_patterns project of (exact, pattern) \<Rightarrow>
        bind (sql_project_age q exact pattern) (\<lambda>row. ret (row_facts project row)))"

fun read_projects_facts :: "'s sql \<Rightarrow> string list \<Rightarrow> ('s, project_facts list) comp" where
  "read_projects_facts q [] = ret []"
| "read_projects_facts q (p # ps) =
     bind (read_project q p) (\<lambda>f. bind (read_projects_facts q ps) (\<lambda>fs. ret (f # fs)))"

definition unreachable :: "'s sql \<Rightarrow> string \<Rightarrow> store_facts" where
  "unreachable q problem =
     \<lparr>sf_target = label q, sf_reachable = False, sf_newest_updated_at = None, sf_newest_created_at = None,
      sf_row_count = 0, sf_per_project = [], sf_problem = Some problem\<rparr>"

definition error_detail :: "'s sql \<Rightarrow> exn \<Rightarrow> string" where
  "error_detail q e = (let d = strip (scrub q (exn_str e)) in if d = [] then type_of q e else d)"

definition query_store :: "'s sql \<Rightarrow> string list \<Rightarrow> ('s, store_facts) comp" where
  "query_store q projects =
     bind (for_each (sql_execute q) READ_ONLY_SESSION_SQL) (\<lambda>_.
     bind (sql_store_age q) (\<lambda>row.
     bind (read_projects_facts q projects) (\<lambda>per.
       let f = row_facts [] row in
       ret \<lparr>sf_target = label q, sf_reachable = True, sf_newest_updated_at = pf_newest_updated_at f,
            sf_newest_created_at = pf_newest_created_at f, sf_row_count = pf_row_count f, sf_per_project = per,
            sf_problem = None\<rparr>)))"

definition read_store_facts :: "'s sql \<Rightarrow> string list \<Rightarrow> ('s, store_facts) comp" where
  "read_store_facts q projects s =
     (case sql_connect q s of
        (Exn e, s1) \<Rightarrow>
          (Ok (unreachable q (''cannot reach the memory store at '' @ label q @ '' ('' @ error_detail q e @ '')'')), s1)
      | (Stuck, s1) \<Rightarrow> (Stuck, s1)
      | (Ok _, s1) \<Rightarrow>
          catch (query_store q projects)
            (\<lambda>e. ret (unreachable q (''the memory store at '' @ label q @ '' could not be queried ('' @ error_detail q e @ '')''))) s1)"

subsection \<open>Acknowledgement\<close>

definition ACK_MAX_DAYS :: int where "ACK_MAX_DAYS = 14"

record ack_state =
  ack_present :: bool
  ack_active :: bool
  ack_reason :: "string option"
  ack_until :: "int option"
  ack_checks :: "string list"
  ack_rejected :: "string option"
  ack_expired_on :: "int option"
  ack_path :: string

definition no_ack :: "string \<Rightarrow> ack_state" where
  "no_ack path = \<lparr>ack_present = False, ack_active = False, ack_reason = None, ack_until = None, ack_checks = [],
     ack_rejected = None, ack_expired_on = None, ack_path = path\<rparr>"

definition ack_holds :: "ack_state \<Rightarrow> string \<Rightarrow> bool" where
  "ack_holds a check_name \<longleftrightarrow> ack_active a \<and> check_name \<in> set (ack_checks a)"

definition ack_note :: "calendar \<Rightarrow> ack_state \<Rightarrow> string option" where
  "ack_note cal a =
     (case ack_rejected a of
        Some r \<Rightarrow> if r \<noteq> [] then Some (''ack rejected: '' @ r)
                  else map_option (\<lambda>d. ''ack expired on '' @ date_iso cal d) (ack_expired_on a)
      | None \<Rightarrow> map_option (\<lambda>d. ''ack expired on '' @ date_iso cal d) (ack_expired_on a))"

text \<open>The judgement of what was read, \<open>None\<close> for a text that is no JSON.\<close>

definition judge_ack :: "calendar \<Rightarrow> string \<Rightarrow> int \<Rightarrow> json option \<Rightarrow> ack_state" where
  "judge_ack cal path today content =
     (let seen = (no_ack path)\<lparr>ack_present := True\<rparr> in
      case content of
        None \<Rightarrow> seen\<lparr>ack_rejected := Some ''the file is not readable JSON''\<rparr>
      | Some (JObj data) \<Rightarrow>
          (let reason = (case json_get data ''reason'' of JStr r \<Rightarrow> Some r | _ \<Rightarrow> None);
               checks = (case json_get data ''checks'' of
                           JList cs \<Rightarrow> concat (map (\<lambda>c. case c of JStr n \<Rightarrow> [n] | _ \<Rightarrow> []) cs) | _ \<Rightarrow> []);
               read = seen\<lparr>ack_reason := reason, ack_checks := checks\<rparr> in
           case json_get data ''until'' of
             JStr u \<Rightarrow>
               if u = [] then read\<lparr>ack_rejected := Some (''no '' @ quoted ''until'' @ '' date '' @ dash
                   @ '' an acknowledgement without an expiry is a silent waiver'')\<rparr>
               else (case date_from_iso cal u of
                  None \<Rightarrow> read\<lparr>ack_rejected := Some (''the '' @ quoted ''until'' @ '' date '' @ repr_str u
                      @ '' is not a YYYY-MM-DD date'')\<rparr>
                | Some until \<Rightarrow>
                    (let dated = read\<lparr>ack_until := Some until\<rparr> in
                     if checks = [] then dated\<lparr>ack_rejected := Some (''no '' @ quoted ''checks'' @ '' listed '' @ dash
                         @ '' an acknowledgement must name what it covers'')\<rparr>
                     else if reason = None \<or> reason = Some [] then dated\<lparr>ack_reason := None,
                         ack_rejected := Some (''no '' @ quoted ''reason'' @ '' given '' @ dash @ '' an acknowledgement must say why'')\<rparr>
                     else if ACK_MAX_DAYS < until - today then dated\<lparr>ack_rejected := Some
                         (''the '' @ quoted ''until'' @ '' date '' @ date_iso cal until @ '' is more than '' @ show_int ACK_MAX_DAYS
                          @ '' days away; a deferral that long is not a deferral'')\<rparr>
                     else if until < today then dated\<lparr>ack_expired_on := Some until\<rparr>
                     else dated\<lparr>ack_active := True\<rparr>))
           | _ \<Rightarrow> read\<lparr>ack_rejected := Some (''no '' @ quoted ''until'' @ '' date '' @ dash
               @ '' an acknowledgement without an expiry is a silent waiver'')\<rparr>)
      | Some v \<Rightarrow> seen\<lparr>ack_rejected := Some ''the file is not a JSON object''\<rparr>)"

definition read_ack :: "calendar \<Rightarrow> string \<Rightarrow> int \<Rightarrow> file_read \<Rightarrow> exn + ack_state" where
  "read_ack cal path today f =
     (case f of
        NotFound \<Rightarrow> Inr (no_ack path)
      | OSErr e \<Rightarrow> Inr ((no_ack path)\<lparr>ack_present := True,
          ack_rejected := Some (''the file could not be read ('' @ e @ '')'')\<rparr>)
      | NotUtf8 e \<Rightarrow> Inl (UnicodeDecodeError e)
      | Content content \<Rightarrow> Inr (judge_ack cal path today content))"

subsection \<open>The decision\<close>

datatype status = Fine | Alarm | Held

record check_result =
  ck_name :: string
  ck_status :: status
  ck_reason :: string
  ck_message :: string
  ck_detail :: "(string \<times> json) list"

record thresholds =
  store_max_age_hours :: int
  build_window_hours :: int
  min_builds_in_window :: int
  relay_restart_grace_minutes :: int
  watch_projects :: "string list"

record fence_facts =
  ff_store :: "store_facts option"
  ff_builds :: "build_scan option"
  ff_marker :: "marker_read option"
  ff_ack :: ack_state

definition humanise_age :: "int \<Rightarrow> string" where
  "humanise_age delta =
     (let seconds = max (delta div second) 0; minutes = seconds div 60; hours = minutes div 60 in
      if seconds < 90 then ''less than 2 minutes''
      else if minutes < 90 then show_int minutes @ '' minutes''
      else if hours < 48 then show_int hours @ '' hours''
      else show_int (hours div 24) @ '' days'')"

definition limit_phrase :: "int \<Rightarrow> string" where
  "limit_phrase hours =
     (if hours mod 24 = 0 \<and> 24 \<le> hours
      then (let days = hours div 24 in show_int days @ (if days = 1 then '' day'' else '' days''))
      else show_int hours @ (if hours = 1 then '' hour'' else '' hours''))"

definition passes :: "string \<Rightarrow> string \<Rightarrow> (string \<times> json) list \<Rightarrow> check_result" where
  "passes name msg detail = \<lparr>ck_name = name, ck_status = Fine, ck_reason = [], ck_message = msg, ck_detail = detail\<rparr>"

definition trips :: "string \<Rightarrow> string \<Rightarrow> string \<Rightarrow> (string \<times> json) list \<Rightarrow> check_result" where
  "trips name reason msg detail =
     \<lparr>ck_name = name, ck_status = Alarm, ck_reason = reason, ck_message = msg, ck_detail = detail\<rparr>"

definition newest_check :: "calendar \<Rightarrow> store_facts \<Rightarrow> thresholds \<Rightarrow> int \<Rightarrow> check_result" where
  "newest_check cal facts th now =
     (case sf_newest_updated_at facts of
        None \<Rightarrow> trips ''store_age'' ''BLIND''
          (''memory store: '' @ show_int (sf_row_count facts)
           @ '' rows are present but none carry a write time, so the fence cannot tell how fresh memory is.'')
          [(''target'', JStr (sf_target facts)), (''row_count'', JInt (sf_row_count facts))]
      | Some newest \<Rightarrow>
          (let age = now - newest;
               common = [(''target'', JStr (sf_target facts)), (''row_count'', JInt (sf_row_count facts)),
                 (''newest_updated_at'', JStr (iso cal newest)),
                 (''newest_created_at'', opt_json (iso cal) (sf_newest_created_at facts)),
                 (''age_hours'', JFloat (hours2 cal age))] in
           if store_max_age_hours th * hour < age
           then trips ''store_age'' ''STORE_STALE''
             (''memory store: the newest thing memory learned is '' @ humanise_age age @ '' old (limit ''
              @ limit_phrase (store_max_age_hours th) @ '').'') common
           else passes ''store_age''
             (''memory store: newest row '' @ humanise_age age @ '' old, '' @ show_int (sf_row_count facts) @ '' rows in total.'')
             common))"

definition project_check :: "calendar \<Rightarrow> thresholds \<Rightarrow> int \<Rightarrow> project_facts \<Rightarrow> check_result" where
  "project_check cal th now p =
     (let name = ''store_age:'' @ pf_project p in
      if pf_row_count p = 0
      then trips name ''STORE_EMPTY''
        (''memory for '' @ pf_project p @ '': nothing is stored under this project at all.'')
        [(''project'', JStr (pf_project p)), (''row_count'', JInt 0)]
      else case pf_newest_updated_at p of
        None \<Rightarrow> trips name ''BLIND''
          (''memory for '' @ pf_project p
           @ '': rows are present but none carry a write time, so their freshness cannot be judged.'')
          [(''project'', JStr (pf_project p)), (''row_count'', JInt (pf_row_count p))]
      | Some newest \<Rightarrow>
          (let page = now - newest;
               detail = [(''project'', JStr (pf_project p)), (''row_count'', JInt (pf_row_count p)),
                 (''newest_updated_at'', JStr (iso cal newest)), (''age_hours'', JFloat (hours2 cal page))] in
           if store_max_age_hours th * hour < page
           then trips name ''STORE_STALE''
             (''memory for '' @ pf_project p @ '': the newest thing learned is '' @ humanise_age page @ '' old (limit ''
              @ limit_phrase (store_max_age_hours th) @ '').'') detail
           else passes name
             (''memory for '' @ pf_project p @ '': newest row '' @ humanise_age page @ '' old, ''
              @ show_int (pf_row_count p) @ '' rows.'') detail))"

definition opt_text :: "string option \<Rightarrow> string" where
  "opt_text x = (case x of None \<Rightarrow> ''None'' | Some t \<Rightarrow> t)"

definition store_check :: "calendar \<Rightarrow> store_facts \<Rightarrow> thresholds \<Rightarrow> int \<Rightarrow> check_result list" where
  "store_check cal facts th now =
     (if \<not> sf_reachable facts
      then [trips ''store_age'' ''STORE_UNREACHABLE''
        (''memory store: '' @ opt_text (sf_problem facts)
         @ ''. Nothing can be written or read while this is true, so memory is effectively dark.'')
        [(''target'', JStr (sf_target facts))]]
      else if sf_row_count facts = 0
      then [trips ''store_age'' ''STORE_EMPTY''
        (''memory store: there is nothing in it at all (0 rows at '' @ sf_target facts
         @ ''). Either this is the wrong database or the store has been emptied.'')
        [(''target'', JStr (sf_target facts)), (''row_count'', JInt 0)]]
      else newest_check cal facts th now # map (project_check cal th now) (sf_per_project facts))"

text \<open>The evidence of writes through the memory door: the newest row of the watched projects.\<close>

definition door_rows :: "thresholds \<Rightarrow> store_facts option \<Rightarrow> (string \<times> int) list" where
  "door_rows th store =
     (case store of
        None \<Rightarrow> []
      | Some sf \<Rightarrow>
          if \<not> sf_reachable sf then []
          else concat (map (\<lambda>p. case pf_newest_updated_at p of
                 None \<Rightarrow> []
               | Some t \<Rightarrow> if pf_project p \<in> set (watch_projects th) then [(pf_project p, t)] else [])
               (sf_per_project sf)))"

text \<open>\<open>max(rows, key=..., default=None)\<close>: the first of the largest.\<close>

fun newest_row :: "(string \<times> int) list \<Rightarrow> (string \<times> int) option" where
  "newest_row [] = None"
| "newest_row (r # rs) =
     (case newest_row rs of None \<Rightarrow> Some r | Some r' \<Rightarrow> if snd r < snd r' then Some r' else Some r)"

definition activity_phrase :: "marker_state \<Rightarrow> int \<Rightarrow> string" where
  "activity_phrase st now =
     (case last_ingest_at st of
        None \<Rightarrow> ''the relay has recorded no writes since it started''
      | Some t \<Rightarrow> ''last write '' @ humanise_age (now - t) @ '' ago'')
     @ (case last_message_at st of
          None \<Rightarrow> []
        | Some m \<Rightarrow>
            if (case last_ingest_at st of None \<Rightarrow> True | Some t \<Rightarrow> t < m)
            then '', but it did receive a message '' @ humanise_age (now - m) @ '' ago (outcome: ''
                 @ (case last_disposition st of None \<Rightarrow> ''unknown'' | Some d \<Rightarrow> if d = [] then ''unknown'' else d) @ '')''
            else [])"

text \<open>\<open>str.capitalize\<close> for a text that begins with an ASCII letter.\<close>

definition capitalize :: "string \<Rightarrow> string" where
  "capitalize s = (case s of [] \<Rightarrow> [] | c # cs \<Rightarrow> (if is_lower c then char_of (of_char c - 32 :: nat) else c) # lower cs)"

definition window_phrase :: "int \<Rightarrow> string" where
  "window_phrase hours = (if hours mod 24 = 0 then show_int (hours div 24) @ '' days'' else show_int hours @ '' hours'')"

definition relay_detail :: "calendar \<Rightarrow> build_scan \<Rightarrow> marker_state \<Rightarrow> thresholds \<Rightarrow> int \<Rightarrow> (string \<times> json) list" where
  "relay_detail cal builds st th window_start =
     [(''builds_in_window'', JInt (int (length (finished_since builds window_start)))),
      (''min_builds_in_window'', JInt (min_builds_in_window th)), (''window_start'', JStr (iso cal window_start)),
      (''relay_started_at'', opt_json (iso cal) (started_at st)), (''last_ingest_at'', opt_json (iso cal) (last_ingest_at st)),
      (''last_message_at'', opt_json (iso cal) (last_message_at st)),
      (''ingests_since_start'', JInt (ingests_since_start st)), (''messages_since_start'', JInt (messages_since_start st)),
      (''last_disposition'', opt_json id (last_disposition st)),
      (''malformed_receipt_names'', JInt (int (length (bs_malformed builds)))),
      (''skewed_receipt_names'', JList (map JStr (bs_skewed builds)))]"

definition relay_silent ::
  "calendar \<Rightarrow> marker_state \<Rightarrow> thresholds \<Rightarrow> int \<Rightarrow> string \<Rightarrow> (string \<times> json) list \<Rightarrow> check_result" where
  "relay_silent cal st th now finished detail =
     (let alarm = trips ''relay_idle'' ''RELAY_IDLE''
            (''relay idle: '' @ finished @ '' and memory recorded nothing. Either the relay is not consuming, or the close ritual that writes build outcomes did not run (that write is not yet automatic).'')
            detail in
      case started_at st of
        None \<Rightarrow> alarm
      | Some t \<Rightarrow>
          (let grace_end = t + relay_restart_grace_minutes th * minute in
           if now < grace_end
           then (passes ''relay_idle''
             (''relay: it restarted '' @ humanise_age (now - t) @ '' ago and has not caught up yet. Silence is expected for up to ''
              @ show_int (relay_restart_grace_minutes th)
              @ '' minutes after a restart, so this is not being treated as an alarm.'')
             (detail @ [(''grace_until'', JStr (iso cal grace_end))]))\<lparr>ck_reason := ''RELAY_RESTART_GRACE''\<rparr>
           else alarm))"

definition relay_verdict ::
  "calendar \<Rightarrow> build_scan \<Rightarrow> marker_state \<Rightarrow> thresholds \<Rightarrow> int \<Rightarrow> store_facts option \<Rightarrow> check_result" where
  "relay_verdict cal builds st th now store =
     (let window_start = now - build_window_hours th * hour;
          n = int (length (finished_since builds window_start));
          window = window_phrase (build_window_hours th);
          detail = relay_detail cal builds st th window_start;
          finished = show_int n @ '' builds finished in the last '' @ window in
      if n < min_builds_in_window th
      then passes ''relay_idle''
        (''relay: '' @ finished @ '', fewer than the '' @ show_int (min_builds_in_window th)
         @ '' this check needs before silence means anything. '' @ capitalize (activity_phrase st now) @ ''.'') detail
      else if (case last_ingest_at st of None \<Rightarrow> False | Some t \<Rightarrow> window_start \<le> t)
      then passes ''relay_idle''
        (''relay: '' @ finished @ '' and memory recorded work too ('' @ activity_phrase st now @ '', ''
         @ show_int (ingests_since_start st) @ '' writes since the relay started).'') detail
      else
        (let newest = newest_row (door_rows th store);
             detail1 = detail @ (case newest of None \<Rightarrow> [] | Some (p, t) \<Rightarrow> [(''build_projects_newest_updated_at'', JStr (iso cal t))]) in
         case newest of
           Some (p, t) \<Rightarrow>
             if window_start \<le> t
             then passes ''relay_idle''
               (''relay: '' @ finished @ '' and memory recorded their work: the newest row for '' @ p @ '' was written ''
                @ humanise_age (now - t) @ '' ago. Records written through the memory door do not pass through the relay, which itself shows ''
                @ activity_phrase st now @ ''.'') detail1
             else relay_silent cal st th now finished detail1
         | None \<Rightarrow> relay_silent cal st th now finished detail1))"

definition relay_check ::
  "calendar \<Rightarrow> build_scan option \<Rightarrow> marker_read option \<Rightarrow> thresholds \<Rightarrow> int \<Rightarrow> store_facts option \<Rightarrow> check_result" where
  "relay_check cal builds marker th now store =
     (let unseen = (\<lambda>problem path. trips ''relay_idle'' ''BLIND''
            (''relay: the fence cannot see the relay'' @ [CHR 0x27] @ ''s progress marker '' @ dash @ '' '' @ problem
             @ ''. Until it can, it cannot tell a working relay from a dead one.'') [(''marker_path'', JStr path)]);
          unread = (\<lambda>problem path. trips ''relay_idle'' ''BLIND'' (''relay: '' @ problem @ ''.'') [(''builds_dir'', JStr path)]) in
      case marker of
        None \<Rightarrow> unseen ''the progress marker was not read'' []
      | Some m \<Rightarrow>
          (case mk_state m of
             None \<Rightarrow> unseen (opt_text (mk_problem m)) (mk_path m)
           | Some st \<Rightarrow>
               (case builds of
                  None \<Rightarrow> unread ''the build receipts were not read'' []
                | Some b \<Rightarrow>
                    if builds_blind b then unread (opt_text (bs_problem b)) (bs_path b)
                    else relay_verdict cal b st th now store)))"

definition apply_ack :: "calendar \<Rightarrow> ack_state \<Rightarrow> check_result \<Rightarrow> check_result" where
  "apply_ack cal ack c =
     (if ck_status c \<noteq> Alarm \<or> \<not> ack_holds ack (ck_name c) then c
      else
        (let until = (case ack_until ack of None \<Rightarrow> ''an unstated date'' | Some d \<Rightarrow> date_iso cal d) in
         \<lparr>ck_name = ck_name c, ck_status = Held, ck_reason = ck_reason c,
          ck_message = ck_message c @ '' Acknowledged until '' @ until @ '': '' @ opt_text (ack_reason ack) @ ''.'',
          ck_detail = dict_set ''acknowledged_reason'' (opt_json id (ack_reason ack))
            (dict_set ''acknowledged_until'' (JStr until) (ck_detail c))\<rparr>))"

record fence_report =
  fr_status :: status
  fr_checks :: "check_result list"
  fr_thresholds :: thresholds
  fr_checked_at :: string
  fr_ack :: ack_state
  fr_notes :: "string list"

definition unseen_store :: check_result where
  "unseen_store = trips ''store_age'' ''BLIND''
     ''memory store: the fence was not able to look at the store at all, so it cannot say whether memory is fresh.'' []"

definition fence_notes :: "calendar \<Rightarrow> fence_facts \<Rightarrow> string list" where
  "fence_notes cal facts =
     (case ack_note cal (ff_ack facts) of None \<Rightarrow> [] | Some n \<Rightarrow> [n])
     @ (case ff_builds facts of
          None \<Rightarrow> []
        | Some b \<Rightarrow>
            if bs_skewed b = [] then []
            else [''some build receipt names disagree with the folder'' @ [CHR 0x27] @ ''s own modification time by more than an hour (''
                  @ show_nat (length (bs_skewed b)) @ '' of them); the name was trusted, as forge authors it''])"

definition raw_checks :: "calendar \<Rightarrow> fence_facts \<Rightarrow> thresholds \<Rightarrow> int \<Rightarrow> bool \<Rightarrow> bool \<Rightarrow> check_result list" where
  "raw_checks cal facts th now store_only relay_only =
     (if relay_only then []
      else case ff_store facts of None \<Rightarrow> [unseen_store] | Some sf \<Rightarrow> store_check cal sf th now)
     @ (if store_only then [] else [relay_check cal (ff_builds facts) (ff_marker facts) th now (ff_store facts)])"

definition evaluate :: "calendar \<Rightarrow> fence_facts \<Rightarrow> thresholds \<Rightarrow> int \<Rightarrow> bool \<Rightarrow> bool \<Rightarrow> fence_report" where
  "evaluate cal facts th now store_only relay_only =
     (let checks = map (apply_ack cal (ff_ack facts)) (raw_checks cal facts th now store_only relay_only) in
      \<lparr>fr_status = (if \<exists>c \<in> set checks. ck_status c = Alarm then Alarm else Fine), fr_checks = checks,
       fr_thresholds = th, fr_checked_at = iso cal now, fr_ack = ff_ack facts, fr_notes = fence_notes cal facts\<rparr>)"

definition alarms :: "fence_report \<Rightarrow> check_result list" where
  "alarms r = filter (\<lambda>c. ck_status c = Alarm) (fr_checks r)"

fun status_label :: "status \<Rightarrow> string" where
  "status_label Fine = ''OK    ''"
| "status_label Alarm = ''ALARM ''"
| "status_label Held = ''HELD  ''"

definition report_lines :: "fence_report \<Rightarrow> string list" where
  "report_lines r =
     map (\<lambda>n. ''NOTE   '' @ n) (fr_notes r) @ map (\<lambda>c. status_label (ck_status c) @ '' '' @ ck_message c) (fr_checks r)
     @ (if fr_status r = Alarm
        then (let count = length (alarms r) in
          [''VERDICT ALARM '' @ dash @ '' '' @ show_nat count @ '' of '' @ show_nat (length (fr_checks r)) @ '' checks ''
           @ (if count = 1 then ''is'' else ''are'') @ '' unhappy. Memory may be dark; see the lines above.''])
        else (let held = length (filter (\<lambda>c. ck_status c = Held) (fr_checks r)) in
          [''VERDICT OK '' @ dash @ '' memory is alive'' @ (if held \<noteq> 0 then '' ('' @ show_nat held @ '' acknowledged)'' else []) @ ''.'']))"

definition append_alarm_log :: "fence_report \<Rightarrow> string \<Rightarrow> string \<Rightarrow> string" where
  "append_alarm_log r stamp lapses =
     (if fr_status r \<noteq> Alarm then lapses
      else lapses @ concat (map (\<lambda>line. stamp @ ''  '' @ line @ [CHR 0x0A]) (report_lines r)))"

definition exit_code :: "fence_report \<Rightarrow> int" where
  "exit_code r = (if fr_status r = Alarm then 1 else 0)"

definition watch_list :: "string \<Rightarrow> string list" where
  "watch_list raw = filter (\<lambda>p. p \<noteq> []) (map strip (split_on CHR '','' raw))"

text \<open>
  One run after the settings are resolved: the exit code and the report, if one was made. The three
  files are as the run finds them, and \<open>today\<close> is the date of \<open>now\<close>.
\<close>

definition fence_main ::
  "calendar \<Rightarrow> (string \<Rightarrow> exn + int) \<Rightarrow> 's sql \<Rightarrow> thresholds \<Rightarrow> dir_read \<Rightarrow> file_read \<Rightarrow> file_read \<Rightarrow> int \<Rightarrow> int \<Rightarrow>
   bool \<Rightarrow> bool \<Rightarrow> ('s, int \<times> fence_report option) comp" where
  "fence_main cal float_int q th receipts marker_file ack_file now today store_only relay_only =
     catch
       (bind (if relay_only then ret None
              else bind (read_store_facts q (watch_projects th)) (\<lambda>sf. ret (Some sf))) (\<lambda>store.
        bind (if store_only then ret None
              else bind (lift_res (read_marker cal float_int [] marker_file)) (\<lambda>m. ret (Some m))) (\<lambda>marker.
        bind (lift_res (read_ack cal [] today ack_file)) (\<lambda>ack.
          let facts = \<lparr>ff_store = store, ff_builds = (if store_only then None else Some (scan_builds cal [] receipts)),
                       ff_marker = marker, ff_ack = ack\<rparr>;
              report = evaluate cal facts th now store_only relay_only
          in ret (exit_code report, Some report)))))
       (\<lambda>e. ret (20, None))"

subsection \<open>When the fence may say that memory is alive\<close>

definition recent_enough :: "thresholds \<Rightarrow> int \<Rightarrow> int option \<Rightarrow> bool" where
  "recent_enough th now newest \<longleftrightarrow> (\<exists>t. newest = Some t \<and> now - t \<le> store_max_age_hours th * hour)"

definition store_alive :: "thresholds \<Rightarrow> int \<Rightarrow> (string \<Rightarrow> bool) \<Rightarrow> store_facts option \<Rightarrow> bool" where
  "store_alive th now held store =
     (case store of
        None \<Rightarrow> held ''store_age''
      | Some sf \<Rightarrow>
          if sf_reachable sf \<and> sf_row_count sf \<noteq> 0
          then (held ''store_age'' \<or> recent_enough th now (sf_newest_updated_at sf)) \<and>
            (\<forall>p \<in> set (sf_per_project sf). held (''store_age:'' @ pf_project p) \<or>
               (pf_row_count p \<noteq> 0 \<and> recent_enough th now (pf_newest_updated_at p)))
          else held ''store_age'')"

definition watched_since :: "thresholds \<Rightarrow> store_facts option \<Rightarrow> int \<Rightarrow> bool" where
  "watched_since th store start \<longleftrightarrow>
     (\<exists>sf p t. store = Some sf \<and> sf_reachable sf \<and> p \<in> set (sf_per_project sf) \<and> pf_project p \<in> set (watch_projects th)
        \<and> pf_newest_updated_at p = Some t \<and> start \<le> t)"

definition relay_alive :: "thresholds \<Rightarrow> int \<Rightarrow> fence_facts \<Rightarrow> bool" where
  "relay_alive th now facts \<longleftrightarrow>
     (\<exists>m st b. ff_marker facts = Some m \<and> mk_state m = Some st \<and> ff_builds facts = Some b \<and> bs_problem b = None \<and>
        (let start = now - build_window_hours th * hour in
         int (length (finished_since b start)) < min_builds_in_window th
         \<or> (\<exists>t. last_ingest_at st = Some t \<and> start \<le> t)
         \<or> watched_since th (ff_store facts) start
         \<or> (\<exists>t. started_at st = Some t \<and> now < t + relay_restart_grace_minutes th * minute)))"

lemma verdict_status [simp]:
  "ck_status (passes n m d) = Fine" "ck_status (trips n r m d) = Alarm" "ck_name (passes n m d) = n" "ck_name (trips n r m d) = n"
  by (simp_all add: passes_def trips_def)

lemma newest_row_since: "(\<exists>p t. newest_row rs = Some (p, t) \<and> w \<le> t) \<longleftrightarrow> (\<exists>r \<in> set rs. w \<le> snd r)"
proof (induction rs)
  case (Cons r rs)
  show ?case
  proof (cases "newest_row rs")
    case None
    then have "rs = []" by (cases rs) (auto split: option.splits if_splits)
    then show ?thesis by (cases r) simp
  next
    case (Some r')
    with Cons.IH have "(w \<le> snd r') \<longleftrightarrow> (\<exists>r \<in> set rs. w \<le> snd r)" by (cases r') simp
    then show ?thesis using Some by (cases r; cases r') auto
  qed
qed simp

lemma door_rows_since: "(\<exists>r \<in> set (door_rows th store). w \<le> snd r) \<longleftrightarrow> watched_since th store w"
  by (cases store) (force simp: door_rows_def watched_since_def split: option.splits if_splits)+

lemma apply_ack_alarm: "ck_status (apply_ack cal a c) = Alarm \<longleftrightarrow> ck_status c = Alarm \<and> \<not> ack_holds a (ck_name c)"
  by (auto simp: apply_ack_def Let_def)

lemma newest_check_fields:
  "ck_name (newest_check cal sf th now) = ''store_age''"
  "ck_status (newest_check cal sf th now) = Alarm \<longleftrightarrow> \<not> recent_enough th now (sf_newest_updated_at sf)"
  by (auto simp: newest_check_def recent_enough_def Let_def split: option.splits)

lemma project_check_fields:
  "ck_name (project_check cal th now p) = ''store_age:'' @ pf_project p"
  "ck_status (project_check cal th now p) = Alarm \<longleftrightarrow> \<not> (pf_row_count p \<noteq> 0 \<and> recent_enough th now (pf_newest_updated_at p))"
  by (auto simp: project_check_def recent_enough_def Let_def split: option.splits)

lemma silent_fields:
  "ck_name (relay_silent cal st th now fin d) = ''relay_idle''"
  "ck_status (relay_silent cal st th now fin d) = Alarm \<longleftrightarrow>
     \<not> (\<exists>t. started_at st = Some t \<and> now < t + relay_restart_grace_minutes th * minute)"
  by (auto simp: relay_silent_def Let_def split: option.splits)

lemma verdict_fields:
  "ck_name (relay_verdict cal b st th now store) = ''relay_idle''"
  "ck_status (relay_verdict cal b st th now store) = Alarm \<longleftrightarrow>
     \<not> (let start = now - build_window_hours th * hour in
        int (length (finished_since b start)) < min_builds_in_window th
        \<or> (\<exists>t. last_ingest_at st = Some t \<and> start \<le> t) \<or> watched_since th store start
        \<or> (\<exists>t. started_at st = Some t \<and> now < t + relay_restart_grace_minutes th * minute))"
proof -
  let ?start = "now - build_window_hours th * hour"
  show "ck_name (relay_verdict cal b st th now store) = ''relay_idle''"
    by (auto simp: relay_verdict_def Let_def silent_fields split: option.splits)
  have w: "watched_since th store ?start \<longleftrightarrow> (\<exists>p t. newest_row (door_rows th store) = Some (p, t) \<and> ?start \<le> t)"
    by (simp only: newest_row_since door_rows_since)
  have i: "(case last_ingest_at st of None \<Rightarrow> False | Some t \<Rightarrow> ?start \<le> t) \<longleftrightarrow> (\<exists>t. last_ingest_at st = Some t \<and> ?start \<le> t)"
    by (cases "last_ingest_at st") simp_all
  show "ck_status (relay_verdict cal b st th now store) = Alarm \<longleftrightarrow>
     \<not> (let start = ?start in
        int (length (finished_since b start)) < min_builds_in_window th
        \<or> (\<exists>t. last_ingest_at st = Some t \<and> start \<le> t) \<or> watched_since th store start
        \<or> (\<exists>t. started_at st = Some t \<and> now < t + relay_restart_grace_minutes th * minute))"
    unfolding relay_verdict_def Let_def w i
    by (cases "newest_row (door_rows th store)") (auto simp: silent_fields split: if_splits prod.splits)
qed

lemma relay_check_fields:
  "ck_name (relay_check cal (ff_builds f) (ff_marker f) th now (ff_store f)) = ''relay_idle''"
  "ck_status (relay_check cal (ff_builds f) (ff_marker f) th now (ff_store f)) = Alarm \<longleftrightarrow> \<not> relay_alive th now f"
  by (auto simp: relay_check_def relay_alive_def Let_def builds_blind_def verdict_fields split: option.splits)

lemma store_alarms:
  "(\<exists>c \<in> set (store_check cal sf th now). ck_status c = Alarm \<and> \<not> ack_holds a (ck_name c))
   \<longleftrightarrow> \<not> store_alive th now (ack_holds a) (Some sf)"
proof (cases "sf_reachable sf \<and> sf_row_count sf \<noteq> 0")
  case True
  then have "store_check cal sf th now = newest_check cal sf th now # map (project_check cal th now) (sf_per_project sf)"
    by (simp add: store_check_def)
  then show ?thesis using True
    by (auto simp: store_alive_def newest_check_fields project_check_fields)
next
  case False
  then show ?thesis by (auto simp: store_check_def store_alive_def)
qed

lemma fine_iff:
  "fr_status (evaluate cal facts th now store_only relay_only) = Fine \<longleftrightarrow>
     (relay_only \<or> store_alive th now (ack_holds (ff_ack facts)) (ff_store facts)) \<and>
     (store_only \<or> ack_holds (ff_ack facts) ''relay_idle'' \<or> relay_alive th now facts)"
proof -
  let ?bad = "\<lambda>c. ck_status c = Alarm \<and> \<not> ack_holds (ff_ack facts) (ck_name c)"
  have "fr_status (evaluate cal facts th now store_only relay_only) = Fine \<longleftrightarrow>
      \<not> (\<exists>c \<in> set (raw_checks cal facts th now store_only relay_only). ?bad c)"
    by (auto simp: evaluate_def Let_def apply_ack_alarm)
  also have "(\<exists>c \<in> set (raw_checks cal facts th now store_only relay_only). ?bad c) \<longleftrightarrow>
      (\<not> relay_only \<and> \<not> store_alive th now (ack_holds (ff_ack facts)) (ff_store facts)) \<or>
      (\<not> store_only \<and> \<not> ack_holds (ff_ack facts) ''relay_idle'' \<and> \<not> relay_alive th now facts)"
  proof -
    let ?R = "relay_check cal (ff_builds facts) (ff_marker facts) th now (ff_store facts)"
    let ?S = "case ff_store facts of None \<Rightarrow> [unseen_store] | Some sf \<Rightarrow> store_check cal sf th now"
    have r: "?bad ?R \<longleftrightarrow> \<not> ack_holds (ff_ack facts) ''relay_idle'' \<and> \<not> relay_alive th now facts"
      by (auto simp only: relay_check_fields)
    have s: "(\<exists>c \<in> set ?S. ?bad c) \<longleftrightarrow> \<not> store_alive th now (ack_holds (ff_ack facts)) (ff_store facts)"
      using store_alarms [of cal _ th now "ff_ack facts"]
      by (cases "ff_store facts") (auto simp: unseen_store_def store_alive_def [where store = None])
    have "(\<exists>c \<in> set (raw_checks cal facts th now store_only relay_only). ?bad c) \<longleftrightarrow>
        (\<not> relay_only \<and> (\<exists>c \<in> set ?S. ?bad c)) \<or> (\<not> store_only \<and> ?bad ?R)"
      unfolding raw_checks_def by (cases relay_only; cases store_only) (simp_all add: bex_Un disj_commute)
    then show ?thesis unfolding r s by blast
  qed
  finally show ?thesis by blast
qed

text \<open>
  C35: The fence reports that memory is alive exactly when everything it was asked to look at was
  seen and found alive, or is held by a live acknowledgement that names it: the store reachable, not
  empty and fresh, every watched project too; the marker and the receipts readable, and silence
  explained by too few builds, a recent ingest, a recent row of a watched project or a restart.
  There is no other way to a green verdict, so an input that cannot be read is an alarm.
\<close>

theorem fence_fine_iff:
  "fr_status (evaluate cal facts th now store_only relay_only) = Fine \<longleftrightarrow>
     (relay_only \<or> store_alive th now (ack_holds (ff_ack facts)) (ff_store facts)) \<and>
     (store_only \<or> ack_holds (ff_ack facts) ''relay_idle'' \<or> relay_alive th now facts)"
  by (rule fine_iff)

subsection \<open>The acknowledgement is bounded\<close>

lemma read_ack_active:
  assumes "read_ack cal path today f = Inr a" and "ack_active a"
  shows "\<exists>d. ack_until a = Some d \<and> today \<le> d \<and> d \<le> today + ACK_MAX_DAYS"
    and "\<exists>r. ack_reason a = Some r \<and> r \<noteq> []"
    and "\<exists>data cs. f = Content (Some (JObj data)) \<and> dict_get data ''checks'' = Some (JList cs) \<and>
      (\<forall>n \<in> set (ack_checks a). JStr n \<in> set cs)"
proof -
  obtain content where c: "f = Content content" "a = judge_ack cal path today content"
    using assms by (cases f) (auto simp: read_ack_def no_ack_def)
  obtain data where data: "content = Some (JObj data)"
    using assms(2) unfolding c(2) by (auto simp: judge_ack_def Let_def no_ack_def split: option.splits json.splits)
  have f: "f = Content (Some (JObj data))" and a: "a = judge_ack cal path today (Some (JObj data))" by (simp_all add: c data)
  let ?reason = "case json_get data ''reason'' of JStr r \<Rightarrow> Some r | _ \<Rightarrow> None"
  let ?checks = "case json_get data ''checks'' of JList cs \<Rightarrow> concat (map (\<lambda>c. case c of JStr n \<Rightarrow> [n] | _ \<Rightarrow> []) cs) | _ \<Rightarrow> []"
  have "\<exists>d. ack_until a = Some d \<and> today \<le> d \<and> d \<le> today + ACK_MAX_DAYS \<and> ?reason \<noteq> None \<and> ?reason \<noteq> Some [] \<and> ?checks \<noteq> []
      \<and> ack_reason a = ?reason \<and> ack_checks a = ?checks"
  proof (cases "json_get data ''until''")
    case (JStr u)
    then show ?thesis using assms(2) unfolding a judge_ack_def Let_def
      by (simp add: no_ack_def split: if_splits option.splits)
  qed (use assms(2) in \<open>simp_all add: a judge_ack_def Let_def no_ack_def\<close>)
  then obtain d where d: "ack_until a = Some d" "today \<le> d" "d \<le> today + ACK_MAX_DAYS"
    and r: "?reason \<noteq> None" "?reason \<noteq> Some []" "ack_reason a = ?reason"
    and c: "?checks \<noteq> []" "ack_checks a = ?checks" by blast
  show "\<exists>d. ack_until a = Some d \<and> today \<le> d \<and> d \<le> today + ACK_MAX_DAYS" using d by blast
  show "\<exists>r. ack_reason a = Some r \<and> r \<noteq> []" using r by (metis not_None_eq)
  obtain cs where cs: "json_get data ''checks'' = JList cs" using c(1) by (auto split: json.splits)
  then have "dict_get data ''checks'' = Some (JList cs)" by (auto simp: json_get_def split: option.splits)
  moreover have "\<forall>n \<in> set (ack_checks a). JStr n \<in> set cs" using c(2) cs by (auto split: json.splits)
  ultimately show "\<exists>data cs. f = Content (Some (JObj data)) \<and> dict_get data ''checks'' = Some (JList cs) \<and>
      (\<forall>n \<in> set (ack_checks a). JStr n \<in> set cs)" using f by blast
qed

lemma raw_not_held: "c \<in> set (raw_checks cal facts th now store_only relay_only) \<Longrightarrow> ck_status c \<noteq> Held"
proof -
  have s: "ck_status c \<noteq> Held" if "c \<in> set (store_check cal sf th now)" for c sf
    using that by (auto simp: store_check_def newest_check_def project_check_def Let_def split: if_splits option.splits)
  have v: "ck_status (relay_verdict cal b st th now store) \<noteq> Held" for b st store
    by (auto simp: relay_verdict_def relay_silent_def Let_def split: option.splits prod.splits)
  have "ck_status (relay_check cal b m th now store) \<noteq> Held" for b m store
    by (simp add: relay_check_def Let_def v split: option.splits)
  then show "c \<in> set (raw_checks cal facts th now store_only relay_only) \<Longrightarrow> ck_status c \<noteq> Held"
    using s by (auto simp: raw_checks_def unseen_store_def split: if_splits option.splits)
qed

text \<open>
  C38: A deferral is loud, dated and short: a check shows as held only if it tripped and the
  acknowledgement file names it, gives a reason and an end date no earlier than today and no later
  than fourteen days ahead; the held check keeps its reason, and no acknowledgement touches a check
  it does not name.
\<close>

theorem deferral_is_bounded:
  assumes "read_ack cal path today f = Inr (ff_ack facts)"
    and "c \<in> set (fr_checks (evaluate cal facts th now store_only relay_only))" and "ck_status c = Held"
  shows "\<exists>data cs r d. f = Content (Some (JObj data)) \<and> dict_get data ''checks'' = Some (JList cs) \<and> JStr (ck_name c) \<in> set cs \<and>
    ack_reason (ff_ack facts) = Some r \<and> r \<noteq> [] \<and> ack_until (ff_ack facts) = Some d \<and> today \<le> d \<and> d \<le> today + 14 \<and>
    (\<exists>c0 \<in> set (raw_checks cal facts th now store_only relay_only).
       ck_status c0 = Alarm \<and> ck_name c0 = ck_name c \<and> ck_reason c0 = ck_reason c)"
proof -
  from assms(2) obtain c0 where c0: "c0 \<in> set (raw_checks cal facts th now store_only relay_only)" "c = apply_ack cal (ff_ack facts) c0"
    by (auto simp: evaluate_def Let_def)
  have raw: "ck_status c0 \<noteq> Held" using raw_not_held c0(1) by blast
  have "ck_status c0 = Alarm" "ack_holds (ff_ack facts) (ck_name c0)" "ck_name c = ck_name c0" "ck_reason c = ck_reason c0"
    using assms(3) raw unfolding c0(2) by (auto simp: apply_ack_def Let_def split: if_splits)
  moreover from this(2) have "ack_active (ff_ack facts)" "ck_name c0 \<in> set (ack_checks (ff_ack facts))"
    by (simp_all add: ack_holds_def)
  ultimately show ?thesis using read_ack_active [OF assms(1)] c0(1) unfolding ACK_MAX_DAYS_def by metis
qed

subsection \<open>Which rows count for a project\<close>

text \<open>
  \<open>LIKE ... ESCAPE '\'\<close> as the SQL standard has it, as far as the pattern of a project needs it: an
  escaped character and an ordinary one stand for themselves, a percent sign for any text.
\<close>

locale sql_like =
  fixes like :: "string \<Rightarrow> string \<Rightarrow> bool"
  assumes like_end: "like [] s \<longleftrightarrow> s = []"
    and like_escaped: "like (CHR 0x5C # c # p) s \<longleftrightarrow> (\<exists>t. s = c # t \<and> like p t)"
    and like_any: "like (CHR ''%'' # p) s \<longleftrightarrow> (\<exists>t u. s = t @ u \<and> like p u)"
    and like_char: "c \<noteq> CHR 0x5C \<Longrightarrow> c \<noteq> CHR ''%'' \<Longrightarrow> c \<noteq> CHR ''_'' \<Longrightarrow>
      like (c # p) s \<longleftrightarrow> (\<exists>t. s = c # t \<and> like p t)"
begin

lemma like_literal: "like (escape_like x @ p) s \<longleftrightarrow> (\<exists>t. s = x @ t \<and> like p t)"
  by (induction x arbitrary: s) (auto simp: escape_like_def like_escaped like_char)

lemma like_project: "like (snd (project_patterns prj)) s \<longleftrightarrow> (\<exists>t. s = fst (project_patterns prj) @ ''.'' @ t)"
  by (auto simp: project_patterns_def Let_def like_literal like_char like_any like_end)

end

text \<open>The rows a project's query counts, by their dotted namespace.\<close>

definition counts_for :: "(string \<Rightarrow> string \<Rightarrow> bool) \<Rightarrow> string \<Rightarrow> string \<Rightarrow> bool" where
  "counts_for like prj row = (case project_patterns prj of (exact, pattern) \<Rightarrow> row = exact \<or> like pattern row)"

fun like_match :: "string \<Rightarrow> string \<Rightarrow> bool" where
  "like_match [] s = (s = [])"
| "like_match [p] s =
     (if p = CHR 0x5C then False else if p = CHR ''%'' then True else if p = CHR ''_'' then length s = 1 else s = [p])"
| "like_match (p # c # ps) s =
     (if p = CHR 0x5C then (case s of [] \<Rightarrow> False | d # ds \<Rightarrow> d = c \<and> like_match ps ds)
      else if p = CHR ''%'' then list_ex (\<lambda>i. like_match (c # ps) (drop i s)) [0..<Suc (length s)]
      else case s of [] \<Rightarrow> False | d # ds \<Rightarrow> (p = CHR ''_'' \<or> d = p) \<and> like_match (c # ps) ds)"

interpretation pg: sql_like like_match
proof
  show "like_match (CHR ''%'' # p) s \<longleftrightarrow> (\<exists>t u. s = t @ u \<and> like_match p u)" for p s
  proof (cases p)
    case (Cons c ps)
    have "(\<exists>i \<in> set [0..<Suc (length s)]. like_match p (drop i s)) \<longleftrightarrow> (\<exists>t u. s = t @ u \<and> like_match p u)"
      by (metis append_eq_conv_conj append_take_drop_id atLeastLessThan_iff atLeastLessThan_upt le_imp_less_Suc
          length_append le_add1 zero_le)
    then show ?thesis using Cons by (simp add: list_ex_iff del: upt_Suc)
  qed simp
  show "like_match (CHR 0x5C # c # p) s \<longleftrightarrow> (\<exists>t. s = c # t \<and> like_match p t)" for c p s
    by (cases s) auto
  show "c \<noteq> CHR 0x5C \<Longrightarrow> c \<noteq> CHR ''%'' \<Longrightarrow> c \<noteq> CHR ''_'' \<Longrightarrow> like_match (c # p) s \<longleftrightarrow> (\<exists>t. s = c # t \<and> like_match p t)" for c p s
    by (cases p; cases s) auto
qed simp

lemma dotted_split: "\<forall>x \<in> set ns. CHR ''.'' \<notin> set x \<Longrightarrow> ns \<noteq> [] \<Longrightarrow> split_on CHR ''.'' (join ''.'' ns) = ns"
  by (simp add: split_join)

lemma ns_char_no_dot: "full_class ns_char x \<Longrightarrow> CHR ''.'' \<notin> set x"
  by (auto simp: full_class_def list_all_iff char_class_defs)

text \<open>
  The freshness of a project is measured on its own rows only: for a namespace of valid parts the
  query of a project counts a row exactly when the row lies under that project, although the names
  contain underscores, which are wildcards of \<open>LIKE\<close>.
\<close>

theorem project_rows_exact:
  assumes "sql_like like" and "validate_namespace ns = Inr ()" and "ns \<noteq> []" and "full_class ns_char prj"
  shows "counts_for like prj (join ''.'' ns) \<longleftrightarrow> under [''fleet_memory'', prj] ns"
proof -
  let ?exact = "''fleet_memory.'' @ prj"
  have dots: "\<forall>x \<in> set ns. CHR ''.'' \<notin> set x" "CHR ''.'' \<notin> set prj"
    using assms(2,4) ns_char_no_dot by (auto simp: validate_namespace_ok)
  have ns: "split_on CHR ''.'' (join ''.'' ns) = ns" using dotted_split [OF dots(1) assms(3)] .
  have e: "split_on CHR ''.'' ?exact = [''fleet_memory'', prj]" using dots(2) by (simp add: split_on_free)
  have "counts_for like prj (join ''.'' ns) \<longleftrightarrow> join ''.'' ns = ?exact \<or> (\<exists>t. join ''.'' ns = ?exact @ ''.'' @ t)"
    using sql_like.like_project [OF assms(1), of prj] by (simp add: counts_for_def project_patterns_def Let_def)
  also have "\<dots> \<longleftrightarrow> (\<exists>rest. ns = [''fleet_memory'', prj] @ rest)"
  proof
    assume "join ''.'' ns = ?exact \<or> (\<exists>t. join ''.'' ns = ?exact @ ''.'' @ t)"
    then show "\<exists>rest. ns = [''fleet_memory'', prj] @ rest"
    proof
      assume "join ''.'' ns = ?exact"
      then show ?thesis using ns e by (metis append_Nil2)
    next
      assume "\<exists>t. join ''.'' ns = ?exact @ ''.'' @ t"
      then obtain t where "join ''.'' ns = ''fleet_memory.'' @ prj @ CHR ''.'' # t" by auto
      moreover have "split_on CHR ''.'' (''fleet_memory.'' @ prj @ CHR ''.'' # t) = ''fleet_memory'' # prj # split_on CHR ''.'' t"
        using split_on_append_sep [OF dots(2)] by simp
      ultimately show ?thesis using ns by auto
    qed
  next
    assume "\<exists>rest. ns = [''fleet_memory'', prj] @ rest"
    then obtain rest where "ns = ''fleet_memory'' # prj # rest" by auto
    then show "join ''.'' ns = ?exact \<or> (\<exists>t. join ''.'' ns = ?exact @ ''.'' @ t)"
      by (cases "rest = []") (auto simp: join_Cons)
  qed
  also have "\<dots> \<longleftrightarrow> under [''fleet_memory'', prj] ns"
    by (auto simp: under_def) (metis append_take_drop_id append_Cons append_Nil)
  finally show ?thesis .
qed

theorem project_rows_exact_witness:
  "counts_for like_match ''nats_core'' ''fleet_memory.nats_core.adr'' \<and>
   \<not> counts_for like_match ''nats_core'' ''fleet_memory.natsXcore.adr''"
proof -
  have core: "full_class ns_char ''nats_core''" by (simp add: full_class_def char_class_defs)
  have "validate_namespace [''fleet_memory'', ''nats_core'', ''adr''] = Inr ()"
    by (simp add: validate_namespace_ok full_class_def char_class_defs)
  from project_rows_exact [OF pg.sql_like_axioms this _ core]
  have "counts_for like_match ''nats_core'' ''fleet_memory.nats_core.adr''" by (simp add: under_def)
  moreover have "validate_namespace [''fleet_memory'', ''nats'', ''core''] = Inr ()"
    by (simp add: validate_namespace_ok full_class_def char_class_defs)
  ultimately show ?thesis by (simp add: counts_for_def project_patterns_def escape_like_def)
qed

subsection \<open>The marker survives a restart\<close>

text \<open>
  What the code relies on in the two time formats: what \<open>strftime\<close> writes is no empty text, has
  its only capital Z at the end, and \<open>fromisoformat\<close> reads it back to the second.
\<close>

definition stamps_read_back :: "calendar \<Rightarrow> (int \<Rightarrow> string) \<Rightarrow> bool" where
  "stamps_read_back cal stamp \<longleftrightarrow>
     (\<forall>t. stamp t \<noteq> [] \<and> from_iso cal (replace_Z (stamp t)) = Some (t div second * second))"

lemma parse_stamp_text: "stamps_read_back cal stamp \<Longrightarrow> parse_iso cal (opt_json id (map_option stamp x)) =
    map_option (\<lambda>t. t div second * second) x"
  by (cases x) (simp_all add: parse_iso_def opt_json_def stamps_read_back_def)

definition marker_of :: "(int \<Rightarrow> string) \<Rightarrow> int \<Rightarrow> int option \<Rightarrow> int option \<Rightarrow> string option \<Rightarrow> nat \<Rightarrow> nat \<Rightarrow> relay_marker" where
  "marker_of stamp started msg ing disp messages ingests =
     \<lparr>m_started_at = Some (stamp started), m_last_message_at = map_option stamp msg, m_last_ingest_at = map_option stamp ing,
      m_last_disposition = disp, m_messages = messages, m_ingests = ingests\<rparr>"

lemma payload_get:
  "json_get (marker_payload m) ''started_at'' = opt_json id (m_started_at m)"
  "json_get (marker_payload m) ''last_message_at'' = opt_json id (m_last_message_at m)"
  "json_get (marker_payload m) ''last_ingest_at'' = opt_json id (m_last_ingest_at m)"
  "json_get (marker_payload m) ''messages_since_start'' = JInt (int (m_messages m))"
  "json_get (marker_payload m) ''ingests_since_start'' = JInt (int (m_ingests m))"
  "json_get (marker_payload m) ''last_disposition'' = opt_json id (m_last_disposition m)"
  by (simp_all add: json_get_def marker_payload_def)

lemma marker_read_back:
  assumes "stamps_read_back cal stamp"
  shows "read_marker cal fi path (Content (Some (JObj (marker_payload (marker_of stamp started msg ing disp n k))))) =
    Inr \<lparr>mk_state = Some \<lparr>started_at = Some (started div second * second),
           last_message_at = map_option (\<lambda>t. t div second * second) msg,
           last_ingest_at = map_option (\<lambda>t. t div second * second) ing,
           messages_since_start = int n, ingests_since_start = int k, last_disposition = disp\<rparr>,
         mk_problem = None, mk_path = path\<rparr>"
proof -
  have "parse_iso cal (opt_json id (Some (stamp started))) = Some (started div second * second)"
    using assms by (simp add: parse_iso_def stamps_read_back_def opt_json_def)
  moreover have "(case opt_json id disp of JStr s \<Rightarrow> Some s | _ \<Rightarrow> None) = disp"
    by (cases disp) (simp_all add: opt_json_def)
  ultimately show ?thesis
    by (simp add: read_marker_def read_state_def payload_get marker_of_def int_or_zero_def parse_stamp_text [OF assms])
qed

text \<open>
  A restart does not erase what the idle check judges on. After a relay recorded an ingest and
  wrote its marker, a new process that starts over the same file writes a marker from which the
  fence reads the same time of the last ingest (to the second), the new start and counters of zero.
\<close>

theorem marker_survives_restart:
  assumes "stamps_read_back cal stamp"
    and "record_ingest stamp t True (m, f) = (m1, f1)" and "m_started_at m = Some (stamp t0)"
    and "record_start cal fi stamp now True (fresh, f1) = Inr (m2, f2)"
  shows "\<exists>st. read_marker cal fi path f2 = Inr \<lparr>mk_state = Some st, mk_problem = None, mk_path = path\<rparr> \<and>
    last_ingest_at st = Some (t div second * second) \<and> last_message_at st = Some (t div second * second) \<and>
    started_at st = Some (now div second * second) \<and> last_disposition st = Some ''ack'' \<and>
    messages_since_start st = 0 \<and> ingests_since_start st = 0"
proof -
  have m1: "m1 = marker_of stamp t0 (Some t) (Some t) (Some ''ack'') (Suc (m_messages m)) (Suc (m_ingests m))"
    and f1: "f1 = Content (Some (JObj (marker_payload m1)))"
    using assms(2,3) by (auto simp: record_ingest_def Let_def marker_write_def marker_of_def)
  let ?t = "t div second * second"
  have start: "m2 = fresh\<lparr>m_last_message_at := Some (stamp ?t), m_last_ingest_at := Some (stamp ?t),
      m_last_disposition := Some ''ack'', m_started_at := Some (stamp now), m_messages := 0, m_ingests := 0\<rparr> \<and>
      f2 = Content (Some (JObj (marker_payload m2)))"
    using assms(4) unfolding f1 m1 record_start_def
    by (auto simp: marker_read_back [OF assms(1)] Let_def marker_write_def)
  then have "m2 = marker_of stamp now (Some ?t) (Some ?t) (Some ''ack'') 0 0" and f2: "f2 = Content (Some (JObj (marker_payload m2)))"
    by (simp_all add: marker_of_def)
  moreover have "?t div second * second = ?t" by (simp add: second_def)
  ultimately show ?thesis using marker_read_back [OF assms(1)] by auto
qed

subsection \<open>One run\<close>

lemma no_ack_holds: "\<not> ack_holds (no_ack path) c"
  by (simp add: ack_holds_def no_ack_def)

lemma unreachable_dark: "\<not> ack_holds a ''store_age'' \<Longrightarrow> \<not> store_alive th now (ack_holds a) (Some (unreachable q m))"
  by (simp add: store_alive_def unreachable_def)

lemma read_store_facts_reached:
  assumes "read_store_facts q ps s = (Ok sf, s')" and "sf_reachable sf"
  shows "\<exists>u s1. sql_connect q s = (Ok u, s1)"
  using assms by (auto simp: read_store_facts_def unreachable_def split: prod.splits res.splits)

text \<open>
  C39: A run of the fence ends with code 0, 1 or 20, never with an exception; 20 is the run that made
  no report. Without an acknowledgement file, code 0 of a run that looks at the store means that the
  store was connected to, answered, is not empty and has a row younger than the limit.
\<close>

theorem fence_run_codes:
  "(\<forall>e. fst (fence_main cal fi q th rc mf ack now today store_only relay_only s) \<noteq> Exn e) \<and>
   (fence_main cal fi q th rc mf ack now today store_only relay_only s = (Ok (code, rep), s') \<longrightarrow>
      (code = 0 \<or> code = 1 \<or> code = 20) \<and> (code = 20 \<longleftrightarrow> rep = None) \<and>
      (code = 0 \<and> \<not> relay_only \<and> ack = NotFound \<longrightarrow>
         (\<exists>sf u s1 s2. sql_connect q s = (Ok u, s1) \<and> read_store_facts q (watch_projects th) s = (Ok sf, s2) \<and>
            sf_reachable sf \<and> sf_row_count sf \<noteq> 0 \<and> recent_enough th now (sf_newest_updated_at sf))))"
proof -
  let ?run = "fence_main cal fi q th rc mf ack now today store_only relay_only s"
  have "fst ?run \<noteq> Exn e" for e
    by (auto simp: fence_main_def catch_def ret_def split: prod.splits res.splits)
  moreover have "(code = 0 \<or> code = 1 \<or> code = 20) \<and> (code = 20 \<longleftrightarrow> rep = None)" if "?run = (Ok (code, rep), s')"
    using that by (auto simp: fence_main_def catch_def ret_def bind_Ok_iff Let_def exit_code_def split: prod.splits res.splits if_splits)
  moreover have "\<exists>sf u s1 s2. sql_connect q s = (Ok u, s1) \<and> read_store_facts q (watch_projects th) s = (Ok sf, s2) \<and>
      sf_reachable sf \<and> sf_row_count sf \<noteq> 0 \<and> recent_enough th now (sf_newest_updated_at sf)"
    if run: "?run = (Ok (code, rep), s')" and rest: "code = 0" "\<not> relay_only" "ack = NotFound"
  proof -
    let ?facts = "\<lambda>sf marker. \<lparr>ff_store = Some sf, ff_builds = (if store_only then None else Some (scan_builds cal [] rc)),
      ff_marker = marker, ff_ack = no_ack []\<rparr>"
    obtain sf s1 marker where sf: "read_store_facts q (watch_projects th) s = (Ok sf, s1)"
      and code: "exit_code (evaluate cal (?facts sf marker) th now store_only relay_only) = 0"
      using run rest unfolding fence_main_def catch_def
      by (auto simp: ret_def bind_Ok_iff Let_def read_ack_def lift_res_def split: prod.splits res.splits)
    define facts where "facts = ?facts sf marker"
    have facts: "ff_store facts = Some sf" "ff_ack facts = no_ack []" by (simp_all add: facts_def)
    have fine: "fr_status (evaluate cal facts th now store_only relay_only) = Fine"
      using code by (simp add: facts_def exit_code_def evaluate_def Let_def split: if_splits)
    have "store_alive th now (ack_holds (ff_ack facts)) (Some sf)"
      using fine rest(2) facts(1) by (simp add: fine_iff)
    then have "sf_reachable sf \<and> sf_row_count sf \<noteq> 0 \<and> recent_enough th now (sf_newest_updated_at sf)"
      by (auto simp: store_alive_def facts(2) no_ack_holds split: if_splits)
    then show ?thesis using sf read_store_facts_reached [OF sf] by blast
  qed
  ultimately show ?thesis by blast
qed

subsection \<open>Witnesses\<close>

text \<open>A calendar that writes a time as its number of seconds in digits.\<close>

definition toy_stamp :: "int \<Rightarrow> string" where
  "toy_stamp t = (if 0 \<le> t then CHR ''p'' else CHR ''n'') # show_nat (nat \<bar>t div second\<bar>)"

definition toy_read :: "string \<Rightarrow> int option" where
  "toy_read s = (case s of [] \<Rightarrow> None | c # cs \<Rightarrow> Some ((if c = CHR ''p'' then 1 else - 1) * int (nat_of_digits cs) * second))"

definition toy_calendar :: calendar where
  "toy_calendar = \<lparr>iso = toy_stamp, from_iso = toy_read, date_iso = show_int, date_from_iso = toy_read,
     local_to_utc = sum_list, hours2 = show_int\<rparr>"

lemma replace_Z_id: "CHR ''Z'' \<notin> set s \<Longrightarrow> replace_Z s = s"
  by (induction s) (auto simp: replace_Z_def)

lemma toy_stamps: "stamps_read_back toy_calendar toy_stamp"
proof -
  have "replace_Z (toy_stamp t) = toy_stamp t" for t
  proof (rule replace_Z_id)
    have "CHR ''Z'' \<notin> set (show_nat n)" for n
      using show_nat_digits [of "CHR ''Z''" n] by (auto simp: is_digit_def in_range_def)
    then show "CHR ''Z'' \<notin> set (toy_stamp t)" by (simp add: toy_stamp_def)
  qed
  moreover have "toy_read (toy_stamp t) = Some (t div second * second)" for t
  proof (cases "0 \<le> t")
    case True
    then have "0 \<le> t div second" by (simp add: second_def)
    then show ?thesis using True by (simp add: toy_read_def toy_stamp_def)
  next
    case False
    then have "t div second < 0" by (simp add: second_def)
    then show ?thesis using False by (simp add: toy_read_def toy_stamp_def)
  qed
  ultimately show ?thesis by (simp add: stamps_read_back_def toy_calendar_def toy_stamp_def)
qed

definition no_float :: "string \<Rightarrow> exn + int" where "no_float l = Inl (ValueError l)"

definition new_marker :: relay_marker where
  "new_marker = \<lparr>m_started_at = None, m_last_message_at = None, m_last_ingest_at = None, m_last_disposition = None,
     m_messages = 0, m_ingests = 0\<rparr>"

theorem marker_survives_restart_witness:
  "\<exists>m2 f2 st. record_start toy_calendar no_float toy_stamp 9000000 True
      (new_marker, snd (record_ingest toy_stamp 5000000 True (new_marker\<lparr>m_started_at := Some (toy_stamp 1000000)\<rparr>, NotFound)))
      = Inr (m2, f2) \<and>
    read_marker toy_calendar no_float [] f2 = Inr \<lparr>mk_state = Some st, mk_problem = None, mk_path = []\<rparr> \<and>
    last_ingest_at st = Some 5000000 \<and> started_at st = Some 9000000"
proof -
  let ?m = "new_marker\<lparr>m_started_at := Some (toy_stamp 1000000)\<rparr>"
  obtain m1 f1 where i: "record_ingest toy_stamp 5000000 True (?m, NotFound) = (m1, f1)" by fastforce
  have m1: "m1 = marker_of toy_stamp 1000000 (Some 5000000) (Some 5000000) (Some ''ack'') 1 1"
    and f1: "f1 = Content (Some (JObj (marker_payload m1)))"
    using i by (auto simp: record_ingest_def Let_def marker_write_def marker_of_def new_marker_def)
  obtain m2 f2 where r: "record_start toy_calendar no_float toy_stamp 9000000 True (new_marker, f1) = Inr (m2, f2)"
    unfolding f1 m1 record_start_def by (simp add: marker_read_back [OF toy_stamps] Let_def)
  from marker_survives_restart [OF toy_stamps i _ r, of 1000000 "[]"] show ?thesis
    using i r by (auto simp: second_def)
qed

definition sample_thresholds :: thresholds where
  "sample_thresholds = \<lparr>store_max_age_hours = 168, build_window_hours = 72, min_builds_in_window = 3,
     relay_restart_grace_minutes = 75, watch_projects = []\<rparr>"

definition sample_ack_content :: "json option" where
  "sample_ack_content = Some (JObj [(''reason'', JStr ''migrating''), (''until'', JStr ''p3''),
     (''checks'', JList [JStr ''store_age''])])"

definition dark_facts :: fence_facts where
  "dark_facts = \<lparr>ff_store = None, ff_builds = None, ff_marker = None, 
     ff_ack = judge_ack toy_calendar [] 2999990 sample_ack_content\<rparr>"

lemma sample_ack: "ack_holds (ff_ack dark_facts) ''store_age''"
  by (simp add: dark_facts_def ack_holds_def judge_ack_def sample_ack_content_def json_get_def Let_def toy_calendar_def toy_read_def
      second_def nat_of_digits_def digit_val_def ACK_MAX_DAYS_def no_ack_def)

theorem deferral_is_bounded_witness:
  "\<exists>c. c \<in> set (fr_checks (evaluate toy_calendar dark_facts sample_thresholds 0 True False)) \<and> ck_status c = Held \<and>
     (\<exists>d. ack_until (ff_ack dark_facts) = Some d \<and> 2999990 \<le> d \<and> d \<le> 2999990 + 14)"
proof -
  let ?c = "apply_ack toy_calendar (ff_ack dark_facts) unseen_store"
  have c: "?c \<in> set (fr_checks (evaluate toy_calendar dark_facts sample_thresholds 0 True False))"
    by (simp add: evaluate_def Let_def raw_checks_def) (simp add: dark_facts_def)
  have held: "ck_status ?c = Held" using sample_ack by (simp add: apply_ack_def unseen_store_def Let_def)
  have "read_ack toy_calendar [] 2999990 (Content sample_ack_content) = Inr (ff_ack dark_facts)"
    by (simp add: dark_facts_def read_ack_def)
  from deferral_is_bounded [OF this c held] c held show ?thesis by blast
qed

definition sample_sql :: "nat sql" where
  "sample_sql = \<lparr>sql_connect = ret (), sql_execute = (\<lambda>q. ret ()), sql_store_age = ret (Some (Some 5, Some 5, 7)),
     sql_project_age = (\<lambda>e p. ret None), scrub = id, label = ''db'', type_of = (\<lambda>e. ''Error'')\<rparr>"

lemma sample_sql_facts: "read_store_facts sample_sql [] 0 =
   (Ok \<lparr>sf_target = ''db'', sf_reachable = True, sf_newest_updated_at = Some 5, sf_newest_created_at = Some 5,
     sf_row_count = 7, sf_per_project = [], sf_problem = None\<rparr>, 0)"
  by (simp add: read_store_facts_def query_store_def READ_ONLY_SESSION_SQL_def sample_sql_def catch_def bind_def ret_def
      Let_def row_facts_def)

lemma sample_fence_run: "\<exists>rep. fence_main toy_calendar no_float sample_sql sample_thresholds DirNotFound NotFound NotFound 9 0 True False 0
    = (Ok (0, Some rep), 0)"
proof -
  let ?sf = "\<lparr>sf_target = ''db'', sf_reachable = True, sf_newest_updated_at = Some 5, sf_newest_created_at = Some 5,
     sf_row_count = 7, sf_per_project = [], sf_problem = None\<rparr>"
  let ?facts = "\<lparr>ff_store = Some ?sf, ff_builds = None, ff_marker = None, ff_ack = no_ack []\<rparr>"
  have "store_alive sample_thresholds 9 (ack_holds (ff_ack ?facts)) (Some ?sf)"
    by (simp add: store_alive_def recent_enough_def sample_thresholds_def hour_def minute_def second_def)
  then have "fr_status (evaluate toy_calendar ?facts sample_thresholds 9 True False) = Fine" by (simp add: fine_iff)
  then have "exit_code (evaluate toy_calendar ?facts sample_thresholds 9 True False) = 0" by (simp add: exit_code_def)
  moreover have "watch_projects sample_thresholds = []" by (simp add: sample_thresholds_def)
  ultimately show ?thesis
    using sample_sql_facts by (simp add: fence_main_def catch_def bind_def ret_def Let_def read_ack_def lift_res_def)
qed

theorem fence_run_codes_witness:
  "\<exists>sf s2. read_store_facts sample_sql (watch_projects sample_thresholds) 0 = (Ok sf, s2) \<and> sf_reachable sf \<and>
     recent_enough sample_thresholds 9 (sf_newest_updated_at sf)"
proof -
  obtain rep where "fence_main toy_calendar no_float sample_sql sample_thresholds DirNotFound NotFound NotFound 9 0 True False 0
    = (Ok (0, Some rep), 0)" using sample_fence_run by blast
  with fence_run_codes [of toy_calendar no_float sample_sql sample_thresholds DirNotFound NotFound NotFound 9 0 True False 0 0 "Some rep" 0]
  show ?thesis by blast
qed

end
