(* ===== verification/Fixture.thy ===== *)
theory Fixture
  imports Fence
begin

text \<open>
  The copies of a store an evaluation works on: the errors of the package (\<open>fixture/__init__.py\<close>), the
  texts that may name a database (\<open>fixture/dsn.py\<close>), the scratch projects of a rollout
  (\<open>fixture/scratch.py\<close>) and the temporal cut (\<open>fixture/temporal_cut.py\<close>). A database is its two tables;
  what PostgreSQL does with a statement is written out on them, its operators (\<open>LIKE\<close>, the text of a
  JSON value, the cast to a time) and its failures are the fields of a session. The results: discarding a
  scratch project deletes exactly its rows, the cut leaves exactly the entries before its instant, and
  what fails changes nothing.
\<close>

subsection \<open>Errors\<close>

datatype fixture_error =
    FixtureError string
  | UnknownFixtureError string
  | FixtureHashMismatchError string string string
  | InvalidCutDateError "string option"
  | ScratchNamespaceError string
  | Raised exn

fun is_FixtureError :: "fixture_error \<Rightarrow> bool" where
  "is_FixtureError (Raised e) = False"
| "is_FixtureError _ = True"

fun fixture_error_str :: "fixture_error \<Rightarrow> string" where
  "fixture_error_str (FixtureError m) = m"
| "fixture_error_str (UnknownFixtureError i) = ''Unknown fixture '' @ [CHR 0x27] @ i @ [CHR 0x27]"
| "fixture_error_str (FixtureHashMismatchError i expected actual) =
     ''Fixture '' @ [CHR 0x27] @ i @ [CHR 0x27] @ '' hash mismatch: expected '' @ expected @ '', got '' @ actual"
| "fixture_error_str (InvalidCutDateError detail) =
     ''Invalid cut date'' @ (case detail of None \<Rightarrow> [] | Some d \<Rightarrow> if d = [] then [] else '': '' @ d)"
| "fixture_error_str (ScratchNamespaceError detail) = ''Invalid scratch namespace: '' @ detail"
| "fixture_error_str (Raised e) = exn_str e"

subsection \<open>Naming a database\<close>

text \<open>\<open>conninfo_to_dict\<close> of psycopg, which may raise.\<close>

type_synonym conninfo = "string \<Rightarrow> (string \<times> string option) list option"

definition parse_conninfo :: "conninfo \<Rightarrow> string \<Rightarrow> (string \<times> string) list" where
  "parse_conninfo conninfo_to_dict dsn =
     (case conninfo_to_dict dsn of
        None \<Rightarrow> []
      | Some kvs \<Rightarrow> List.map_filter (\<lambda>(k, v). map_option (Pair k) v) kvs)"

definition text_or :: "string option \<Rightarrow> string \<Rightarrow> string" where
  "text_or v d = (case v of None \<Rightarrow> d | Some s \<Rightarrow> if s = [] then d else s)"

definition sanitize_target :: "conninfo \<Rightarrow> string \<Rightarrow> string" where
  "sanitize_target ci dsn =
     (let info = parse_conninfo ci dsn in
      text_or (dict_get info ''host'') ''localhost'' @ '':'' @ text_or (dict_get info ''port'') ''5432'' @ ''/''
        @ text_or (dict_get info ''dbname'') [])"

definition scrub_secrets :: "conninfo \<Rightarrow> string \<Rightarrow> string \<Rightarrow> string" where
  "scrub_secrets ci msg dsn =
     (if msg = [] then []
      else (let scrubbed = str_replace dsn ''<dsn>'' msg; password = text_or (dict_get (parse_conninfo ci dsn) ''password'') [] in
            if password \<noteq> [] then str_replace password ''***'' scrubbed else scrubbed))"

lemma scrub_no_password:
  assumes "dict_get (parse_conninfo ci dsn) ''password'' = Some password" and "password \<noteq> []" and "CHR ''*'' \<notin> set password"
  shows "\<not> sublist password (scrub_secrets ci msg dsn)"
proof (cases "msg = []")
  case False
  then have "scrub_secrets ci msg dsn = replace_all password ''***'' (str_replace dsn ''<dsn>'' msg)"
    using assms(1,2) by (simp add: scrub_secrets_def text_or_def str_replace_def)
  with replace_all_gone [of "''***''" password] assms(2,3) show ?thesis by simp
qed (use assms(2) in \<open>simp add: scrub_secrets_def\<close>)

subsection \<open>A database and a session on it\<close>

record store_row =
  sr_prefix :: string
  sr_key :: string
  sr_value :: json

record vector_row =
  vr_prefix :: string
  vr_key :: string
  vr_field :: string

record database =
  db_store :: "store_row list"
  db_vectors :: "vector_row list"

text \<open>
  \<open>pg_connect\<close> is the text of the exception that opening a connection to an address raises,
  \<open>pg_fail\<close> the one a statement raises when it is executed, \<open>pg_commit\<close> the one of the commit. A
  connection that is closed without a commit is rolled back.
\<close>

record session =
  pg_connect :: "string \<Rightarrow> string option"
  pg_fail :: "string \<Rightarrow> string option"
  pg_commit :: "string option"
  pg_like :: "string \<Rightarrow> string \<Rightarrow> bool"
  pg_text :: "json \<Rightarrow> string"
  pg_timestamptz :: "string \<Rightarrow> string + int"

definition may_fail :: "string option \<Rightarrow> string + unit" where
  "may_fail x = (case x of None \<Rightarrow> Inr () | Some m \<Rightarrow> Inl m)"

definition execute :: "session \<Rightarrow> string \<Rightarrow> string + 'a \<Rightarrow> string + 'a" where
  "execute se sql r = and_then (may_fail (pg_fail se sql)) (\<lambda>_. r)"

text \<open>
  The body every operation runs its statements in: a connection that cannot be opened and a statement
  that fails are reported without credentials, and leave the database as it was.
\<close>

definition in_transaction ::
  "session \<Rightarrow> conninfo \<Rightarrow> string \<Rightarrow> string \<Rightarrow> (database \<Rightarrow> string + ('a \<times> database)) \<Rightarrow> database \<Rightarrow> (fixture_error + 'a) \<times> database" where
  "in_transaction se ci what dsn body db =
     (let target = sanitize_target ci dsn in
      case pg_connect se dsn of
        Some m \<Rightarrow> (Inl (FixtureError (''Cannot connect to '' @ target @ '': '' @ scrub_secrets ci m dsn)), db)
      | None \<Rightarrow>
          (case body db of
             Inl m \<Rightarrow> (Inl (FixtureError (what @ '' on '' @ target @ '' failed: '' @ scrub_secrets ci m dsn)), db)
           | Inr (x, db') \<Rightarrow> (Inr x, db')))"

definition commit :: "session \<Rightarrow> 'a \<Rightarrow> database \<Rightarrow> string + ('a \<times> database)" where
  "commit se x db' = and_then (may_fail (pg_commit se)) (\<lambda>_. Inr (x, db'))"

lemma transaction_result:
  "in_transaction se ci what dsn body db = (Inr x, db') \<longleftrightarrow> pg_connect se dsn = None \<and> body db = Inr (x, db')"
  by (auto simp: in_transaction_def Let_def split: option.splits sum.splits)

lemma transaction_failed:
  "in_transaction se ci what dsn body db = (Inl e, db') \<Longrightarrow> db' = db \<and> is_FixtureError e"
  by (auto simp: in_transaction_def Let_def split: option.splits sum.splits)

lemma execute_Inr: "execute se sql r = Inr x \<longleftrightarrow> pg_fail se sql = None \<and> r = Inr x"
  by (auto simp: execute_def may_fail_def split: option.splits)

lemma commit_Inr: "commit se x db' = Inr y \<longleftrightarrow> pg_commit se = None \<and> y = (x, db')"
  by (auto simp: commit_def may_fail_def split: option.splits)

subsection \<open>Scratch projects\<close>

definition NAMESPACE_ROOT :: string where "NAMESPACE_ROOT = ''fleet_memory''"
definition SCRATCH_PREFIX :: string where "SCRATCH_PREFIX = ''scratch_''"

definition sql_name :: "string \<Rightarrow> string" where "sql_name s = [CHR 0x22] @ s @ [CHR 0x22]"

definition MATCH_CLAUSE :: string where
  "MATCH_CLAUSE = ''prefix = %(prefix)s OR prefix LIKE %(pattern)s ESCAPE '' @ [CHR 0x27, CHR 0x5C, CHR 0x27]"

definition DISCARD_VECTORS_SQL :: string where
  "DISCARD_VECTORS_SQL = ''DELETE FROM '' @ sql_name ''public'' @ ''.'' @ sql_name ''store_vectors'' @ '' WHERE '' @ MATCH_CLAUSE"

definition DISCARD_STORE_SQL :: string where
  "DISCARD_STORE_SQL = ''DELETE FROM '' @ sql_name ''public'' @ ''.'' @ sql_name ''store'' @ '' WHERE '' @ MATCH_CLAUSE"

definition LIST_PREFIXES_SQL :: string where
  "LIST_PREFIXES_SQL = ''SELECT DISTINCT prefix FROM '' @ sql_name ''public'' @ ''.'' @ sql_name ''store''"

text \<open>\<open>type(x).__name__\<close> of a value that came from JSON or a command line.\<close>

fun json_type_name :: "json \<Rightarrow> string" where
  "json_type_name JNull = ''NoneType''"
| "json_type_name (JBool b) = ''bool''"
| "json_type_name (JInt i) = ''int''"
| "json_type_name (JFloat l) = ''float''"
| "json_type_name (JStr s) = ''str''"
| "json_type_name (JList xs) = ''list''"
| "json_type_name (JObj kvs) = ''dict''"

definition scratch_project :: "json \<Rightarrow> fixture_error + string" where
  "scratch_project rollout_id =
     (case rollout_id of
        JStr s \<Rightarrow>
          if s = [] then Inl (ScratchNamespaceError ''rollout_id is empty'')
          else if \<not> full_class ns_char (SCRATCH_PREFIX @ s) then Inl (ScratchNamespaceError
            (''rollout_id '' @ repr_str s @ '' does not produce a valid project segment (^[a-z0-9_]+$); refusing to sanitise it silently''))
          else Inr (SCRATCH_PREFIX @ s)
      | v \<Rightarrow> Inl (ScratchNamespaceError (''rollout_id must be a string, got '' @ json_type_name v)))"

definition scratch_namespace :: "json \<Rightarrow> json \<Rightarrow> fixture_error + namespace" where
  "scratch_namespace rollout_id kind =
     and_then (scratch_project rollout_id) (\<lambda>project.
       case kind of
         JStr t \<Rightarrow>
           if full_class ns_char t then Inr [NAMESPACE_ROOT, project, t]
           else Inl (ScratchNamespaceError (''payload_type '' @ repr_str t @ '' is not a valid namespace segment (^[a-z0-9_]+$)''))
       | v \<Rightarrow> Inl (ScratchNamespaceError (''payload_type '' @ repr_json v @ '' is not a valid namespace segment (^[a-z0-9_]+$)'')))"

definition discard_patterns :: "json \<Rightarrow> fixture_error + string \<times> string" where
  "discard_patterns rollout_id =
     and_then (scratch_project rollout_id) (\<lambda>project.
       let exact = NAMESPACE_ROOT @ ''.'' @ project in Inr (exact, escape_like exact @ ''.%''))"

text \<open>The \<open>WHERE\<close> clause of both statements, on the prefix of a row.\<close>

definition scratch_row :: "session \<Rightarrow> string \<times> string \<Rightarrow> string \<Rightarrow> bool" where
  "scratch_row se params p \<longleftrightarrow> p = fst params \<or> pg_like se (snd params) p"

definition discard_body :: "session \<Rightarrow> string \<times> string \<Rightarrow> database \<Rightarrow> string + (nat \<times> database)" where
  "discard_body se params db =
     and_then (execute se DISCARD_VECTORS_SQL (Inr (filter (\<lambda>v. \<not> scratch_row se params (vr_prefix v)) (db_vectors db)))) (\<lambda>vectors.
     and_then (execute se DISCARD_STORE_SQL (Inr (filter (\<lambda>r. \<not> scratch_row se params (sr_prefix r)) (db_store db)))) (\<lambda>rows.
       commit se (length (filter (\<lambda>r. scratch_row se params (sr_prefix r)) (db_store db)))
         (db\<lparr>db_store := rows, db_vectors := vectors\<rparr>)))"

definition discard_scratch :: "session \<Rightarrow> conninfo \<Rightarrow> string \<Rightarrow> json \<Rightarrow> database \<Rightarrow> (fixture_error + nat) \<times> database" where
  "discard_scratch se ci target_dsn rollout_id db =
     (case discard_patterns rollout_id of
        Inl e \<Rightarrow> (Inl e, db)
      | Inr params \<Rightarrow> in_transaction se ci ''Scratch discard'' target_dsn (discard_body se params) db)"

definition scratch_of_prefix :: "string \<Rightarrow> string option" where
  "scratch_of_prefix p =
     (case split_on CHR ''.'' p of
        base # project # rest \<Rightarrow> if base = NAMESPACE_ROOT \<and> prefix SCRATCH_PREFIX project then Some project else None
      | _ \<Rightarrow> None)"

definition list_scratch_projects :: "session \<Rightarrow> conninfo \<Rightarrow> string \<Rightarrow> database \<Rightarrow> (fixture_error + string list) \<times> database" where
  "list_scratch_projects se ci target_dsn db =
     (case in_transaction se ci ''Scratch listing'' target_dsn
         (\<lambda>db. execute se LIST_PREFIXES_SQL (Inr (remdups (map sr_prefix (db_store db)), db))) db of
        (Inl e, db') \<Rightarrow> (Inl e, db')
      | (Inr found, db') \<Rightarrow> (Inr (sort (remdups (List.map_filter scratch_of_prefix found))), db'))"

lemma scratch_project_ok:
  "scratch_project rollout_id = Inr project \<longleftrightarrow>
     (\<exists>s. rollout_id = JStr s \<and> s \<noteq> [] \<and> project = SCRATCH_PREFIX @ s \<and> full_class ns_char project)"
  by (cases rollout_id) (auto simp: scratch_project_def)

text \<open>The names a rollout writes to are names the store accepts, below no project of the corpus.\<close>

lemma scratch_namespace_valid:
  "scratch_namespace rollout_id kind = Inr ns \<Longrightarrow> validate_namespace ns = Inr () \<and> prefix SCRATCH_PREFIX (ns ! 1)"
  by (cases kind) (auto simp: scratch_namespace_def and_then_Inr_iff scratch_project_ok validate_namespace_ok
      NAMESPACE_ROOT_def full_class_def char_class_defs split: if_splits)

lemma prefix_below:
  assumes "CHR ''.'' \<notin> set project"
  shows "(p = ''fleet_memory.'' @ project \<or> (\<exists>t. p = ''fleet_memory.'' @ project @ ''.'' @ t)) \<longleftrightarrow>
    take 2 (split_on CHR ''.'' p) = [''fleet_memory'', project]"
proof
  assume "p = ''fleet_memory.'' @ project \<or> (\<exists>t. p = ''fleet_memory.'' @ project @ ''.'' @ t)"
  then show "take 2 (split_on CHR ''.'' p) = [''fleet_memory'', project]"
    using split_on_append_sep [OF assms] split_on_free [OF assms] by (auto simp: eval_nat_numeral)
next
  assume t: "take 2 (split_on CHR ''.'' p) = [''fleet_memory'', project]"
  define rest where "rest = drop 2 (split_on CHR ''.'' p)"
  have s: "split_on CHR ''.'' p = ''fleet_memory'' # project # rest"
    using append_take_drop_id [of 2 "split_on CHR ''.'' p"] t by (simp add: rest_def)
  have "p = join ''.'' (''fleet_memory'' # project # rest)" unfolding s [symmetric] by simp
  then show "p = ''fleet_memory.'' @ project \<or> (\<exists>t. p = ''fleet_memory.'' @ project @ ''.'' @ t)"
    by (cases "rest = []") (auto simp: join_Cons)
qed

lemma scratch_row_iff:
  assumes "sql_like (pg_like se)" and "discard_patterns rollout_id = Inr params" and "scratch_project rollout_id = Inr project"
  shows "scratch_row se params p \<longleftrightarrow> take 2 (split_on CHR ''.'' p) = [''fleet_memory'', project]"
proof -
  have "CHR ''.'' \<notin> set project"
    using assms(3) by (auto simp: scratch_project_ok full_class_def list_all_iff char_class_defs)
  moreover have "params = project_patterns project"
    using assms(2,3) by (simp add: discard_patterns_def project_patterns_def NAMESPACE_ROOT_def Let_def)
  ultimately show ?thesis
    using prefix_below [of project p] sql_like.like_project [OF assms(1), of project]
    by (simp add: scratch_row_def project_patterns_def Let_def)
qed

text \<open>
  C17: Discarding a rollout's scratch project deletes exactly the rows below that project, of both
  tables, however many wildcard characters its name has: every row of another project, of a sibling
  rollout whose id starts alike, and of the corpus stays. It reports how many rows of the store went,
  and a listing finds the project no more. An invalid id and every failure change nothing.
\<close>

theorem discard_exact:
  assumes "sql_like (pg_like se)" and "discard_scratch se ci dsn rollout_id db = (r, db')"
  shows "case r of
      Inl e \<Rightarrow> db' = db \<and> is_FixtureError e
    | Inr n \<Rightarrow> (\<exists>project. scratch_project rollout_id = Inr project \<and>
        db_store db' = filter (\<lambda>row. take 2 (split_on CHR ''.'' (sr_prefix row)) \<noteq> [''fleet_memory'', project]) (db_store db) \<and>
        db_vectors db' = filter (\<lambda>v. take 2 (split_on CHR ''.'' (vr_prefix v)) \<noteq> [''fleet_memory'', project]) (db_vectors db) \<and>
        n + length (db_store db') = length (db_store db) \<and>
        (\<forall>ps db''. list_scratch_projects se ci dsn db' = (Inr ps, db'') \<longrightarrow> project \<notin> set ps))"
proof (cases r)
  case (Inl e)
  have "is_FixtureError e" if "discard_patterns rollout_id = Inl e"
    using that by (cases rollout_id) (auto simp: discard_patterns_def scratch_project_def Let_def split: if_splits)
  with Inl assms(2) show ?thesis by (auto simp: discard_scratch_def dest: transaction_failed split: sum.splits)
next
  case (Inr n)
  then obtain params where params: "discard_patterns rollout_id = Inr params" and body: "discard_body se params db = Inr (n, db')"
    using assms(2) by (auto simp: discard_scratch_def transaction_result split: sum.splits)
  from params obtain project where project: "scratch_project rollout_id = Inr project"
    by (auto simp: discard_patterns_def and_then_Inr_iff)
  note row = scratch_row_iff [OF assms(1) params project]
  have db': "db' = db\<lparr>db_store := filter (\<lambda>row. take 2 (split_on CHR ''.'' (sr_prefix row)) \<noteq> [''fleet_memory'', project]) (db_store db),
      db_vectors := filter (\<lambda>v. take 2 (split_on CHR ''.'' (vr_prefix v)) \<noteq> [''fleet_memory'', project]) (db_vectors db)\<rparr>"
    and n: "n = length (filter (\<lambda>row. take 2 (split_on CHR ''.'' (sr_prefix row)) = [''fleet_memory'', project]) (db_store db))"
    using body by (auto simp: discard_body_def and_then_Inr_iff execute_Inr commit_Inr row)
  have "project \<notin> set ps" if "list_scratch_projects se ci dsn db' = (Inr ps, db'')" for ps db''
  proof
    assume "project \<in> set ps"
    with that obtain row where "row \<in> set (db_store db')" "scratch_of_prefix (sr_prefix row) = Some project"
      by (auto simp: list_scratch_projects_def transaction_result execute_Inr map_filter_def split: prod.splits sum.splits)
    then show False by (auto simp: db' scratch_of_prefix_def NAMESPACE_ROOT_def split: list.splits if_splits)
  qed
  with Inr project show ?thesis
    by (auto simp: db' n sum_length_filter_compl)
qed


subsection \<open>The temporal cut\<close>

text \<open>
  A moment is an instant in microseconds since the epoch, or a local time without a zone, of which only
  the ISO form is used. A cut may be given as one, as a day (counted from the epoch), as a text, or as a
  value of any other type. The two \<open>fromisoformat\<close> functions are arguments.
\<close>

datatype moment = Aware int | Naive string

datatype cut_arg = Cut_moment moment | Cut_date int | Cut_text string | Cut_other string

record iso_parsers =
  iso_date :: "string \<Rightarrow> int option"
  iso_datetime :: "string \<Rightarrow> moment option"

definition MIDNIGHT :: "int \<Rightarrow> int" where "MIDNIGHT d = d * 86400000000"

fun normalize_moment :: "moment \<Rightarrow> fixture_error + int" where
  "normalize_moment (Aware t) = Inr t"
| "normalize_moment (Naive lib) =
     Inl (InvalidCutDateError (Some (''naive datetime '' @ repr_str lib @ ''; the cut instant must be timezone-aware'')))"

fun normalize_cut :: "iso_parsers \<Rightarrow> cut_arg \<Rightarrow> fixture_error + int" where
  "normalize_cut lib (Cut_moment m) = normalize_moment m"
| "normalize_cut lib (Cut_date d) = Inr (MIDNIGHT d)"
| "normalize_cut lib (Cut_text s) =
     (let t = strip s in
      if t = [] then Inl (InvalidCutDateError (Some ''empty cut value''))
      else case iso_date lib t of
        Some d \<Rightarrow> Inr (MIDNIGHT d)
      | None \<Rightarrow>
          (case iso_datetime lib t of
             None \<Rightarrow> Inl (InvalidCutDateError (Some (''unparsable cut value '' @ repr_str t)))
           | Some m \<Rightarrow> normalize_moment m))"
| "normalize_cut lib (Cut_other type) = Inl (InvalidCutDateError (Some (''unsupported cut type '' @ repr_str type)))"

text \<open>\<open>value #>> '{episode_meta,occurred_at}'\<close>: NULL where a step is missing or the value is null.\<close>

definition occurred_at :: "session \<Rightarrow> json \<Rightarrow> string option" where
  "occurred_at se v =
     (case v of
        JObj kvs \<Rightarrow>
          (case json_get kvs ''episode_meta'' of
             JObj meta \<Rightarrow> (case json_get meta ''occurred_at'' of JNull \<Rightarrow> None | JStr s \<Rightarrow> Some s | x \<Rightarrow> Some (pg_text se x))
           | _ \<Rightarrow> None)
      | _ \<Rightarrow> None)"

definition occurred_at_expr :: "string \<Rightarrow> string" where
  "occurred_at_expr value_ref = value_ref @ '' #>> '' @ [CHR 0x27] @ ''{episode_meta,occurred_at}'' @ [CHR 0x27]"

definition after_cut_predicate :: "string \<Rightarrow> string" where
  "after_cut_predicate value_ref = ''('' @ occurred_at_expr value_ref @ '')::timestamptz >= %(cut)s''"

definition null_predicate :: "string \<Rightarrow> string" where
  "null_predicate value_ref = ''('' @ occurred_at_expr value_ref @ '') IS NULL''"

definition excluded_predicate :: "string \<Rightarrow> string" where
  "excluded_predicate value_ref = ''('' @ after_cut_predicate value_ref @ '' OR '' @ null_predicate value_ref @ '')''"

definition SESSION_SQL :: string where "SESSION_SQL = ''SET TIME ZONE '' @ [CHR 0x27] @ ''UTC'' @ [CHR 0x27]"

definition STORE_TABLE :: string where "STORE_TABLE = sql_name ''public'' @ ''.'' @ sql_name ''store''"

definition COUNT_TOTAL_SQL :: string where "COUNT_TOTAL_SQL = ''SELECT count(*) FROM '' @ STORE_TABLE"
definition COUNT_AFTER_CUT_SQL :: string where "COUNT_AFTER_CUT_SQL = COUNT_TOTAL_SQL @ '' WHERE '' @ after_cut_predicate ''value''"
definition COUNT_NULL_SQL :: string where "COUNT_NULL_SQL = COUNT_TOTAL_SQL @ '' WHERE '' @ null_predicate ''value''"

definition DELETE_VECTORS_SQL :: string where
  "DELETE_VECTORS_SQL = ''DELETE FROM '' @ sql_name ''public'' @ ''.'' @ sql_name ''store_vectors'' @ '' AS v USING '' @ STORE_TABLE @ '' AS s ''
     @ ''WHERE v.prefix = s.prefix AND v.key = s.key AND '' @ excluded_predicate ''s.value''"

definition DELETE_STORE_SQL :: string where
  "DELETE_STORE_SQL = ''DELETE FROM '' @ STORE_TABLE @ '' WHERE '' @ excluded_predicate ''value''"

text \<open>
  The predicates on a row. A comparison with NULL is NULL, which no \<open>WHERE\<close> clause lets through; a text
  that is no time makes the statement fail.
\<close>

definition after_cut :: "session \<Rightarrow> int \<Rightarrow> store_row \<Rightarrow> string + bool" where
  "after_cut se cut_at row =
     (case occurred_at se (sr_value row) of
        None \<Rightarrow> Inr False
      | Some t \<Rightarrow> and_then (pg_timestamptz se t) (\<lambda>x. Inr (cut_at \<le> x)))"

definition undated :: "session \<Rightarrow> store_row \<Rightarrow> string + bool" where
  "undated se row = Inr (occurred_at se (sr_value row) = None)"

definition excluded :: "session \<Rightarrow> int \<Rightarrow> store_row \<Rightarrow> string + bool" where
  "excluded se cut_at row = and_then (after_cut se cut_at row) (\<lambda>a. and_then (undated se row) (\<lambda>u. Inr (a \<or> u)))"

text \<open>The rows a clause lets through, or the failure of the statement.\<close>

definition rows_where :: "('r \<Rightarrow> string + bool) \<Rightarrow> 'r list \<Rightarrow> string + 'r list" where
  "rows_where P rows = and_then (map_results P rows) (\<lambda>bs. Inr (map fst (filter snd (zip rows bs))))"

record cut_result =
  excluded_after_cut :: nat
  excluded_null :: nat
  remaining :: nat

definition delete_vectors :: "session \<Rightarrow> int \<Rightarrow> database \<Rightarrow> string + vector_row list" where
  "delete_vectors se cut_at db =
     and_then (rows_where (excluded se cut_at) (db_store db)) (\<lambda>gone.
       Inr (filter (\<lambda>v. (vr_prefix v, vr_key v) \<notin> (\<lambda>r. (sr_prefix r, sr_key r)) ` set gone) (db_vectors db)))"

definition delete_store :: "session \<Rightarrow> int \<Rightarrow> database \<Rightarrow> string + store_row list" where
  "delete_store se cut_at db = rows_where (\<lambda>r. and_then (excluded se cut_at r) (\<lambda>b. Inr (\<not> b))) (db_store db)"

definition cut_body :: "session \<Rightarrow> int \<Rightarrow> bool \<Rightarrow> database \<Rightarrow> string + (cut_result \<times> database)" where
  "cut_body se cut_at dry_run db =
     and_then (execute se SESSION_SQL (Inr ())) (\<lambda>_.
     and_then (execute se COUNT_AFTER_CUT_SQL (rows_where (after_cut se cut_at) (db_store db))) (\<lambda>late.
     and_then (execute se COUNT_NULL_SQL (rows_where (undated se) (db_store db))) (\<lambda>dateless.
       if dry_run then
         and_then (execute se COUNT_TOTAL_SQL (Inr (length (db_store db)))) (\<lambda>total.
           Inr (\<lparr>excluded_after_cut = length late, excluded_null = length dateless,
                 remaining = total - length late - length dateless\<rparr>, db))
       else
         and_then (execute se DELETE_VECTORS_SQL (delete_vectors se cut_at db)) (\<lambda>vectors.
         and_then (execute se DELETE_STORE_SQL (delete_store se cut_at db)) (\<lambda>rows.
         and_then (execute se COUNT_TOTAL_SQL (Inr (length rows))) (\<lambda>total.
           commit se \<lparr>excluded_after_cut = length late, excluded_null = length dateless, remaining = total\<rparr>
             (db\<lparr>db_store := rows, db_vectors := vectors\<rparr>)))))))"

definition apply_temporal_cut ::
  "session \<Rightarrow> conninfo \<Rightarrow> iso_parsers \<Rightarrow> string \<Rightarrow> cut_arg \<Rightarrow> bool \<Rightarrow> database \<Rightarrow> (fixture_error + cut_result) \<times> database" where
  "apply_temporal_cut se ci lib target_dsn cut_given dry_run db =
     (case normalize_cut lib cut_given of
        Inl e \<Rightarrow> (Inl e, db)
      | Inr cut_at \<Rightarrow> in_transaction se ci ''Temporal cut'' target_dsn (cut_body se cut_at dry_run) db)"

text \<open>The specification: an entry is visible when it says when it occurred, and that was before the cut.\<close>

definition visible :: "session \<Rightarrow> int \<Rightarrow> store_row \<Rightarrow> bool" where
  "visible se cut_at row \<longleftrightarrow>
     (case occurred_at se (sr_value row) of
        None \<Rightarrow> False
      | Some t \<Rightarrow> (case pg_timestamptz se t of Inl m \<Rightarrow> False | Inr x \<Rightarrow> x < cut_at))"

lemma rows_where_Inr:
  "rows_where P rows = Inr rs \<longleftrightarrow> (\<forall>r \<in> set rows. \<exists>b. P r = Inr b) \<and> rs = filter (\<lambda>r. P r = Inr True) rows"
proof (induction rows arbitrary: rs)
  case (Cons r rows)
  have "rows_where P (r # rows) = and_then (P r) (\<lambda>b. and_then (rows_where P rows) (\<lambda>rs. Inr (if b then r # rs else rs)))"
    by (cases "P r"; cases "map_results P rows") (simp_all add: rows_where_def)
  then show ?case using Cons.IH by (cases "P r") (auto simp: and_then_Inr_iff)
qed (auto simp: rows_where_def)

lemma row_cases:
  assumes "after_cut se cut_at row = Inr b"
  shows "excluded se cut_at row = Inr (\<not> visible se cut_at row)"
    and "(after_cut se cut_at row = Inr True \<and> undated se row \<noteq> Inr True \<and> \<not> visible se cut_at row) \<or>
      (after_cut se cut_at row \<noteq> Inr True \<and> undated se row = Inr True \<and> \<not> visible se cut_at row) \<or>
      (after_cut se cut_at row \<noteq> Inr True \<and> undated se row \<noteq> Inr True \<and> visible se cut_at row)"
  using assms by (auto simp: after_cut_def undated_def excluded_def visible_def and_then_Inr_iff split: option.splits)

lemma cut_counts:
  "\<forall>row \<in> set rows. \<exists>b. after_cut se cut_at row = Inr b \<Longrightarrow>
   length (filter (\<lambda>row. after_cut se cut_at row = Inr True) rows) + length (filter (\<lambda>row. undated se row = Inr True) rows) +
   length (filter (visible se cut_at) rows) = length rows"
proof (induction rows)
  case (Cons row rows)
  then obtain b where "after_cut se cut_at row = Inr b" by auto
  from row_cases(2) [OF this] Cons show ?case by auto
qed simp

lemma deletes_iff:
  assumes "\<forall>row \<in> set (db_store db). \<exists>b. after_cut se cut_at row = Inr b"
  shows "delete_store se cut_at db = Inr rows \<longleftrightarrow> rows = filter (visible se cut_at) (db_store db)"
    and "delete_vectors se cut_at db = Inr vectors \<longleftrightarrow> vectors = filter (\<lambda>v. \<forall>row \<in> set (db_store db).
      (sr_prefix row, sr_key row) = (vr_prefix v, vr_key v) \<longrightarrow> visible se cut_at row) (db_vectors db)"
proof -
  have ex: "excluded se cut_at row = Inr (\<not> visible se cut_at row)" if "row \<in> set (db_store db)" for row
    using assms row_cases(1) that by blast
  then have "rows_where (\<lambda>r. and_then (excluded se cut_at r) (\<lambda>b. Inr (\<not> b))) (db_store db) = Inr rows \<longleftrightarrow>
      rows = filter (visible se cut_at) (db_store db)"
    by (auto simp: rows_where_Inr intro!: filter_cong)
  then show "delete_store se cut_at db = Inr rows \<longleftrightarrow> rows = filter (visible se cut_at) (db_store db)" by (simp add: delete_store_def)
  have gone: "rows_where (excluded se cut_at) (db_store db) = Inr (filter (\<lambda>r. \<not> visible se cut_at r) (db_store db))"
    using ex by (auto simp: rows_where_Inr intro!: filter_cong)
  show "delete_vectors se cut_at db = Inr vectors \<longleftrightarrow> vectors = filter (\<lambda>v. \<forall>row \<in> set (db_store db).
      (sr_prefix row, sr_key row) = (vr_prefix v, vr_key v) \<longrightarrow> visible se cut_at row) (db_vectors db)"
  proof -
    have kept: "(vr_prefix v, vr_key v) \<notin> (\<lambda>r. (sr_prefix r, sr_key r)) ` set (filter (\<lambda>r. \<not> visible se cut_at r) (db_store db)) \<longleftrightarrow>
        (\<forall>row \<in> set (db_store db). (sr_prefix row, sr_key row) = (vr_prefix v, vr_key v) \<longrightarrow> visible se cut_at row)" for v
      by (simp add: image_iff) metis
    show ?thesis unfolding delete_vectors_def gone and_then_simps kept by (simp only: sum.inject) (rule eq_commute)
  qed
qed

text \<open>What a successful run of the statements did.\<close>

lemma cut_body_result:
  assumes "cut_body se cut_at dry_run db = Inr (r, db')"
  shows "\<forall>row \<in> set (db_store db). \<exists>b. after_cut se cut_at row = Inr b"
    and "excluded_after_cut r = length (filter (\<lambda>row. after_cut se cut_at row = Inr True) (db_store db))"
    and "excluded_null r = length (filter (\<lambda>row. undated se row = Inr True) (db_store db))"
    and "remaining r = length (filter (visible se cut_at) (db_store db))"
    and "db' = (if dry_run then db else db\<lparr>db_store := filter (visible se cut_at) (db_store db),
      db_vectors := filter (\<lambda>v. \<forall>row \<in> set (db_store db). (sr_prefix row, sr_key row) = (vr_prefix v, vr_key v) \<longrightarrow> visible se cut_at row)
        (db_vectors db)\<rparr>)"
proof -
  from assms show all: "\<forall>row \<in> set (db_store db). \<exists>b. after_cut se cut_at row = Inr b"
    by (auto simp: cut_body_def and_then_Inr_iff execute_Inr rows_where_Inr)
  note counts = cut_counts [OF all]
  show "excluded_after_cut r = length (filter (\<lambda>row. after_cut se cut_at row = Inr True) (db_store db))"
    "excluded_null r = length (filter (\<lambda>row. undated se row = Inr True) (db_store db))"
    using assms by (auto simp: cut_body_def and_then_Inr_iff execute_Inr rows_where_Inr commit_Inr split: if_splits)
  show "remaining r = length (filter (visible se cut_at) (db_store db))"
    using assms counts
    by (auto simp: cut_body_def and_then_Inr_iff execute_Inr rows_where_Inr commit_Inr deletes_iff [OF all] split: if_splits)
  show "db' = (if dry_run then db else db\<lparr>db_store := filter (visible se cut_at) (db_store db),
      db_vectors := filter (\<lambda>v. \<forall>row \<in> set (db_store db). (sr_prefix row, sr_key row) = (vr_prefix v, vr_key v) \<longrightarrow> visible se cut_at row)
        (db_vectors db)\<rparr>)"
    using assms
    by (auto simp: cut_body_def and_then_Inr_iff execute_Inr commit_Inr deletes_iff [OF all] split: if_splits)
qed

lemma cut_body_again:
  assumes "cut_body se cut_at False db = Inr (r, db')"
  shows "cut_body se cut_at False db' = Inr (\<lparr>excluded_after_cut = 0, excluded_null = 0, remaining = remaining r\<rparr>, db')"
proof -
  note result = cut_body_result [OF assms, simplified]
  have rows: "db_store db' = filter (visible se cut_at) (db_store db)" by (simp add: result(5))
  have all: "\<forall>row \<in> set (db_store db'). \<exists>b. after_cut se cut_at row = Inr b" using result(1) rows by simp
  have none: "after_cut se cut_at row \<noteq> Inr True \<and> undated se row \<noteq> Inr True" if row: "row \<in> set (db_store db')" for row
  proof -
    obtain b where b: "after_cut se cut_at row = Inr b" using bspec [OF all row] by blast
    have "visible se cut_at row" using row by (simp add: rows)
    with row_cases(2) [OF b] show ?thesis by argo
  qed
  have late: "rows_where (after_cut se cut_at) (db_store db') = Inr []" "rows_where (undated se) (db_store db') = Inr []"
    using all none by (simp_all add: rows_where_Inr filter_empty_conv undated_def)
  have "filter (visible se cut_at) (db_store db') = db_store db'" by (simp add: rows)
  then have "delete_store se cut_at db' = Inr (db_store db')" by (simp add: deletes_iff(1) [OF all])
  moreover have "delete_vectors se cut_at db' = Inr (db_vectors db')"
    unfolding deletes_iff(2) [OF all] by (rule sym, rule filter_True) (auto simp: rows)
  moreover have "remaining r = length (db_store db')" by (simp add: result(4) rows)
  moreover have "pg_fail se SESSION_SQL = None" "pg_fail se COUNT_AFTER_CUT_SQL = None" "pg_fail se COUNT_NULL_SQL = None"
    "pg_fail se DELETE_VECTORS_SQL = None" "pg_fail se DELETE_STORE_SQL = None" "pg_fail se COUNT_TOTAL_SQL = None" "pg_commit se = None"
    using assms by (auto simp: cut_body_def and_then_Inr_iff execute_Inr commit_Inr)
  ultimately show ?thesis using late by (simp add: cut_body_def and_then_Inr_iff execute_Inr commit_Inr)
qed

lemma normalize_cut_error: "normalize_cut lib c = Inl e \<Longrightarrow> is_FixtureError e"
proof -
  have "normalize_moment m = Inl e \<Longrightarrow> is_FixtureError e" for m by (cases m) auto
  then show "normalize_cut lib c = Inl e \<Longrightarrow> is_FixtureError e"
    by (cases c) (auto simp: Let_def split: if_splits option.splits)
qed

text \<open>Every vector belongs to an entry of the store, as the foreign key has it.\<close>

definition no_orphans :: "database \<Rightarrow> bool" where
  "no_orphans db \<longleftrightarrow> (\<forall>v \<in> set (db_vectors db). \<exists>row \<in> set (db_store db). (sr_prefix row, sr_key row) = (vr_prefix v, vr_key v))"

text \<open>
  C18: Nothing from after the cut leaks: a successful cut leaves exactly the entries that say they
  occurred before its instant (an entry at the instant itself, and one without a time, is gone), with
  their vectors and no vector of another entry, and its three counts add up to what there was. A dry run
  reports the same counts and deletes nothing; applying the cut again finds nothing more to delete; and
  an invalid cut or a failure changes nothing.
\<close>

theorem cut_is_exact:
  assumes "apply_temporal_cut se ci lib dsn cut_given dry_run db = (res, db')"
  shows "case res of
      Inl e \<Rightarrow> db' = db \<and> is_FixtureError e
    | Inr r \<Rightarrow> (\<exists>t. normalize_cut lib cut_given = Inr t \<and> remaining r = length (filter (visible se t) (db_store db)) \<and>
        excluded_after_cut r + excluded_null r + remaining r = length (db_store db) \<and>
        (if dry_run then db' = db
         else db_store db' = filter (visible se t) (db_store db) \<and> (no_orphans db \<longrightarrow> no_orphans db') \<and>
           apply_temporal_cut se ci lib dsn cut_given False db' = (Inr \<lparr>excluded_after_cut = 0, excluded_null = 0, remaining = remaining r\<rparr>, db')))"
proof (cases res)
  case (Inl e)
  with assms show ?thesis
    by (auto simp: apply_temporal_cut_def dest: transaction_failed normalize_cut_error split: sum.splits)
next
  case (Inr r)
  with assms obtain t where t: "normalize_cut lib cut_given = Inr t" and conn: "pg_connect se dsn = None"
    and body: "cut_body se t dry_run db = Inr (r, db')"
    by (auto simp: apply_temporal_cut_def transaction_result split: sum.splits)
  note result = cut_body_result [OF body]
  have "apply_temporal_cut se ci lib dsn cut_given False db' =
      (Inr \<lparr>excluded_after_cut = 0, excluded_null = 0, remaining = remaining r\<rparr>, db')" if "\<not> dry_run"
    using cut_body_again [of se t db r db'] body that by (simp add: apply_temporal_cut_def t transaction_result conn)
  moreover have "no_orphans db'" if "\<not> dry_run" "no_orphans db"
    using that by (fastforce simp: result(5) no_orphans_def)
  moreover have "excluded_after_cut r + excluded_null r + remaining r = length (db_store db)"
    using cut_counts [OF result(1)] by (simp add: result(2-4))
  ultimately show ?thesis using Inr t result(4,5) by auto
qed

subsection \<open>Witnesses\<close>

definition calm_session :: session where
  "calm_session = \<lparr>pg_connect = (\<lambda>dsn. None), pg_fail = (\<lambda>sql. None), pg_commit = None, pg_like = like_match,
     pg_text = emit, pg_timestamptz = (\<lambda>t. if t = ''2026-05-01'' then Inr (MIDNIGHT 20574) else Inr (MIDNIGHT 20629))\<rparr>"

definition plain_conninfo :: conninfo where "plain_conninfo dsn = Some [(''host'', Some ''nas''), (''password'', Some ''s3cret'')]"

definition dated :: "json \<Rightarrow> json" where "dated t = JObj [(''episode_meta'', JObj [(''occurred_at'', t)])]"

definition sample_db :: database where
  "sample_db = \<lparr>db_store =
       [\<lparr>sr_prefix = ''fleet_memory.scratch_run_1.adr'', sr_key = ''a'', sr_value = dated (JStr ''2026-05-01'')\<rparr>,
        \<lparr>sr_prefix = ''fleet_memory.scratch_run_12.adr'', sr_key = ''b'', sr_value = dated (JStr ''2026-06-25'')\<rparr>,
        \<lparr>sr_prefix = ''fleet_memory.guardkit.adr'', sr_key = ''c'', sr_value = dated JNull\<rparr>],
     db_vectors = [\<lparr>vr_prefix = ''fleet_memory.guardkit.adr'', vr_key = ''c'', vr_field = ''content''\<rparr>]\<rparr>"

theorem discard_exact_witness:
  "\<exists>n db'. discard_scratch calm_session plain_conninfo ''dsn'' (JStr ''run_1'') sample_db = (Inr n, db') \<and>
     map sr_key (db_store db') = [''b'', ''c''] \<and> n + 2 = 3"
proof -
  have p: "scratch_project (JStr ''run_1'') = Inr ''scratch_run_1''"
    by (simp add: scratch_project_def SCRATCH_PREFIX_def full_class_def char_class_defs)
  obtain n db' where d: "discard_scratch calm_session plain_conninfo ''dsn'' (JStr ''run_1'') sample_db = (Inr n, db')"
    by (simp add: discard_scratch_def discard_patterns_def p in_transaction_def Let_def calm_session_def discard_body_def
        execute_def may_fail_def commit_def)
  have "sql_like (pg_like calm_session)" by (simp add: calm_session_def pg.sql_like_axioms)
  from discard_exact [OF this d] have "db_store db' =
      filter (\<lambda>row. take 2 (split_on CHR ''.'' (sr_prefix row)) \<noteq> [''fleet_memory'', ''scratch_run_1'']) (db_store sample_db) \<and>
      n + length (db_store db') = length (db_store sample_db)" by (auto simp: p)
  then show ?thesis using d by (auto simp: sample_db_def)
qed

definition sample_iso :: iso_parsers where
  "sample_iso = \<lparr>iso_date = (\<lambda>s. if s = ''2026-06-25'' then Some 20629 else None), iso_datetime = (\<lambda>s. None)\<rparr>"

theorem cut_is_exact_witness:
  "\<exists>r db'. apply_temporal_cut calm_session plain_conninfo sample_iso ''dsn'' (Cut_text '' 2026-06-25'') False sample_db = (Inr r, db') \<and>
     map sr_key (db_store db') = [''a''] \<and> remaining r = 1 \<and> excluded_after_cut r + excluded_null r = 2"
proof -
  have cut: "normalize_cut sample_iso (Cut_text '' 2026-06-25'') = Inr (MIDNIGHT 20629)"
    by (simp add: sample_iso_def strip_def strip_by_def lstrip_by_def rstrip_by_def char_class_defs Let_def)
  have "after_cut calm_session t row = Inr (case occurred_at calm_session (sr_value row) of None \<Rightarrow> False
      | Some s \<Rightarrow> t \<le> (if s = ''2026-05-01'' then MIDNIGHT 20574 else MIDNIGHT 20629))" for t row
    by (simp add: after_cut_def calm_session_def split: option.splits)
  then have dec: "\<forall>row \<in> set (db_store sample_db). \<exists>b. after_cut calm_session t row = Inr b" for t by blast
  obtain late where late: "rows_where (after_cut calm_session (MIDNIGHT 20629)) (db_store sample_db) = Inr late"
    using dec by (simp add: rows_where_Inr)
  obtain dateless where dateless: "rows_where (undated calm_session) (db_store sample_db) = Inr dateless"
    by (simp add: rows_where_Inr undated_def)
  obtain rows where rows: "delete_store calm_session (MIDNIGHT 20629) sample_db = Inr rows" by (simp add: deletes_iff(1) [OF dec])
  obtain vectors where vectors: "delete_vectors calm_session (MIDNIGHT 20629) sample_db = Inr vectors"
    by (simp add: deletes_iff(2) [OF dec])
  have calm: "pg_connect calm_session d = None" "pg_fail calm_session q = None" "pg_commit calm_session = None" for d q
    by (simp_all add: calm_session_def)
  obtain r db' where d: "apply_temporal_cut calm_session plain_conninfo sample_iso ''dsn'' (Cut_text '' 2026-06-25'') False sample_db
      = (Inr r, db')"
    by (simp add: apply_temporal_cut_def cut in_transaction_def Let_def cut_body_def execute_def may_fail_def commit_def calm
        late dateless rows vectors del: normalize_cut.simps)
  from cut_is_exact [OF d] have "db_store db' = filter (visible calm_session (MIDNIGHT 20629)) (db_store sample_db) \<and>
      remaining r = length (filter (visible calm_session (MIDNIGHT 20629)) (db_store sample_db)) \<and>
      excluded_after_cut r + excluded_null r + remaining r = length (db_store sample_db)"
    by (auto simp: cut simp del: normalize_cut.simps)
  then show ?thesis using d
    by (simp add: sample_db_def visible_def occurred_at_def dated_def json_get_def calm_session_def MIDNIGHT_def)
qed

end
