(* ===== verification/Snapshot.thy ===== *)
theory Snapshot
  imports Fixture Corpus Json_Text "HOL-Library.Multiset"
begin

text \<open>
  Versioned fixtures: the manifest and the content hash (\<open>fixture/__init__.py\<close>), the snapshot of a
  store (\<open>fixture/snapshot.py\<close>), its restore into a fresh database (\<open>fixture/restore.py\<close>) and the command
  line over the package (\<open>scripts/fixture_snapshot.py\<close>). What PostgreSQL and \<open>pg_dump\<close> do is an argument,
  with its documented behaviour as a locale. The results: a restored fixture, snapshotted again, gives the
  same bytes and the same hash; and a restore that fails, or whose fixture was changed, touches nothing.

  A fixture directory is the text of its files by relative path, in the bytes of their UTF-8 form, with the
  object of \<open>manifest.json\<close> beside them; the directories of the fixtures root are kept by resolved path.
\<close>

lemma sort_key_Nil_iff [simp]: "sort_key f xs = [] \<longleftrightarrow> xs = []"
  by (metis set_empty set_sort)

subsection \<open>Manifest\<close>

record fixture_manifest =
  fm_fixture_id :: string
  fm_created_at :: string
  fm_source_target :: string
  fm_content_hash :: string
  fm_table_row_counts :: "(string \<times> int) list"
  fm_null_occurred_at_count :: int
  fm_pg_dump_version :: string

definition fixture_id_char :: "char \<Rightarrow> bool" where
  "fixture_id_char c \<longleftrightarrow> is_lower c \<or> is_digit c \<or> c = CHR ''_'' \<or> c = CHR ''.'' \<or> c = CHR ''-''"

text \<open>\<open>FixtureManifest(**data)\<close>: pydantic reads the fields, then the validator of the id runs.\<close>

definition validate_fixture_id :: "string \<Rightarrow> string + string" where
  "validate_fixture_id v =
     (if full_class fixture_id_char v then Inr v
      else Inl (''fixture_id '' @ [CHR 0x27] @ v @ [CHR 0x27] @ '' does not match required pattern ^[a-z0-9_.-]+$''))"

type_synonym manifest_fields = "(string \<times> json) list \<Rightarrow> string + fixture_manifest"

definition manifest_init :: "manifest_fields \<Rightarrow> (string \<times> json) list \<Rightarrow> string + fixture_manifest" where
  "manifest_init pyd data =
     and_then (pyd data) (\<lambda>m. and_then (validate_fixture_id (fm_fixture_id m)) (\<lambda>_. Inr m))"

definition manifest_dump :: "fixture_manifest \<Rightarrow> (string \<times> json) list" where
  "manifest_dump m =
     [(''fixture_id'', JStr (fm_fixture_id m)), (''created_at'', JStr (fm_created_at m)),
      (''source_target'', JStr (fm_source_target m)), (''content_hash'', JStr (fm_content_hash m)),
      (''table_row_counts'', JObj (map (\<lambda>(t, n). (t, JInt n)) (fm_table_row_counts m))),
      (''null_occurred_at_count'', JInt (fm_null_occurred_at_count m)), (''pg_dump_version'', JStr (fm_pg_dump_version m))]"

subsection \<open>Fixture directories\<close>

text \<open>
  The data files with their bytes, and what decoding \<open>manifest.json\<close> comes to: there is no such file,
  the UTF-8 or JSON decoder raises, or its value.
\<close>

record fixture =
  fx_files :: "(string \<times> string) list"
  fx_manifest :: "(exn + json) option"

type_synonym fixtures = "(string \<times> fixture) list"

text \<open>\<open>resolve\<close> is \<open>Path.resolve\<close>; the check compares the two paths as texts.\<close>

definition fixture_dir :: "(string \<Rightarrow> string) \<Rightarrow> string \<Rightarrow> string \<Rightarrow> fixture_error + string" where
  "fixture_dir resolve fixture_id fixtures_root =
     (if \<not> full_class fixture_id_char fixture_id
      then Inl (Raised (ValueError (''Invalid fixture_id '' @ [CHR 0x27] @ fixture_id @ [CHR 0x27])))
      else (let candidate = resolve (fixtures_root @ ''/'' @ fixture_id) in
            if \<not> prefix (resolve fixtures_root) candidate
            then Inl (Raised (ValueError ''fixture_id results in path traversal''))
            else Inr candidate))"

definition rel_parts :: "string \<Rightarrow> string list" where "rel_parts p = split_on CHR ''/'' p"
definition path_name :: "string \<Rightarrow> string" where "path_name p = last (rel_parts p)"

definition hash_input :: "(string \<times> string) list \<Rightarrow> string" where
  "hash_input files =
     concat (map (\<lambda>(p, bytes). p @ [CHR 0x00] @ bytes)
       (sort_key (rel_parts \<circ> fst) (filter (\<lambda>(p, bytes). path_name p \<noteq> ''manifest.json'') files)))"

definition compute_content_hash :: "prims \<Rightarrow> fixtures \<Rightarrow> string \<Rightarrow> fixture_error + string" where
  "compute_content_hash pr fs fdir =
     (case dict_get fs fdir of
        None \<Rightarrow> Inl (Raised (OtherError (''Fixture directory not found: '' @ fdir)))
      | Some fx \<Rightarrow> Inr (sha256_hex pr (hash_input (fx_files fx))))"

definition write_manifest :: "fixture_manifest \<Rightarrow> string \<Rightarrow> fixtures \<Rightarrow> fixtures" where
  "write_manifest m fdir fs =
     (let fx = (case dict_get fs fdir of None \<Rightarrow> \<lparr>fx_files = [], fx_manifest = None\<rparr> | Some fx \<Rightarrow> fx) in
      dict_set fdir (fx\<lparr>fx_manifest := Some (Inr (JObj (manifest_dump m)))\<rparr>) fs)"

text \<open>The text of \<open>manifest.json\<close>: keys sorted, two blanks of indentation, code points as they are.\<close>

definition manifest_text :: "fixture_manifest \<Rightarrow> string" where
  "manifest_text m = json_text \<lparr>l_indent = Some 2, l_ascii = False\<rparr> (canon (JObj (manifest_dump m)))"

lemma manifest_text_reads_back:
  assumes "distinct (map fst (fm_table_row_counts m))"
  shows "loads (manifest_text m) = Some (canon (JObj (manifest_dump m)))"
proof -
  have "json_ok (JObj (manifest_dump m))"
    using assms by (auto simp: manifest_dump_def list_all_iff comp_def case_prod_beta')
  from loads_json_text [OF json_ok_canon [OF this], of "[]"] show ?thesis
    by (simp add: manifest_text_def del: canon.simps)
qed

definition read_manifest :: "manifest_fields \<Rightarrow> fixtures \<Rightarrow> string \<Rightarrow> fixture_error + fixture_manifest" where
  "read_manifest pyd fs fdir =
     (case Option.bind (dict_get fs fdir) fx_manifest of
        None \<Rightarrow> Inl (UnknownFixtureError (path_name fdir))
      | Some (Inl e) \<Rightarrow> Inl (Raised e)
      | Some (Inr (JObj data)) \<Rightarrow> (case manifest_init pyd data of Inl e \<Rightarrow> Inl (FixtureError e) | Inr m \<Rightarrow> Inr m)
      | Some (Inr v) \<Rightarrow> Inl (Raised (TypeError ''argument after ** must be a mapping'')))"

subsection \<open>The database server\<close>

text \<open>
  A database is its tables: the primary key and the rows of each. What the server and \<open>pg_dump\<close> do:
  \<^item> \<open>pg_dump_text ddl n\<close>: the schema dump of the tables with these keys, in session \<open>n\<close>; \<open>pg_ddl\<close> is what
    executing such a text creates;
  \<^item> \<open>pg_ordered pk rows\<close>: \<open>ORDER BY\<close> the key; \<open>pg_copy_out\<close> and \<open>pg_copy_in\<close>: the \<open>COPY\<close> text format;
  \<^item> \<open>pg_admits pk rows\<close>: the key constraint; \<open>pg_undated row\<close>: the condition of \<open>NULL_OCCURRED_AT_SQL\<close>;
  \<^item> the failures of connections, statements, the commit, and of the dump run with these arguments (exit code and \<open>stderr\<close>).
\<close>

type_synonym ddl = "(string \<times> string list) list"
type_synonym 'r tables = "(string \<times> (string list \<times> 'r list)) list"

record 'r server =
  pg_dump_text :: "ddl \<Rightarrow> nat \<Rightarrow> string"
  pg_ddl :: "string \<Rightarrow> ddl option"
  pg_ordered :: "string list \<Rightarrow> 'r list \<Rightarrow> 'r list"
  pg_copy_out :: "'r list \<Rightarrow> string"
  pg_copy_in :: "string \<Rightarrow> 'r list option"
  pg_admits :: "string list \<Rightarrow> 'r list \<Rightarrow> bool"
  pg_undated :: "'r \<Rightarrow> bool"
  pg_refuses :: "string \<Rightarrow> string option"
  pg_error :: "string \<Rightarrow> string option"
  pg_commit_error :: "string option"
  pg_dump_error :: "string list \<Rightarrow> (int \<times> string) option"

definition ddl_of :: "'r tables \<Rightarrow> ddl" where "ddl_of db = map (\<lambda>(t, pk, rows). (t, pk)) db"

definition run_sql :: "'r server \<Rightarrow> string \<Rightarrow> string + 'a \<Rightarrow> string + 'a" where
  "run_sql pg sql r = and_then (may_fail (pg_error pg sql)) (\<lambda>_. r)"

lemma run_sql_Inr: "run_sql pg sql r = Inr x \<longleftrightarrow> pg_error pg sql = None \<and> r = Inr x"
  by (auto simp: run_sql_def may_fail_def split: option.splits)

lemma run_sql_Inl: "run_sql pg sql r = Inl m \<longleftrightarrow> pg_error pg sql = Some m \<or> pg_error pg sql = None \<and> r = Inl m"
  by (auto simp: run_sql_def may_fail_def split: option.splits)

subsection \<open>Snapshot\<close>

definition EXPECTED_TABLES :: "string set" where
  "EXPECTED_TABLES = {''store'', ''store_vectors'', ''store_migrations'', ''vector_migrations''}"

definition TABLE_DISCOVERY_SQL :: string where
  "TABLE_DISCOVERY_SQL =
     ''SELECT table_name FROM information_schema.tables WHERE table_schema = '' @ [CHR 0x27] @ ''public'' @ [CHR 0x27]
     @ '' AND table_type = '' @ [CHR 0x27] @ ''BASE TABLE'' @ [CHR 0x27] @ '' ORDER BY table_name''"

definition PRIMARY_KEY_SQL :: string where
  "PRIMARY_KEY_SQL =
     ''SELECT a.attname FROM pg_index i JOIN pg_attribute a ON a.attrelid = i.indrelid AND a.attnum = ANY (i.indkey) ''
     @ ''WHERE i.indrelid = %s::regclass AND i.indisprimary ORDER BY array_position(i.indkey::int2[], a.attnum)''"

definition NULL_OCCURRED_AT_SQL :: string where
  "NULL_OCCURRED_AT_SQL = ''SELECT count(*) FROM public.store WHERE ('' @ occurred_at_expr ''value'' @ '') IS NULL''"

definition VOLATILE_PREFIXES :: "(string \<times> string) list" where
  "VOLATILE_PREFIXES =
     [(''-- Dumped from database version'', ''server_version''), (''-- Dumped by pg_dump version'', ''pg_dump_version'')]"

definition PSQL_META_PREFIXES :: "string list" where
  "PSQL_META_PREFIXES = [CHR 0x5C # ''restrict '', CHR 0x5C # ''unrestrict '']"

definition build_pg_dump_args :: "string \<Rightarrow> string list" where
  "build_pg_dump_args source_dsn = [''pg_dump'', ''--schema-only'', ''--no-owner'', ''--no-privileges'', ''--dbname'', source_dsn]"

text \<open>One line of the dump: left out, a version to remember, or kept.\<close>

definition strip_line :: "string \<Rightarrow> string list \<times> (string \<times> string) list \<Rightarrow> string list \<times> (string \<times> string) list" where
  "strip_line line acc =
     (if list_ex (\<lambda>p. prefix p line) PSQL_META_PREFIXES then acc
      else case find (\<lambda>(p, key). prefix p line) VOLATILE_PREFIXES of
        Some (p, key) \<Rightarrow> (fst acc, dict_set key (strip (drop (length p) line)) (snd acc))
      | None \<Rightarrow> (fst acc @ [line], snd acc))"

definition strip_volatile_comments :: "string \<Rightarrow> string \<times> (string \<times> string) list" where
  "strip_volatile_comments schema_sql =
     (let (kept, versions) = fold strip_line (splitlines schema_sql) ([], []); body = join [newline] kept in
      (if body \<noteq> [] \<and> last body \<noteq> newline then body @ [newline] else body, versions))"

definition quote_ident :: "string \<Rightarrow> string" where
  "quote_ident name = [CHR 0x22] @ str_replace [CHR 0x22] [CHR 0x22, CHR 0x22] name @ [CHR 0x22]"

definition public_table :: "string \<Rightarrow> string" where "public_table t = [CHR 0x22] @ ''public'' @ [CHR 0x22] @ ''.'' @ quote_ident t"

definition build_copy_out_sql :: "string \<Rightarrow> string list \<Rightarrow> fixture_error + string" where
  "build_copy_out_sql table pk_columns =
     (if pk_columns = [] then Inl (FixtureError
        (''Table '' @ [CHR 0x27] @ table @ [CHR 0x27] @ '' has no primary key; cannot produce a deterministic dump''))
      else Inr (''COPY (SELECT * FROM '' @ public_table table @ '' ORDER BY '' @ join '', '' (map quote_ident pk_columns)
        @ '') TO STDOUT''))"

definition format_versions :: "(string \<times> string) list \<Rightarrow> string" where
  "format_versions versions =
     (let pg_dump_version = text_or (dict_get versions ''pg_dump_version'') []; server_version = text_or (dict_get versions ''server_version'') [] in
      if pg_dump_version \<noteq> [] \<and> server_version \<noteq> [] then pg_dump_version @ '' (server '' @ server_version @ '')''
      else if pg_dump_version \<noteq> [] then pg_dump_version else server_version)"

text \<open>\<open>pg_dump\<close> on the source: its output, or the error of a nonzero exit.\<close>

definition dump_schema :: "'r server \<Rightarrow> conninfo \<Rightarrow> string \<Rightarrow> nat \<Rightarrow> 'r tables \<Rightarrow> fixture_error + string \<times> (string \<times> string) list" where
  "dump_schema pg ci source_dsn n db =
     (case pg_dump_error pg (build_pg_dump_args source_dsn) of
        Some (code, stderr) \<Rightarrow> Inl (FixtureError (''pg_dump failed for '' @ sanitize_target ci source_dsn @ '' (exit '' @ show_int code @ ''): ''
          @ strip (scrub_secrets ci stderr source_dsn)))
      | None \<Rightarrow> Inr (strip_volatile_comments (pg_dump_text pg (ddl_of db) n)))"

text \<open>
  The failure of a statement inside the export, as the handler in \<open>create_snapshot\<close> reports it; an error of
  the package goes through.
\<close>

definition as_snapshot_error :: "conninfo \<Rightarrow> string \<Rightarrow> string + 'a \<Rightarrow> fixture_error + 'a" where
  "as_snapshot_error ci dsn r =
     (case r of
        Inl m \<Rightarrow> Inl (FixtureError (''Snapshot of '' @ sanitize_target ci dsn @ '' failed: '' @ scrub_secrets ci m dsn))
      | Inr x \<Rightarrow> Inr x)"

definition export_table :: "'r server \<Rightarrow> conninfo \<Rightarrow> string \<Rightarrow> 'r tables \<Rightarrow> string \<Rightarrow> fixture_error + (string \<times> string) \<times> (string \<times> int)" where
  "export_table pg ci dsn db table =
     (case dict_get db table of
        None \<Rightarrow> as_snapshot_error ci dsn (Inl (''relation does not exist: '' @ table))
      | Some (pk, rows) \<Rightarrow>
          and_then (as_snapshot_error ci dsn (run_sql pg PRIMARY_KEY_SQL (Inr pk))) (\<lambda>pk_columns.
          and_then (build_copy_out_sql table pk_columns) (\<lambda>copy_sql.
          and_then (as_snapshot_error ci dsn (run_sql pg copy_sql (Inr (pg_copy_out pg (pg_ordered pg pk rows))))) (\<lambda>bytes.
          and_then (as_snapshot_error ci dsn (run_sql pg (''SELECT count(*) FROM '' @ public_table table) (Inr (length rows)))) (\<lambda>n.
            Inr ((''data/'' @ table @ ''.copy'', bytes), (table, int n)))))))"

definition export_data ::
  "'r server \<Rightarrow> conninfo \<Rightarrow> string \<Rightarrow> 'r tables \<Rightarrow> fixture_error + (string \<times> string) list \<times> (string \<times> int) list \<times> int" where
  "export_data pg ci dsn db =
     and_then (as_snapshot_error ci dsn (run_sql pg ''SET default_transaction_read_only = on'' (Inr ()))) (\<lambda>_.
     and_then (as_snapshot_error ci dsn (run_sql pg SESSION_SQL (Inr ()))) (\<lambda>_.
     and_then (as_snapshot_error ci dsn (run_sql pg TABLE_DISCOVERY_SQL (Inr (sort (map fst db))))) (\<lambda>tables.
       let unexpected = filter (\<lambda>t. t \<notin> EXPECTED_TABLES) tables in
       if unexpected \<noteq> [] then Inl (FixtureError (''Unexpected tables in source database '' @ sanitize_target ci dsn @ '': ''
         @ join '', '' unexpected @ ''; refusing to snapshot (nothing may be silently dropped)''))
       else if ''store'' \<notin> set tables then Inl (FixtureError (''Source database '' @ sanitize_target ci dsn @ '' has no ''
         @ [CHR 0x27] @ ''store'' @ [CHR 0x27] @ '' table; not a fleet-memory store''))
       else
         and_then (map_results (export_table pg ci dsn db) tables) (\<lambda>exported.
         and_then (as_snapshot_error ci dsn (run_sql pg NULL_OCCURRED_AT_SQL
             (Inr (case dict_get db ''store'' of None \<Rightarrow> 0 | Some (pk, rows) \<Rightarrow> length (filter (pg_undated pg) rows))))) (\<lambda>undated_rows.
           Inr (map fst exported, map snd exported, int undated_rows))))))"

text \<open>On any failure the fixture directory, which did not exist before, is removed again.\<close>

definition create_snapshot ::
  "'r server \<Rightarrow> conninfo \<Rightarrow> (string \<Rightarrow> string) \<Rightarrow> prims \<Rightarrow> string \<Rightarrow> nat \<Rightarrow> string \<Rightarrow> string \<Rightarrow> string \<Rightarrow> 'r tables \<Rightarrow> fixtures \<Rightarrow>
   (fixture_error + fixture_manifest) \<times> fixtures" where
  "create_snapshot pg ci resolve pr now n source_dsn fixture_id fixtures_root db fs =
     (case fixture_dir resolve fixture_id fixtures_root of
        Inl e \<Rightarrow> (Inl e, fs)
      | Inr fdir \<Rightarrow>
          if dict_get fs fdir \<noteq> None then (Inl (FixtureError (''Fixture '' @ [CHR 0x27] @ fixture_id @ [CHR 0x27] @ '' already exists at ''
            @ fdir @ ''; fixtures are immutable '' @ [CHR 0xE2, CHR 0x80, CHR 0x94] @ '' use a new fixture id'')), fs)
          else
            (case and_then (dump_schema pg ci source_dsn n db) (\<lambda>dumped.
                    case pg_refuses pg source_dsn of
                      Some m \<Rightarrow> Inl (FixtureError (''Cannot connect to '' @ sanitize_target ci source_dsn @ '': '' @ scrub_secrets ci m source_dsn))
                    | None \<Rightarrow> and_then (export_data pg ci source_dsn db) (\<lambda>exported. Inr (dumped, exported))) of
               Inl e \<Rightarrow> (Inl e, fs)
             | Inr ((schema_sql, versions), data, counts, undated_rows) \<Rightarrow>
                 (let files = (''schema.sql'', schema_sql) # data;
                      m = \<lparr>fm_fixture_id = fixture_id, fm_created_at = now, fm_source_target = sanitize_target ci source_dsn,
                            fm_content_hash = sha256_hex pr (hash_input files), fm_table_row_counts = counts,
                            fm_null_occurred_at_count = undated_rows, fm_pg_dump_version = format_versions versions\<rparr> in
                  (Inr m, write_manifest m fdir (dict_set fdir \<lparr>fx_files = files, fx_manifest = None\<rparr> fs)))))"

subsection \<open>Restore\<close>

definition RESTORE_ORDER :: "string list" where
  "RESTORE_ORDER = [''store_migrations'', ''vector_migrations'', ''store'', ''store_vectors'']"

definition EXISTING_TABLES_SQL :: string where
  "EXISTING_TABLES_SQL =
     ''SELECT table_name FROM information_schema.tables WHERE table_schema = '' @ [CHR 0x27] @ ''public'' @ [CHR 0x27]
     @ '' AND table_name = ANY(%s) ORDER BY table_name''"

definition build_copy_in_sql :: "string \<Rightarrow> string" where
  "build_copy_in_sql table = ''COPY '' @ public_table table @ '' FROM STDIN''"

text \<open>\<open>path.stem\<close> of the files \<open>data/*.copy\<close>.\<close>

definition copy_suffix :: string where "copy_suffix = ''.copy''"

definition data_stem :: "string \<Rightarrow> string option" where
  "data_stem p =
     (case rel_parts p of
        [d, name] \<Rightarrow>
          if d = ''data'' \<and> suffix copy_suffix name
          then Some (if name = copy_suffix then name else take (length name - length copy_suffix) name) else None
      | _ \<Rightarrow> None)"

definition verified_tables ::
  "prims \<Rightarrow> manifest_fields \<Rightarrow> fixtures \<Rightarrow> string \<Rightarrow> string \<Rightarrow> fixture_error + string list" where
  "verified_tables pr pyd fs fdir fixture_id =
     and_then (read_manifest pyd fs fdir) (\<lambda>m.
     and_then (compute_content_hash pr fs fdir) (\<lambda>actual_hash.
       if actual_hash \<noteq> fm_content_hash m then Inl (FixtureHashMismatchError fixture_id (fm_content_hash m) actual_hash)
       else (let tables = sort (List.map_filter (data_stem \<circ> fst) (case dict_get fs fdir of None \<Rightarrow> [] | Some fx \<Rightarrow> fx_files fx));
                 unknown = sort (remdups (filter (\<lambda>t. t \<notin> set RESTORE_ORDER) tables)) in
             if tables = [] then Inl (FixtureError (''Fixture '' @ [CHR 0x27] @ fixture_id @ [CHR 0x27] @ '' contains no data files''))
             else if unknown \<noteq> [] then Inl (FixtureError
               (''Fixture '' @ [CHR 0x27] @ fixture_id @ [CHR 0x27] @ '' contains data for unknown tables: '' @ join '', '' unknown))
             else Inr (filter (\<lambda>t. t \<in> set tables) RESTORE_ORDER))))"

definition read_file :: "fixtures \<Rightarrow> string \<Rightarrow> string \<Rightarrow> fixture_error + string" where
  "read_file fs fdir p =
     (case Option.bind (dict_get fs fdir) (\<lambda>fx. dict_get (fx_files fx) p) of
        None \<Rightarrow> Inl (Raised (OtherError (''No such file: '' @ fdir @ ''/'' @ p)))
      | Some bytes \<Rightarrow> Inr bytes)"

text \<open>What the server does with the schema text and with one \<open>COPY ... FROM STDIN\<close>.\<close>

definition exec_ddl :: "'r server \<Rightarrow> string \<Rightarrow> 'r tables \<Rightarrow> string + 'r tables" where
  "exec_ddl pg schema_sql db =
     (case pg_ddl pg schema_sql of
        None \<Rightarrow> Inl ''syntax error''
      | Some d \<Rightarrow>
          if distinct (map fst d) \<and> set (map fst d) \<inter> set (map fst db) = {} then Inr (db @ map (\<lambda>(t, pk). (t, pk, [])) d)
          else Inl ''relation already exists'')"

definition copy_in :: "'r server \<Rightarrow> string \<Rightarrow> string \<Rightarrow> 'r tables \<Rightarrow> string + 'r tables" where
  "copy_in pg table data db =
     (case dict_get db table of
        None \<Rightarrow> Inl ''relation does not exist''
      | Some (pk, rows) \<Rightarrow>
          (case pg_copy_in pg data of
             None \<Rightarrow> Inl ''invalid input syntax''
           | Some added \<Rightarrow>
               if pg_admits pg pk (rows @ added) then Inr (dict_set table (pk, rows @ added) db)
               else Inl ''duplicate key value violates unique constraint''))"

fun copy_tables :: "'r server \<Rightarrow> (string \<Rightarrow> string option) \<Rightarrow> string list \<Rightarrow> 'r tables \<Rightarrow> string + 'r tables" where
  "copy_tables pg file_of [] db = Inr db"
| "copy_tables pg file_of (t # ts) db =
     (case file_of (''data/'' @ t @ ''.copy'') of
        None \<Rightarrow> Inl ''No such file''
      | Some data \<Rightarrow> and_then (run_sql pg (build_copy_in_sql t) (copy_in pg t data db)) (copy_tables pg file_of ts))"

definition restore_body :: "'r server \<Rightarrow> string \<Rightarrow> (string \<Rightarrow> string option) \<Rightarrow> string list \<Rightarrow> 'r tables \<Rightarrow> string + 'r tables" where
  "restore_body pg schema_sql file_of tables db =
     and_then (run_sql pg schema_sql (exec_ddl pg schema_sql db)) (\<lambda>db1.
     and_then (copy_tables pg file_of tables db1) (\<lambda>db2.
     and_then (may_fail (pg_commit_error pg)) (\<lambda>_. Inr db2)))"

text \<open>
  The check for existing tables is outside the inner \<open>try\<close>: the exception of a failing query comes
  through as it is.
\<close>

definition restore_fixture ::
  "'r server \<Rightarrow> conninfo \<Rightarrow> (string \<Rightarrow> string) \<Rightarrow> prims \<Rightarrow> manifest_fields \<Rightarrow> string \<Rightarrow> string \<Rightarrow> string \<Rightarrow> fixtures \<Rightarrow> 'r tables \<Rightarrow>
   (fixture_error + fixture_manifest) \<times> 'r tables" where
  "restore_fixture pg ci resolve pr pyd fixture_id target_dsn fixtures_root fs db =
     (let target = sanitize_target ci target_dsn in
      case and_then (fixture_dir resolve fixture_id fixtures_root) (\<lambda>fdir.
             and_then (verified_tables pr pyd fs fdir fixture_id) (\<lambda>tables.
             and_then (read_manifest pyd fs fdir) (\<lambda>m.
             and_then (read_file fs fdir ''schema.sql'') (\<lambda>schema_sql.
               case pg_refuses pg target_dsn of
                 Some e \<Rightarrow> Inl (FixtureError (''Cannot connect to '' @ target @ '': '' @ scrub_secrets ci e target_dsn))
               | None \<Rightarrow>
                   (case run_sql pg EXISTING_TABLES_SQL (Inr (sort (filter (\<lambda>t. t \<in> set tables) (map fst db)))) of
                      Inl e \<Rightarrow> Inl (Raised (OtherError e))
                    | Inr existing \<Rightarrow>
                        if existing \<noteq> [] then Inl (FixtureError (''Target database '' @ target @ '' already contains fixture tables: ''
                          @ join '', '' existing @ ''; per-run stores must be fresh''))
                        else
                          (case restore_body pg schema_sql (\<lambda>p. Option.bind (dict_get fs fdir) (\<lambda>fx. dict_get (fx_files fx) p)) tables db of
                             Inl e \<Rightarrow> Inl (FixtureError (''Restore of fixture '' @ [CHR 0x27] @ fixture_id @ [CHR 0x27] @ '' into '' @ target
                               @ '' failed: '' @ scrub_secrets ci e target_dsn))
                           | Inr db' \<Rightarrow> Inr (m, db'))))))) of
        Inl e \<Rightarrow> (Inl e, db)
      | Inr (m, db') \<Rightarrow> (Inr m, db'))"

subsection \<open>The command line\<close>

definition EXIT_OK :: int where "EXIT_OK = 0"
definition EXIT_FIXTURE_ERROR :: int where "EXIT_FIXTURE_ERROR = 1"
definition EXIT_USAGE :: int where "EXIT_USAGE = 2"

datatype fixture_command =
    Snapshot_cmd "string option" string string
  | Verify_cmd string string
  | Restore_cmd string string string
  | Cut_cmd string string bool
  | Discard_cmd string string
  | List_cmd string

text \<open>The functions of the package the commands call, over the world of databases and files.\<close>

record 'w package =
  do_snapshot :: "string \<Rightarrow> string \<Rightarrow> string \<Rightarrow> 'w \<Rightarrow> (fixture_error + fixture_manifest) \<times> 'w"
  do_fixture_dir :: "string \<Rightarrow> string \<Rightarrow> fixture_error + string"
  do_read_manifest :: "string \<Rightarrow> 'w \<Rightarrow> fixture_error + fixture_manifest"
  do_hash :: "string \<Rightarrow> 'w \<Rightarrow> fixture_error + string"
  do_restore :: "string \<Rightarrow> string \<Rightarrow> string \<Rightarrow> 'w \<Rightarrow> (fixture_error + fixture_manifest) \<times> 'w"
  do_cut :: "string \<Rightarrow> cut_arg \<Rightarrow> bool \<Rightarrow> 'w \<Rightarrow> (fixture_error + cut_result) \<times> 'w"
  do_discard :: "string \<Rightarrow> json \<Rightarrow> 'w \<Rightarrow> (fixture_error + nat) \<times> 'w"
  do_list :: "string \<Rightarrow> 'w \<Rightarrow> (fixture_error + string list) \<times> 'w"

definition manifest_payload :: "fixture_manifest \<Rightarrow> json" where
  "manifest_payload m = JObj
     [(''content_hash'', JStr (fm_content_hash m)), (''fixture_id'', JStr (fm_fixture_id m)),
      (''null_occurred_at_count'', JInt (fm_null_occurred_at_count m)),
      (''table_row_counts'', JObj (map (\<lambda>(t, n). (t, JInt n)) (fm_table_row_counts m)))]"

text \<open>What a command prints: one line of JSON with sorted keys, or a line of text.\<close>

datatype printed = Nothing_printed | Printed_json json | Printed_line string

definition emit_with :: "('a \<Rightarrow> json) \<Rightarrow> (fixture_error + 'a) \<times> 'w \<Rightarrow> (fixture_error + printed) \<times> 'w" where
  "emit_with payload r = (case r of (Inl e, w) \<Rightarrow> (Inl e, w) | (Inr x, w) \<Rightarrow> (Inr (Printed_json (payload x)), w))"

definition cmd_verify :: "'w package \<Rightarrow> string \<Rightarrow> string \<Rightarrow> 'w \<Rightarrow> fixture_error + printed" where
  "cmd_verify lib fixture_id fixtures_root w =
     and_then (do_fixture_dir lib fixture_id fixtures_root) (\<lambda>fdir.
     and_then (do_read_manifest lib fdir w) (\<lambda>m.
     and_then (do_hash lib fdir w) (\<lambda>actual.
       if actual \<noteq> fm_content_hash m then Inl (FixtureHashMismatchError fixture_id (fm_content_hash m) actual)
       else Inr (Printed_line (''fixture '' @ fixture_id @ '' OK sha256='' @ actual)))))"

text \<open>What a command prints on standard output, or the exception it ends with.\<close>

fun run_command :: "'w package \<Rightarrow> fixture_command \<Rightarrow> 'w \<Rightarrow> (fixture_error + printed) \<times> 'w" where
  "run_command lib (Snapshot_cmd source_dsn fixture_id fixtures_root) w =
     emit_with manifest_payload (do_snapshot lib (text_or source_dsn []) fixture_id fixtures_root w)"
| "run_command lib (Verify_cmd fixture_id fixtures_root) w = (cmd_verify lib fixture_id fixtures_root w, w)"
| "run_command lib (Restore_cmd fixture_id target_dsn fixtures_root) w =
     emit_with manifest_payload (do_restore lib fixture_id target_dsn fixtures_root w)"
| "run_command lib (Cut_cmd target_dsn cut_date dry_run) w =
     emit_with (\<lambda>r. JObj [(''excluded_after_cut'', JInt (int (excluded_after_cut r))), (''excluded_null'', JInt (int (excluded_null r))),
         (''remaining'', JInt (int (remaining r)))]) (do_cut lib target_dsn (Cut_text cut_date) dry_run w)"
| "run_command lib (Discard_cmd target_dsn rollout_id) w =
     emit_with (\<lambda>n. JObj [(''deleted'', JInt (int n)), (''rollout_id'', JStr rollout_id)]) (do_discard lib target_dsn (JStr rollout_id) w)"
| "run_command lib (List_cmd target_dsn) w =
     emit_with (\<lambda>ps. JObj [(''scratch_projects'', JList (map JStr ps))]) (do_list lib target_dsn w)"

text \<open>\<open>main\<close> after the arguments are read: the environment gives the source address when the option does not.\<close>

definition with_source_dsn :: "string option \<Rightarrow> fixture_command \<Rightarrow> fixture_command option" where
  "with_source_dsn env_dsn cmd =
     (case cmd of
        Snapshot_cmd source_dsn fixture_id fixtures_root \<Rightarrow>
          (let dsn = text_or source_dsn (text_or env_dsn []) in
           if dsn = [] then None else Some (Snapshot_cmd (Some dsn) fixture_id fixtures_root))
      | _ \<Rightarrow> Some cmd)"

definition fixture_main :: "'w package \<Rightarrow> string option \<Rightarrow> fixture_command \<Rightarrow> 'w \<Rightarrow> (exn + int \<times> printed) \<times> 'w" where
  "fixture_main lib env_dsn cmd w =
     (case with_source_dsn env_dsn cmd of
        None \<Rightarrow> (Inr (EXIT_USAGE, Nothing_printed), w)
      | Some c \<Rightarrow>
          (case run_command lib c w of
             (Inr out, w') \<Rightarrow> (Inr (EXIT_OK, out), w')
           | (Inl (Raised e), w') \<Rightarrow> (Inl e, w')
           | (Inl e, w') \<Rightarrow> (Inr (EXIT_FIXTURE_ERROR, Nothing_printed), w')))"

subsection \<open>A restore is checked, and all or nothing\<close>

text \<open>
  C19: A fixture is restored only when its files hash to what its manifest says, and only into a database
  that has none of its tables; whatever goes wrong, the database is as it was before.
\<close>

theorem restore_checked:
  assumes "restore_fixture pg ci resolve pr pyd fixture_id dsn fixtures_root fs db = (r, db')"
  shows "case r of
      Inl e \<Rightarrow> db' = db
    | Inr m \<Rightarrow> (\<exists>fdir fx. fixture_dir resolve fixture_id fixtures_root = Inr fdir \<and> dict_get fs fdir = Some fx \<and>
        read_manifest pyd fs fdir = Inr m \<and> sha256_hex pr (hash_input (fx_files fx)) = fm_content_hash m \<and>
        (\<forall>(p, bytes) \<in> set (fx_files fx). \<forall>t. data_stem p = Some t \<longrightarrow> t \<in> set RESTORE_ORDER \<and> t \<notin> fst ` set db))"
proof (cases r)
  case (Inl e)
  with assms show ?thesis by (auto simp: restore_fixture_def Let_def split: sum.splits)
next
  case (Inr m)
  then obtain fdir tables where fdir: "fixture_dir resolve fixture_id fixtures_root = Inr fdir"
    and tables: "verified_tables pr pyd fs fdir fixture_id = Inr tables" and m: "read_manifest pyd fs fdir = Inr m"
    and fresh: "sort (filter (\<lambda>t. t \<in> set tables) (map fst db)) = []"
    using assms by (auto simp: restore_fixture_def Let_def and_then_Inr_iff run_sql_Inr run_sql_Inl split: sum.splits option.splits if_splits)
  from tables m obtain fx where fx: "dict_get fs fdir = Some fx" and hash: "sha256_hex pr (hash_input (fx_files fx)) = fm_content_hash m"
    by (auto simp: verified_tables_def and_then_Inr_iff compute_content_hash_def Let_def split: if_splits option.splits)
  have stems: "tables = filter (\<lambda>t. t \<in> set (List.map_filter (data_stem \<circ> fst) (fx_files fx))) RESTORE_ORDER"
    and known: "set (List.map_filter (data_stem \<circ> fst) (fx_files fx)) \<subseteq> set RESTORE_ORDER"
    using tables fx by (auto simp: verified_tables_def and_then_Inr_iff Let_def filter_empty_conv split: if_splits)
  have "t \<in> set RESTORE_ORDER \<and> t \<notin> fst ` set db" if "(p, bytes) \<in> set (fx_files fx)" "data_stem p = Some t" for p bytes t
  proof -
    have "t \<in> set (List.map_filter (data_stem \<circ> fst) (fx_files fx))"
      using that by (force simp: map_filter_def)
    then show ?thesis using known stems fresh by (auto simp: filter_empty_conv)
  qed
  then show ?thesis using Inr fdir fx m hash by auto
qed

text \<open>
  The hash runs over path, NUL and bytes of each file without their lengths, so it does not tell a
  file from two files whose paths and bytes run together to the same text.
\<close>

lemma hash_input_ambiguous:
  "hash_input [(''a'', ''x''), (''b'', ''y'')] = hash_input [(''a'', ''xb'' @ [CHR 0x00] @ ''y'')]"
  by (simp add: hash_input_def path_name_def rel_parts_def)

subsection \<open>A restored fixture gives the same snapshot\<close>

definition volatile :: "string \<Rightarrow> bool" where
  "volatile line \<longleftrightarrow> list_ex (\<lambda>p. prefix p line) PSQL_META_PREFIXES \<or> find (\<lambda>(p, key). prefix p line) VOLATILE_PREFIXES \<noteq> None"

lemma fold_strip: "fst (fold strip_line ls acc) = fst acc @ filter (\<lambda>l. \<not> volatile l) ls"
proof (induction ls arbitrary: acc)
  case (Cons l ls)
  have "fst (strip_line l acc) = fst acc @ (if volatile l then [] else [l])"
    by (auto simp: strip_line_def volatile_def split: option.splits)
  with Cons.IH [of "strip_line l acc"] show ?case by simp
qed simp

definition kept_text :: "string list \<Rightarrow> string" where
  "kept_text ls = (let body = join [newline] ls in if body \<noteq> [] \<and> last body \<noteq> newline then body @ [newline] else body)"

lemma strip_kept: "fst (strip_volatile_comments s) = kept_text (filter (\<lambda>l. \<not> volatile l) (splitlines s))"
  using fold_strip [of "splitlines s" "([], [])"]
  by (cases "fold strip_line (splitlines s) ([], [])") (simp add: strip_volatile_comments_def kept_text_def Let_def)

definition named :: "ddl \<Rightarrow> bool" where
  "named d \<longleftrightarrow> distinct (map fst d) \<and> list_all (\<lambda>(t, pk). full_class ns_char t \<and> list_all (full_class ns_char) pk) d"

text \<open>
  What the code relies on: \<open>pg_dump\<close> writes the same lines for the same tables but for the volatile ones,
  executing them creates those tables, ordering by a key is a fixed order of the rows, and \<open>COPY\<close> reads
  back what it wrote.
\<close>

locale postgres =
  fixes pg :: "'r server" and dump_body :: "ddl \<Rightarrow> string list"
  assumes dump_lines: "named d \<Longrightarrow> filter (\<lambda>l. \<not> volatile l) (splitlines (pg_dump_text pg d n)) = dump_body d"
    and ddl_back: "named d \<Longrightarrow> pg_ddl pg (kept_text (dump_body d)) = Some d"
    and ordered_rows: "mset (pg_ordered pg pk rows) = mset rows"
    and ordered_again: "pg_ordered pg pk (pg_ordered pg pk rows) = pg_ordered pg pk rows"
    and copy_back: "pg_copy_in pg (pg_copy_out pg rows) = Some rows"
    and admits_ordered: "pg_admits pg pk rows \<Longrightarrow> pg_admits pg pk (pg_ordered pg pk rows)"

locale manifest_model =
  fixes pyd :: manifest_fields
  assumes pyd_dump: "pyd (manifest_dump m) = Inr m"

definition healthy :: "'r server \<Rightarrow> bool" where
  "healthy pg \<longleftrightarrow> (\<forall>dsn. pg_refuses pg dsn = None) \<and> (\<forall>sql. pg_error pg sql = None) \<and> pg_commit_error pg = None \<and> (\<forall>args. pg_dump_error pg args = None)"

lemma healthy_run: "healthy pg \<Longrightarrow> run_sql pg sql r = r"
  by (simp add: healthy_def run_sql_def may_fail_def)

text \<open>A database with the tables of the store, each with a key.\<close>

definition snapshot_source :: "'r server \<Rightarrow> 'r tables \<Rightarrow> bool" where
  "snapshot_source pg db \<longleftrightarrow> named (ddl_of db) \<and> set (map fst db) \<subseteq> EXPECTED_TABLES \<and> ''store'' \<in> set (map fst db) \<and>
     list_all (\<lambda>(t, pk, rows). pk \<noteq> [] \<and> pg_admits pg pk rows) db"

definition copy_file :: "'r server \<Rightarrow> 'r tables \<Rightarrow> string \<Rightarrow> string \<times> string" where
  "copy_file pg db t =
     (''data/'' @ t @ ''.copy'', case dict_get db t of None \<Rightarrow> [] | Some (pk, rows) \<Rightarrow> pg_copy_out pg (pg_ordered pg pk rows))"

definition row_count :: "'r tables \<Rightarrow> string \<Rightarrow> string \<times> int" where
  "row_count db t = (t, case dict_get db t of None \<Rightarrow> 0 | Some (pk, rows) \<Rightarrow> int (length rows))"

definition null_count :: "'r server \<Rightarrow> 'r tables \<Rightarrow> int" where
  "null_count pg db = (case dict_get db ''store'' of None \<Rightarrow> 0 | Some (pk, rows) \<Rightarrow> int (length (filter (pg_undated pg) rows)))"

lemma table_key:
  assumes "snapshot_source pg db" and "t \<in> set (map fst db)"
  obtains pk rows where "dict_get db t = Some (pk, rows)" and "pk \<noteq> []" and "pg_admits pg pk rows" and "(t, pk, rows) \<in> set db"
proof -
  from assms(2) obtain pk rows where "dict_get db t = Some (pk, rows)"
    by (cases "dict_get db t") (auto simp: dict_get_def map_of_eq_None_iff)
  moreover from this have "(t, pk, rows) \<in> set db" by (simp add: dict_get_def map_of_SomeD)
  ultimately show ?thesis using assms(1) that by (auto simp: snapshot_source_def list_all_iff)
qed

lemma export_ok:
  assumes "healthy pg" and "snapshot_source pg db"
  shows "export_data pg ci dsn db =
    Inr (map (copy_file pg db) (sort (map fst db)), map (row_count db) (sort (map fst db)), null_count pg db)"
proof -
  have ok: "run_sql pg sql r = r" for sql and r :: "string + 'x"
    using assms(1) by (simp add: healthy_def run_sql_def may_fail_def)
  have "export_table pg ci dsn db t = Inr (copy_file pg db t, row_count db t)" if t: "t \<in> set (sort (map fst db))" for t
  proof -
    from t have "t \<in> set (map fst db)" by simp
    then obtain pk rows where "dict_get db t = Some (pk, rows)" "pk \<noteq> []" by (rule table_key [OF assms(2)])
    then show ?thesis
      by (simp add: export_table_def ok as_snapshot_error_def build_copy_out_sql_def copy_file_def row_count_def)
  qed
  then have "map_results (export_table pg ci dsn db) (sort (map fst db)) =
      Inr (map (\<lambda>t. (copy_file pg db t, row_count db t)) (sort (map fst db)))" by (rule map_results_total)
  moreover have "filter (\<lambda>t. t \<notin> EXPECTED_TABLES) (sort (map fst db)) = []" "''store'' \<in> set (sort (map fst db))"
    using assms(2) by (auto simp: snapshot_source_def filter_empty_conv)
  ultimately show ?thesis
    by (simp add: export_data_def ok as_snapshot_error_def Let_def comp_def null_count_def split: option.splits)
qed

definition schema_text :: "'r server \<Rightarrow> nat \<Rightarrow> 'r tables \<Rightarrow> string" where
  "schema_text pg n db = fst (strip_volatile_comments (pg_dump_text pg (ddl_of db) n))"

definition fixture_files :: "'r server \<Rightarrow> nat \<Rightarrow> 'r tables \<Rightarrow> (string \<times> string) list" where
  "fixture_files pg n db = (''schema.sql'', schema_text pg n db) # map (copy_file pg db) (sort (map fst db))"

lemma snapshot_ok:
  assumes "healthy pg" and "snapshot_source pg db" and "fixture_dir resolve fixture_id fixtures_root = Inr fdir" and "dict_get fs fdir = None"
  shows "\<exists>m. create_snapshot pg ci resolve pr now n dsn fixture_id fixtures_root db fs =
      (Inr m, dict_set fdir \<lparr>fx_files = fixture_files pg n db, fx_manifest = Some (Inr (JObj (manifest_dump m)))\<rparr>
        (dict_set fdir \<lparr>fx_files = fixture_files pg n db, fx_manifest = None\<rparr> fs)) \<and>
    fm_fixture_id m = fixture_id \<and> fm_content_hash m = sha256_hex pr (hash_input (fixture_files pg n db)) \<and>
    fm_table_row_counts m = map (row_count db) (sort (map fst db)) \<and> fm_null_occurred_at_count m = null_count pg db"
proof -
  obtain versions where v: "strip_volatile_comments (pg_dump_text pg (ddl_of db) n) = (schema_text pg n db, versions)"
    by (cases "strip_volatile_comments (pg_dump_text pg (ddl_of db) n)") (simp add: schema_text_def)
  have d: "pg_dump_error pg args = None" "pg_refuses pg dsn = None" for args using assms(1) by (simp_all add: healthy_def)
  show ?thesis
    by (simp add: create_snapshot_def assms(3,4) dump_schema_def d v export_ok [OF assms(1,2)] Let_def write_manifest_def dict_simps
        fixture_files_def)
qed

lemma fixture_stem:
  assumes "full_class ns_char t"
  shows "data_stem (''data/'' @ t @ ''.copy'') = Some t"
proof -
  have t: "CHR ''/'' \<notin> set t" "t \<noteq> []" using assms by (auto simp: full_class_def list_all_iff char_class_defs)
  then have "rel_parts (''data/'' @ t @ ''.copy'') = [''data'', t @ ''.copy'']"
    using split_on_append_sep [of "CHR ''/''" "''data''" "t @ ''.copy''"] split_on_free [of "CHR ''/''" "t @ ''.copy''"]
    by (simp add: rel_parts_def)
  then show ?thesis using t by (simp add: data_stem_def copy_suffix_def suffix_def)
qed

lemma fixture_stems:
  assumes "snapshot_source pg db"
  shows "List.map_filter (data_stem \<circ> fst) (fixture_files pg n db) = sort (map fst db)"
proof -
  have "data_stem (fst (copy_file pg db t)) = Some t" if "t \<in> set (map fst db)" for t
    using assms that fixture_stem [of t] by (auto simp: snapshot_source_def named_def ddl_of_def list_all_iff copy_file_def)
  moreover have "set ts \<subseteq> set (map fst db) \<Longrightarrow> (\<And>t. t \<in> set (map fst db) \<Longrightarrow> data_stem (fst (copy_file pg db t)) = Some t) \<Longrightarrow>
      List.map_filter (data_stem \<circ> fst) (map (copy_file pg db) ts) = ts" for ts
    by (induction ts) (auto simp: map_filter_simps)
  moreover have "data_stem ''schema.sql'' = None" by (simp add: data_stem_def rel_parts_def)
  ultimately show ?thesis by (simp add: fixture_files_def map_filter_simps)
qed

lemma dict_set_map:
  "distinct (map fst db) \<Longrightarrow> t \<in> fst ` set db \<Longrightarrow>
   dict_set t v (map (\<lambda>(k, x). (k, g k x)) db) = map (\<lambda>(k, x). (k, if k = t then v else g k x)) db"
proof (induction db)
  case (Cons p db)
  obtain k x where p: "p = (k, x)" by (cases p)
  show ?case
  proof (cases "k = t")
    case True
    with Cons.prems p have "t \<notin> fst ` set db" by simp
    then have "map (\<lambda>(k, x). (k, if k = t then v else g k x)) db = map (\<lambda>(k, x). (k, g k x)) db"
      by (force simp: image_iff)
    then show ?thesis using True p by (simp add: dict_set_def)
  next
    case False
    with Cons p show ?thesis by (auto simp: dict_set_def)
  qed
qed simp

context postgres
begin

text \<open>The tables while a restore is under way: those copied so far hold their rows in key order.\<close>

definition part_restored :: "string set \<Rightarrow> 'r tables \<Rightarrow> 'r tables" where
  "part_restored ts db = map (\<lambda>(t, x). (t, fst x, if t \<in> ts then pg_ordered pg (fst x) (snd x) else [])) db"

lemma schema_stable: "named (ddl_of db) \<Longrightarrow> schema_text pg n db = kept_text (dump_body (ddl_of db))"
  by (simp add: schema_text_def strip_kept dump_lines)

lemma part_restored_get:
  "dict_get (part_restored ts db) t =
     map_option (\<lambda>(pk, rows). (pk, if t \<in> ts then pg_ordered pg pk rows else [])) (dict_get db t)"
  unfolding part_restored_def by (induction db) auto

lemma part_restored_names [simp]: "map fst (part_restored ts db) = map fst db" "ddl_of (part_restored ts db) = ddl_of db"
  by (auto simp: part_restored_def ddl_of_def)

lemma copy_tables_ok:
  assumes "healthy pg" and "snapshot_source pg db"
    and "set ts \<subseteq> set (map fst db)" and "distinct ts" and "set ts \<inter> have_ts = {}"
    and "\<And>t. t \<in> set ts \<Longrightarrow> file_of (''data/'' @ t @ ''.copy'') = Some (snd (copy_file pg db t))"
  shows "copy_tables pg file_of ts (part_restored have_ts db) = Inr (part_restored (set ts \<union> have_ts) db)"
  using assms(3-6)
proof (induction ts arbitrary: have_ts)
  case (Cons t ts)
  have dist: "distinct (map fst db)" using assms(2) by (simp add: snapshot_source_def named_def ddl_of_def comp_def case_prod_unfold)
  from Cons.prems(1) have "t \<in> set (map fst db)" by simp
  then obtain pk rows where t: "dict_get db t = Some (pk, rows)" "pg_admits pg pk rows" "(t, pk, rows) \<in> set db"
    by (rule table_key [OF assms(2)])
  have "t \<notin> have_ts" using Cons.prems(3) by simp
  then have "dict_get (part_restored have_ts db) t = Some (pk, [])" by (simp add: part_restored_get t(1))
  moreover have "dict_set t (pk, pg_ordered pg pk rows) (part_restored have_ts db) = part_restored (insert t have_ts) db"
  proof -
    have "t \<in> fst ` set db" using t(3) by force
    then have "dict_set t (pk, pg_ordered pg pk rows) (part_restored have_ts db) =
        map (\<lambda>(k, x). (k, if k = t then (pk, pg_ordered pg pk rows)
          else (fst x, if k \<in> have_ts then pg_ordered pg (fst x) (snd x) else []))) db"
      unfolding part_restored_def by (rule dict_set_map [OF dist])
    also have "\<dots> = part_restored (insert t have_ts) db"
      unfolding part_restored_def
    proof (rule map_cong [OF refl], clarsimp)
      fix pk' rows' assume "(t, pk', rows') \<in> set db"
      then have "dict_get db t = Some (pk', rows')" using dist by (simp add: dict_get_def)
      with t(1) show "pk = pk' \<and> pg_ordered pg pk rows = pg_ordered pg pk' rows'" by simp
    qed
    finally show ?thesis .
  qed
  ultimately have "copy_in pg t (snd (copy_file pg db t)) (part_restored have_ts db) = Inr (part_restored (insert t have_ts) db)"
    by (simp add: copy_in_def copy_file_def t(1) copy_back admits_ordered [OF t(2)])
  moreover have "copy_tables pg file_of ts (part_restored (insert t have_ts) db) = Inr (part_restored (set ts \<union> insert t have_ts) db)"
    by (rule Cons.IH) (use Cons.prems in auto)
  ultimately show ?case using Cons.prems(4) by (simp add: healthy_run [OF assms(1)])
qed (simp add: part_restored_def)

lemma restored_copy_file:
  assumes "snapshot_source pg db" and "t \<in> set (map fst db)"
  shows "copy_file pg (part_restored (set (map fst db)) db) t = copy_file pg db t"
    and "row_count (part_restored (set (map fst db)) db) t = row_count db t"
proof -
  obtain pk rows where t: "dict_get db t = Some (pk, rows)" by (rule table_key [OF assms])
  have "length (pg_ordered pg pk rows) = length rows" using ordered_rows by (metis size_mset)
  with t assms(2) show "copy_file pg (part_restored (set (map fst db)) db) t = copy_file pg db t"
    "row_count (part_restored (set (map fst db)) db) t = row_count db t"
    by (simp_all add: copy_file_def row_count_def part_restored_get ordered_again)
qed

lemma restored_files:
  assumes "snapshot_source pg db"
  shows "fixture_files pg k (part_restored (set (map fst db)) db) = fixture_files pg n db"
    and "map (row_count (part_restored (set (map fst db)) db)) (sort (map fst db)) = map (row_count db) (sort (map fst db))"
    and "null_count pg (part_restored (set (map fst db)) db) = null_count pg db"
    and "snapshot_source pg (part_restored (set (map fst db)) db)"
proof -
  have "named (ddl_of db)" using assms by (simp add: snapshot_source_def)
  then have "schema_text pg k (part_restored (set (map fst db)) db) = schema_text pg n db" by (simp add: schema_stable)
  then show "fixture_files pg k (part_restored (set (map fst db)) db) = fixture_files pg n db"
    by (simp add: fixture_files_def restored_copy_file [OF assms] del: set_map)
  show "map (row_count (part_restored (set (map fst db)) db)) (sort (map fst db)) = map (row_count db) (sort (map fst db))"
    by (simp add: restored_copy_file [OF assms] del: set_map)
  have "length (filter P (pg_ordered pg pk rows)) = length (filter P rows)" for P pk rows
    using ordered_rows by (metis mset_filter size_mset)
  moreover have "''store'' \<in> set (map fst db)" using assms by (simp add: snapshot_source_def)
  ultimately show "null_count pg (part_restored (set (map fst db)) db) = null_count pg db"
    by (auto simp: null_count_def part_restored_get split: option.splits)
  show "snapshot_source pg (part_restored (set (map fst db)) db)"
    using assms admits_ordered by (auto simp: snapshot_source_def list_all_iff part_restored_def ddl_of_def comp_def case_prod_unfold)
qed

lemma file_found:
  assumes "t \<in> set (map fst db)"
  shows "dict_get (fixture_files pg n db) (''data/'' @ t @ ''.copy'') = Some (snd (copy_file pg db t))"
proof -
  have "t \<in> set ts \<Longrightarrow> dict_get (map (copy_file pg db) ts) (''data/'' @ t @ ''.copy'') = Some (snd (copy_file pg db t))" for ts
    by (induction ts) (auto simp: copy_file_def)
  moreover have "t \<in> set (sort (map fst db))" using assms by simp
  ultimately show ?thesis by (simp add: fixture_files_def)
qed

lemma restore_order_expected: "set RESTORE_ORDER = EXPECTED_TABLES"
  by (auto simp: EXPECTED_TABLES_def RESTORE_ORDER_def)

lemma restore_order_distinct: "distinct RESTORE_ORDER"
  by (simp add: RESTORE_ORDER_def)

lemma restore_ok:
  assumes "healthy pg" and "snapshot_source pg db" and "manifest_model pyd"
    and "fixture_dir resolve fixture_id fixtures_root = Inr fdir"
    and fx: "dict_get fs fdir = Some \<lparr>fx_files = fixture_files pg n db, fx_manifest = Some (Inr (JObj (manifest_dump m)))\<rparr>"
    and "fm_fixture_id m = fixture_id" and "fm_content_hash m = sha256_hex pr (hash_input (fixture_files pg n db))"
  shows "restore_fixture pg ci resolve pr pyd fixture_id dsn fixtures_root fs [] = (Inr m, part_restored (set (map fst db)) db)"
proof -
  have nm: "named (ddl_of db)" and dist: "distinct (map fst db)"
    using assms(2) by (simp_all add: snapshot_source_def named_def ddl_of_def comp_def case_prod_unfold)
  have sub: "set (map fst db) \<subseteq> set RESTORE_ORDER" and store: "''store'' \<in> set (map fst db)"
    using assms(2) by (simp_all add: snapshot_source_def restore_order_expected)
  define ts where "ts = filter (\<lambda>t. t \<in> set (map fst db)) RESTORE_ORDER"
  have ts: "distinct ts" "set ts = set (map fst db)" using sub restore_order_distinct by (simp_all add: ts_def del: set_map) blast
  have "full_class fixture_id_char fixture_id" using assms(4) by (auto simp: fixture_dir_def split: if_splits)
  then have man: "read_manifest pyd fs fdir = Inr m"
    using manifest_model.pyd_dump [OF assms(3)] assms(6) by (simp add: read_manifest_def fx manifest_init_def validate_fixture_id_def)
  have "sort (map fst db) \<noteq> []" "filter (\<lambda>t. t \<notin> set RESTORE_ORDER) (sort (map fst db)) = []"
    using sub store by (auto simp: filter_empty_conv simp del: set_map)
  then have ver: "verified_tables pr pyd fs fdir fixture_id = Inr ts"
    by (simp add: verified_tables_def man compute_content_hash_def fx assms(7) fixture_stems [OF assms(2)] Let_def ts_def
        sorted_sort_id del: set_map sort_key_Nil_iff)
  have "exec_ddl pg (schema_text pg n db) [] = Inr (part_restored {} db)"
    using nm ddl_back [OF nm] by (simp add: exec_ddl_def schema_stable named_def) (simp add: ddl_of_def part_restored_def case_prod_unfold)
  moreover have "copy_tables pg (\<lambda>p. Option.bind (dict_get fs fdir) (\<lambda>fx. dict_get (fx_files fx) p)) ts (part_restored {} db) =
      Inr (part_restored (set ts \<union> {}) db)"
    by (rule copy_tables_ok [OF assms(1,2)]) (use ts file_found in \<open>auto simp: fx\<close>)
  moreover have "pg_commit_error pg = None" using assms(1) by (simp add: healthy_def)
  ultimately have body: "restore_body pg (schema_text pg n db) (\<lambda>p. Option.bind (dict_get fs fdir) (\<lambda>fx. dict_get (fx_files fx) p)) ts [] =
      Inr (part_restored (set (map fst db)) db)"
    by (simp add: restore_body_def healthy_run [OF assms(1)] may_fail_def ts(2))
  have "read_file fs fdir ''schema.sql'' = Inr (schema_text pg n db)" by (simp add: read_file_def fx fixture_files_def)
  moreover have "pg_refuses pg dsn = None" using assms(1) by (simp add: healthy_def)
  ultimately show ?thesis
    by (simp add: restore_fixture_def Let_def assms(4) ver man healthy_run [OF assms(1)] body)
qed

end

subsection \<open>A server over the text formats\<close>

text \<open>
  The laws above hold of an executable server. A row is a first column and the others, a column a text or
  \<open>NULL\<close>, in PostgreSQL's \<open>COPY\<close> text format: columns separated by tabs, rows ended by newlines, \<open>\N\<close> for
  \<open>NULL\<close>, backslash escapes for the characters of the format. The key columns come first, as in the
  tables of the store.
\<close>

type_synonym text_row = "string option \<times> string option list"

definition tab :: char where "tab = CHR 0x09"
definition backslash :: char where "backslash = CHR 0x5C"

definition copy_char :: "char \<Rightarrow> string" where
  "copy_char c =
     (if c = backslash then [backslash, backslash] else if c = newline then [backslash, CHR ''n'']
      else if c = tab then [backslash, CHR ''t''] else if c = CHR 0x0D then [backslash, CHR ''r''] else [c])"

definition copy_column :: "string option \<Rightarrow> string" where
  "copy_column v = (case v of None \<Rightarrow> [backslash, CHR ''N''] | Some s \<Rightarrow> concat (map copy_char s))"

fun copy_unescape :: "string \<Rightarrow> string" where
  "copy_unescape (c # d # cs) =
     (if c = backslash
      then (if d = CHR ''n'' then newline else if d = CHR ''t'' then tab else if d = CHR ''r'' then CHR 0x0D else d) # copy_unescape cs
      else c # copy_unescape (d # cs))"
| "copy_unescape cs = cs"

definition read_column :: "string \<Rightarrow> string option" where
  "read_column s = (if s = [backslash, CHR ''N''] then None else Some (copy_unescape s))"

definition row_line :: "text_row \<Rightarrow> string" where "row_line row = join [tab] (map copy_column (fst row # snd row))"

definition read_row :: "string \<Rightarrow> text_row" where
  "read_row line = (let cols = map read_column (split_on tab line) in (hd cols, tl cols))"

definition copy_text :: "text_row list \<Rightarrow> string" where "copy_text rows = concat (map (\<lambda>r. row_line r @ [newline]) rows)"

definition read_copy :: "string \<Rightarrow> text_row list option" where
  "read_copy text =
     (let lines = split_on newline text in if last lines = [] then Some (map read_row (butlast lines)) else None)"

lemma unescape_char: "copy_unescape (copy_char c @ s) = c # copy_unescape s"
  by (cases s) (simp_all add: copy_char_def backslash_def tab_def)

lemma read_copy_column: "read_column (copy_column v) = v"
proof (cases v)
  case (Some s)
  have "copy_unescape (concat (map copy_char s)) = s"
    by (induction s) (simp_all add: unescape_char)
  moreover have "concat (map copy_char s) \<noteq> [backslash, CHR ''N'']"
    by (cases s) (simp_all add: copy_char_def backslash_def tab_def)
  ultimately show ?thesis by (simp add: Some read_column_def copy_column_def)
qed (simp add: read_column_def copy_column_def)

lemma copy_column_clean: "tab \<notin> set (copy_column v)" "newline \<notin> set (copy_column v)"
  by (auto simp: copy_column_def copy_char_def backslash_def tab_def split: option.splits if_splits)

lemma read_row_line: "read_row (row_line row) = row"
proof -
  have "split_on tab (row_line row) = map copy_column (fst row # snd row)"
    unfolding row_line_def by (rule split_join) (auto simp: copy_column_clean)
  then show ?thesis by (simp add: read_row_def comp_def read_copy_column)
qed

lemma row_line_clean: "newline \<notin> set (row_line row)"
proof -
  have "\<forall>p \<in> set ps. newline \<notin> set p \<Longrightarrow> newline \<notin> set (join [tab] ps)" for ps
    by (induction "[tab]" ps rule: join.induct) (simp_all add: tab_def)
  then show ?thesis unfolding row_line_def by (simp add: copy_column_clean)
qed

lemma read_copy_text: "read_copy (copy_text rows) = Some rows"
proof -
  have "split_on newline (copy_text rows) = map row_line rows @ [[]]"
    by (induction rows) (simp_all add: copy_text_def split_on_append_sep row_line_clean)
  then show ?thesis by (simp add: read_copy_def comp_def read_row_line butlast_append)
qed

text \<open>The schema dump: one line for a table, between the lines \<open>pg_dump\<close> varies with its session and version.\<close>

definition create_prefix :: string where "create_prefix = ''CREATE TABLE ''"
definition create_line :: "string \<times> string list \<Rightarrow> string" where "create_line d = create_prefix @ join '' '' (fst d # snd d)"
definition dump_head :: string where "dump_head = ''-- PostgreSQL database dump''"
definition text_body :: "ddl \<Rightarrow> string list" where "text_body d = dump_head # map create_line d"

definition text_dump :: "ddl \<Rightarrow> nat \<Rightarrow> string" where
  "text_dump d n = concat (map (\<lambda>l. l @ [newline])
     ((backslash # ''restrict '' @ replicate n CHR ''x'') # ''-- Dumped from database version 16.4'' # ''-- Dumped by pg_dump version 16.4'' #
      text_body d @ [backslash # ''unrestrict '' @ replicate n CHR ''x'']))"

definition text_ddl :: "string \<Rightarrow> ddl option" where
  "text_ddl sql = Some (map (\<lambda>l. let ws = split_on CHR '' '' (drop (length create_prefix) l) in (hd ws, tl ws))
     (filter (prefix create_prefix) (splitlines sql)))"

lemma splitlines_line: "list_all (\<lambda>c. \<not> line_end c) l \<Longrightarrow> splitlines (l @ newline # s) = l # splitlines s"
proof -
  assume l: "list_all (\<lambda>c. \<not> line_end c) l"
  have "line_end newline" by (simp add: line_end_def in_range_def)
  with l have "takeWhile (\<lambda>c. \<not> line_end c) (l @ newline # s) = l" "dropWhile (\<lambda>c. \<not> line_end c) (l @ newline # s) = newline # s"
    by (simp_all add: list_all_iff takeWhile_append2 dropWhile_append2)
  then show ?thesis by (subst splitlines.simps) (simp add:)
qed

lemma splitlines_lines:
  "\<forall>l \<in> set ls. list_all (\<lambda>c. \<not> line_end c) l \<Longrightarrow> splitlines (concat (map (\<lambda>l. l @ [newline]) ls)) = ls"
  by (induction ls) (simp_all add: splitlines_line splitlines.simps [of "[]"])

lemma lines_joined:
  assumes "ls \<noteq> []" and "\<forall>l \<in> set ls. l \<noteq> [] \<and> last l \<noteq> newline"
  shows "kept_text ls = concat (map (\<lambda>l. l @ [newline]) ls)"
proof -
  have "ls \<noteq> [] \<Longrightarrow> join [newline] ls @ [newline] = concat (map (\<lambda>l. l @ [newline]) ls)"
    by (induction "[newline]" ls rule: join.induct) simp_all
  moreover have "\<forall>l \<in> set ls. l \<noteq> [] \<and> last l \<noteq> newline \<Longrightarrow> ls \<noteq> [] \<Longrightarrow> last (join [newline] ls) \<noteq> newline \<and> join [newline] ls \<noteq> []"
    by (induction "[newline]" ls rule: join.induct) simp_all
  ultimately show ?thesis using assms by (simp add: kept_text_def Let_def)
qed

lemma ns_class_plain:
  assumes "full_class ns_char p"
  shows "CHR '' '' \<notin> set p" and "list_all (\<lambda>c. \<not> line_end c) p"
proof -
  have "ns_char c \<Longrightarrow> c \<noteq> CHR '' '' \<and> \<not> line_end c" for c by (auto simp: char_class_defs line_end_def)
  then show "CHR '' '' \<notin> set p" "list_all (\<lambda>c. \<not> line_end c) p" using assms by (auto simp: full_class_def list_all_iff)
qed

lemma table_words:
  assumes "named d" and "(t, pk) \<in> set d"
  shows "split_on CHR '' '' (join '' '' (t # pk)) = t # pk" and "list_all (\<lambda>c. \<not> line_end c) (create_line (t, pk))"
proof -
  have w: "full_class ns_char p" if "p \<in> set (t # pk)" for p
    using assms that by (auto simp: named_def list_all_iff)
  then have "\<forall>p \<in> set (t # pk). CHR '' '' \<notin> set p" by (blast dest: ns_class_plain(1))
  then show "split_on CHR '' '' (join '' '' (t # pk)) = t # pk" by (intro split_join) auto
  have "\<forall>p \<in> set ps. list_all (\<lambda>c. \<not> line_end c) p \<Longrightarrow> list_all (\<lambda>c. \<not> line_end c) (join '' '' ps)" for ps
    by (induction "'' ''" ps rule: join.induct) (simp_all add: line_end_def in_range_def)
  moreover have "\<forall>p \<in> set (t # pk). list_all (\<lambda>c. \<not> line_end c) p"
    using w by (blast dest: ns_class_plain(2))
  ultimately have "list_all (\<lambda>c. \<not> line_end c) (join '' '' (t # pk))" by blast
  then show "list_all (\<lambda>c. \<not> line_end c) (create_line (t, pk))"
    by (simp add: create_line_def create_prefix_def line_end_def in_range_def)
qed

lemma text_body_clean: "named d \<Longrightarrow> \<forall>l \<in> set (text_body d). list_all (\<lambda>c. \<not> line_end c) l"
  by (auto simp: text_body_def table_words(2)) (simp add: dump_head_def line_end_def in_range_def)

lemma create_not_volatile: "\<not> volatile (create_line x)" "\<not> volatile dump_head"
  by (simp_all add: volatile_def PSQL_META_PREFIXES_def VOLATILE_PREFIXES_def create_line_def create_prefix_def dump_head_def)

lemma text_dump_lines:
  assumes "named d"
  shows "filter (\<lambda>l. \<not> volatile l) (splitlines (text_dump d n)) = text_body d"
proof -
  have "list_all (\<lambda>c. \<not> line_end c) (replicate n CHR ''x'')" by (simp add: list_all_iff line_end_def in_range_def)
  then have "splitlines (text_dump d n) = (backslash # ''restrict '' @ replicate n CHR ''x'') # ''-- Dumped from database version 16.4'' #
      ''-- Dumped by pg_dump version 16.4'' # text_body d @ [backslash # ''unrestrict '' @ replicate n CHR ''x'']"
    unfolding text_dump_def using text_body_clean [OF assms]
    by (subst splitlines_lines) (auto simp: line_end_def in_range_def backslash_def)
  moreover have "volatile (backslash # ''restrict '' @ s)" "volatile (backslash # ''unrestrict '' @ s)"
    "volatile ''-- Dumped from database version 16.4''" "volatile ''-- Dumped by pg_dump version 16.4''" for s
    by (simp_all add: volatile_def PSQL_META_PREFIXES_def VOLATILE_PREFIXES_def backslash_def)
  ultimately show ?thesis by (simp add: text_body_def create_not_volatile comp_def filter_id_conv)
qed

lemma text_ddl_back:
  assumes "named d"
  shows "text_ddl (kept_text (text_body d)) = Some d"
proof -
  have "\<forall>l \<in> set (text_body d). l \<noteq> []" by (auto simp: text_body_def create_line_def create_prefix_def dump_head_def)
  moreover have "last l \<noteq> newline" if "l \<in> set (text_body d)" for l
    using bspec [OF text_body_clean [OF assms] that] bspec [OF calculation that]
    by (auto simp: list_all_iff line_end_def in_range_def dest!: last_in_set)
  ultimately have "kept_text (text_body d) = concat (map (\<lambda>l. l @ [newline]) (text_body d))"
    by (intro lines_joined) (auto simp: text_body_def)
  then have "splitlines (kept_text (text_body d)) = text_body d" by (simp add: splitlines_lines text_body_clean [OF assms])
  moreover have "\<not> prefix create_prefix dump_head" "prefix create_prefix (create_line x)" for x
    by (simp_all add: create_prefix_def dump_head_def create_line_def)
  ultimately have "text_ddl (kept_text (text_body d)) =
      Some (map (\<lambda>x. let ws = split_on CHR '' '' (join '' '' (fst x # snd x)) in (hd ws, tl ws)) d)"
    by (simp add: text_ddl_def text_body_def comp_def create_line_def)
  also have "\<dots> = Some d" using table_words(1) [OF assms] by (auto intro!: map_idI)
  finally show ?thesis .
qed

definition row_key :: "string list \<Rightarrow> text_row \<Rightarrow> string list" where
  "row_key pk row = map copy_column (take (length pk) (fst row # snd row))"

definition text_server :: "text_row server" where
  "text_server =
     \<lparr>pg_dump_text = text_dump, pg_ddl = text_ddl, pg_ordered = (\<lambda>pk. sort_key (row_key pk)), pg_copy_out = copy_text,
      pg_copy_in = read_copy, pg_admits = (\<lambda>pk rows. distinct (map (row_key pk) rows)), pg_undated = (\<lambda>row. last (fst row # snd row) = None),
      pg_refuses = (\<lambda>dsn. None), pg_error = (\<lambda>sql. None), pg_commit_error = None, pg_dump_error = (\<lambda>args. None)\<rparr>"

interpretation text_pg: postgres text_server text_body
proof
  show "pg_ordered text_server pk (pg_ordered text_server pk rows) = pg_ordered text_server pk rows" for pk rows
    by (simp add: text_server_def sort_key_id_if_sorted)
  have "distinct (map f (sort_key g rows)) = distinct (map f rows)" for f g :: "text_row \<Rightarrow> string list" and rows
    by (metis distinct_map distinct_sort set_sort)
  then show "pg_admits text_server pk rows \<Longrightarrow> pg_admits text_server pk (pg_ordered text_server pk rows)" for pk rows
    by (simp add: text_server_def)
qed (simp_all add: text_server_def text_dump_lines text_ddl_back read_copy_text)

text \<open>A reader of the manifest's fields by name.\<close>

definition read_str :: "string \<Rightarrow> (string \<times> json) list \<Rightarrow> string + string" where
  "read_str k data = (case dict_get data k of Some (JStr s) \<Rightarrow> Inr s | _ \<Rightarrow> Inl (k @ '': string required''))"

definition read_int :: "string \<Rightarrow> (string \<times> json) list \<Rightarrow> string + int" where
  "read_int k data = (case dict_get data k of Some (JInt n) \<Rightarrow> Inr n | _ \<Rightarrow> Inl (k @ '': integer required''))"

definition read_counts :: "string \<Rightarrow> (string \<times> json) list \<Rightarrow> string + (string \<times> int) list" where
  "read_counts k data =
     (case dict_get data k of
        Some (JObj kvs) \<Rightarrow> map_results (\<lambda>(t, v). and_then (read_int t [(t, v)]) (\<lambda>n. Inr (t, n))) kvs
      | _ \<Rightarrow> Inl (k @ '': object required''))"

definition manifest_reader :: manifest_fields where
  "manifest_reader data =
     and_then (read_str ''fixture_id'' data) (\<lambda>fid. and_then (read_str ''created_at'' data) (\<lambda>created.
     and_then (read_str ''source_target'' data) (\<lambda>target. and_then (read_str ''content_hash'' data) (\<lambda>hash.
     and_then (read_counts ''table_row_counts'' data) (\<lambda>counts. and_then (read_int ''null_occurred_at_count'' data) (\<lambda>nulls.
     and_then (read_str ''pg_dump_version'' data) (\<lambda>version.
       Inr \<lparr>fm_fixture_id = fid, fm_created_at = created, fm_source_target = target, fm_content_hash = hash, fm_table_row_counts = counts,
            fm_null_occurred_at_count = nulls, fm_pg_dump_version = version\<rparr>)))))))"

interpretation reader: manifest_model manifest_reader
proof
  fix m
  have "map_results (\<lambda>(t, v). and_then (read_int t [(t, v)]) (\<lambda>n. Inr (t, n))) (map (\<lambda>(t, n). (t, JInt n)) counts) = Inr counts" for counts
    by (induction counts) (auto simp: read_int_def dict_simps)
  then show "manifest_reader (manifest_dump m) = Inr m"
    by (simp add: manifest_reader_def manifest_dump_def read_str_def read_int_def [of "''null_occurred_at_count''"] read_counts_def dict_simps)
qed

subsection \<open>Snapshot, restore, snapshot\<close>

text \<open>
  C20: A snapshot is reproducible: restored into a fresh database and snapshotted again under another
  id, at another time and in another session of \<open>pg_dump\<close>, it gives byte-identical files, the same
  content hash and the same counts. The restore itself succeeds and returns the manifest.
\<close>

theorem restore_reproduces:
  assumes "postgres pg dump_body" and "manifest_model pyd" and "healthy pg" and "snapshot_source pg db"
    and "create_snapshot pg ci resolve pr now n dsn fixture_id fixtures_root db fs = (Inr m, fs1)"
    and "fixture_dir resolve other_id fixtures_root = Inr other_dir" and "dict_get fs1 other_dir = None"
  shows "\<exists>fdir db2 m2 fs2 fx fx2. restore_fixture pg ci resolve pr pyd fixture_id target fixtures_root fs1 [] = (Inr m, db2) \<and>
    create_snapshot pg ci resolve pr later n2 target other_id fixtures_root db2 fs1 = (Inr m2, fs2) \<and>
    fixture_dir resolve fixture_id fixtures_root = Inr fdir \<and> dict_get fs1 fdir = Some fx \<and> dict_get fs2 other_dir = Some fx2 \<and>
    fx_files fx2 = fx_files fx \<and> fm_content_hash m2 = fm_content_hash m \<and> fm_table_row_counts m2 = fm_table_row_counts m \<and>
    fm_null_occurred_at_count m2 = fm_null_occurred_at_count m"
proof -
  obtain fdir where fdir: "fixture_dir resolve fixture_id fixtures_root = Inr fdir" "dict_get fs fdir = None"
    using assms(5) by (auto simp: create_snapshot_def split: sum.splits if_splits)
  from snapshot_ok [OF assms(3,4) fdir, where n = n and dsn = dsn and now = now and ci = ci and pr = pr] assms(5)
  have m: "fm_fixture_id m = fixture_id" "fm_content_hash m = sha256_hex pr (hash_input (fixture_files pg n db))"
    "fm_table_row_counts m = map (row_count db) (sort (map fst db))" "fm_null_occurred_at_count m = null_count pg db"
    and fs1: "dict_get fs1 fdir = Some \<lparr>fx_files = fixture_files pg n db, fx_manifest = Some (Inr (JObj (manifest_dump m)))\<rparr>"
    by (auto simp: dict_simps)
  note restore = postgres.restore_ok [OF assms(1,3,4,2) fdir(1) fs1 m(1,2)]
  note same = postgres.restored_files [OF assms(1,4)]
  from snapshot_ok [OF assms(3) same(4) assms(6,7), where n = n2 and dsn = target and now = later and ci = ci and pr = pr]
  show ?thesis using restore fdir(1) fs1 m(2-4) same(1) [of n2 n] same(2,3)
    by (auto simp: dict_simps postgres.part_restored_names [OF assms(1)])
qed


definition small_db :: "text_row tables" where
  "small_db =
     [(''store'', [''prefix'', ''key''],
       [(Some ''fleet_memory.guardkit.adr'', [Some ''b'', Some (''two'' @ [newline] @ ''lines'')]), (Some ''fleet_memory.guardkit.adr'', [Some ''a'', None])]),
      (''store_migrations'', [''v''], [(Some ''0'', [])])]"

lemma small_source: "healthy text_server" "snapshot_source text_server small_db"
  by (simp_all add: healthy_def text_server_def snapshot_source_def small_db_def named_def ddl_of_def EXPECTED_TABLES_def row_key_def
      full_class_def char_class_defs copy_column_def copy_char_def backslash_def tab_def)

lemma small_dirs:
  "fixture_dir id ''v1'' ''fx'' = Inr ''fx/v1''" "fixture_dir id ''v2'' ''fx'' = Inr ''fx/v2''"
  by (simp_all add: fixture_dir_def full_class_def fixture_id_char_def char_class_defs)

lemma small_snapshot:
  obtains m fs where "create_snapshot text_server plain_conninfo id sample_prims ''now'' 3 ''dsn'' ''v1'' ''fx'' small_db [] = (Inr m, fs)"
    and "dict_get fs ''fx/v2'' = None" and "dict_get fs ''fx/v1'' \<noteq> None"
  using snapshot_ok [OF small_source small_dirs(1), of "[]" plain_conninfo sample_prims "''now''" 3 "''dsn''"]
  by (auto simp: dict_simps)

theorem restore_reproduces_witness:
  "\<exists>m m2 fs1 fs2 db2 fx fx2. create_snapshot text_server plain_conninfo id sample_prims ''now'' 3 ''dsn'' ''v1'' ''fx'' small_db [] = (Inr m, fs1) \<and>
     restore_fixture text_server plain_conninfo id sample_prims manifest_reader ''v1'' ''target'' ''fx'' fs1 [] = (Inr m, db2) \<and>
     create_snapshot text_server plain_conninfo id sample_prims ''later'' 5 ''target'' ''v2'' ''fx'' db2 fs1 = (Inr m2, fs2) \<and>
     dict_get fs1 ''fx/v1'' = Some fx \<and> dict_get fs2 ''fx/v2'' = Some fx2 \<and> fx_files fx2 = fx_files fx \<and>
     fm_content_hash m2 = fm_content_hash m"
proof -
  obtain m fs where s: "create_snapshot text_server plain_conninfo id sample_prims ''now'' 3 ''dsn'' ''v1'' ''fx'' small_db [] = (Inr m, fs)"
    and "dict_get fs ''fx/v2'' = None" by (rule small_snapshot)
  then show ?thesis
    using restore_reproduces [OF text_pg.postgres_axioms reader.manifest_model_axioms small_source s small_dirs(2),
        of "''target''" "''later''" 5] small_dirs(1)
    by (auto; blast)
qed

theorem restore_checked_witness:
  "\<exists>m fs db2 fx. restore_fixture text_server plain_conninfo id sample_prims manifest_reader ''v1'' ''target'' ''fx'' fs [] = (Inr m, db2) \<and>
     dict_get fs ''fx/v1'' = Some fx \<and> hash_input (fx_files fx) = fm_content_hash m"
proof -
  obtain m fs where s: "create_snapshot text_server plain_conninfo id sample_prims ''now'' 3 ''dsn'' ''v1'' ''fx'' small_db [] = (Inr m, fs)"
    by (rule small_snapshot)
  with snapshot_ok [OF small_source small_dirs(1), of "[]" plain_conninfo sample_prims "''now''" 3 "''dsn''"]
  obtain db2 where r: "restore_fixture text_server plain_conninfo id sample_prims manifest_reader ''v1'' ''target'' ''fx'' fs [] = (Inr m, db2)"
    using text_pg.restore_ok [OF small_source reader.manifest_model_axioms small_dirs(1), of fs 3 m sample_prims plain_conninfo "''target''"]
    by (auto simp: dict_simps)
  from restore_checked [OF r] r show ?thesis by (auto simp: small_dirs sample_prims_def)
qed

end
