(* ===== verification/Embed.thy ===== *)
theory Embed
  imports Store_Api Chunker Complex_Main
begin

text \<open>
  The embedding client (\<open>embed.py\<close>): packing texts into requests under a token budget, one
  request with the checks on its response, the single retry, and the sorting of failures. The HTTP
  client is an argument: a call takes the URL and the request body and gives a response or raises.
\<close>

subsection \<open>Batches\<close>

definition CHARS_PER_TOKEN :: int where "CHARS_PER_TOKEN = 4"

definition estimate_tokens :: "string \<Rightarrow> int" where
  "estimate_tokens text = max 1 ((int (length text) + CHARS_PER_TOKEN - 1) div CHARS_PER_TOKEN)"

definition fit_text :: "int \<Rightarrow> string \<Rightarrow> string" where
  "fit_text budget text =
     (if budget < estimate_tokens text then py_slice text 0 (budget * CHARS_PER_TOKEN) else text)"

fun pack_loop :: "int \<Rightarrow> string list list \<Rightarrow> string list \<Rightarrow> int \<Rightarrow> string list \<Rightarrow> string list list" where
  "pack_loop budget batches current tokens [] = (if current \<noteq> [] then batches @ [current] else batches)"
| "pack_loop budget batches current tokens (text # texts) =
     (let t = fit_text budget text; estimate = estimate_tokens t in
      if current \<noteq> [] \<and> budget < tokens + estimate
      then pack_loop budget (batches @ [current]) [t] estimate texts
      else pack_loop budget batches (current @ [t]) (tokens + estimate) texts)"

definition pack_batches :: "string list \<Rightarrow> int \<Rightarrow> string list list" where
  "pack_batches texts budget = pack_loop budget [] [] 0 texts"

subsection \<open>One request\<close>

text \<open>
  A response: its status and its body as JSON, or the text of the error when it is none.
\<close>

record http_response =
  status_code :: int
  json_body :: "string + json"

type_synonym 'n http_post = "string \<Rightarrow> json \<Rightarrow> ('n, http_response) comp"

text \<open>
  Settings of the client, and two facts of the language that are arguments: whether the float of a
  literal is finite, and the class name of an exception.
\<close>

record embed_settings =
  embed_url :: string
  embed_model :: string
  embed_dims :: int
  embed_timeout_s :: string
  embed_max_batch_tokens :: int
  finite_float :: "string \<Rightarrow> bool"
  type_name :: "exn \<Rightarrow> string"

definition is_deterministic_client_error :: "int \<Rightarrow> bool" where
  "is_deterministic_client_error code \<longleftrightarrow> 400 \<le> code \<and> code < 500 \<and> code \<noteq> 408 \<and> code \<noteq> 429"

definition parse_embed_error :: "http_response \<Rightarrow> string option \<times> string option" where
  "parse_embed_error r =
     (case json_body r of
        Inr (JObj body) \<Rightarrow>
          (case dict_get body ''error'' of
             Some (JObj err) \<Rightarrow>
               (let ty = (case dict_get err ''type'' of None \<Rightarrow> JNull | Some v \<Rightarrow> v);
                    m = (case dict_get err ''message'' of None \<Rightarrow> JNull | Some v \<Rightarrow> v);
                    msg = (if truthy m then m else case dict_get err ''code'' of None \<Rightarrow> JNull | Some v \<Rightarrow> v) in
                (if ty = JNull then None else Some (str_json ty), if msg = JNull then None else Some (str_json msg)))
           | Some (JStr s) \<Rightarrow> (None, Some s)
           | _ \<Rightarrow> (None, None))
      | _ \<Rightarrow> (None, None))"

definition normalize_embed_url :: "string \<Rightarrow> string" where
  "normalize_embed_url base =
     (let b = rstrip_by (\<lambda>c. c = CHR ''/'') base in
      if suffix ''/v1'' b then b @ ''/embeddings''
      else if suffix ''/v1/embeddings'' b then b
      else b @ ''/v1/embeddings'')"

definition finite_number :: "embed_settings \<Rightarrow> json \<Rightarrow> bool" where
  "finite_number st v =
     (case v of
        JInt i \<Rightarrow> \<bar>i\<bar> < 2 ^ 1024 - 2 ^ 970
      | JFloat l \<Rightarrow> finite_float st l
      | _ \<Rightarrow> False)"

text \<open>\<open>error_message or "..."\<close>\<close>

definition or_default :: "string option \<Rightarrow> string \<Rightarrow> string" where
  "or_default m d = (case m of None \<Rightarrow> d | Some s \<Rightarrow> if s = [] then d else s)"

definition status_error :: "string \<Rightarrow> http_response \<Rightarrow> exn" where
  "status_error url r =
     (let (ty, msg) = parse_embed_error r in
      if is_deterministic_client_error (status_code r)
      then EmbedRequestError (or_default msg ''embedding service rejected the request'') (Some url) (Some (status_code r)) ty
      else EmbedServiceError (or_default msg ''HTTP error from embedding service'') (Some url) (Some (status_code r)))"

definition malformed :: "string \<Rightarrow> string \<Rightarrow> exn" where
  "malformed url m = EmbedServiceError m (Some url) None"

fun check_values :: "embed_settings \<Rightarrow> string \<Rightarrow> nat \<Rightarrow> nat \<Rightarrow> json list \<Rightarrow> exn + unit" where
  "check_values st url i j [] = Inr ()"
| "check_values st url i j (v # vs) =
     (if finite_number st v then check_values st url i (Suc j) vs
      else Inl (malformed url (''Embedding response item '' @ show_nat i @ '' vector value '' @ show_nat j
             @ '' must be a finite number'')))"

fun read_items :: "embed_settings \<Rightarrow> string \<Rightarrow> nat \<Rightarrow> json list \<Rightarrow> exn + json list list" where
  "read_items st url i [] = Inr []"
| "read_items st url i (it # its) =
     (case it of
        JObj kvs \<Rightarrow>
          (case dict_get kvs ''embedding'' of
             Some (JList vs) \<Rightarrow>
               (case check_values st url i 0 vs of
                  Inl e \<Rightarrow> Inl e
                | Inr _ \<Rightarrow> (case read_items st url (Suc i) its of Inl e \<Rightarrow> Inl e | Inr es \<Rightarrow> Inr (vs # es)))
           | _ \<Rightarrow> Inl (malformed url (''Embedding response item '' @ show_nat i @ '' has no vector list'')))
      | _ \<Rightarrow> Inl (malformed url (''Embedding response item '' @ show_nat i @ '' must be an object'')))"

fun check_dims :: "int \<Rightarrow> json list list \<Rightarrow> exn + unit" where
  "check_dims dims [] = Inr ()"
| "check_dims dims (v # vs) =
     (if int (length v) \<noteq> dims then Inl (EmbedDimensionError (int (length v)) dims) else check_dims dims vs)"

definition read_response :: "embed_settings \<Rightarrow> string \<Rightarrow> nat \<Rightarrow> http_response \<Rightarrow> exn + json list list" where
  "read_response st url n r =
     (if status_code r \<noteq> 200 then Inl (status_error url r)
      else case json_body r of
        Inl err \<Rightarrow> Inl (malformed url (''Malformed JSON response: '' @ err))
      | Inr (JObj data) \<Rightarrow>
          (case dict_get data ''data'' of
             Some (JList its) \<Rightarrow>
               if length its \<noteq> n
               then Inl (malformed url ''Embedding response cardinality does not match input count'')
               else (case read_items st url 0 its of
                       Inl e \<Rightarrow> Inl e
                     | Inr es \<Rightarrow> (case check_dims (embed_dims st) es of Inl e \<Rightarrow> Inl e | Inr _ \<Rightarrow> Inr es))
           | _ \<Rightarrow> Inl (malformed url (''Embedding response '' @ [CHR 0x27] @ ''data'' @ [CHR 0x27] @ '' must be a list'')))
      | _ \<Rightarrow> Inl (malformed url ''Embedding response must be a JSON object''))"

definition embed_request ::
  "embed_settings \<Rightarrow> 'n http_post \<Rightarrow> string \<Rightarrow> string list \<Rightarrow> ('n, json list list) comp" where
  "embed_request st post url texts =
     bind (post url (JObj [(''model'', JStr (embed_model st)), (''input'', JList (map JStr texts))]))
       (\<lambda>r. lift_res (read_response st url (length texts) r))"

text \<open>\<open>EmbedRequestError\<close> is an \<open>EmbedServiceError\<close>, so the clause sees its status too.\<close>

fun service_status :: "exn \<Rightarrow> int option" where
  "service_status (EmbedServiceError m u s) = s"
| "service_status (EmbedRequestError m u s t) = s"
| "service_status _ = None"

definition retries :: "exn \<Rightarrow> bool" where
  "retries e = (case service_status e of None \<Rightarrow> False | Some c \<Rightarrow> 500 \<le> c \<and> c < 600)"

definition embed_request_with_one_5xx_retry ::
  "embed_settings \<Rightarrow> 'n http_post \<Rightarrow> string \<Rightarrow> string list \<Rightarrow> ('n, json list list) comp" where
  "embed_request_with_one_5xx_retry st post url texts =
     catch (embed_request st post url texts)
       (\<lambda>e. if retries e then embed_request st post url texts else throw e)"

fun embed_batches ::
  "embed_settings \<Rightarrow> 'n http_post \<Rightarrow> string \<Rightarrow> string list list \<Rightarrow> ('n, json list list) comp" where
  "embed_batches st post url [] = ret []"
| "embed_batches st post url (b # bs) =
     bind (embed_request_with_one_5xx_retry st post url b) (\<lambda>es.
     bind (embed_batches st post url bs) (\<lambda>rest. ret (es @ rest)))"

text \<open>
  The \<open>except\<close> clauses of \<open>embed\<close>. \<open>HttpxTimeout\<close> stands for a read or connect timeout of
  the HTTP client; its other exceptions are \<open>OtherError\<close>.
\<close>

definition embed_failure :: "embed_settings \<Rightarrow> string \<Rightarrow> exn \<Rightarrow> exn" where
  "embed_failure st url e =
     (case e of
        HttpxTimeout m \<Rightarrow> EmbedTimeoutError url (embed_timeout_s st)
      | EmbedDimensionError a x \<Rightarrow> e
      | EmbedTimeoutError u t \<Rightarrow> e
      | EmbedServiceError m u s \<Rightarrow> e
      | EmbedRequestError m u s t \<Rightarrow> e
      | _ \<Rightarrow> EmbedServiceError (''Unexpected error: '' @ type_name st e @ '': '' @ exn_str e) (Some url) None)"

definition embed :: "embed_settings \<Rightarrow> 'n http_post \<Rightarrow> string list \<Rightarrow> ('n, json list list) comp" where
  "embed st post texts =
     (if texts = [] then ret []
      else
        (let url = normalize_embed_url (embed_url st) in
         catch (embed_batches st post url (pack_batches texts (embed_max_batch_tokens st)))
           (\<lambda>e. throw (embed_failure st url e))))"

subsection \<open>Packing\<close>

definition batch_cost :: "string list \<Rightarrow> int" where
  "batch_cost b = (\<Sum>t\<leftarrow>b. estimate_tokens t)"

lemma estimate_pos: "1 \<le> estimate_tokens t"
  by (simp add: estimate_tokens_def)

lemma fit_text_cost: "0 < budget \<Longrightarrow> estimate_tokens (fit_text budget t) \<le> budget"
proof (cases "budget < estimate_tokens t")
  case True
  assume b: "0 < budget"
  have "length (py_slice t 0 (budget * 4)) \<le> nat (budget * 4)"
    using b by (simp add: py_slice_def py_bound_def)
  then have "int (length (py_slice t 0 (budget * 4))) \<le> budget * 4" using b by linarith
  then have "(int (length (py_slice t 0 (budget * 4))) + 3) div 4 \<le> budget" by linarith
  then show ?thesis using True b by (simp add: fit_text_def CHARS_PER_TOKEN_def estimate_tokens_def add.commute)
qed (simp add: fit_text_def)

lemma pack_loop_concat:
  "concat (pack_loop budget batches current tokens texts) = concat batches @ current @ map (fit_text budget) texts"
  by (induction budget batches current tokens texts rule: pack_loop.induct) (simp_all add: Let_def)

lemma pack_loop_bounded:
  assumes "0 < budget" and "tokens = batch_cost current" and "tokens \<le> budget"
    and "\<forall>b \<in> set batches. b \<noteq> [] \<and> batch_cost b \<le> budget"
  shows "\<forall>b \<in> set (pack_loop budget batches current tokens texts). b \<noteq> [] \<and> batch_cost b \<le> budget"
  using assms
proof (induction budget batches current tokens texts rule: pack_loop.induct)
  case (2 budget batches current tokens t ts)
  note fit = fit_text_cost [OF "2.prems"(1), of t]
  let ?t = "fit_text budget t" and ?e = "estimate_tokens (fit_text budget t)"
  show ?case
  proof (cases "current \<noteq> [] \<and> budget < tokens + ?e")
    case True
    have "\<forall>b \<in> set (pack_loop budget (batches @ [current]) [?t] ?e ts). b \<noteq> [] \<and> batch_cost b \<le> budget"
      by (rule "2.IH"(1) [OF refl refl True]) (use "2.prems" True fit in \<open>auto simp: batch_cost_def\<close>)
    with True show ?thesis by (simp only: pack_loop.simps Let_def if_True simp_thms)
  next
    case False
    have le: "tokens + ?e \<le> budget"
      using False "2.prems"(2) fit by (auto simp: batch_cost_def)
    have "\<forall>b \<in> set (pack_loop budget batches (current @ [?t]) (tokens + ?e) ts). b \<noteq> [] \<and> batch_cost b \<le> budget"
      by (rule "2.IH"(2) [OF refl refl False "2.prems"(1) _ le "2.prems"(4)]) (simp add: "2.prems"(2) batch_cost_def)
    with False show ?thesis by (simp only: pack_loop.simps Let_def if_False)
  qed
qed auto

text \<open>
  C32: No embedding request exceeds the token budget, whatever an episode contains, and every text
  gets its place: the batches concatenate to the texts in order (an oversized one cut to fit), none
  is empty, and each costs at most the budget by the client's estimate.
\<close>

theorem batches_within_budget:
  assumes "0 < budget"
  shows "concat (pack_batches texts budget) = map (fit_text budget) texts \<and>
    (\<forall>b \<in> set (pack_batches texts budget). b \<noteq> [] \<and> batch_cost b \<le> budget)"
  using pack_loop_concat [of budget "[]" "[]" 0 texts] pack_loop_bounded [OF assms, of 0 "[]" "[]" texts] assms
  by (simp add: pack_batches_def batch_cost_def)

theorem batches_within_budget_witness:
  "pack_batches [''abcdefgh'', ''xy''] 1 = [[''abcd''], [''xy'']] \<and> batch_cost [''abcd''] \<le> 1 \<and>
   concat [[''abcd''], [''xy'']] = map (fit_text 1) [''abcdefgh'', ''xy'']"
proof -
  have "pack_batches [''abcdefgh'', ''xy''] 1 = [[''abcd''], [''xy'']]"
    by (simp add: pack_batches_def fit_text_def estimate_tokens_def CHARS_PER_TOKEN_def py_slice_def py_bound_def Let_def)
  then show ?thesis using batches_within_budget [of 1 "[''abcdefgh'', ''xy'']"] by auto
qed

subsection \<open>Responses\<close>

lemma read_items_ok:
  "read_items st url i its = Inr es \<Longrightarrow> length es = length its \<and> (\<forall>v \<in> set es. list_all (finite_number st) v)"
proof (induction st url i its arbitrary: es rule: read_items.induct)
  case (2 st url i it its)
  have cv: "check_values st url i j vs = Inr u \<Longrightarrow> list_all (finite_number st) vs" for j vs u
    by (induction vs arbitrary: j) (auto split: if_splits)
  from "2.prems" obtain kvs vs es' where "it = JObj kvs" "dict_get kvs ''embedding'' = Some (JList vs)"
    "check_values st url i 0 vs = Inr ()" "read_items st url (Suc i) its = Inr es'" "es = vs # es'"
    by (auto split: json.splits option.splits sum.splits)
  with "2.IH" cv show ?case by fastforce
qed simp

lemma check_dims_ok: "check_dims d vs = Inr u \<Longrightarrow> \<forall>v \<in> set vs. int (length v) = d"
  by (induction d vs rule: check_dims.induct) (auto split: if_splits)

lemma read_response_ok:
  assumes "read_response st url n r = Inr es"
  shows "length es = n \<and> (\<forall>v \<in> set es. int (length v) = embed_dims st \<and> list_all (finite_number st) v)"
proof -
  from assms obtain data its where "json_body r = Inr (JObj data)" "dict_get data ''data'' = Some (JList its)"
    "length its = n" "read_items st url 0 its = Inr es" "check_dims (embed_dims st) es = Inr ()"
    by (auto simp: read_response_def split: if_splits sum.splits json.splits option.splits)
  with read_items_ok [of st url 0 its es] check_dims_ok [of "embed_dims st" es] show ?thesis by auto
qed

lemma embed_request_ok:
  "embed_request st post url texts n = (Ok es, n') \<Longrightarrow>
   length es = length texts \<and> (\<forall>v \<in> set es. int (length v) = embed_dims st \<and> list_all (finite_number st) v)"
  by (auto simp: embed_request_def bind_Ok_iff lift_res_Ok_iff dest: read_response_ok)

lemma retry_ok:
  "embed_request_with_one_5xx_retry st post url texts n = (Ok es, n') \<Longrightarrow>
   length es = length texts \<and> (\<forall>v \<in> set es. int (length v) = embed_dims st \<and> list_all (finite_number st) v)"
  by (auto simp: embed_request_with_one_5xx_retry_def catch_def throw_def split: prod.splits res.splits if_splits
      dest: embed_request_ok)

lemma embed_batches_ok:
  "embed_batches st post url bs n = (Ok es, n') \<Longrightarrow>
   length es = length (concat bs) \<and> (\<forall>v \<in> set es. int (length v) = embed_dims st \<and> list_all (finite_number st) v)"
proof (induction bs arbitrary: n es n')
  case (Cons b bs)
  then obtain xs n1 ys n2 where x: "embed_request_with_one_5xx_retry st post url b n = (Ok xs, n1)"
    and y: "embed_batches st post url bs n1 = (Ok ys, n2)" and es: "es = xs @ ys"
    by (auto simp: bind_Ok_iff ret_def)
  from retry_ok [OF x] Cons.IH [OF y] show ?case by (auto simp: es)
qed (simp add: ret_def)

text \<open>
  C33: When \<open>embed\<close> returns, there is one vector per text, each of the configured
  dimension and made of finite numbers only; and when it raises, it is with one of the four embedding
  errors, so that callers can rely on their classes.
\<close>

theorem embed_contract:
  "(\<forall>es n'. embed st post texts n = (Ok es, n') \<longrightarrow>
      length es = length texts \<and>
      (\<forall>v \<in> set es. int (length v) = embed_dims st \<and> list_all (finite_number st) v)) \<and>
   (\<forall>e n'. embed st post texts n = (Exn e, n') \<longrightarrow>
      is_EmbedServiceError e \<or> (\<exists>a x. e = EmbedDimensionError a x) \<or> (\<exists>u t. e = EmbedTimeoutError u t))"
proof (cases "texts = []")
  case True
  then show ?thesis by (simp add: embed_def ret_def)
next
  case False
  let ?url = "normalize_embed_url (embed_url st)" and ?bs = "pack_batches texts (embed_max_batch_tokens st)"
  have "concat ?bs = map (fit_text (embed_max_batch_tokens st)) texts"
    using pack_loop_concat [of "embed_max_batch_tokens st" "[]" "[]" 0 texts] by (simp add: pack_batches_def)
  then have len: "length (concat ?bs) = length texts" by (metis length_map)
  have "is_EmbedServiceError (embed_failure st ?url e) \<or> (\<exists>a x. embed_failure st ?url e = EmbedDimensionError a x)
      \<or> (\<exists>u t. embed_failure st ?url e = EmbedTimeoutError u t)" for e
    by (cases e) (simp_all add: embed_failure_def)
  then show ?thesis using False len
    by (auto simp: embed_def Let_def catch_def throw_def split: prod.splits res.splits dest: embed_batches_ok)
qed

definition sample_embed :: embed_settings where
  "sample_embed = \<lparr>embed_url = ''http://h'', embed_model = ''m'', embed_dims = 1, embed_timeout_s = ''30'',
     embed_max_batch_tokens = 100, finite_float = (\<lambda>l. True), type_name = (\<lambda>e. ''Exception'')\<rparr>"

definition one_vector :: "nat http_post" where
  "one_vector url body n = (Ok \<lparr>status_code = 200,
     json_body = Inr (JObj [(''data'', JList [JObj [(''embedding'', JList [JInt 7])]])])\<rparr>, Suc n)"

lemma sample_embedding: "embed sample_embed one_vector [''hi''] 0 = (Ok [[JInt 7]], 1)"
proof -
  have p: "pack_batches [''hi''] (embed_max_batch_tokens sample_embed) = [[''hi'']]"
    by (simp add: pack_batches_def Let_def fit_text_def estimate_tokens_def CHARS_PER_TOKEN_def sample_embed_def)
  have "finite_number sample_embed (JInt 7)" by (simp add: finite_number_def)
  then have "embed_request sample_embed one_vector url [''hi''] 0 = (Ok [[JInt 7]], 1)" for url
    by (simp add: embed_request_def bind_def one_vector_def read_response_def ret_def) (simp add: sample_embed_def)
  then have "embed_batches sample_embed one_vector url [[''hi'']] 0 = (Ok [[JInt 7]], 1)" for url
    by (simp add: embed_request_with_one_5xx_retry_def catch_def bind_def ret_def)
  then show ?thesis by (simp add: embed_def p Let_def catch_def)
qed

theorem embed_contract_witness:
  "embed sample_embed one_vector [''hi''] 0 = (Ok [[JInt 7]], 1) \<and> length [[JInt 7]] = length [''hi''] \<and>
   int (length [JInt 7]) = 1 \<and> list_all (finite_number sample_embed) [JInt 7]"
  using embed_contract [of sample_embed one_vector "[''hi'']" 0] sample_embedding
  by (simp add: sample_embed_def)

subsection \<open>At most two attempts\<close>

definition counting :: "'n http_post \<Rightarrow> ('n \<times> nat) http_post" where
  "counting post url body nk = (case post url body (fst nk) of (r, n') \<Rightarrow> (r, (n', Suc (snd nk))))"

lemma request_count: "snd (snd (embed_request st (counting post) url texts nk)) = Suc (snd nk)"
  by (auto simp: embed_request_def bind_def counting_def lift_res_def ret_def throw_def split: prod.splits res.splits sum.splits)

lemma retry_count: "snd (snd (embed_request_with_one_5xx_retry st (counting post) url texts nk)) \<le> snd nk + 2"
proof -
  obtain r nk' where r: "embed_request st (counting post) url texts nk = (r, nk')" by (metis surj_pair)
  have "snd nk' = Suc (snd nk)" using request_count [of st post url texts nk] r by simp
  then show ?thesis using request_count [of st post url texts nk'] r
    by (cases r) (auto simp: embed_request_with_one_5xx_retry_def catch_def throw_def)
qed

lemma batches_count: "snd (snd (embed_batches st (counting post) url bs nk)) \<le> snd nk + 2 * length bs"
proof (induction bs arbitrary: nk)
  case (Cons b bs)
  obtain r nk' where r: "embed_request_with_one_5xx_retry st (counting post) url b nk = (r, nk')" by (metis surj_pair)
  have 1: "snd nk' \<le> snd nk + 2" using retry_count [of st post url b nk] r by simp
  show ?case
  proof (cases r)
    case (Ok es)
    obtain q nk'' where q: "embed_batches st (counting post) url bs nk' = (q, nk'')" by (metis surj_pair)
    have "snd nk'' \<le> snd nk' + 2 * length bs" using Cons.IH [of nk'] q by simp
    then show ?thesis using 1 r q Ok by (cases q) (simp_all add: bind_def ret_def)
  qed (use 1 r in \<open>simp_all add: bind_def\<close>)
qed (simp add: ret_def)

text \<open>
  The service is asked at most twice per batch, whatever it answers, so one ingest cannot turn
  into a storm of requests.
\<close>

theorem embed_attempts_bounded:
  "snd (snd (embed st (counting post) texts (n, 0))) \<le> 2 * length (pack_batches texts (embed_max_batch_tokens st))"
  using batches_count [of st post "normalize_embed_url (embed_url st)" "pack_batches texts (embed_max_batch_tokens st)" "(n, 0)"]
  by (auto simp: embed_def Let_def ret_def catch_def throw_def split: prod.splits res.splits)

subsection \<open>The embedding of the tests\<close>

text \<open>
  \<open>make_fake_embed\<close>: vectors made from the bytes of a digest of each text and scaled to length
  one, in exact arithmetic. \<open>digest\<close> is the byte string of SHA-256.
\<close>

definition fake_value :: "nat list \<Rightarrow> nat \<Rightarrow> real" where
  "fake_value digest i =
     (let byte_idx = (i * 2) mod length digest
      in if byte_idx + 1 < length digest
         then real (256 * digest ! byte_idx + digest ! (byte_idx + 1)) / 32768 - 1
         else real (digest ! byte_idx) / 128 - 1)"

definition unit_vector :: "nat \<Rightarrow> real list \<Rightarrow> real list" where
  "unit_vector dims xs =
     (let magnitude = sqrt (sum_list (map (\<lambda>x. x * x) xs))
      in if 0 < magnitude then map (\<lambda>x. x / magnitude) xs else 1 # replicate (dims - 1) 0)"

definition fake_embed :: "nat \<Rightarrow> (string \<Rightarrow> nat list) \<Rightarrow> string list \<Rightarrow> real list list" where
  "fake_embed dims digest texts = map (\<lambda>t. unit_vector dims (map (fake_value (digest t)) [0..<dims])) texts"

lemma unit_vector_norm:
  assumes "length xs = dims" and "0 < dims"
  shows "length (unit_vector dims xs) = dims \<and> sum_list (map (\<lambda>x. x * x) (unit_vector dims xs)) = 1"
proof -
  let ?sq = "sum_list (map (\<lambda>x. x * x) xs)" and ?mag = "sqrt (sum_list (map (\<lambda>x. x * x) xs))"
  have "0 \<le> ?sq" by (rule sum_list_nonneg) auto
  have "sum_list (map (\<lambda>x. x * x) (map (\<lambda>x. x / c) ys)) = sum_list (map (\<lambda>x. x * x) ys) / (c * c)" for ys and c :: real
    by (induction ys) (simp_all add: add_divide_distrib)
  then have "sum_list (map (\<lambda>x. x * x) (map (\<lambda>x. x / ?mag) xs)) = 1" if "0 < ?mag"
    using that \<open>0 \<le> ?sq\<close> by simp
  moreover have "sum_list (map (\<lambda>x. x * x) (replicate n (0::real))) = 0" for n by (induction n) simp_all
  ultimately show ?thesis using assms by (simp add: unit_vector_def Let_def)
qed

text \<open>One vector of the configured length for each text, each of length one, and the same for the same text.\<close>

lemma fake_embed_contract:
  assumes "0 < dims"
  shows "length (fake_embed dims digest texts) = length texts"
    and "list_all (\<lambda>v. length v = dims \<and> sum_list (map (\<lambda>x. x * x) v) = 1) (fake_embed dims digest texts)"
    and "fake_embed dims digest (texts @ us) = fake_embed dims digest texts @ fake_embed dims digest us"
  using unit_vector_norm [OF _ assms] by (simp_all add: fake_embed_def list_all_iff)

end
