(* ===== verification/Chronicler.thy ===== *)
theory Chronicler
  imports Mcp Json_Text
begin

text \<open>
  The Chronicler: it reads the typed episodes back out of the store (\<open>chronicler/store_source.py\<close>),
  turns them into private dataset rows and draft story cards (\<open>chronicler/harvest.py\<close>), and writes
  both (\<open>chronicler/sink.py\<close>, \<open>chronicler/run.py\<close>). The results: every episode is on exactly one
  card, a card is marked public only when all its episodes are of public projects, and the cards that
  are on file afterwards are the last ones of each slug.

  A field of a stored record is whatever JSON value it holds; \<open>sorted\<close> in \<open>render_markdown\<close> compares
  times and natural keys, which the writer and the relay store as strings, as they do the identifier a
  story key falls back to. The two directories are writable.
\<close>

subsection \<open>Episodes\<close>

record harvested_episode =
  h_project :: json
  h_payload_type :: json
  h_natural_key :: json
  h_identifier :: json
  h_payload :: json
  h_source_ref :: json
  h_occurred_at :: json
  h_name :: json
  h_source :: json

text \<open>\<open>a or b\<close>, and \<open>payload.get(k)\<close> on whatever the content decoded to.\<close>

definition py_or :: "json \<Rightarrow> json \<Rightarrow> json" where
  "py_or a b = (if truthy a then a else b)"

definition obj_get :: "json \<Rightarrow> string \<Rightarrow> exn + json" where
  "obj_get v k = (case v of JObj kvs \<Rightarrow> Inr (json_get kvs k) | _ \<Rightarrow> Inl (AttributeError ''object has no attribute get''))"

definition STORY_KEY_FIELDS :: "string list" where
  "STORY_KEY_FIELDS = [''correlation_id'', ''feat_id'', ''spec_id'', ''task_id'']"

text \<open>The first of some fields of an object with a true value.\<close>

fun first_true :: "(string \<times> json) list \<Rightarrow> string list \<Rightarrow> (string \<times> json) option" where
  "first_true kvs [] = None"
| "first_true kvs (f # fs) = (if truthy (json_get kvs f) then Some (f, json_get kvs f) else first_true kvs fs)"

definition story_key :: "harvested_episode \<Rightarrow> exn + string" where
  "story_key ep =
     (case h_payload ep of
        JObj kvs \<Rightarrow>
          (case first_true kvs STORY_KEY_FIELDS of
             Some (f, v) \<Rightarrow> Inr (str_json v)
           | None \<Rightarrow> Inr (str_json (py_or (h_natural_key ep) (h_identifier ep))))
      | _ \<Rightarrow> Inl (AttributeError ''object has no attribute get''))"

subsection \<open>Reading the store\<close>

definition content_object :: "json \<Rightarrow> json" where
  "content_object content =
     (if \<not> truthy content then JObj []
      else case content of
        JStr s \<Rightarrow> (case loads s of None \<Rightarrow> JObj [] | Some v \<Rightarrow> v)
      | _ \<Rightarrow> JObj [])"

definition rehydrate :: "namespace \<Rightarrow> stored \<Rightarrow> exn + harvested_episode option" where
  "rehydrate ns value =
     (if \<not> truthy (py_get value ''payload_type'') then Inr None
      else
        (case py_or (py_get value ''episode_meta'') (JObj []) of
           JObj meta \<Rightarrow> Inr (Some
             \<lparr>h_project = py_or (py_get value ''project'') (JStr (if 1 < length ns then ns ! 1 else [])),
              h_payload_type = py_get value ''payload_type'',
              h_natural_key = (case value ''natural_key'' of None \<Rightarrow> JStr [] | Some v \<Rightarrow> v),
              h_identifier = (case value ''identifier'' of None \<Rightarrow> JStr [] | Some v \<Rightarrow> v),
              h_payload = content_object (py_get value ''content''),
              h_source_ref = py_or (json_get meta ''source_ref'') (py_get value ''source_ref''),
              h_occurred_at = json_get meta ''occurred_at'',
              h_name = json_get meta ''name'', h_source = json_get meta ''source''\<rparr>)
         | _ \<Rightarrow> Inl (AttributeError ''object has no attribute get'')))"

text \<open>
  What \<open>getattr(item, "created_at", None)\<close> may be: nothing, a text, a time with its \<open>isoformat()\<close>, or
  an object without one.
\<close>

datatype created = No_created | Created_text string | Created_time string | Created_other

fun item_created_at :: "created \<Rightarrow> string option" where
  "item_created_at No_created = None"
| "item_created_at (Created_text t) = Some t"
| "item_created_at (Created_time t) = Some t"
| "item_created_at Created_other = None"

text \<open>
  The lower bound of an incremental harvest: \<open>created_at\<close> is the time the store put on the item.
  Comparing a bound that is no string with one raises.
\<close>

definition before_bound :: "(item \<Rightarrow> created) \<Rightarrow> string option \<Rightarrow> item \<Rightarrow> harvested_episode \<Rightarrow> exn + bool" where
  "before_bound created_at since it ep =
     (case since of
        None \<Rightarrow> Inr False
      | Some t \<Rightarrow>
          if t = [] then Inr False
          else (case py_or (h_occurred_at ep) (case item_created_at (created_at it) of None \<Rightarrow> JNull | Some c \<Rightarrow> JStr c) of
                  JStr b \<Rightarrow> Inr (b \<noteq> [] \<and> b < t)
                | v \<Rightarrow> if truthy v then Inl (TypeError ''not supported between instances'') else Inr False))"

fun read_records ::
  "(item \<Rightarrow> created) \<Rightarrow> string option \<Rightarrow> namespace \<Rightarrow> item list \<Rightarrow> exn + harvested_episode list" where
  "read_records created_at since ns [] = Inr []"
| "read_records created_at since ns (it # its) =
     (case rehydrate ns (i_value it) of
        Inl e \<Rightarrow> Inl e
      | Inr None \<Rightarrow> read_records created_at since ns its
      | Inr (Some ep) \<Rightarrow>
          (case before_bound created_at since it ep of
             Inl e \<Rightarrow> Inl e
           | Inr True \<Rightarrow> read_records created_at since ns its
           | Inr False \<Rightarrow>
               (case read_records created_at since ns its of Inl e \<Rightarrow> Inl e | Inr eps \<Rightarrow> Inr (ep # eps))))"

fun read_namespaces ::
  "'s store_api \<Rightarrow> (item \<Rightarrow> created) \<Rightarrow> string option \<Rightarrow> nat \<Rightarrow> namespace list \<Rightarrow> ('s, harvested_episode list) comp" where
  "read_namespaces st created_at since limit [] = ret []"
| "read_namespaces st created_at since limit (ns # nss) =
     (if length ns \<noteq> 3 then read_namespaces st created_at since limit nss
      else
        bind (st_search st ns None [] limit 0) (\<lambda>items.
        bind (lift_res (read_records created_at since ns items)) (\<lambda>eps.
        bind (read_namespaces st created_at since limit nss) (\<lambda>rest. ret (eps @ rest)))))"

definition read_episodes ::
  "'s store_api \<Rightarrow> 's list_namespaces \<Rightarrow> (item \<Rightarrow> created) \<Rightarrow> nat \<Rightarrow> string option \<Rightarrow> ('s, harvested_episode list) comp" where
  "read_episodes st list_ns created_at limit since =
     bind (list_ns [''fleet_memory''] 3 limit) (read_namespaces st created_at since limit)"

subsection \<open>Rows and cards\<close>

definition FLYWHEEL_SOURCE :: string where "FLYWHEEL_SOURCE = ''flywheel''"
definition CONFIDENTIAL :: string where "CONFIDENTIAL = ''confidential''"
definition PUBLIC :: string where "PUBLIC = ''public''"

definition SYSTEM_PROMPT :: string where
  "SYSTEM_PROMPT =
     ''You are a factory agent learning from the fleet'' @ [CHR 0x27] @ ''s own delivery history. ''
     @ ''Given the context of a real work event, produce the lesson or refinement it teaches.''"

definition confidentiality :: "json \<Rightarrow> string set \<Rightarrow> exn + string" where
  "confidentiality project public_projects =
     (if \<not> hashable project then Inl (TypeError ''unhashable type'')
      else Inr (case project of JStr p \<Rightarrow> if p \<in> public_projects then PUBLIC else CONFIDENTIAL | _ \<Rightarrow> CONFIDENTIAL))"

definition slug :: "string \<Rightarrow> string" where
  "slug value = (let s = take 120 (norm value) in if s = [] then ''unkeyed'' else s)"

definition SUMMARY_FIELDS :: "string list" where
  "SUMMARY_FIELDS = [''survival_state'', ''terminal_state'', ''decision'', ''verdict'', ''status'']"

definition episode_summary :: "harvested_episode \<Rightarrow> exn + string" where
  "episode_summary ep =
     (case h_payload ep of
        JObj kvs \<Rightarrow>
          (case first_true kvs SUMMARY_FIELDS of
             Some (f, v) \<Rightarrow> Inr (map (\<lambda>c. if c = CHR ''_'' then CHR '' '' else c) f @ '': '' @ str_json v)
           | None \<Rightarrow> Inr (str_json (py_or (h_identifier ep) (h_natural_key ep))))
      | _ \<Rightarrow> Inl (AttributeError ''object has no attribute get''))"

definition flywheel_metadata :: "harvested_episode \<Rightarrow> string \<Rightarrow> (string \<times> json) list \<Rightarrow> (string \<times> json) list" where
  "flywheel_metadata ep conf extra =
     [(''source'', JStr FLYWHEEL_SOURCE), (''layer'', JStr ''behaviour''), (''turns'', JInt 2),
      (''flywheel'', JObj
         [(''episode_type'', h_payload_type ep), (''natural_key'', h_natural_key ep), (''project'', h_project ep),
          (''source_ref'', h_source_ref ep), (''occurred_at'', h_occurred_at ep), (''confidentiality'', JStr conf)])] @ extra"

definition chat_turn :: "string \<Rightarrow> json \<Rightarrow> json" where
  "chat_turn role content = JObj [(''role'', JStr role), (''content'', content)]"

definition dataset_row ::
  "harvested_episode \<Rightarrow> string \<Rightarrow> json \<Rightarrow> string set \<Rightarrow> (string \<times> json) list \<Rightarrow> exn + json" where
  "dataset_row ep user assistant public_projects extra =
     (case confidentiality (h_project ep) public_projects of
        Inl e \<Rightarrow> Inl e
      | Inr conf \<Rightarrow> Inr (JObj
          [(''messages'', JList [chat_turn ''system'' (JStr SYSTEM_PROMPT), chat_turn ''user'' (JStr user), chat_turn ''assistant'' assistant]),
           (''metadata'', JObj (flywheel_metadata ep conf extra))]))"

definition build_question :: "harvested_episode \<Rightarrow> (string \<times> json) list \<Rightarrow> string" where
  "build_question ep kvs =
     (let task = str_json (py_or (json_get kvs ''task_id'') (h_identifier ep));
          status = str_json (case dict_get kvs ''status'' of None \<Rightarrow> JStr ''unknown'' | Some v \<Rightarrow> v);
          duration = json_get kvs ''duration_seconds'' in
      ''A build for '' @ [CHR 0x27] @ task @ [CHR 0x27] @ '' finished with status '' @ [CHR 0x27] @ status @ [CHR 0x27]
      @ (if duration \<noteq> JNull then '' in '' @ str_json duration @ ''s'' else [])
      @ ''. What are the lessons and the approach worth carrying forward?'')"

definition build_answer :: "(string \<times> json) list \<Rightarrow> string" where
  "build_answer kvs =
     (let lessons = json_get kvs ''lessons''; approach = json_get kvs ''approach'' in
      join [CHR 0x0A, CHR 0x0A]
        ((if truthy lessons then [''Lessons: '' @ str_json lessons] else [])
         @ (if truthy approach then [''Approach: '' @ str_json approach] else [])))"

definition extract_build_outcome :: "harvested_episode \<Rightarrow> string set \<Rightarrow> exn + json list" where
  "extract_build_outcome ep public_projects =
     (case h_payload ep of
        JObj kvs \<Rightarrow>
          if \<not> truthy (json_get kvs ''lessons'') \<and> \<not> truthy (json_get kvs ''approach'') then Inr []
          else (case dataset_row ep (build_question ep kvs) (JStr (build_answer kvs)) public_projects
                       [(''dimension'', JStr ''build-retro'')] of
                  Inl e \<Rightarrow> Inl e
                | Inr row \<Rightarrow> Inr [row])
      | _ \<Rightarrow> Inl (AttributeError ''object has no attribute get''))"

definition assumption_row :: "harvested_episode \<Rightarrow> string set \<Rightarrow> json \<Rightarrow> exn + json list" where
  "assumption_row ep public_projects assumption =
     (case assumption of
        JObj a \<Rightarrow>
          (let disposition = json_get a ''disposition''; delta = json_get a ''edit_delta'';
               text = py_or (json_get a ''text'') (case dict_get a ''assumption_id'' of None \<Rightarrow> JStr ''an assumption'' | Some v \<Rightarrow> v) in
           if \<not> hashable disposition then Inl (TypeError ''unhashable type'')
           else if disposition \<notin> {JStr ''modified'', JStr ''rejected'', JStr ''deferred''} then Inr []
           else if \<not> truthy delta \<and> \<not> truthy text then Inr []
           else (case dataset_row ep (''Refine this planning assumption: '' @ str_json text)
                        (py_or delta (JStr (''Disposition: '' @ str_json disposition @ '' (see trace for the full edit).'')))
                        public_projects [(''dimension'', JStr ''assumption-refinement''), (''disposition'', disposition)] of
                   Inl e \<Rightarrow> Inl e
                 | Inr row \<Rightarrow> Inr [row]))
      | _ \<Rightarrow> Inl (AttributeError ''object has no attribute get''))"

fun collect_rows :: "('a \<Rightarrow> exn + json list) \<Rightarrow> 'a list \<Rightarrow> exn + json list" where
  "collect_rows f [] = Inr []"
| "collect_rows f (x # xs) =
     (case f x of
        Inl e \<Rightarrow> Inl e
      | Inr rows \<Rightarrow> (case collect_rows f xs of Inl e \<Rightarrow> Inl e | Inr rest \<Rightarrow> Inr (rows @ rest)))"

definition extract_planning_outcome :: "harvested_episode \<Rightarrow> string set \<Rightarrow> exn + json list" where
  "extract_planning_outcome ep public_projects =
     (case h_payload ep of
        JObj kvs \<Rightarrow>
          (case py_iter (case dict_get kvs ''assumptions'' of None \<Rightarrow> JList [] | Some v \<Rightarrow> v) of
             Inl e \<Rightarrow> Inl e
           | Inr xs \<Rightarrow> collect_rows (assumption_row ep public_projects) xs)
      | _ \<Rightarrow> Inl (AttributeError ''object has no attribute get''))"

definition dataset_extractor :: "harvested_episode \<Rightarrow> string set \<Rightarrow> exn + json list" where
  "dataset_extractor ep public_projects =
     (if \<not> hashable (h_payload_type ep) then Inl (TypeError ''unhashable type'')
      else if h_payload_type ep = JStr ''build_outcome'' then extract_build_outcome ep public_projects
      else if h_payload_type ep = JStr ''planning_outcome'' then extract_planning_outcome ep public_projects
      else Inr [])"

record story_card =
  k_story_key :: string
  k_slug :: string
  k_project :: json
  k_confidentiality :: string
  k_episodes :: "harvested_episode list"

definition add_to_card :: "string \<Rightarrow> harvested_episode \<Rightarrow> string \<Rightarrow> story_card option \<Rightarrow> story_card" where
  "add_to_card key ep conf found =
     (let card = (case found of
            None \<Rightarrow> \<lparr>k_story_key = key, k_slug = slug key, k_project = h_project ep, k_confidentiality = conf, k_episodes = []\<rparr>
          | Some c \<Rightarrow> c);
          card1 = card\<lparr>k_episodes := k_episodes card @ [ep]\<rparr> in
      if conf = CONFIDENTIAL then card1\<lparr>k_confidentiality := CONFIDENTIAL\<rparr> else card1)"

definition harvest_one ::
  "string set \<Rightarrow> harvested_episode \<Rightarrow> json list \<times> (string \<times> story_card) list \<Rightarrow> exn + json list \<times> (string \<times> story_card) list" where
  "harvest_one public_projects ep acc =
     (case dataset_extractor ep public_projects of
        Inl e \<Rightarrow> Inl e
      | Inr rows \<Rightarrow>
          (case story_key ep of
             Inl e \<Rightarrow> Inl e
           | Inr key \<Rightarrow>
               (case confidentiality (h_project ep) public_projects of
                  Inl e \<Rightarrow> Inl e
                | Inr conf \<Rightarrow> Inr (fst acc @ rows, dict_set key (add_to_card key ep conf (dict_get (snd acc) key)) (snd acc)))))"

fun harvest_loop ::
  "string set \<Rightarrow> harvested_episode list \<Rightarrow> json list \<times> (string \<times> story_card) list \<Rightarrow> exn + json list \<times> (string \<times> story_card) list" where
  "harvest_loop public_projects [] acc = Inr acc"
| "harvest_loop public_projects (ep # eps) acc =
     (case harvest_one public_projects ep acc of Inl e \<Rightarrow> Inl e | Inr acc' \<Rightarrow> harvest_loop public_projects eps acc')"

definition harvest :: "harvested_episode list \<Rightarrow> string set \<Rightarrow> exn + json list \<times> story_card list" where
  "harvest eps public_projects =
     (case harvest_loop public_projects eps ([], []) of
        Inl e \<Rightarrow> Inl e
      | Inr (rows, cards) \<Rightarrow> Inr (rows, map snd cards))"

subsection \<open>Rendering and writing\<close>

definition em_dash :: string where "em_dash = [CHR 0xE2, CHR 0x80, CHR 0x94]"
definition middle_dot :: string where "middle_dot = [CHR 0xC2, CHR 0xB7]"

text \<open>The text of a card, in the bytes of its UTF-8 form where the source has a dash or a dot.\<close>

definition time_key :: "harvested_episode \<Rightarrow> string \<times> string" where
  "time_key ep = (str_json (py_or (h_occurred_at ep) (JStr [])), str_json (h_natural_key ep))"

definition timeline_line :: "harvested_episode \<Rightarrow> exn + string" where
  "timeline_line ep =
     (case episode_summary ep of
        Inl e \<Rightarrow> Inl e
      | Inr summary \<Rightarrow> Inr (''- '' @ str_json (py_or (h_occurred_at ep) (JStr ''(undated)'')) @ '' '' @ middle_dot @ '' **''
          @ str_json (h_payload_type ep) @ ''** '' @ em_dash @ '' '' @ summary))"

fun timeline :: "harvested_episode list \<Rightarrow> exn + string list" where
  "timeline [] = Inr []"
| "timeline (ep # eps) =
     (case timeline_line ep of
        Inl e \<Rightarrow> Inl e
      | Inr l \<Rightarrow> (case timeline eps of Inl e \<Rightarrow> Inl e | Inr ls \<Rightarrow> Inr (l # ls)))"

definition card_header :: "story_card \<Rightarrow> string list" where
  "card_header c =
     [''---'', ''story_key: '' @ k_story_key c, ''project: '' @ str_json (k_project c),
      ''confidentiality: '' @ k_confidentiality c,
      ''published: false  # human gate (DF-008): nothing publishes unattended'', ''source: '' @ FLYWHEEL_SOURCE,
      ''episode_count: '' @ show_nat (length (k_episodes c)), ''---'', [], ''# Story: '' @ k_story_key c, [],
      ''_Draft story card '' @ em_dash @ '' pending human review (DF-008 human gate). Confidentiality: **'' @ k_confidentiality c @ ''**._'',
      [], ''## Timeline'', []]"

definition render_markdown :: "story_card \<Rightarrow> exn + string" where
  "render_markdown c =
     (case timeline (sort_key time_key (k_episodes c)) of
        Inl e \<Rightarrow> Inl e
      | Inr ls \<Rightarrow> Inr (join [CHR 0x0A] (card_header c @ ls @ [[]])))"

text \<open>\<open>json.dumps(row, ensure_ascii=False)\<close>, with a space after each comma and colon.\<close>

fun dumps_plain :: "json \<Rightarrow> string" where
  "dumps_plain JNull = ''null''"
| "dumps_plain (JBool b) = (if b then ''true'' else ''false'')"
| "dumps_plain (JInt i) = show_int i"
| "dumps_plain (JFloat l) = l"
| "dumps_plain (JStr s) = quote_plain s"
| "dumps_plain (JList xs) = ''['' @ join '', '' (map dumps_plain xs) @ '']''"
| "dumps_plain (JObj kvs) = ''{'' @ join '', '' (map (\<lambda>(k, v). quote_plain k @ '': '' @ dumps_plain v) kvs) @ ''}''"

text \<open>The files of the two output directories, by path.\<close>

type_synonym files = "(string \<times> string) list"

definition write_dataset_rows :: "json list \<Rightarrow> string \<Rightarrow> string \<Rightarrow> files \<Rightarrow> string option \<times> files" where
  "write_dataset_rows rows intake_dir run_id fs =
     (if rows = [] then (None, fs)
      else (let out_path = intake_dir @ ''/flywheel-'' @ run_id @ ''.jsonl'' in
            (Some out_path, dict_set out_path (concat (map (\<lambda>row. dumps_plain row @ [CHR 0x0A]) rows)) fs)))"

definition card_path :: "string \<Rightarrow> story_card \<Rightarrow> string" where
  "card_path queue_dir c = queue_dir @ ''/'' @ k_slug c @ ''.md''"

fun write_story_cards :: "story_card list \<Rightarrow> string \<Rightarrow> (files, string list) comp" where
  "write_story_cards [] queue_dir = ret []"
| "write_story_cards (c # cs) queue_dir =
     bind (lift_res (render_markdown c)) (\<lambda>text.
     bind (\<lambda>fs. (Ok (), dict_set (card_path queue_dir c) text fs)) (\<lambda>_.
     bind (write_story_cards cs queue_dir) (\<lambda>written. ret (card_path queue_dir c # written))))"

record chronicler_run_result =
  cr_run_id :: string
  cr_episode_count :: nat
  cr_dataset_row_count :: nat
  cr_story_card_count :: nat
  cr_dataset_path :: "string option"
  cr_story_card_paths :: "string list"

definition meets_acceptance :: "chronicler_run_result \<Rightarrow> bool" where
  "meets_acceptance r \<longleftrightarrow> 1 \<le> cr_dataset_row_count r \<and> 1 \<le> cr_story_card_count r"

definition as_dict :: "chronicler_run_result \<Rightarrow> (string \<times> json) list" where
  "as_dict r =
     [(''run_id'', JStr (cr_run_id r)), (''episode_count'', JInt (int (cr_episode_count r))),
      (''dataset_row_count'', JInt (int (cr_dataset_row_count r))), (''story_card_count'', JInt (int (cr_story_card_count r))),
      (''dataset_path'', opt_str (cr_dataset_path r)), (''story_card_paths'', JList (map JStr (cr_story_card_paths r))),
      (''meets_acceptance'', JBool (meets_acceptance r))]"

definition parse_public_projects :: "string \<Rightarrow> string set" where
  "parse_public_projects raw = set (filter (\<lambda>p. p \<noteq> []) (map strip (split_on CHR '','' raw)))"

record chronicler_settings =
  cs_scan_limit :: nat
  cs_public_projects :: string
  cs_dataset_intake_dir :: string
  cs_story_card_queue_dir :: string

definition write_outputs ::
  "chronicler_settings \<Rightarrow> string \<Rightarrow> harvested_episode list \<Rightarrow> json list \<times> story_card list \<Rightarrow> (files, chronicler_run_result) comp" where
  "write_outputs cs run_id eps hr fs =
     (case write_dataset_rows (fst hr) (cs_dataset_intake_dir cs) run_id fs of
        (dataset_path, fs1) \<Rightarrow>
          bind (write_story_cards (snd hr) (cs_story_card_queue_dir cs)) (\<lambda>paths.
            ret \<lparr>cr_run_id = run_id, cr_episode_count = length eps, cr_dataset_row_count = length (fst hr),
                 cr_story_card_count = length (snd hr), cr_dataset_path = dataset_path, cr_story_card_paths = paths\<rparr>) fs1)"

text \<open>A run over the store and the files.\<close>

definition on_fst :: "('s, 'a) comp \<Rightarrow> ('s \<times> 'f, 'a) comp" where
  "on_fst m w = (case m (fst w) of (r, s) \<Rightarrow> (r, (s, snd w)))"

definition on_snd :: "('f, 'a) comp \<Rightarrow> ('s \<times> 'f, 'a) comp" where
  "on_snd m w = (case m (snd w) of (r, f) \<Rightarrow> (r, (fst w, f)))"

definition run_chronicler ::
  "'s store_api \<Rightarrow> 's list_namespaces \<Rightarrow> (item \<Rightarrow> created) \<Rightarrow> chronicler_settings \<Rightarrow> string \<Rightarrow> string option \<Rightarrow>
   ('s \<times> files, chronicler_run_result) comp" where
  "run_chronicler st list_ns created_at cs run_id since =
     bind (on_fst (read_episodes st list_ns created_at (cs_scan_limit cs) since)) (\<lambda>eps.
     bind (lift_res (harvest eps (parse_public_projects (cs_public_projects cs)))) (\<lambda>hr.
       on_snd (write_outputs cs run_id eps hr)))"

subsection \<open>A full read misses no record\<close>

text \<open>
  What the documentation of the store says of \<open>alist_namespaces\<close>: it changes nothing, and a list shorter
  than its limit has every namespace with a record below the prefix, cut to the depth.
\<close>

locale namespace_listing = lawful_store st view rank window
  for st :: "'s store_api"
    and view :: "'s \<Rightarrow> namespace \<Rightarrow> string \<Rightarrow> stored option"
    and rank :: "'s \<Rightarrow> namespace \<Rightarrow> string option \<Rightarrow> (string \<times> json) list \<Rightarrow> item list"
    and window :: "nat \<Rightarrow> nat" +
  fixes list_ns :: "'s list_namespaces"
  assumes list_frame: "view (snd (list_ns pre d n s)) = view s"
    and list_rank: "rank (snd (list_ns pre d n s)) = rank s"
    and list_complete: "fst (list_ns pre d n s) = Ok nss \<Longrightarrow> length nss < n \<Longrightarrow> view s ns k \<noteq> None \<Longrightarrow>
      under pre ns \<Longrightarrow> take d ns \<in> set nss"
begin

lemma read_records_has:
  "read_records created_at None ns its = Inr eps \<Longrightarrow> it \<in> set its \<Longrightarrow> truthy (py_get (i_value it) ''payload_type'') \<Longrightarrow>
   \<exists>ep \<in> set eps. rehydrate ns (i_value it) = Inr (Some ep)"
proof (induction its arbitrary: eps)
  case (Cons a its)
  have kept: "before_bound created_at None a ep = Inr False" for ep by (simp add: before_bound_def)
  show ?case
  proof (cases "rehydrate ns (i_value a)")
    case (Inr found)
    show ?thesis
    proof (cases found)
      case None
      with Inr have "\<not> truthy (py_get (i_value a) ''payload_type'')"
        by (auto simp: rehydrate_def split: if_splits json.splits)
      with None Inr Cons show ?thesis by auto
    next
      case (Some ep)
      with Inr kept Cons.prems(1) obtain rest where "read_records created_at None ns its = Inr rest" "eps = ep # rest"
        by (auto split: sum.splits)
      with Some Inr Cons.IH Cons.prems(2,3) show ?thesis by auto
    qed
  qed (use Cons.prems in simp)
qed simp

lemma read_namespaces_has:
  assumes "read_namespaces st created_at None limit nss s = (Ok eps, s')" and "ns \<in> set nss" and "length ns = 3"
    and "length (rank s ns None []) \<le> limit" and "view s ns k = Some v" and "truthy (py_get v ''payload_type'')"
  shows "\<exists>ep \<in> set eps. rehydrate ns v = Inr (Some ep)"
  using assms(1,2,4,5)
proof (induction nss arbitrary: s eps)
  case (Cons m nss)
  show ?case
  proof (cases "length m = 3")
    case False
    with Cons assms(3) show ?thesis by auto
  next
    case True
    with Cons.prems(1) obtain its s1 eps1 eps2 where x: "st_search st m None [] limit 0 s = (Ok its, s1)"
      and r: "read_records created_at None m its = Inr eps1"
      and go: "read_namespaces st created_at None limit nss s1 = (Ok eps2, s')" and eps: "eps = eps1 @ eps2"
      by (auto simp: bind_Ok_iff lift_res_Ok_iff ret_def)
    from search_returns [OF x] have its: "its = take limit (rank s m None [])" and keep: "view s1 = view s" "rank s1 = rank s"
      by (simp_all add: store_window_def)
    show ?thesis
    proof (cases "ns = m")
      case True
      obtain it where it: "it \<in> set (rank s ns None [])" "i_value it = v"
        using rank_complete [of s ns k v ns "[]"] Cons.prems(4) by (auto simp: filter_matches_def)
      then have "it \<in> set its" using its Cons.prems(3) True by simp
      from read_records_has [OF r this] it(2) assms(6) True show ?thesis by (auto simp: eps)
    next
      case False
      with Cons.IH [OF go] Cons.prems(2-4) show ?thesis by (auto simp: eps keep)
    qed
  qed
qed simp

lemma read_episodes_has:
  assumes "read_episodes st list_ns created_at limit None s = (Ok eps, s')"
    and "fst (list_ns [''fleet_memory''] 3 limit s) = Ok nss" and "length nss < limit"
    and "length (rank s ns None []) \<le> limit"
    and "under [''fleet_memory''] ns" and "length ns = 3" and "view s ns k = Some v" and "truthy (py_get v ''payload_type'')"
  shows "\<exists>ep \<in> set eps. rehydrate ns v = Inr (Some ep)"
proof -
  obtain s1 where l: "list_ns [''fleet_memory''] 3 limit s = (Ok nss, s1)" using assms(2) by (metis prod.collapse)
  then have keep: "view s1 = view s" "rank s1 = rank s" by (metis list_frame snd_conv, metis list_rank snd_conv)
  have "ns \<in> set nss" using list_complete [OF assms(2,3), of ns k] assms(5-7) by simp
  moreover have "read_namespaces st created_at None limit nss s1 = (Ok eps, s')"
    using assms(1) l by (simp add: read_episodes_def bind_def)
  ultimately show ?thesis using read_namespaces_has assms(4,6-8) by (metis keep)
qed

end

text \<open>The namespaces of the in-memory store.\<close>

definition mem_list :: "mem_store list_namespaces" where
  "mem_list pre d n s =
     (Ok (take n (remdups (map (take d) (filter (under pre) (map (fst \<circ> fst) s))))), s)"

interpretation listing: namespace_listing "mem_api score" mem_view "mem_rank score" mem_window mem_list
  for score
proof unfold_locales
  fix pre ns k nss and d n :: nat and s :: mem_store
  assume l: "fst (mem_list pre d n s) = Ok nss" "length nss < n" and v: "mem_view s ns k \<noteq> None" "under pre ns"
  let ?all = "remdups (map (take d) (filter (under pre) (map (fst \<circ> fst) s)))"
  from l have "nss = take n ?all" by (simp add: mem_list_def)
  with l(2) have "nss = ?all" by (cases "length ?all \<le> n") simp_all
  moreover have "ns \<in> fst ` fst ` set s"
    using v(1) by (force simp: mem_view_def dest: map_of_SomeD)
  ultimately show "take d ns \<in> set nss" using v(2) by (auto simp: image_image image_iff)
qed (simp_all add: mem_list_def)

subsection \<open>Every episode is on one card\<close>

text \<open>The specification of the cards: by story key, in the order the keys first appear.\<close>

definition key_is :: "string \<Rightarrow> harvested_episode \<Rightarrow> bool" where
  "key_is k ep \<longleftrightarrow> story_key ep = Inr k"

definition project_public :: "string set \<Rightarrow> harvested_episode \<Rightarrow> bool" where
  "project_public public_projects ep \<longleftrightarrow> (\<exists>p \<in> public_projects. h_project ep = JStr p)"

definition card_ok :: "string set \<Rightarrow> harvested_episode list \<Rightarrow> string \<Rightarrow> story_card \<Rightarrow> bool" where
  "card_ok public_projects eps k c \<longleftrightarrow>
     k_story_key c = k \<and> k_slug c = slug k \<and> k_episodes c = filter (key_is k) eps \<and> k_episodes c \<noteq> [] \<and>
     k_confidentiality c = (if list_all (project_public public_projects) (k_episodes c) then PUBLIC else CONFIDENTIAL)"

definition cards_ok :: "string set \<Rightarrow> harvested_episode list \<Rightarrow> (string \<times> story_card) list \<Rightarrow> bool" where
  "cards_ok public_projects eps cards \<longleftrightarrow>
     distinct (map fst cards) \<and> (\<forall>k. dict_get cards k = None \<longleftrightarrow> filter (key_is k) eps = []) \<and>
     (\<forall>k c. dict_get cards k = Some c \<longrightarrow> card_ok public_projects eps k c)"

lemma confidentiality_public:
  "confidentiality (h_project ep) pub = Inr conf \<Longrightarrow> conf = (if project_public pub ep then PUBLIC else CONFIDENTIAL)"
  by (cases "h_project ep") (auto simp: confidentiality_def project_public_def split: if_splits)

lemma public_neq [simp]: "PUBLIC \<noteq> CONFIDENTIAL" "CONFIDENTIAL \<noteq> PUBLIC"
  by (simp_all add: PUBLIC_def CONFIDENTIAL_def)

lemma add_to_card_ok:
  assumes "confidentiality (h_project ep) pub = Inr conf" and "story_key ep = Inr k"
    and "found = None \<and> filter (key_is k) eps = [] \<or> (\<exists>c. found = Some c \<and> card_ok pub eps k c)"
  shows "card_ok pub (eps @ [ep]) k (add_to_card k ep conf found)"
  using assms(2,3) confidentiality_public [OF assms(1)]
  by (auto simp: add_to_card_def card_ok_def Let_def key_is_def)

lemma harvest_one_ok:
  assumes "harvest_one pub ep acc = Inr acc'" and "cards_ok pub eps (snd acc)"
  shows "cards_ok pub (eps @ [ep]) (snd acc')"
proof -
  from assms(1) obtain key conf where key: "story_key ep = Inr key" and conf: "confidentiality (h_project ep) pub = Inr conf"
    and cards: "snd acc' = dict_set key (add_to_card key ep conf (dict_get (snd acc) key)) (snd acc)"
    by (auto simp: harvest_one_def split: sum.splits)
  have new: "card_ok pub (eps @ [ep]) key (add_to_card key ep conf (dict_get (snd acc) key))"
  proof (rule add_to_card_ok [OF conf key])
    show "dict_get (snd acc) key = None \<and> filter (key_is key) eps = [] \<or> (\<exists>c. dict_get (snd acc) key = Some c \<and> card_ok pub eps key c)"
      using assms(2) by (cases "dict_get (snd acc) key") (auto simp: cards_ok_def)
  qed
  have other: "filter (key_is k) (eps @ [ep]) = filter (key_is k) eps" if "k \<noteq> key" for k
    using that key by (simp add: key_is_def)
  have "card_ok pub (eps @ [ep]) k c" if "k \<noteq> key" "dict_get (snd acc) k = Some c" for k c
    using assms(2) that(2) unfolding cards_ok_def card_ok_def other [OF that(1)] by blast
  then show ?thesis
    using assms(2) new other key by (auto simp: cards_ok_def cards dict_simps dict_set_distinct key_is_def)
qed

lemma harvest_loop_ok:
  "harvest_loop pub eps acc = Inr acc' \<Longrightarrow> cards_ok pub past (snd acc) \<Longrightarrow> cards_ok pub (past @ eps) (snd acc')"
proof (induction eps arbitrary: acc past)
  case (Cons ep eps)
  then obtain acc1 where 1: "harvest_one pub ep acc = Inr acc1" "harvest_loop pub eps acc1 = Inr acc'"
    by (auto split: sum.splits)
  from Cons.IH [OF 1(2) harvest_one_ok [OF 1(1) Cons.prems(2)]] show ?case by simp
qed simp

lemma harvest_cards:
  assumes "harvest eps pub = Inr (rows, cards)"
  obtains kcs where "cards = map snd kcs" and "cards_ok pub eps kcs"
proof -
  from assms obtain kcs where loop: "harvest_loop pub eps ([], []) = Inr (rows, kcs)" and c: "cards = map snd kcs"
    by (auto simp: harvest_def split: sum.splits)
  have "cards_ok pub [] (snd ([] :: json list, []))" by (simp add: cards_ok_def)
  from harvest_loop_ok [OF loop this] c that show ?thesis by simp
qed

text \<open>So an episode of a finished harvest is on the card of its story key.\<close>

lemma harvest_loop_keys: "harvest_loop pub eps acc = Inr acc' \<Longrightarrow> ep \<in> set eps \<Longrightarrow> \<exists>k. story_key ep = Inr k"
  by (induction eps arbitrary: acc) (auto simp: harvest_one_def split: sum.splits)

lemma harvested_on_card:
  assumes "harvest eps pub = Inr (rows, cards)" and "ep \<in> set eps"
  shows "\<exists>c \<in> set cards. story_key ep = Inr (k_story_key c) \<and> ep \<in> set (k_episodes c)"
proof -
  obtain kcs0 where "harvest_loop pub eps ([], []) = Inr (rows, kcs0)"
    using assms(1) by (auto simp: harvest_def split: sum.splits)
  from harvest_loop_keys [OF this assms(2)] obtain k where k: "story_key ep = Inr k" by blast
  from harvest_cards [OF assms(1)] obtain kcs where cards: "cards = map snd kcs" and ok: "cards_ok pub eps kcs" by blast
  have mine: "ep \<in> set (filter (key_is k) eps)" using assms(2) k by (simp add: key_is_def)
  then obtain c where c: "dict_get kcs k = Some c" using ok unfolding cards_ok_def by (metis empty_iff list.set(1) not_None_eq)
  then have "card_ok pub eps k c" "(k, c) \<in> set kcs" using ok by (auto simp: cards_ok_def dict_get_def dest: map_of_SomeD)
  with mine k show ?thesis unfolding cards by (force simp: card_ok_def)
qed

text \<open>A dataset row of an episode: its provenance names the project and flags it by that project.\<close>

definition flagged_row :: "string set \<Rightarrow> harvested_episode \<Rightarrow> json \<Rightarrow> bool" where
  "flagged_row pub ep row \<longleftrightarrow>
     (\<exists>msgs extra. row = JObj [(''messages'', msgs),
        (''metadata'', JObj (flywheel_metadata ep (if project_public pub ep then PUBLIC else CONFIDENTIAL) extra))])"

lemma dataset_row_flagged: "dataset_row ep user answer pub extra = Inr row \<Longrightarrow> flagged_row pub ep row"
  unfolding dataset_row_def flagged_row_def by (auto split: sum.splits dest!: confidentiality_public)

lemma collect_rows_all:
  "collect_rows f xs = Inr rows \<Longrightarrow> (\<And>x rs. f x = Inr rs \<Longrightarrow> list_all P rs) \<Longrightarrow> list_all P rows"
  by (induction xs arbitrary: rows) (auto split: sum.splits)

lemma assumption_row_flagged: "assumption_row ep pub a = Inr rows \<Longrightarrow> list_all (flagged_row pub ep) rows"
  by (auto simp: assumption_row_def Let_def dataset_row_flagged split: json.splits if_splits sum.splits)

lemma extractor_flagged:
  assumes "dataset_extractor ep pub = Inr rows"
  shows "list_all (flagged_row pub ep) rows"
proof -
  have "extract_build_outcome ep pub = Inr rows \<Longrightarrow> list_all (flagged_row pub ep) rows"
    by (auto simp: extract_build_outcome_def dataset_row_flagged split: json.splits if_splits sum.splits)
  moreover have "extract_planning_outcome ep pub = Inr rows \<Longrightarrow> list_all (flagged_row pub ep) rows"
    by (auto simp: extract_planning_outcome_def split: json.splits sum.splits dest!: collect_rows_all [OF _ assumption_row_flagged])
  ultimately show ?thesis using assms by (auto simp: dataset_extractor_def split: if_splits)
qed

lemma harvest_rows:
  "harvest_loop pub eps acc = Inr acc' \<Longrightarrow> \<forall>row \<in> set (fst acc). \<exists>ep \<in> past. flagged_row pub ep row \<Longrightarrow>
   \<forall>row \<in> set (fst acc'). \<exists>ep \<in> past \<union> set eps. flagged_row pub ep row"
proof (induction eps arbitrary: acc past)
  case (Cons ep eps)
  then obtain acc1 rows where 1: "harvest_one pub ep acc = Inr acc1" "harvest_loop pub eps acc1 = Inr acc'"
    and rows: "dataset_extractor ep pub = Inr rows" "fst acc1 = fst acc @ rows"
    by (auto simp: harvest_one_def split: sum.splits)
  have "\<forall>row \<in> set (fst acc1). \<exists>ep \<in> insert ep past. flagged_row pub ep row"
    using Cons.prems(2) extractor_flagged [OF rows(1)] rows(2) by (auto simp: list_all_iff)
  from Cons.IH [OF 1(2) this] show ?case by simp
qed simp

text \<open>
  C15: A harvest puts every episode on exactly one card, the card of its story key, in the order of
  the episodes; and a card is marked public only when every one of its episodes is of a public
  project, otherwise it stays confidential. Every dataset row is flagged the same way by the project
  of the episode it comes from.
\<close>

theorem harvest_cards_exact:
  assumes "harvest eps pub = Inr (rows, cards)"
  shows "distinct (map k_story_key cards) \<and>
    (\<forall>c \<in> set cards. k_episodes c = filter (key_is (k_story_key c)) eps \<and> k_slug c = slug (k_story_key c) \<and>
       k_confidentiality c = (if list_all (project_public pub) (k_episodes c) then PUBLIC else CONFIDENTIAL)) \<and>
    (\<forall>ep \<in> set eps. \<forall>k. story_key ep = Inr k \<longrightarrow> (\<exists>c \<in> set cards. k_story_key c = k \<and> ep \<in> set (k_episodes c))) \<and>
    (\<forall>row \<in> set rows. \<exists>ep \<in> set eps. flagged_row pub ep row)"
proof -
  obtain kcs0 where "harvest_loop pub eps ([], []) = Inr (rows, kcs0)"
    using assms by (auto simp: harvest_def split: sum.splits)
  from harvest_rows [OF this, of "{}"] have flags: "\<forall>row \<in> set rows. \<exists>ep \<in> set eps. flagged_row pub ep row" by simp
  from harvest_cards [OF assms] obtain kcs where cards: "cards = map snd kcs" and ok: "cards_ok pub eps kcs" by blast
  have each: "card_ok pub eps k c" if "(k, c) \<in> set kcs" for k c
    using ok that by (auto simp: cards_ok_def dict_get_def)
  then have "map k_story_key cards = map fst kcs" unfolding cards by (auto simp: card_ok_def)
  then have "distinct (map k_story_key cards)" using ok by (simp add: cards_ok_def)
  moreover have "\<forall>c \<in> set cards. k_episodes c = filter (key_is (k_story_key c)) eps \<and> k_slug c = slug (k_story_key c) \<and>
       k_confidentiality c = (if list_all (project_public pub) (k_episodes c) then PUBLIC else CONFIDENTIAL)"
    using each unfolding cards by (fastforce simp: card_ok_def)
  moreover have "\<exists>c \<in> set cards. k_story_key c = k \<and> ep \<in> set (k_episodes c)" if "ep \<in> set eps" "story_key ep = Inr k" for ep k
  proof -
    have ne: "ep \<in> set (filter (key_is k) eps)" using that by (simp add: key_is_def)
    then have "filter (key_is k) eps \<noteq> []" by (metis empty_iff list.set(1))
    then obtain c where c: "dict_get kcs k = Some c" using ok unfolding cards_ok_def by (metis not_None_eq)
    then have "card_ok pub eps k c" "(k, c) \<in> set kcs" using ok by (auto simp: cards_ok_def dict_get_def dest: map_of_SomeD)
    with ne show ?thesis unfolding cards by (force simp: card_ok_def)
  qed
  ultimately show ?thesis using flags by blast
qed

subsection \<open>What is on file afterwards\<close>

lemma cards_written:
  "write_story_cards cs dir fs = (Ok written, fs') \<Longrightarrow>
   written = map (card_path dir) cs \<and>
   (\<forall>path. dict_get fs' path =
      (case find (\<lambda>c. card_path dir c = path) (rev cs) of
         None \<Rightarrow> dict_get fs path
       | Some c \<Rightarrow> (case render_markdown c of Inl e \<Rightarrow> None | Inr text \<Rightarrow> Some text)))"
proof (induction cs arbitrary: fs written)
  case Nil
  then show ?case by (simp add: ret_def)
next
  case (Cons c cs)
  then obtain md rest where md: "render_markdown c = Inr md" and w: "written = card_path dir c # rest"
    and go: "write_story_cards cs dir (dict_set (card_path dir c) md fs) = (Ok rest, fs')"
    by (auto simp: bind_Ok_iff lift_res_Ok_iff ret_def)
  have find_snoc: "find P (xs @ [x]) = (case find P xs of None \<Rightarrow> if P x then Some x else None | Some y \<Rightarrow> Some y)" for P xs and x :: story_card
    by (induction xs) auto
  show ?case using Cons.IH [OF go] md by (auto simp: w find_snoc dict_simps split: option.splits)
qed

text \<open>
  After the cards of a run are written, the file of a slug holds the rendering of the last card
  with that slug, and no other file has changed. So a card stays on file precisely when no later card
  of the run has the same slug, and two stories whose keys differ only in punctuation share one file.
\<close>

theorem cards_on_file:
  assumes "write_story_cards (pre @ c # post) dir fs = (Ok written, fs')" and "\<forall>d \<in> set post. k_slug d \<noteq> k_slug c"
  shows "(\<exists>text. render_markdown c = Inr text \<and> dict_get fs' (card_path dir c) = Some text) \<and>
    written = map (card_path dir) (pre @ c # post) \<and> (\<forall>path. path \<notin> set written \<longrightarrow> dict_get fs' path = dict_get fs path) \<and>
    slug ''FEAT-1'' = slug ''FEAT.1''"
proof -
  note spec = cards_written [OF assms(1)]
  have "card_path dir d \<noteq> card_path dir c" if "d \<in> set post" for d
    using assms(2) that by (simp add: card_path_def)
  then have "find (\<lambda>d. card_path dir d = card_path dir c) (rev post) = None" by (auto simp: find_None_iff)
  moreover have "find P (xs @ ys) = (case find P xs of None \<Rightarrow> find P ys | Some y \<Rightarrow> Some y)" for P xs and ys :: "story_card list"
    by (induction xs) auto
  ultimately have "find (\<lambda>d. card_path dir d = card_path dir c) (rev (pre @ c # post)) = Some c" by simp
  with spec have held: "dict_get fs' (card_path dir c) = (case render_markdown c of Inl e \<Rightarrow> None | Inr text \<Rightarrow> Some text)" by simp
  have "\<exists>text. render_markdown c = Inr text"
  proof -
    have "\<exists>text. render_markdown d = Inr text" if "write_story_cards cs dir fs = (Ok written, fs')" "d \<in> set cs" for cs d fs written
      using that by (induction cs arbitrary: fs written) (auto simp: bind_Ok_iff lift_res_Ok_iff ret_def)
    from this [OF assms(1), of c] show ?thesis by simp
  qed
  moreover have "find (\<lambda>d. card_path dir d = path) (rev (pre @ c # post)) = None" if "path \<notin> set written" for path
    using that spec by (auto simp: find_None_iff)
  moreover have "slug ''FEAT-1'' = slug ''FEAT.1''" by (simp add: slug_def norm_def char_class_defs)
  ultimately show ?thesis using spec held by auto
qed

subsection \<open>One line per row\<close>

lemma esc_plain_no_newline: "CHR 0x0A \<notin> set (esc_plain c)"
proof (cases "c \<in> {CHR 0x5C, CHR 0x22, CHR 0x0A, CHR 0x0D, CHR 0x09, CHR 0x0C, CHR 0x08}")
  case False
  have hex: "hex_digit d \<noteq> CHR 0x0A" if "d < 16" for d
  proof
    assume "hex_digit d = CHR 0x0A"
    with hex_val_digit [OF that] show False by (simp add: hex_val_def char_class_defs)
  qed
  have "hex_digit (of_char c div 16) \<noteq> CHR 0x0A" by (rule hex) (simp add: less_mult_imp_div_less)
  moreover have "hex_digit (of_char c mod 16) \<noteq> CHR 0x0A" by (rule hex) simp
  ultimately show ?thesis using False by (auto simp: esc_plain_def esc_char_def in_range_def)
qed (auto simp: esc_plain_def esc_char_def)

lemma join_no_char: "(\<forall>p \<in> set ps. x \<notin> set p) \<Longrightarrow> x \<notin> set sep \<Longrightarrow> x \<notin> set (join sep ps)"
  by (induction sep ps rule: join.induct) auto

lemma show_int_no_newline: "CHR 0x0A \<notin> set (show_int i)"
  using show_nat_digits [of "CHR 0x0A"] by (auto simp: show_int_def char_class_defs)

lemma dumps_plain_no_newline: "json_ok v \<Longrightarrow> CHR 0x0A \<notin> set (dumps_plain v)"
proof (induction v rule: dumps_plain.induct)
  case (6 xs)
  then show ?case using join_no_char [of "map dumps_plain xs" "CHR 0x0A" "'', ''"] by (auto simp: list_all_iff)
next
  case (7 kvs)
  have "CHR 0x0A \<notin> set (quote_plain k @ '': '' @ dumps_plain v)" if "(k, v) \<in> set kvs" for k v
    using 7 that esc_plain_no_newline by (auto simp: quote_plain_def list_all_iff)
  then show ?case using join_no_char [of "map (\<lambda>(k, v). quote_plain k @ '': '' @ dumps_plain v) kvs" "CHR 0x0A" "'', ''"] by auto
qed (auto simp: quote_plain_def esc_plain_no_newline show_int_no_newline)

lemma jsonl_one_line_per_row:
  assumes "list_all json_ok rows" and "write_dataset_rows rows dir run_id fs = (Some path, fs')"
  shows "\<exists>text. dict_get fs' path = Some text \<and> split_on (CHR 0x0A) text = map dumps_plain rows @ [[]]"
proof -
  have "split_on (CHR 0x0A) (concat (map (\<lambda>row. dumps_plain row @ [CHR 0x0A]) rows)) = map dumps_plain rows @ [[]]"
    using assms(1) by (induction rows) (simp_all add: split_on_append_sep dumps_plain_no_newline)
  with assms(2) show ?thesis by (auto simp: write_dataset_rows_def Let_def dict_simps split: if_splits)
qed

text \<open>The rows are what the default layout without \<open>ensure_ascii\<close> gives, so every line reads back as its row.\<close>

lemma dumps_plain_layout: "emit_at \<lparr>l_indent = None, l_ascii = False\<rparr> level v = dumps_plain v"
proof (induction "\<lparr>l_indent = None, l_ascii = False\<rparr>" level v rule: emit_at.induct)
  case (2 level xs)
  then have "map (emit_at \<lparr>l_indent = None, l_ascii = False\<rparr> (Suc level)) xs = map dumps_plain xs" by (cases "xs = []") simp_all
  then show ?case by (simp add: newline_at_def after_comma_def del: map_eq_conv)
next
  case (3 level kvs)
  then have "map (\<lambda>(k, v). quote_plain k @ '': '' @ emit_at \<lparr>l_indent = None, l_ascii = False\<rparr> (Suc level) v) kvs
      = map (\<lambda>(k, v). quote_plain k @ '': '' @ dumps_plain v) kvs" by (cases "kvs = []") auto
  then show ?case by (simp add: newline_at_def after_comma_def write_str_def del: map_eq_conv)
qed (simp_all add: write_str_def)

lemma loads_dumps_plain: "json_ok v \<Longrightarrow> loads (dumps_plain v) = Some v"
  using loads_json_text [of v "[]" "\<lparr>l_indent = None, l_ascii = False\<rparr>"] by (simp add: json_text_def dumps_plain_layout)

text \<open>
  The dataset file of a run, split at its line ends and each line decoded, is the list of the rows.
\<close>

theorem dataset_reads_back:
  assumes "list_all json_ok rows" and "write_dataset_rows rows dir run_id fs = (Some path, fs')"
  shows "\<exists>text. dict_get fs' path = Some text \<and> map loads (butlast (split_on (CHR 0x0A) text)) = map Some rows"
proof -
  from jsonl_one_line_per_row [OF assms] obtain t
    where "dict_get fs' path = Some t" "split_on (CHR 0x0A) t = map dumps_plain rows @ [[]]" by blast
  with assms(1) show ?thesis by (auto simp: loads_dumps_plain list_all_iff comp_def)
qed

subsection \<open>Witnesses\<close>

definition retro :: harvested_episode where
  "retro = \<lparr>h_project = JStr ''guardkit'', h_payload_type = JStr ''build_outcome'', h_natural_key = JStr ''build_outcome:guardkit:T1'',
     h_identifier = JStr ''T1'', h_payload = JObj [(''task_id'', JStr ''T1''), (''lessons'', JStr ''measure twice'')],
     h_source_ref = JNull, h_occurred_at = JStr ''2025-01-01'', h_name = JNull, h_source = JNull\<rparr>"

lemma retro_harvest: "\<exists>rows c. harvest [retro] {''guardkit''} = Inr (rows, [c])"
  by (simp add: harvest_def harvest_one_def dataset_extractor_def extract_build_outcome_def dataset_row_def confidentiality_def
      story_key_def STORY_KEY_FIELDS_def json_get_def retro_def dict_set_def)

theorem harvest_cards_exact_witness:
  "\<exists>rows c. harvest [retro] {''guardkit''} = Inr (rows, [c]) \<and> k_episodes c = filter (key_is (k_story_key c)) [retro]"
proof -
  obtain rows c where h: "harvest [retro] {''guardkit''} = Inr (rows, [c])" using retro_harvest by blast
  from harvest_cards_exact [OF h] h show ?thesis by simp
qed

definition retro_card :: story_card where
  "retro_card = \<lparr>k_story_key = ''T1'', k_slug = ''T1'', k_project = JStr ''guardkit'', k_confidentiality = PUBLIC, k_episodes = [retro]\<rparr>"

theorem cards_on_file_witness:
  "\<exists>written fs' text. write_story_cards ([] @ retro_card # []) ''queue'' [] = (Ok written, fs') \<and>
     dict_get fs' (card_path ''queue'' retro_card) = Some text"
proof -
  have "\<exists>text. render_markdown retro_card = Inr text"
    by (simp add: render_markdown_def retro_card_def timeline_line_def episode_summary_def SUMMARY_FIELDS_def json_get_def retro_def)
  then obtain md where "render_markdown retro_card = Inr md" by blast
  then have "\<exists>written fs'. write_story_cards ([] @ retro_card # []) ''queue'' [] = (Ok written, fs')"
    by (simp add: comp_simps)
  then obtain written fs' where w: "write_story_cards ([] @ retro_card # []) ''queue'' [] = (Ok written, fs')" by blast
  from cards_on_file [OF w] w show ?thesis by auto
qed

end
