(* ===== verification/Settings.thy ===== *)
theory Settings
  imports Probe_Parity Snapshot Embed Chronicler
begin

text \<open>
  The configuration (\<open>settings.py\<close>) and the entry points that read it: the relay process (\<open>app.py\<close>), the
  store they open (\<open>store.py\<close>), the liveness fence (\<open>fence/__main__.py\<close>), the MCP service
  (\<open>mcp/__main__.py\<close>), the harvest script (\<open>scripts/chronicler_harvest.py\<close>) and the re-index command line.
  How pydantic reads a number from a text is an argument. The results: what a configuration that is
  accepted guarantees to the components, which source of a value wins, and what the entry points do when
  there is none.
\<close>

subsection \<open>The fields\<close>

datatype setting = Str_v string | Int_v int | Float_v real
datatype setting_kind = Str_kind | Int_kind | Float_kind
datatype limit = Unlimited | Above int | From int

record setting_field =
  sf_name :: string
  sf_kind :: setting_kind
  sf_default :: "setting option"
  sf_limit :: limit

definition required_text :: "string \<Rightarrow> setting_field" where
  "required_text n = \<lparr>sf_name = n, sf_kind = Str_kind, sf_default = None, sf_limit = Unlimited\<rparr>"

definition text_field :: "string \<Rightarrow> string \<Rightarrow> setting_field" where
  "text_field n d = \<lparr>sf_name = n, sf_kind = Str_kind, sf_default = Some (Str_v d), sf_limit = Unlimited\<rparr>"

definition number_field :: "string \<Rightarrow> int \<Rightarrow> limit \<Rightarrow> setting_field" where
  "number_field n d l = \<lparr>sf_name = n, sf_kind = Int_kind, sf_default = Some (Int_v d), sf_limit = l\<rparr>"

definition float_field :: "string \<Rightarrow> real \<Rightarrow> setting_field" where
  "float_field n d = \<lparr>sf_name = n, sf_kind = Float_kind, sf_default = Some (Float_v d), sf_limit = Unlimited\<rparr>"

definition required_fields :: "setting_field list" where
  "required_fields = [required_text ''pg_dsn'', required_text ''embed_url'']"

definition corpus_fields :: "setting_field list" where
  "corpus_fields = [text_field ''corpus_root'' ''./corpus'', text_field ''backfill_dir'' ''backfill/staging/'']"

definition publish_fields :: "setting_field list" where
  "publish_fields = [text_field ''publish_nats_url'' [], text_field ''corpus_manifest'' []]"

definition chronicler_fields :: "setting_field list" where
  "chronicler_fields =
     [text_field ''chronicler_dataset_intake_dir'' ''chronicler_out/dataset_intake'',
      text_field ''chronicler_story_card_queue_dir'' ''chronicler_out/story_card_queue'',
      text_field ''chronicler_public_projects'' [], number_field ''chronicler_scan_limit'' 1000 (Above 0)]"

definition embed_fields :: "setting_field list" where
  "embed_fields =
     [text_field ''embed_model'' ''nomic-embed-text-v1.5'', number_field ''embed_dims'' 768 Unlimited,
      float_field ''embed_timeout_s'' 180, number_field ''embed_max_batch_tokens'' 2048 (Above 0)]"

definition pool_fields :: "setting_field list" where
  "pool_fields =
     [number_field ''pg_pool_min'' 2 Unlimited, number_field ''pg_pool_max'' 10 Unlimited, float_field ''pg_connect_timeout_s'' 10]"

definition nats_fields :: "setting_field list" where
  "nats_fields = [text_field ''nats_url'' ''nats://localhost:4222'']"

definition mcp_fields :: "setting_field list" where
  "mcp_fields =
     [text_field ''mcp_transport'' ''stdio'', text_field ''mcp_host'' ''127.0.0.1'', number_field ''mcp_port'' 8005 Unlimited,
      text_field ''mcp_allowed_hosts'' [], text_field ''mcp_sandbox_port'' [], text_field ''mcp_sandbox_doors'' []]"

definition dlq_fields :: "setting_field list" where
  "dlq_fields =
     [text_field ''dlq_subject'' ''memory.dlq'', number_field ''max_deliver'' 5 Unlimited, number_field ''ack_wait_s'' 1200 Unlimited]"

definition fence_fields :: "setting_field list" where
  "fence_fields =
     [number_field ''fence_store_max_age_hours'' 168 (Above 0), number_field ''fence_build_window_hours'' 72 (Above 0),
      number_field ''fence_min_builds_in_window'' 3 (Above 0), number_field ''fence_relay_restart_grace_minutes'' 75 (From 0),
      text_field ''fence_watch_projects'' ''guardkit'', text_field ''fence_builds_dir'' ''~/forge-state/receipts'',
      text_field ''fence_relay_marker_path'' ''~/.local/state/fleet-memory/relay-progress.json'',
      text_field ''fence_state_dir'' ''~/.local/state/fleet-memory'']"

definition chunk_fields :: "setting_field list" where
  "chunk_fields = [number_field ''chunk_target_tokens'' 1000 Unlimited, float_field ''chunk_overlap_ratio'' (15 / 100)]"

definition SETTINGS_FIELDS :: "setting_field list" where
  "SETTINGS_FIELDS =
     required_fields @ corpus_fields @ publish_fields @ chronicler_fields @ embed_fields @ pool_fields @ nats_fields
     @ mcp_fields @ dlq_fields @ fence_fields @ chunk_fields"

subsection \<open>Reading the configuration\<close>

definition ENV_PREFIX :: string where "ENV_PREFIX = ''FLEET_MEMORY_''"

text \<open>The process environment and the variables of the file \<open>.env\<close>.\<close>

record environment =
  env_vars :: "(string \<times> string) list"
  env_dotenv :: "(string \<times> string) list"

text \<open>
  What pydantic does with a text where a number is declared, \<open>None\<close> for an error, and the text of the
  \<open>ValidationError\<close> it makes of the messages.
\<close>

record number_reader =
  nr_int :: "string \<Rightarrow> int option"
  nr_float :: "string \<Rightarrow> real option"
  nr_error :: "string list \<Rightarrow> string"

type_synonym setting_values = "(string \<times> setting) list"

text \<open>Names are compared without case; keyword arguments come before the environment, that before \<open>.env\<close>.\<close>

definition env_get :: "(string \<times> string) list \<Rightarrow> string \<Rightarrow> string option" where
  "env_get vars name = dict_get (fold (\<lambda>(k, v). dict_set (lower k) v) vars []) (lower (ENV_PREFIX @ name))"

definition raw_value :: "environment \<Rightarrow> setting_values \<Rightarrow> string \<Rightarrow> setting option" where
  "raw_value env given name =
     (case dict_get given name of
        Some v \<Rightarrow> Some v
      | None \<Rightarrow>
          (case env_get (env_vars env) name of
             Some s \<Rightarrow> Some (Str_v s)
           | None \<Rightarrow> map_option Str_v (env_get (env_dotenv env) name)))"

definition coerce_setting :: "number_reader \<Rightarrow> setting_kind \<Rightarrow> setting \<Rightarrow> setting option" where
  "coerce_setting nr kind v =
     (case (kind, v) of
        (Str_kind, Str_v s) \<Rightarrow> Some v
      | (Int_kind, Int_v i) \<Rightarrow> Some v
      | (Int_kind, Str_v s) \<Rightarrow> map_option Int_v (nr_int nr s)
      | (Int_kind, Float_v x) \<Rightarrow> if x = of_int \<lfloor>x\<rfloor> then Some (Int_v \<lfloor>x\<rfloor>) else None
      | (Float_kind, Float_v x) \<Rightarrow> Some v
      | (Float_kind, Int_v i) \<Rightarrow> Some (Float_v (of_int i))
      | (Float_kind, Str_v s) \<Rightarrow> map_option Float_v (nr_float nr s)
      | _ \<Rightarrow> None)"

fun within_limit :: "limit \<Rightarrow> setting \<Rightarrow> bool" where
  "within_limit (Above b) (Int_v i) = (b < i)"
| "within_limit (From b) (Int_v i) = (b \<le> i)"
| "within_limit _ _ = True"

definition validate_not_empty :: "string \<Rightarrow> setting \<Rightarrow> string + setting" where
  "validate_not_empty name v =
     (case v of
        Str_v s \<Rightarrow> if strip s = [] then Inl (name @ '' cannot be empty'') else Inr v
      | _ \<Rightarrow> Inr v)"

text \<open>A default is used as it is.\<close>

definition field_value :: "number_reader \<Rightarrow> environment \<Rightarrow> setting_values \<Rightarrow> setting_field \<Rightarrow> string + setting" where
  "field_value nr env given f =
     (case raw_value env given (sf_name f) of
        None \<Rightarrow> (case sf_default f of None \<Rightarrow> Inl (sf_name f @ '': Field required'') | Some d \<Rightarrow> Inr d)
      | Some raw \<Rightarrow>
          (case coerce_setting nr (sf_kind f) raw of
             None \<Rightarrow> Inl (sf_name f @ '': Input has the wrong type'')
           | Some v \<Rightarrow>
               if \<not> within_limit (sf_limit f) v then Inl (sf_name f @ '': Input is out of range'')
               else if sf_name f \<in> {''pg_dsn'', ''embed_url''} then validate_not_empty (sf_name f) v
               else Inr v))"

definition settings_init :: "number_reader \<Rightarrow> environment \<Rightarrow> setting_values \<Rightarrow> exn + setting_values" where
  "settings_init nr env given =
     (let results = map (\<lambda>f. (sf_name f, field_value nr env given f)) SETTINGS_FIELDS;
          errors = List.map_filter (\<lambda>(n, r). case r of Inl e \<Rightarrow> Some e | Inr v \<Rightarrow> None) results in
      if errors \<noteq> [] then Inl (ValidationError (nr_error nr errors))
      else Inr (List.map_filter (\<lambda>(n, r). case r of Inl e \<Rightarrow> None | Inr v \<Rightarrow> Some (n, v)) results))"

definition text_of :: "setting_values \<Rightarrow> string \<Rightarrow> string" where
  "text_of st n = (case dict_get st n of Some (Str_v s) \<Rightarrow> s | _ \<Rightarrow> [])"

definition number_of :: "setting_values \<Rightarrow> string \<Rightarrow> int" where
  "number_of st n = (case dict_get st n of Some (Int_v i) \<Rightarrow> i | _ \<Rightarrow> 0)"

definition float_of :: "setting_values \<Rightarrow> string \<Rightarrow> real" where
  "float_of st n = (case dict_get st n of Some (Float_v x) \<Rightarrow> x | _ \<Rightarrow> 0)"


subsection \<open>The store\<close>

text \<open>\<open>urlsplit\<close>: the host, the port (reading it raises when it is no number in range) and the path.\<close>

record url_parts =
  up_hostname :: "string option"
  up_port :: "exn + int option"
  up_path :: string

definition dsn_target :: "(string \<Rightarrow> url_parts) \<Rightarrow> string \<Rightarrow> exn + string" where
  "dsn_target urlsplit dsn =
     (let parts = urlsplit dsn in
      case up_hostname parts of
        None \<Rightarrow> Inr ''configured database''
      | Some host \<Rightarrow>
          if host = [] then Inr ''configured database''
          else and_then (up_port parts) (\<lambda>port.
            Inr (host @ (case port of None \<Rightarrow> [] | Some p \<Rightarrow> if p = 0 then [] else '':'' @ show_int p)
              @ (if up_path parts \<noteq> [] \<and> up_path parts \<noteq> ''/'' then up_path parts else []))))"

definition SETUP_SLACK_S :: real where "SETUP_SLACK_S = 5"

record pool_config =
  pc_min_size :: int
  pc_max_size :: int
  pc_connect_timeout :: real
  pc_prepare_threshold :: "int option"
  pc_options :: string

definition pool_config_of :: "setting_values \<Rightarrow> pool_config" where
  "pool_config_of st =
     \<lparr>pc_min_size = number_of st ''pg_pool_min'', pc_max_size = number_of st ''pg_pool_max'',
      pc_connect_timeout = float_of st ''pg_connect_timeout_s'', pc_prepare_threshold = None,
      pc_options = ''-c plan_cache_mode=force_custom_plan -c hnsw.iterative_scan=strict_order''\<rparr>"

definition index_config :: "setting_values \<Rightarrow> int \<times> string list" where
  "index_config st = (number_of st ''embed_dims'', [''content''])"

text \<open>The warning of the check of the pgvector version, which may also not be readable.\<close>

definition version_numbers :: "string \<Rightarrow> nat list" where
  "version_numbers v = map nat_of_digits (filter (full_class is_digit) (take 2 (split_on CHR ''.'' v)))"

definition determinism_warning :: "exn + string option \<Rightarrow> string option" where
  "determinism_warning row =
     (case row of
        Inl e \<Rightarrow> Some ''search determinism guard: could not read the pgvector version''
      | Inr found \<Rightarrow>
          (let version = text_or found ''absent'' in
           if version = ''absent'' \<or> version_numbers version < [0, 8]
           then Some (''search determinism guard: pgvector '' @ version @ '' does not define hnsw.iterative_scan (needs >= 0.8.0)'')
           else None))"

text \<open>
  What opening depends on: the constructor of the store with its set-up under the time limit, the reading
  of the extension's version, and the text of a float.
\<close>

record 's pg_library =
  pl_open :: "string \<Rightarrow> int \<times> string list \<Rightarrow> pool_config \<Rightarrow> real \<Rightarrow> exn + 's store_api"
  pl_vector_version :: "exn + string option"
  pl_urlsplit :: "string \<Rightarrow> url_parts"
  pl_float_str :: "real \<Rightarrow> string"

definition async_store_context :: "'s pg_library \<Rightarrow> setting_values \<Rightarrow> exn + 's store_api \<times> string option" where
  "async_store_context pl st =
     (let entry_timeout_s = float_of st ''pg_connect_timeout_s'' + SETUP_SLACK_S in
      case pl_open pl (text_of st ''pg_dsn'') (index_config st) (pool_config_of st) entry_timeout_s of
        Inl e \<Rightarrow>
          if is_TimeoutError e
          then and_then (dsn_target (pl_urlsplit pl) (text_of st ''pg_dsn'')) (\<lambda>target.
            Inl (TimeoutError (''Timed out connecting to Postgres at '' @ target @ '' after '' @ pl_float_str pl entry_timeout_s
              @ ''s (pg_connect_timeout_s='' @ pl_float_str pl (float_of st ''pg_connect_timeout_s'') @ '')'')))
          else Inl e
      | Inr store \<Rightarrow> Inr (store, determinism_warning (pl_vector_version pl)))"

subsection \<open>The relay process\<close>

definition create_app :: "number_reader \<Rightarrow> environment \<Rightarrow> string \<times> setting_values option" where
  "create_app nr env =
     (case settings_init nr env [] of
        Inl e \<Rightarrow> (''nats://localhost:4222'', None)
      | Inr st \<Rightarrow> (text_of st ''nats_url'', Some st))"

text \<open>What the handler module reads from the settings when it is imported.\<close>

definition MAX_DELIVER :: "setting_values option \<Rightarrow> int" where
  "MAX_DELIVER settings = (case settings of None \<Rightarrow> 5 | Some st \<Rightarrow> number_of st ''max_deliver'')"

definition DLQ_SUBJECT :: "setting_values option \<Rightarrow> string" where
  "DLQ_SUBJECT settings = (case settings of None \<Rightarrow> ''memory.dlq'' | Some st \<Rightarrow> text_of st ''dlq_subject'')"

definition ACK_WAIT_S :: "setting_values option \<Rightarrow> int" where
  "ACK_WAIT_S settings = (case settings of None \<Rightarrow> 1200 | Some st \<Rightarrow> number_of st ''ack_wait_s'')"

definition MEMORY_CONSUMER_CONFIG :: "setting_values option \<Rightarrow> int \<times> int" where
  "MEMORY_CONSUMER_CONFIG settings = (MAX_DELIVER settings, ACK_WAIT_S settings)"

definition relay_config_of :: "setting_values option \<Rightarrow> relay_config" where
  "relay_config_of settings = \<lparr>max_deliver = nat (MAX_DELIVER settings), dlq_subject = DLQ_SUBJECT settings\<rparr>"

text \<open>
  The lifespan: with no settings nothing is set up; else the store is opened, the service built on it and
  both put where the handler finds them, with the progress marker at the path of the settings.
\<close>

record 's relay_globals =
  rg_store :: "'s store_api"
  rg_service :: "'s service"
  rg_settings :: setting_values
  rg_marker_path :: string

record relay_parts =
  rp_prims :: prims
  rp_pydantic :: pydantic
  rp_tokenizer :: tokenizer
  rp_overlap :: "int \<Rightarrow> real \<Rightarrow> int"
  rp_forward_fuel :: nat
  rp_json_error :: "string \<Rightarrow> string"

definition relay_service :: "relay_parts \<Rightarrow> setting_values \<Rightarrow> 's store_api \<Rightarrow> 's service" where
  "relay_service rp st store =
     \<lparr>s_prims = rp_prims rp, s_store = store, s_pydantic = rp_pydantic rp, s_tokenizer = rp_tokenizer rp,
      s_chunk_target_tokens = number_of st ''chunk_target_tokens'',
      s_overlap_tokens = rp_overlap rp (number_of st ''chunk_target_tokens'') (float_of st ''chunk_overlap_ratio''),
      s_forward_fuel = rp_forward_fuel rp, s_json_error = rp_json_error rp\<rparr>"

definition app_lifespan :: "'s pg_library \<Rightarrow> relay_parts \<Rightarrow> setting_values option \<Rightarrow> exn + 's relay_globals option" where
  "app_lifespan pl rp settings =
     (case settings of
        None \<Rightarrow> Inr None
      | Some st \<Rightarrow>
          and_then (async_store_context pl st) (\<lambda>(store, warning).
            Inr (Some \<lparr>rg_store = store, rg_service = relay_service rp st store, rg_settings = st,
              rg_marker_path = text_of st ''fence_relay_marker_path''\<rparr>)))"

subsection \<open>The liveness fence\<close>

record fence_args =
  fa_store_only :: bool
  fa_relay_only :: bool
  fa_store_max_age_hours :: "int option"
  fa_build_window_hours :: "int option"
  fa_min_builds :: "int option"
  fa_builds_dir :: "string option"
  fa_marker :: "string option"
  fa_state_dir :: "string option"
  fa_watch_projects :: "string option"

definition DSN_ENV_VAR :: string where "DSN_ENV_VAR = ''FLEET_MEMORY_PG_DSN''"
definition EMBED_ENV_VAR :: string where "EMBED_ENV_VAR = ''FLEET_MEMORY_EMBED_URL''"
definition PLACEHOLDER_EMBED_URL :: string where "PLACEHOLDER_EMBED_URL = ''http://unused-by-fence''"
definition PLACEHOLDER_DSN :: string where "PLACEHOLDER_DSN = ''postgresql://unused-by-relay-only-fence''"
definition ACK_FILENAME :: string where "ACK_FILENAME = ''liveness-fence.ack''"

text \<open>An option of the command line overrides its setting when it was given.\<close>

definition given_as :: "('a \<Rightarrow> setting) \<Rightarrow> string \<Rightarrow> 'a option \<Rightarrow> setting_values" where
  "given_as mk name v = (case v of None \<Rightarrow> [] | Some x \<Rightarrow> [(name, mk x)])"

definition fence_dsn :: "fence_args \<Rightarrow> environment \<Rightarrow> string option" where
  "fence_dsn args env =
     (let dsn = text_or (dict_get (env_vars env) DSN_ENV_VAR) [] in
      if fa_relay_only args then Some (if dsn = [] then PLACEHOLDER_DSN else dsn)
      else if dsn = [] then None else Some dsn)"

definition fence_overrides :: "fence_args \<Rightarrow> environment \<Rightarrow> string \<Rightarrow> setting_values" where
  "fence_overrides args env dsn =
     [(''pg_dsn'', Str_v dsn)]
     @ (if dict_get (env_vars env) EMBED_ENV_VAR = None then [(''embed_url'', Str_v PLACEHOLDER_EMBED_URL)] else [])
     @ given_as Str_v ''fence_builds_dir'' (fa_builds_dir args) @ given_as Str_v ''fence_relay_marker_path'' (fa_marker args)
     @ given_as Str_v ''fence_state_dir'' (fa_state_dir args) @ given_as Str_v ''fence_watch_projects'' (fa_watch_projects args)
     @ given_as Int_v ''fence_store_max_age_hours'' (fa_store_max_age_hours args)
     @ given_as Int_v ''fence_build_window_hours'' (fa_build_window_hours args)
     @ given_as Int_v ''fence_min_builds_in_window'' (fa_min_builds args)"

text \<open>The settings of a run, or the message of the usage error.\<close>

definition fence_resolve_settings :: "number_reader \<Rightarrow> environment \<Rightarrow> fence_args \<Rightarrow> string + setting_values" where
  "fence_resolve_settings nr env args =
     (case fence_dsn args env of
        None \<Rightarrow> Inl (DSN_ENV_VAR @ '' is not set, so the fence cannot look at the memory store. ''
          @ ''The unit supplies it through its sops exec-env wrap; there is no --dsn ''
          @ ''flag by policy. Use --relay-only to skip the store check.'')
      | Some dsn \<Rightarrow>
          (case settings_init nr env (fence_overrides args env dsn) of
             Inl e \<Rightarrow> Inl (''the fence'' @ [CHR 0x27] @ ''s configuration is not usable: ValidationError'')
           | Inr st \<Rightarrow> Inr st))"

definition fence_thresholds :: "setting_values \<Rightarrow> thresholds" where
  "fence_thresholds st =
     \<lparr>store_max_age_hours = number_of st ''fence_store_max_age_hours'', build_window_hours = number_of st ''fence_build_window_hours'',
      min_builds_in_window = number_of st ''fence_min_builds_in_window'',
      relay_restart_grace_minutes = number_of st ''fence_relay_restart_grace_minutes'',
      watch_projects = watch_list (text_of st ''fence_watch_projects'')\<rparr>"

text \<open>What the fence reads: the directory of receipts, files, and the database at an address.\<close>

record 's fence_world =
  fw_calendar :: calendar
  fw_float_int :: "string \<Rightarrow> exn + int"
  fw_sql :: "string \<Rightarrow> 's sql"
  fw_dir :: "string \<Rightarrow> dir_read"
  fw_file :: "string \<Rightarrow> file_read"
  fw_now :: int
  fw_today :: int

definition fence_command :: "number_reader \<Rightarrow> environment \<Rightarrow> 's fence_world \<Rightarrow> fence_args \<Rightarrow> ('s, int \<times> fence_report option) comp" where
  "fence_command nr env fw args =
     (case fence_resolve_settings nr env args of
        Inl m \<Rightarrow> ret (2, None)
      | Inr st \<Rightarrow>
          fence_main (fw_calendar fw) (fw_float_int fw) (fw_sql fw (text_of st ''pg_dsn'')) (fence_thresholds st)
            (fw_dir fw (text_of st ''fence_builds_dir'')) (fw_file fw (text_of st ''fence_relay_marker_path''))
            (fw_file fw (text_of st ''fence_state_dir'' @ ''/'' @ ACK_FILENAME)) (fw_now fw) (fw_today fw)
            (fa_store_only args) (fa_relay_only args))"

subsection \<open>The MCP service\<close>

definition mcp_settings_of :: "setting_values \<Rightarrow> mcp_settings" where
  "mcp_settings_of st =
     \<lparr>mcp_port = number_of st ''mcp_port'', mcp_sandbox_port = text_of st ''mcp_sandbox_port'',
      mcp_sandbox_doors = text_of st ''mcp_sandbox_doors'', mcp_allowed_hosts = text_of st ''mcp_allowed_hosts''\<rparr>"

text \<open>What the process does: it serves one transport, or ends with an exit code.\<close>

datatype mcp_process =
    Serve_stdio "tool list"
  | Serve_http string "string list option \<times> bool option" "(tool list \<times> int) list"
  | Mcp_exit int

definition mcp_main :: "number_reader \<Rightarrow> environment \<Rightarrow> exn + mcp_process" where
  "mcp_main nr env =
     (case settings_init nr env [] of
        Inl e \<Rightarrow> Inr (Mcp_exit 1)
      | Inr st \<Rightarrow>
          (case build_servers (mcp_settings_of st) of
             Inl e \<Rightarrow> if is_ValueError e then Inr (Mcp_exit 1) else Inl e
           | Inr (main, doors) \<Rightarrow>
               (let transport = lower (strip (text_of st ''mcp_transport'')) in
                if transport = ''http''
                then Inr (Serve_http (text_of st ''mcp_host'') (http_guard_options (mcp_settings_of st)) ((main, number_of st ''mcp_port'') # doors))
                else if transport = ''stdio'' then Inr (Serve_stdio main)
                else Inr (Mcp_exit 1))))"

subsection \<open>The harvest script\<close>

record harvest_args =
  ha_run_id :: "string option"
  ha_since :: "string option"
  ha_dsn :: "string option"
  ha_intake_dir :: "string option"
  ha_queue_dir :: "string option"
  ha_public_projects :: "string option"
  ha_require_acceptance :: bool

definition harvest_overrides :: "environment \<Rightarrow> harvest_args \<Rightarrow> string \<Rightarrow> setting_values" where
  "harvest_overrides env args dsn =
     [(''pg_dsn'', Str_v dsn)] @ given_as Str_v ''chronicler_dataset_intake_dir'' (ha_intake_dir args)
     @ given_as Str_v ''chronicler_story_card_queue_dir'' (ha_queue_dir args)
     @ given_as Str_v ''chronicler_public_projects'' (ha_public_projects args)
     @ (if dict_get (env_vars env) EMBED_ENV_VAR = None then [(''embed_url'', Str_v ''http://unused-by-harvest'')] else [])"

text \<open>\<open>None\<close> for the usage error of a missing address.\<close>

definition harvest_resolve_settings :: "number_reader \<Rightarrow> environment \<Rightarrow> harvest_args \<Rightarrow> exn + setting_values option" where
  "harvest_resolve_settings nr env args =
     (let dsn = text_or (ha_dsn args) (text_or (dict_get (env_vars env) DSN_ENV_VAR) []) in
      if dsn = [] then Inr None
      else and_then (settings_init nr env (harvest_overrides env args dsn)) (\<lambda>st. Inr (Some st)))"

definition chronicler_settings_of :: "setting_values \<Rightarrow> chronicler_settings" where
  "chronicler_settings_of st =
     \<lparr>cs_scan_limit = nat (number_of st ''chronicler_scan_limit''), cs_public_projects = text_of st ''chronicler_public_projects'',
      cs_dataset_intake_dir = text_of st ''chronicler_dataset_intake_dir'',
      cs_story_card_queue_dir = text_of st ''chronicler_story_card_queue_dir''\<rparr>"

text \<open>
  The exit code and the object printed. \<open>clock\<close> is the time stamp a run without id is named by,
  \<open>open_store\<close> gives the store of the settings and the reading of its namespaces.
\<close>

definition harvest_command ::
  "number_reader \<Rightarrow> environment \<Rightarrow> string \<Rightarrow> (setting_values \<Rightarrow> exn + 's store_api \<times> 's list_namespaces) \<Rightarrow> (item \<Rightarrow> created) \<Rightarrow>
   harvest_args \<Rightarrow> ('s \<times> files, int \<times> (string \<times> json) list option) comp" where
  "harvest_command nr env clock open_store created_at args =
     bind (lift_res (harvest_resolve_settings nr env args)) (\<lambda>resolved.
       case resolved of
         None \<Rightarrow> ret (2, None)
       | Some st \<Rightarrow>
           bind (lift_res (open_store st)) (\<lambda>(store, list_ns).
           bind (run_chronicler store list_ns created_at (chronicler_settings_of st) (text_or (ha_run_id args) clock) (ha_since args)) (\<lambda>r.
             ret (if ha_require_acceptance args \<and> \<not> meets_acceptance r then 1 else 0, Some (as_dict r)))))"

subsection \<open>The re-index command line\<close>

definition reindex_load :: "number_reader \<Rightarrow> environment \<Rightarrow> setting_values load_settings" where
  "reindex_load nr env given = settings_init nr env (map (\<lambda>(k, v). (k, Str_v v)) given)"

definition reindex_settings_of :: "setting_values \<Rightarrow> reindex_settings" where
  "reindex_settings_of st =
     \<lparr>rs_corpus_manifest = Some (text_of st ''corpus_manifest''), rs_publish_nats_url = Some (text_of st ''publish_nats_url''),
      rs_corpus_root = path_parts (text_of st ''corpus_root''), rs_backfill_dir = path_parts (text_of st ''backfill_dir''),
      rs_dlq_subject = text_of st ''dlq_subject''\<rparr>"


subsection \<open>What an accepted configuration guarantees\<close>

lemmas settings_fields_defs =
  SETTINGS_FIELDS_def required_fields_def corpus_fields_def publish_fields_def chronicler_fields_def embed_fields_def pool_fields_def
  nats_fields_def mcp_fields_def dlq_fields_def fence_fields_def chunk_fields_def required_text_def text_field_def number_field_def
  float_field_def

lemma settings_names_distinct: "distinct (map sf_name SETTINGS_FIELDS)"
  by (simp add: settings_fields_defs)

lemma map_filter_get:
  "distinct (map fst rs) \<Longrightarrow> (n, Inr v) \<in> set rs \<Longrightarrow>
   dict_get (List.map_filter (\<lambda>(n, r). case r of Inl e \<Rightarrow> None | Inr v \<Rightarrow> Some (n, v)) rs) n = Some v"
proof (induction rs)
  case (Cons p rs)
  obtain m r where p: "p = (m, r)" by (cases p)
  show ?case
  proof (cases "m = n")
    case True
    with Cons.prems p have "r = Inr v" by (force simp: image_iff)
    then show ?thesis using True p by (simp add: map_filter_simps dict_get_def)
  next
    case False
    with Cons p show ?thesis by (cases r) (auto simp: map_filter_simps dict_get_def)
  qed
qed simp

lemma settings_field:
  assumes "settings_init nr env given = Inr st" and "f \<in> set SETTINGS_FIELDS"
  obtains v where "field_value nr env given f = Inr v" and "dict_get st (sf_name f) = Some v"
proof -
  define rs where "rs = map (\<lambda>f. (sf_name f, field_value nr env given f)) SETTINGS_FIELDS"
  from assms(1) have none: "List.map_filter (\<lambda>(n, r). case r of Inl e \<Rightarrow> Some e | Inr v \<Rightarrow> None) rs = []"
    and st: "st = List.map_filter (\<lambda>(n, r). case r of Inl e \<Rightarrow> None | Inr v \<Rightarrow> Some (n, v)) rs"
    by (auto simp: settings_init_def Let_def rs_def split: if_splits)
  have mem: "(sf_name f, field_value nr env given f) \<in> set rs" using assms(2) by (auto simp: rs_def)
  have "(case field_value nr env given f of Inl e \<Rightarrow> Some e | Inr v \<Rightarrow> None) = None"
    using none mem by (force simp: map_filter_def filter_empty_conv)
  then obtain v where v: "field_value nr env given f = Inr v" by (cases "field_value nr env given f") simp_all
  have "map fst rs = map sf_name SETTINGS_FIELDS" by (simp add: rs_def comp_def)
  then have "dict_get st (sf_name f) = Some v"
    unfolding st using mem v settings_names_distinct by (intro map_filter_get) simp_all
  then show thesis using that v by blast
qed

fun has_kind :: "setting_kind \<Rightarrow> setting \<Rightarrow> bool" where
  "has_kind Str_kind (Str_v s) = True"
| "has_kind Int_kind (Int_v i) = True"
| "has_kind Float_kind (Float_v x) = True"
| "has_kind _ _ = False"

lemma coerce_has_kind: "coerce_setting nr k raw = Some v \<Longrightarrow> has_kind k v"
  by (cases k; cases raw) (auto simp: coerce_setting_def split: if_splits)

lemma settings_defaults:
  "f \<in> set SETTINGS_FIELDS \<Longrightarrow>
     (case sf_default f of None \<Rightarrow> True | Some d \<Rightarrow> has_kind (sf_kind f) d \<and> within_limit (sf_limit f) d \<and> sf_name f \<notin> {''pg_dsn'', ''embed_url''}) \<and>
     (sf_name f \<in> {''pg_dsn'', ''embed_url''} \<longrightarrow> sf_kind f = Str_kind)"
  by (auto simp: settings_fields_defs)

lemma accepted_field:
  assumes "settings_init nr env given = Inr st" and "f \<in> set SETTINGS_FIELDS"
  shows "\<exists>v. dict_get st (sf_name f) = Some v \<and> has_kind (sf_kind f) v \<and> within_limit (sf_limit f) v \<and>
    (case raw_value env given (sf_name f) of None \<Rightarrow> sf_default f | Some raw \<Rightarrow> coerce_setting nr (sf_kind f) raw) = Some v \<and>
    (sf_name f \<in> {''pg_dsn'', ''embed_url''} \<longrightarrow> (\<exists>s. v = Str_v s \<and> strip s \<noteq> []))"
proof -
  obtain v where v: "field_value nr env given f = Inr v" "dict_get st (sf_name f) = Some v" by (rule settings_field [OF assms])
  note d = settings_defaults [OF assms(2)]
  show ?thesis
  proof (cases "raw_value env given (sf_name f)")
    case None
    with v d show ?thesis by (auto simp: field_value_def split: option.splits)
  next
    case (Some raw)
    with v(1) have c: "coerce_setting nr (sf_kind f) raw = Some v" "within_limit (sf_limit f) v"
      by (auto simp: field_value_def validate_not_empty_def split: option.splits if_splits setting.splits)
    moreover note coerce_has_kind [OF c(1)]
    moreover have "\<exists>s. v = Str_v s \<and> strip s \<noteq> []" if n: "sf_name f \<in> {''pg_dsn'', ''embed_url''}"
    proof -
      from d n have "sf_kind f = Str_kind" by blast
      with coerce_has_kind [OF c(1)] obtain s where "v = Str_v s" by (cases v) simp_all
      then show ?thesis using v(1) Some c n by (auto simp: field_value_def validate_not_empty_def split: if_splits)
    qed
    ultimately show ?thesis using v(2) Some by auto
  qed
qed

lemma accepted_number:
  assumes "settings_init nr env given = Inr st" and "number_field n d l \<in> set SETTINGS_FIELDS"
  shows "within_limit l (Int_v (number_of st n))"
proof -
  from accepted_field [OF assms] obtain v where v: "dict_get st n = Some v" "has_kind Int_kind v" "within_limit l v"
    by (auto simp: number_field_def)
  then obtain i where "v = Int_v i" by (cases v) simp_all
  with v show ?thesis by (simp add: number_of_def)
qed

lemma accepted_required:
  assumes "settings_init nr env given = Inr st" and "n \<in> {''pg_dsn'', ''embed_url''}"
  shows "strip (text_of st n) \<noteq> []"
proof -
  have "required_text n \<in> set SETTINGS_FIELDS" using assms(2) by (auto simp: SETTINGS_FIELDS_def required_fields_def)
  from accepted_field [OF assms(1) this] assms(2) show ?thesis by (auto simp: required_text_def text_of_def)
qed

text \<open>
  C22: What a configuration that is accepted gives the components: every field has a value of its type within
  its bounds, taken from the keyword arguments, else the environment, else \<open>.env\<close>, else the default; the
  two addresses are not blank; the fence has positive limits, the embedding client a positive budget, and
  the Chronicler reads at least one record of a namespace.
\<close>

theorem settings_accepted:
  assumes "settings_init nr env given = Inr st"
  shows "(\<forall>f \<in> set SETTINGS_FIELDS. \<exists>v. dict_get st (sf_name f) = Some v \<and> has_kind (sf_kind f) v \<and> within_limit (sf_limit f) v \<and>
      (case raw_value env given (sf_name f) of None \<Rightarrow> sf_default f | Some raw \<Rightarrow> coerce_setting nr (sf_kind f) raw) = Some v) \<and>
    strip (text_of st ''pg_dsn'') \<noteq> [] \<and> strip (text_of st ''embed_url'') \<noteq> [] \<and>
    0 < store_max_age_hours (fence_thresholds st) \<and> 0 < build_window_hours (fence_thresholds st) \<and>
    0 < min_builds_in_window (fence_thresholds st) \<and> 0 \<le> relay_restart_grace_minutes (fence_thresholds st) \<and>
    0 < number_of st ''embed_max_batch_tokens'' \<and> 0 < cs_scan_limit (chronicler_settings_of st)"
proof (intro conjI ballI)
  fix f assume "f \<in> set SETTINGS_FIELDS"
  from accepted_field [OF assms this] show "\<exists>v. dict_get st (sf_name f) = Some v \<and> has_kind (sf_kind f) v \<and> within_limit (sf_limit f) v \<and>
      (case raw_value env given (sf_name f) of None \<Rightarrow> sf_default f | Some raw \<Rightarrow> coerce_setting nr (sf_kind f) raw) = Some v" by blast
next
  show "strip (text_of st ''pg_dsn'') \<noteq> []" "strip (text_of st ''embed_url'') \<noteq> []"
    using accepted_required [OF assms] by simp_all
  note n = accepted_number [OF assms]
  show "0 < store_max_age_hours (fence_thresholds st)" "0 < build_window_hours (fence_thresholds st)"
    "0 < min_builds_in_window (fence_thresholds st)" "0 \<le> relay_restart_grace_minutes (fence_thresholds st)"
    using n [of "''fence_store_max_age_hours''" 168 "Above 0"] n [of "''fence_build_window_hours''" 72 "Above 0"]
      n [of "''fence_min_builds_in_window''" 3 "Above 0"] n [of "''fence_relay_restart_grace_minutes''" 75 "From 0"]
    by (simp_all add: SETTINGS_FIELDS_def fence_fields_def fence_thresholds_def)
  show "0 < number_of st ''embed_max_batch_tokens''"
    using n [of "''embed_max_batch_tokens''" 2048 "Above 0"] by (simp add: SETTINGS_FIELDS_def embed_fields_def)
  show "0 < cs_scan_limit (chronicler_settings_of st)"
    using n [of "''chronicler_scan_limit''" 1000 "Above 0"] by (simp add: SETTINGS_FIELDS_def chronicler_fields_def chronicler_settings_of_def)
qed


lemma settings_init_ok:
  assumes "\<And>f. f \<in> set SETTINGS_FIELDS \<Longrightarrow> \<exists>v. field_value nr env given f = Inr v"
  shows "\<exists>st. settings_init nr env given = Inr st"
proof -
  have "List.map_filter (\<lambda>(n, r). case r of Inl e \<Rightarrow> Some e | Inr v \<Rightarrow> None)
      (map (\<lambda>f. (sf_name f, field_value nr env given f)) SETTINGS_FIELDS) = []"
    using assms by (fastforce simp: map_filter_def filter_empty_conv)
  then show ?thesis by (simp add: settings_init_def Let_def)
qed

text \<open>An environment with no variable of the program.\<close>

definition silent :: "environment \<Rightarrow> bool" where
  "silent env \<longleftrightarrow> (\<forall>n. env_get (env_vars env) n = None \<and> env_get (env_dotenv env) n = None)"

lemma silent_raw: "silent env \<Longrightarrow> raw_value env given n = dict_get given n"
  by (simp add: silent_def raw_value_def split: option.splits)

lemma silent_empty: "silent \<lparr>env_vars = [], env_dotenv = []\<rparr>"
  by (simp add: silent_def env_get_def dict_get_def)

lemma silent_refused: "silent env \<Longrightarrow> \<exists>e. settings_init nr env [] = Inl e"
proof -
  assume "silent env"
  then have "field_value nr env [] (required_text ''pg_dsn'') = Inl ''pg_dsn: Field required''"
    by (simp add: field_value_def silent_raw required_text_def dict_get_def)
  moreover have "required_text ''pg_dsn'' \<in> set SETTINGS_FIELDS" by (simp add: SETTINGS_FIELDS_def required_fields_def)
  ultimately show ?thesis
  proof (cases "settings_init nr env []")
    case (Inr st)
    obtain v where "field_value nr env [] (required_text ''pg_dsn'') = Inr v"
      by (rule settings_field [OF Inr \<open>required_text ''pg_dsn'' \<in> set SETTINGS_FIELDS\<close>])
    with \<open>field_value nr env [] (required_text ''pg_dsn'') = Inl _\<close> show ?thesis by simp
  qed simp
qed

lemma optional_fields:
  "\<forall>f \<in> set (corpus_fields @ publish_fields @ chronicler_fields @ embed_fields @ pool_fields @ nats_fields @ mcp_fields @ dlq_fields
     @ fence_fields @ chunk_fields). sf_default f \<noteq> None"
  by (simp add: settings_fields_defs)

lemma silent_accepted:
  assumes "silent env" and "strip a \<noteq> []" and "strip b \<noteq> []"
  shows "\<exists>st. settings_init nr env [(''pg_dsn'', Str_v a), (''embed_url'', Str_v b)] = Inr st \<and> text_of st ''pg_dsn'' = a \<and> text_of st ''embed_url'' = b"
proof -
  let ?given = "[(''pg_dsn'', Str_v a), (''embed_url'', Str_v b)]"
  have r: "field_value nr env ?given (required_text ''pg_dsn'') = Inr (Str_v a)"
    "field_value nr env ?given (required_text ''embed_url'') = Inr (Str_v b)"
    using assms by (simp_all add: field_value_def silent_raw required_text_def dict_get_def coerce_setting_def validate_not_empty_def)
  have "\<exists>v. field_value nr env ?given f = Inr v" if f: "f \<in> set SETTINGS_FIELDS" for f
  proof (cases "f \<in> set required_fields")
    case True
    with r show ?thesis by (auto simp: required_fields_def)
  next
    case False
    with f have "sf_default f \<noteq> None" using optional_fields by (auto simp: SETTINGS_FIELDS_def)
    with settings_defaults [OF f] have "sf_default f \<noteq> None \<and> sf_name f \<notin> {''pg_dsn'', ''embed_url''}" by auto
    then show ?thesis using assms(1) by (auto simp: field_value_def silent_raw dict_get_def)
  qed
  then obtain st where st: "settings_init nr env ?given = Inr st" using settings_init_ok by blast
  have f: "required_text ''pg_dsn'' \<in> set SETTINGS_FIELDS" "required_text ''embed_url'' \<in> set SETTINGS_FIELDS"
    by (simp_all add: SETTINGS_FIELDS_def required_fields_def)
  obtain v w where "field_value nr env ?given (required_text ''pg_dsn'') = Inr v" "dict_get st (sf_name (required_text ''pg_dsn'')) = Some v"
    and "field_value nr env ?given (required_text ''embed_url'') = Inr w" "dict_get st (sf_name (required_text ''embed_url'')) = Some w"
    using settings_field [OF st f(1)] settings_field [OF st f(2)] by metis
  then have "dict_get st ''pg_dsn'' = Some (Str_v a)" "dict_get st ''embed_url'' = Some (Str_v b)"
    using r by (simp_all add: required_text_def)
  then show ?thesis using st by (simp add: text_of_def)
qed

definition no_numbers :: number_reader where
  "no_numbers = \<lparr>nr_int = (\<lambda>s. None), nr_float = (\<lambda>s. None), nr_error = concat\<rparr>"

theorem settings_accepted_witness:
  "\<exists>st. settings_init no_numbers \<lparr>env_vars = [], env_dotenv = []\<rparr> [(''pg_dsn'', Str_v ''db''), (''embed_url'', Str_v ''url'')] = Inr st \<and>
     strip (text_of st ''pg_dsn'') \<noteq> [] \<and> 0 < number_of st ''embed_max_batch_tokens'' \<and> 0 < cs_scan_limit (chronicler_settings_of st)"
proof -
  have "strip ''db'' \<noteq> []" "strip ''url'' \<noteq> []" by (simp_all add: strip_def strip_by_def lstrip_by_def rstrip_by_def char_class_defs)
  from silent_accepted [OF silent_empty this, of no_numbers] obtain st where
    st: "settings_init no_numbers \<lparr>env_vars = [], env_dotenv = []\<rparr> [(''pg_dsn'', Str_v ''db''), (''embed_url'', Str_v ''url'')] = Inr st" by blast
  from settings_accepted [OF st] st show ?thesis by blast
qed

text \<open>
  Two relations the comments ask for are not checked: the embedding timeout may exceed the acknowledgement
  window, and the overlap ratio may be 1.
\<close>

lemma settings_relations_unchecked:
  "\<exists>st. settings_init no_numbers \<lparr>env_vars = [], env_dotenv = []\<rparr>
      [(''pg_dsn'', Str_v ''db''), (''embed_url'', Str_v ''url''), (''embed_timeout_s'', Float_v 2000), (''chunk_overlap_ratio'', Float_v 1)] = Inr st \<and>
    of_int (number_of st ''ack_wait_s'') < float_of st ''embed_timeout_s'' \<and> float_of st ''chunk_overlap_ratio'' = 1"
  (is "\<exists>st. settings_init ?nr ?env ?given = Inr st \<and> _")
proof -
  have r: "raw_value ?env ?given n = dict_get ?given n" for n by (rule silent_raw [OF silent_empty])
  have t: "strip ''db'' \<noteq> []" "strip ''url'' \<noteq> []" by (simp_all add: strip_def strip_by_def lstrip_by_def rstrip_by_def char_class_defs)
  have "\<exists>v. field_value ?nr ?env ?given f = Inr v" if "f \<in> set SETTINGS_FIELDS" for f
    using that t by (auto simp: settings_fields_defs field_value_def r dict_get_def coerce_setting_def validate_not_empty_def)
  then obtain st where st: "settings_init ?nr ?env ?given = Inr st" using settings_init_ok by blast
  have f: "float_field ''embed_timeout_s'' 180 \<in> set SETTINGS_FIELDS" "float_field ''chunk_overlap_ratio'' (15 / 100) \<in> set SETTINGS_FIELDS"
    "number_field ''ack_wait_s'' 1200 Unlimited \<in> set SETTINGS_FIELDS"
    by (simp_all add: SETTINGS_FIELDS_def embed_fields_def chunk_fields_def dlq_fields_def)
  note a = accepted_field [OF st f(1)] accepted_field [OF st f(2)] accepted_field [OF st f(3)]
  then have "dict_get st ''embed_timeout_s'' = Some (Float_v 2000)" "dict_get st ''chunk_overlap_ratio'' = Some (Float_v 1)"
    "dict_get st ''ack_wait_s'' = Some (Int_v 1200)"
    by (auto simp: r dict_get_def coerce_setting_def float_field_def number_field_def)
  then show ?thesis using st by (simp add: number_of_def float_of_def)
qed


subsection \<open>The entry points\<close>

lemma fence_main_result:
  assumes "fence_main cal fi q th receipts marker_file ack_file now today store_only relay_only s = (Ok (code, r), s')"
  shows "case r of
      None \<Rightarrow> code = 20
    | Some rep \<Rightarrow> code = exit_code rep \<and> fr_thresholds rep = th"
  using assms
  by (auto simp: fence_main_def catch_def bind_def ret_def Let_def evaluate_def split: prod.splits res.splits if_splits)

lemma fence_main_relay_only:
  "\<exists>x. fence_main cal fi q th receipts marker_file ack_file now today store_only True s = (Ok x, s)"
  by (cases "read_marker cal fi [] marker_file"; cases "read_ack cal [] today ack_file") (auto simp: fence_main_def catch_def bind_def ret_def throw_def lift_res_def Let_def)

text \<open>
  The exit codes of the fence: 2 with a configuration that cannot be used, and nothing is read then; 20
  when no report was made; else 1 or 0 by the verdict, judged by positive limits taken from the
  configuration. A run of the relay check alone leaves the database alone and needs no address of it, but
  no other run starts without one.
\<close>

theorem fence_exit_codes:
  assumes "fence_command nr env fw args s = (Ok (code, r), s')"
  shows "(case fence_resolve_settings nr env args of
      Inl m \<Rightarrow> code = 2 \<and> r = None \<and> s' = s
    | Inr st \<Rightarrow> (case r of None \<Rightarrow> code = 20 | Some rep \<Rightarrow> code = exit_code rep \<and> fr_thresholds rep = fence_thresholds st) \<and>
        0 < store_max_age_hours (fence_thresholds st) \<and> 0 < build_window_hours (fence_thresholds st) \<and>
        0 < min_builds_in_window (fence_thresholds st)) \<and>
    (fa_relay_only args \<longrightarrow> s' = s) \<and>
    (\<not> fa_relay_only args \<and> text_or (dict_get (env_vars env) DSN_ENV_VAR) [] = [] \<longrightarrow> code = 2)"
proof (cases "fence_resolve_settings nr env args")
  case (Inl m)
  with assms show ?thesis by (auto simp: fence_command_def ret_def)
next
  case (Inr st)
  then obtain given where init: "settings_init nr env given = Inr st"
    by (auto simp: fence_resolve_settings_def split: option.splits sum.splits)
  note n = accepted_number [OF init]
  have "0 < store_max_age_hours (fence_thresholds st)" "0 < build_window_hours (fence_thresholds st)"
    "0 < min_builds_in_window (fence_thresholds st)"
    using n [of "''fence_store_max_age_hours''" 168 "Above 0"] n [of "''fence_build_window_hours''" 72 "Above 0"]
      n [of "''fence_min_builds_in_window''" 3 "Above 0"]
    by (simp_all add: SETTINGS_FIELDS_def fence_fields_def fence_thresholds_def)
  moreover have "case r of None \<Rightarrow> code = 20 | Some rep \<Rightarrow> code = exit_code rep \<and> fr_thresholds rep = fence_thresholds st"
    using assms Inr fence_main_result by (simp add: fence_command_def)
  moreover have "s' = s" if "fa_relay_only args"
  proof -
    have "\<exists>x. fence_command nr env fw args s = (Ok x, s)"
      by (simp only: fence_command_def Inr sum.case that fence_main_relay_only)
    with assms show ?thesis by auto
  qed
  moreover have "fa_relay_only args \<or> text_or (dict_get (env_vars env) DSN_ENV_VAR) [] \<noteq> []"
    using Inr by (auto simp: fence_resolve_settings_def fence_dsn_def Let_def)
  ultimately show ?thesis using Inr by auto
qed

text \<open>
  Without any configuration a census still runs, with placeholders no connection is made from, and every
  other run of the re-index command ends with exit code 1 having touched nothing.
\<close>

theorem census_without_settings:
  assumes "silent env"
  shows "if g_dry_run args
    then \<exists>st. reindex_settings_for (reindex_load nr env) args = Inr st \<and> text_of st ''pg_dsn'' = ''postgresql://dry-run-placeholder/none'' \<and>
      (\<not> g_parity args \<and> \<not> g_audit args \<longrightarrow> reindex_main (reindex_load nr env) runs args s = do_dry_run runs st args s)
    else reindex_main (reindex_load nr env) runs args s = (Ok 1, s)"
proof -
  obtain e where e: "settings_init nr env [] = Inl e" using silent_refused [OF assms] by blast
  have "strip ''postgresql://dry-run-placeholder/none'' \<noteq> []" "strip ''http://dry-run-placeholder.invalid'' \<noteq> []"
    by (simp_all add: strip_def strip_by_def lstrip_by_def rstrip_by_def char_class_defs)
  from silent_accepted [OF assms this, of nr] obtain st
    where st: "settings_init nr env [(''pg_dsn'', Str_v ''postgresql://dry-run-placeholder/none''),
        (''embed_url'', Str_v ''http://dry-run-placeholder.invalid'')] = Inr st"
      and dsn: "text_of st ''pg_dsn'' = ''postgresql://dry-run-placeholder/none''" by blast
  have "reindex_load nr env DRY_RUN_PLACEHOLDERS = Inr st" by (simp add: reindex_load_def DRY_RUN_PLACEHOLDERS_def st)
  with e dsn show ?thesis by (auto simp: reindex_settings_for_def reindex_load_def reindex_main_def ret_def)
qed

text \<open>With \<open>--require-acceptance\<close> the harvest ends with 0 only when it emitted a dataset row and a story card.\<close>

lemma harvest_acceptance:
  assumes "harvest_command nr env clock open_store created_at args s = (Ok (0, out), s')" and "ha_require_acceptance args"
  shows "\<exists>r. out = Some (as_dict r) \<and> 1 \<le> cr_dataset_row_count r \<and> 1 \<le> cr_story_card_count r"
  using assms by (auto simp: harvest_command_def bind_Ok_iff ret_eval meets_acceptance_def split: option.splits if_splits prod.splits)


definition sample_runs :: "(unit, setting_values) reindex_runs" where
  "sample_runs = \<lparr>do_parity = (\<lambda>st a. ret 0), do_audit = (\<lambda>st a. ret 0), do_dry_run = (\<lambda>st a. ret 0), do_publish = (\<lambda>st a. ret 0)\<rparr>"

theorem census_without_settings_witness:
  "reindex_main (reindex_load no_numbers \<lparr>env_vars = [], env_dotenv = []\<rparr>) sample_runs (no_args\<lparr>g_dry_run := True\<rparr>) () = (Ok 0, ()) \<and>
   reindex_main (reindex_load no_numbers \<lparr>env_vars = [], env_dotenv = []\<rparr>) sample_runs no_args () = (Ok 1, ())"
  using census_without_settings [OF silent_empty, of "no_args\<lparr>g_dry_run := True\<rparr>" no_numbers sample_runs "()"]
    census_without_settings [OF silent_empty, of no_args no_numbers sample_runs "()"]
  by (auto simp: no_args_def sample_runs_def ret_def)


definition sample_world :: "nat fence_world" where
  "sample_world =
     \<lparr>fw_calendar = toy_calendar, fw_float_int = no_float, fw_sql = (\<lambda>dsn. sample_sql), fw_dir = (\<lambda>p. DirNotFound),
      fw_file = (\<lambda>p. NotFound), fw_now = 9, fw_today = 0\<rparr>"

definition fence_args_for :: "bool \<Rightarrow> fence_args" where
  "fence_args_for relay_only =
     \<lparr>fa_store_only = False, fa_relay_only = relay_only, fa_store_max_age_hours = None, fa_build_window_hours = None, fa_min_builds = None,
      fa_builds_dir = None, fa_marker = None, fa_state_dir = None, fa_watch_projects = None\<rparr>"

theorem fence_exit_codes_witness:
  "(\<exists>r. fence_command no_numbers \<lparr>env_vars = [], env_dotenv = []\<rparr> sample_world (fence_args_for False) 0 = (Ok (2, r), 0)) \<and>
   (\<exists>code r. fence_command no_numbers \<lparr>env_vars = [], env_dotenv = []\<rparr> sample_world (fence_args_for True) 0 = (Ok (code, r), 0) \<and>
      code \<in> {0, 1, 20})"
proof -
  let ?env = "\<lparr>env_vars = [], env_dotenv = []\<rparr>"
  have first: "fence_command no_numbers ?env sample_world (fence_args_for False) 0 = (Ok (2, None), 0)"
    by (simp add: fence_command_def fence_resolve_settings_def fence_dsn_def fence_args_for_def text_or_def dict_get_def ret_def)
  have "strip PLACEHOLDER_DSN \<noteq> []" "strip PLACEHOLDER_EMBED_URL \<noteq> []"
    by (simp_all add: PLACEHOLDER_DSN_def PLACEHOLDER_EMBED_URL_def strip_def strip_by_def lstrip_by_def rstrip_by_def char_class_defs)
  from silent_accepted [OF silent_empty this, of no_numbers] obtain st
    where "settings_init no_numbers ?env [(''pg_dsn'', Str_v PLACEHOLDER_DSN), (''embed_url'', Str_v PLACEHOLDER_EMBED_URL)] = Inr st" by blast
  then have st: "fence_resolve_settings no_numbers ?env (fence_args_for True) = Inr st"
    by (simp add: fence_resolve_settings_def fence_dsn_def fence_args_for_def text_or_def dict_get_def fence_overrides_def given_as_def)
  have ro: "fa_relay_only (fence_args_for True) = True" by (simp add: fence_args_for_def)
  have "\<exists>x. fence_command no_numbers ?env sample_world (fence_args_for True) 0 = (Ok x, 0)"
    by (simp only: fence_command_def st sum.case ro fence_main_relay_only)
  then obtain code r where run: "fence_command no_numbers ?env sample_world (fence_args_for True) 0 = (Ok (code, r), 0)" by (metis surj_pair)
  from fence_exit_codes [OF run] have "code \<in> {0, 1, 20}"
    by (cases r) (simp_all add: st exit_code_def)
  with run first show ?thesis by blast
qed

end
