(* ===== verification/Launch.thy ===== *)
theory Launch
  imports Settings
begin

text \<open>
  Two processes that remain: several http servers in one process (\<open>_serve_both\<close> in
  \<open>mcp/__main__.py\<close>), and the seeding script \<open>scripts/seed_df006.py\<close>.
\<close>

subsection \<open>Several servers in one process\<close>

text \<open>
  A server is described by the moment at which it stops on its own (in microseconds) and the
  exception it stops with, if any; \<open>None\<close> is a server that runs until it is cancelled. When the
  first one stops the others get five seconds; those that have not stopped by then are cancelled. The
  result is \<open>None\<close> when no server stops, and otherwise the moment the process ends and the
  exceptions of the servers that were done, one of which is raised.
\<close>

type_synonym served_task = "(int \<times> exn option) option"

definition GRACE :: int where "GRACE = 5 * second"

definition stop_times :: "served_task list \<Rightarrow> int list" where
  "stop_times ts = map fst (List.map_filter id ts)"

definition done_by :: "int \<Rightarrow> served_task list \<Rightarrow> (int \<times> exn option) list" where
  "done_by moment ts = filter (\<lambda>(t, e). t \<le> moment) (List.map_filter id ts)"

definition serve_both :: "served_task list \<Rightarrow> (int \<times> exn list) option" where
  "serve_both ts =
     (if stop_times ts = [] then None
      else (let first = Min (set (stop_times ts));
                waited = (if length (done_by first ts) = length ts then first
                          else if length (done_by (first + GRACE) ts) = length ts then Max (set (stop_times ts))
                          else first + GRACE)
            in Some (waited, List.map_filter snd (done_by waited ts))))"

subsection \<open>The seeding script\<close>

definition PROJECT :: string where "PROJECT = ''guardkit''"
definition IDENTIFIER :: string where "IDENTIFIER = ''DECISION_DF_006''"
definition STATUS :: string where "STATUS = ''accepted''"
definition SOURCE_REF :: string where
  "SOURCE_REF = ''guardkit/docs/decisions/DECISION-DF-006-frontier-is-a-revocable-teacher-not-a-critical-path-worker.md''"
definition DOMAIN_TAGS :: json where "DOMAIN_TAGS = JList [JStr ''decisions'', JStr ''dark_factory'', JStr ''inference'', JStr ''frontier'']"

definition DECISION :: string where
  "DECISION =
      ''Frontier models are treated as revocable and volatile: no unattended, autonomous, scheduled, or ''
      @ ''continuous workload may depend on a frontier model being reachable. Frontier is retained in exactly ''
      @ ''two availability-robust roles ''
      @ dash
      @ '' (1) attended planning, where a human is present to absorb its absence by waiting or falling back ''
      @ ''to local, and (2) a one-time eval/calibration yardstick (gold traces, the QA Verifier golden ''
      @ ''calibration set) captured once while frontier is available and then used offline to train or grade ''
      @ ''local models. Every stage declares a substrate preference with a mandatory local fallback: attended ''
      @ ''planning prefers frontier but degrades to best-local; unattended build (UBS night shift, AutoBuild, ''
      @ ''QA Verifier runtime) and the meta-harness improve-loop proposer are local-only; eval/calibration ''
      @ ''uses frontier opportunistically and merely pauses when it is unavailable. Degradation contract: no ''
      @ ''code path hard-codes a frontier provider as a runtime dependency; model calls resolve through a ''
      @ ''substrate router (LiteLLM :4000 / llama-swap :9000 local; harness --model where applicable), and ''
      @ ''per DF-004 the LiteLLM front door sets both fallbacks:[] and context_window_fallbacks:[] so an ''
      @ ''unattended request can never silently escalate to cloud. Consequence: frontier availability shocks ''
      @ ''(the 15 June Max programmatic-access withdrawal-then-reversal; the Fable export-control ''
      @ ''suspension-then-restoration) change the rate of model improvement, never the ability to ship. ''
      @ ''Extends DF-001 (which excludes cloud from the critical path on cost grounds) to the availability ''
      @ ''dimension; companion to DF-003 (attended/unattended boundary) and DF-004 (serving topology; the ''
      @ ''enforcement point for the no-cloud-fallback guard). Full ADR at SOURCE_REF.''"

definition seed_fields :: "(string \<times> json) list" where
  "seed_fields =
     [(''project'', JStr PROJECT), (''identifier'', JStr IDENTIFIER), (''decision'', JStr DECISION),
      (''status'', JStr STATUS), (''source_ref'', JStr SOURCE_REF), (''domain_tags'', DOMAIN_TAGS)]"

text \<open>The line it prints is its result.\<close>

definition seed_main ::
  "number_reader \<Rightarrow> environment \<Rightarrow> 's pg_library \<Rightarrow> prims \<Rightarrow> pydantic \<Rightarrow> nat \<Rightarrow> ('s, string) comp" where
  "seed_main nr env pl pr pyd fuel =
     bind (lift_res (settings_init nr env [])) (\<lambda>st.
     bind (lift_res (payload_init pyd ADRPayload seed_fields)) (\<lambda>p.
     bind (lift_res (async_store_context pl st)) (\<lambda>(store, warning).
     bind (writer_write pr store fuel p None) (\<lambda>_.
     ret (''seeded '' @ natural_key p @ '' (status='' @ STATUS @ '', source_ref='' @ SOURCE_REF @ '')'')))))"

subsection \<open>What they do\<close>

lemma length_filter_all: "length (filter P xs) = length xs \<Longrightarrow> x \<in> set xs \<Longrightarrow> P x"
proof (induction xs)
  case (Cons y ys)
  have "length (filter P ys) \<le> length ys" by simp
  with Cons show ?case by (cases "P y") auto
qed simp

lemma done_by_all:
  assumes "length (done_by m ts) = length ts" and "(t, r) \<in> set (List.map_filter id ts)"
  shows "t \<le> m"
proof -
  let ?ends = "List.map_filter id ts"
  have "length ?ends \<le> length ts" by (simp add: List.map_filter_def)
  moreover have "length (done_by m ts) \<le> length ?ends" unfolding done_by_def by (rule length_filter_le)
  ultimately have "length ?ends = length ts" using assms(1) by linarith
  then have "length (filter (\<lambda>(t, e). t \<le> m) ?ends) = length ?ends"
    using assms(1) by (simp add: done_by_def)
  from length_filter_all [OF this assms(2)] show ?thesis by simp
qed

lemma failures_of: "e \<in> set (List.map_filter snd (done_by m ts)) \<longleftrightarrow> (\<exists>t \<le> m. (t, Some e) \<in> set (List.map_filter id ts))"
  by (force simp: done_by_def List.map_filter_def)

text \<open>
  When some server stops on its own the process ends, at most five seconds after the first stop; an
  exception of the first server to stop is among those it may end with, and it ends without exception
  only when no server that had stopped raised one. When no server stops it runs on.
\<close>

theorem serving_ends_together:
  assumes "(t, r) \<in> set (List.map_filter id ts)" and "\<And>t' r'. (t', r') \<in> set (List.map_filter id ts) \<Longrightarrow> t \<le> t'"
  shows "\<exists>moment failures. serve_both ts = Some (moment, failures) \<and> t \<le> moment \<and> moment \<le> t + GRACE \<and>
    (\<forall>e. r = Some e \<longrightarrow> e \<in> set failures) \<and>
    (failures = [] \<longleftrightarrow> (\<forall>t' e. (t', Some e) \<in> set (List.map_filter id ts) \<longrightarrow> moment < t'))"
proof -
  let ?ends = "List.map_filter id ts" and ?last = "Max (set (stop_times ts))"
  have times: "set (stop_times ts) = fst ` set ?ends" by (simp add: stop_times_def)
  have first: "Min (set (stop_times ts)) = t"
    unfolding times using assms by (intro Min_eqI) force+
  have some: "stop_times ts \<noteq> []" using assms(1) by (auto simp: stop_times_def)
  have "?last \<in> fst ` set ?ends" using times some by (metis Max_in finite_set set_empty)
  then have last: "t \<le> ?last" "\<And>m. length (done_by m ts) = length ts \<Longrightarrow> ?last \<le> m"
    using assms(2) done_by_all by fastforce+
  have grace: "0 \<le> GRACE" by (simp add: GRACE_def second_def)
  obtain moment where m: "serve_both ts = Some (moment, List.map_filter snd (done_by moment ts))" "t \<le> moment" "moment \<le> t + GRACE"
    using some grace last unfolding serve_both_def first by (auto simp: Let_def)
  have "xs = [] \<longleftrightarrow> (\<forall>e. e \<notin> set xs)" for xs :: "exn list" by auto
  from this [of "List.map_filter snd (done_by moment ts)"]
  have "List.map_filter snd (done_by moment ts) = [] \<longleftrightarrow>
      (\<forall>t' e. (t', Some e) \<in> set (List.map_filter id ts) \<longrightarrow> moment < t')"
    unfolding failures_of by (meson not_le)
  moreover have "e \<in> set (List.map_filter snd (done_by moment ts))" if "r = Some e" for e
    unfolding failures_of using m(2) assms(1) that by auto
  ultimately show ?thesis using m by blast
qed

lemma serving_runs_on: "List.map_filter id ts = [] \<Longrightarrow> serve_both ts = None"
  by (simp add: serve_both_def stop_times_def)

lemma seed_payload:
  assumes "pydantic_model pyd" and "payload_init pyd ADRPayload seed_fields = Inr p"
  shows "natural_key p = ''adr:guardkit:DECISION_DF_006''" and "payload_namespace p = [''fleet_memory'', ''guardkit'', ''adr'']"
proof -
  have "supersedes_arg seed_fields = Inr seed_fields" by (simp add: supersedes_arg_def seed_fields_def)
  with assms(2) have "pyd ADRPayload seed_fields = Inr p" by (simp add: payload_init_def split: sum.splits if_splits)
  then have "p_class p = ADRPayload" "p_project p = PROJECT" "p_identifier p = IDENTIFIER"
    using pydantic_model.pyd_class [OF assms(1)] pydantic_model.pyd_project [OF assms(1)] pydantic_model.pyd_identifier [OF assms(1)]
    by (fastforce simp: seed_fields_def)+
  then show "natural_key p = ''adr:guardkit:DECISION_DF_006''" "payload_namespace p = [''fleet_memory'', ''guardkit'', ''adr'']"
    by (simp_all add: natural_key_def make_key_def payload_namespace_def PROJECT_def IDENTIFIER_def)
qed

lemma seed_main_returns:
  assumes "seed_main nr env pl pr pyd fuel s = (Ok m, s')"
  obtains st p store warning where "settings_init nr env [] = Inr st" "payload_init pyd ADRPayload seed_fields = Inr p"
    "async_store_context pl st = Inr (store, warning)" "writer_write pr store fuel p None s = (Ok (), s')"
  using assms unfolding seed_main_def bind_Ok_iff lift_res_def
  by (auto simp: comp_simps bind_Ok_iff split: sum.splits)

text \<open>
  The script is safe to run again: a run that returns leaves the decision under its natural key, and
  another run with the same configuration changes nothing.
\<close>

theorem seeding_again_changes_nothing:
  assumes "pydantic_model pyd"
    and "\<And>st store warning. async_store_context pl st = Inr (store, warning) \<Longrightarrow> lawful_store store view rank window"
    and "seed_main nr env pl pr pyd fuel s = (Ok m, s1)" and "seed_main nr env pl pr pyd fuel s1 = (Ok m', s2)"
  shows "view s2 = view s1 \<and>
    view s1 [''fleet_memory'', ''guardkit'', ''adr''] (record_identity pr ''adr:guardkit:DECISION_DF_006'') \<noteq> None"
proof -
  obtain st p store warning where 1: "settings_init nr env [] = Inr st" "payload_init pyd ADRPayload seed_fields = Inr p"
    "async_store_context pl st = Inr (store, warning)" "writer_write pr store fuel p None s = (Ok (), s1)"
    using assms(3) by (rule seed_main_returns)
  have 2: "writer_write pr store fuel p None s1 = (Ok (), s2)"
    using assms(4) by (rule seed_main_returns) (use 1 in auto)
  note lawful = assms(2) [OF 1(3)]
  show ?thesis
    using rewrite_unchanged [OF lawful 1(4) 2] written_present [OF lawful 1(4)] seed_payload [OF assms(1) 1(2)]
    by (simp add: payload_key_def)
qed

end
