(* ===== verification/Hook.thy ===== *)
theory Hook
  imports Chronicler Fixture
begin

text \<open>
  The editor hook \<open>.codex/hooks/capture_slash_command.py\<close>: which prompts it captures and
  under which name, the state file it keeps per session, what it reads from a transcript, the two
  history files it appends to, and the dispatch of \<open>main\<close>.

  The files the hook touches are a \<open>disk\<close>: the texts by path, and the state files, whose
  JSON is held as the value it decodes to (\<open>None\<close> when it does not decode) with its
  modification time. Paths are compared as texts. A file operation fails when the parameter
  \<open>faults\<close> says so, either before it changed anything or after it wrote a part; an event does
  each operation of \<open>file_op\<close> at most once. The outcome of an operation is \<open>Inl\<close> of
  the exception as the log shows it (class and message), or \<open>Inr\<close>.
\<close>

subsection \<open>Commands and slugs\<close>

definition CAPTURE_COMMANDS :: "string list" where
  "CAPTURE_COMMANDS =
     [''system-arch'', ''system-design'', ''system-plan'',
      ''arch-refine'', ''design-refine'',
      ''feature-spec'', ''feature-plan'', ''feature-build'', ''feature-complete'',
      ''task-create'', ''task-work'', ''task-review'', ''task-refine'', ''task-complete'',
      ''agent-validate'', ''agent-format'', ''agent-enhance'',
      ''review'']"

definition STATE_DIR_REL :: string where "STATE_DIR_REL = ''.claude/hooks/.state''"
definition LOG_REL :: string where "LOG_REL = ''.claude/hooks/.state/capture.log''"

text \<open>The class \<open>\w\<close>, which includes the letters and numerals of Latin-1.\<close>

definition word_class :: "char \<Rightarrow> bool" where
  "word_class c \<longleftrightarrow>
     ident_char c \<or> of_char c \<in> {170, 178, 179, 181, 185, 186, 188, 189, 190 :: nat}
     \<or> (in_range c 192 255 \<and> of_char c \<notin> {215, 247 :: nat})"

definition slug_char :: "char \<Rightarrow> bool" where
  "slug_char c \<longleftrightarrow> is_lower c \<or> is_digit c \<or> c = CHR ''-''"

definition token_char :: "char \<Rightarrow> bool" where
  "token_char c \<longleftrightarrow> is_upper c \<or> is_digit c \<or> c = CHR ''-''"

text \<open>\<open>re.sub("[...]+", "-", text)\<close>: each run of the class becomes one dash.\<close>

function dash_runs :: "(char \<Rightarrow> bool) \<Rightarrow> string \<Rightarrow> string" where
  "dash_runs P [] = []"
| "dash_runs P (c # cs) =
     (if P c then CHR ''-'' # dash_runs P (dropWhile P cs) else c # dash_runs P cs)"
  by pat_completeness auto
termination
  by (relation "measure (\<lambda>(P, s). length s)") (auto simp: le_imp_less_Suc length_dropWhile_le)

definition slugify :: "string \<Rightarrow> nat \<Rightarrow> string" where
  "slugify text max_len =
     (let t = lower text;
          t = dash_runs (\<lambda>c. \<not> slug_char c) t;
          t = strip_by (\<lambda>c. c = CHR ''-'') (dash_runs (\<lambda>c. c = CHR ''-'') t);
          t = take max_len t
      in if t = [] then ''untitled'' else t)"

text \<open>
  \<open>[...]+\b\<close> at the beginning of a text: the longest part of the run that ends where exactly
  one of its two neighbours is a word character.
\<close>

definition at_boundary :: "string \<Rightarrow> nat \<Rightarrow> bool" where
  "at_boundary s n \<longleftrightarrow> word_class (s ! (n - 1)) \<noteq> (n < length s \<and> word_class (s ! n))"

definition bounded_run :: "(char \<Rightarrow> bool) \<Rightarrow> string \<Rightarrow> string option" where
  "bounded_run P s =
     map_option (\<lambda>n. take n s) (find (at_boundary s) (rev [1..<Suc (length (takeWhile P s))]))"

text \<open>The first quoted text that is not empty.\<close>

fun quoted_text :: "string \<Rightarrow> string option" where
  "quoted_text [] = None"
| "quoted_text (c # cs) =
     (let inner = takeWhile (\<lambda>d. d \<noteq> CHR 0x22) cs
      in if c = CHR 0x22 \<and> inner \<noteq> [] \<and> length inner < length cs then Some inner else quoted_text cs)"

text \<open>The first token of the three shapes; the flag says whether a word character precedes.\<close>

definition tagged :: "string \<Rightarrow> string \<Rightarrow> string option" where
  "tagged tag s =
     (if prefix tag s then map_option ((@) tag) (bounded_run token_char (drop (length tag) s)) else None)"

definition token_here :: "string \<Rightarrow> string option" where
  "token_here s =
     (case tagged ''TASK-REV-'' s of Some t \<Rightarrow> Some t
      | None \<Rightarrow> (case tagged ''FEAT-'' s of Some t \<Rightarrow> Some t | None \<Rightarrow> tagged ''TASK-'' s))"

fun search_token :: "bool \<Rightarrow> string \<Rightarrow> string option" where
  "search_token after_word [] = None"
| "search_token after_word (c # cs) =
     (case if after_word = word_class c then None else token_here (c # cs) of
        Some t \<Rightarrow> Some t
      | None \<Rightarrow> search_token (word_class c) cs)"

definition derive_slug :: "string \<Rightarrow> string option" where
  "derive_slug prompt =
     (case quoted_text prompt of
        Some t \<Rightarrow> Some (slugify t 60)
      | None \<Rightarrow> search_token False prompt)"

definition parse_slash :: "string \<Rightarrow> (string \<times> string option) option" where
  "parse_slash prompt =
     (case lstrip_by is_space prompt of
        [] \<Rightarrow> None
      | c # cs \<Rightarrow>
          if c \<noteq> CHR ''/'' then None
          else (case bounded_run (\<lambda>d. word_class d \<or> d = CHR ''-'') cs of
                  None \<Rightarrow> None
                | Some cmd \<Rightarrow> if cmd \<in> set CAPTURE_COMMANDS then Some (cmd, derive_slug prompt) else None))"

subsection \<open>The disk, the clock and the faults\<close>

datatype fault = Open_fails string | Write_stops nat string

datatype file_op =
  Save_state | Master_head | Master_block | Command_head | Command_block | Finish_state | Log_entry

datatype transcript = No_transcript | Unreadable string | Lines "string list"

record state_file =
  decoded :: "json option"
  mtime :: int

record disk =
  d_states :: "(string \<times> state_file) list"
  d_texts :: files

text \<open>
  What an event meets: the working directory, the clock (as text, in microseconds, and as the
  number JSON gets), \<open>instant\<close> the moment of a timestamp, \<open>epoch\<close> the moment a JSON
  number stands for (\<open>None\<close> for what cannot be compared with a number), the transcripts, and
  the failures.
\<close>

record hook_env =
  getcwd :: string
  utc_iso :: "file_op \<Rightarrow> string"
  time_us :: int
  time_json :: json
  instant :: "string \<Rightarrow> int option"
  epoch :: "json \<Rightarrow> int option"
  transcripts :: "string \<Rightarrow> transcript"
  faults :: "file_op \<Rightarrow> fault option"
  unremovable :: "string \<Rightarrow> bool"

type_synonym 'a act = "disk \<Rightarrow> (string + 'a) \<times> disk"

definition seq :: "'a act \<Rightarrow> ('a \<Rightarrow> 'b act) \<Rightarrow> 'b act" where
  "seq m f d = (case m d of (Inl e, d') \<Rightarrow> (Inl e, d') | (Inr x, d') \<Rightarrow> f x d')"

definition fails :: "string \<Rightarrow> 'a act" where "fails e d = (Inl e, d)"
definition skips :: "unit act" where "skips d = (Inr (), d)"

definition no_attr :: "json \<Rightarrow> string \<Rightarrow> string" where
  "no_attr v a = ''AttributeError: '' @ quoted (json_type_name v) @ '' object has no attribute '' @ quoted a"

definition path_of :: "json \<Rightarrow> string + string" where
  "path_of v =
     (case v of
        JStr s \<Rightarrow> Inr s
      | _ \<Rightarrow> Inl (''TypeError: argument should be a str or an os.PathLike object where __fspath__ returns a str, not ''
                  @ quoted (json_type_name v)))"

definition path_join :: "string \<Rightarrow> string \<Rightarrow> string" where
  "path_join a b =
     (if prefix ''/'' b then b else if a = [] \<or> last a = CHR ''/'' then a @ b else a @ ''/'' @ b)"

definition text_at :: "disk \<Rightarrow> string \<Rightarrow> string" where
  "text_at d p = (case dict_get (d_texts d) p of None \<Rightarrow> [] | Some t \<Rightarrow> t)"

definition set_text :: "string \<Rightarrow> string \<Rightarrow> disk \<Rightarrow> disk" where
  "set_text p t d = d\<lparr>d_texts := dict_set p t (d_texts d)\<rparr>"

text \<open>\<open>write_text\<close> (which empties the file first) and a write to a file opened for appending.\<close>

definition put_text :: "fault option \<Rightarrow> string \<Rightarrow> string \<Rightarrow> unit act" where
  "put_text f p t d =
     (case f of
        None \<Rightarrow> (Inr (), set_text p t d)
      | Some (Open_fails e) \<Rightarrow> (Inl e, d)
      | Some (Write_stops n e) \<Rightarrow> (Inl e, set_text p (take n t) d))"

definition append_text :: "fault option \<Rightarrow> string \<Rightarrow> string \<Rightarrow> unit act" where
  "append_text f p t d =
     (case f of
        None \<Rightarrow> (Inr (), set_text p (text_at d p @ t) d)
      | Some (Open_fails e) \<Rightarrow> (Inl e, d)
      | Some (Write_stops n e) \<Rightarrow> (Inl e, set_text p (text_at d p @ take n t) d))"

text \<open>A state file that was not written to its end lacks the closing brace and does not decode.\<close>

definition put_state :: "fault option \<Rightarrow> string \<Rightarrow> json \<Rightarrow> int \<Rightarrow> unit act" where
  "put_state f p v t d =
     (let set_to = (\<lambda>x. d\<lparr>d_states := dict_set p \<lparr>decoded = x, mtime = t\<rparr> (d_states d)\<rparr>)
      in case f of
           None \<Rightarrow> (Inr (), set_to (Some v))
         | Some (Open_fails e) \<Rightarrow> (Inl e, d)
         | Some (Write_stops n e) \<Rightarrow> (Inl e, set_to None))"

definition log_msg :: "hook_env \<Rightarrow> json \<Rightarrow> string \<Rightarrow> disk \<Rightarrow> disk" where
  "log_msg env cwd msg d =
     (case path_of cwd of
        Inl e \<Rightarrow> d
      | Inr c \<Rightarrow>
          snd (append_text (faults env Log_entry) (path_join c LOG_REL)
                 (utc_iso env Log_entry @ '' '' @ msg @ [CHR 0x0A]) d))"

subsection \<open>A prompt\<close>

definition state_path :: "string \<Rightarrow> string \<Rightarrow> string" where
  "state_path cwd session_id = path_join (path_join cwd STATE_DIR_REL) (session_id @ ''.json'')"

text \<open>\<open>glob("*.json")\<close> of the state directory: its own files only.\<close>

definition in_state_dir :: "string \<Rightarrow> string \<Rightarrow> bool" where
  "in_state_dir cwd p \<longleftrightarrow>
     (let dir = path_join cwd STATE_DIR_REL @ ''/''
      in prefix dir p \<and> CHR ''/'' \<notin> set (drop (length dir) p) \<and> suffix ''.json'' p)"

definition cleanup_stale :: "hook_env \<Rightarrow> string \<Rightarrow> int \<Rightarrow> disk \<Rightarrow> disk" where
  "cleanup_stale env cwd max_age_hours d =
     d\<lparr>d_states := filter (\<lambda>(p, f).
          \<not> (in_state_dir cwd p \<and> mtime f < time_us env - max_age_hours * hour \<and> \<not> unremovable env p))
        (d_states d)\<rparr>"

definition slug_json :: "string option \<Rightarrow> json" where
  "slug_json s = (case s of None \<Rightarrow> JNull | Some t \<Rightarrow> JStr t)"

definition session_of :: "(string \<times> json) list \<Rightarrow> string" where
  "session_of payload = str_json (py_or (json_get payload ''session_id'') (JStr ''unknown''))"

definition cwd_of :: "hook_env \<Rightarrow> (string \<times> json) list \<Rightarrow> json" where
  "cwd_of env payload = py_or (json_get payload ''cwd'') (JStr (getcwd env))"

definition new_state ::
  "hook_env \<Rightarrow> (string \<times> json) list \<Rightarrow> string \<Rightarrow> string \<Rightarrow> string option \<Rightarrow> (string \<times> json) list" where
  "new_state env payload prompt command tag =
     [(''session_id'', py_or (json_get payload ''session_id'') (JStr ''unknown'')),
      (''command'', JStr command),
      (''slug'', slug_json tag),
      (''prompt'', JStr prompt),
      (''transcript_path'', json_get payload ''transcript_path''),
      (''started_at'', JStr (utc_iso env Save_state)),
      (''started_at_epoch'', time_json env),
      (''completion_written'', JBool False)]"

definition handle_user_prompt :: "hook_env \<Rightarrow> (string \<times> json) list \<Rightarrow> unit act" where
  "handle_user_prompt env payload =
     (let cwd = cwd_of env payload; session_id = session_of payload
      in case py_or (json_get payload ''prompt'') (JStr []) of
           JStr prompt \<Rightarrow>
             (case parse_slash prompt of
                None \<Rightarrow> skips
              | Some (command, tag) \<Rightarrow>
                  (case path_of cwd of
                     Inl e \<Rightarrow> fails e
                   | Inr dir \<Rightarrow>
                       (\<lambda>d. seq (put_state (faults env Save_state) (state_path dir session_id)
                               (JObj (new_state env payload prompt command tag)) (time_us env))
                            (\<lambda>_ d'. (Inr (), log_msg env cwd
                               (''queued: /'' @ command @ '' ('' @ str_json (py_or (slug_json tag) (JStr ''-''))
                                @ '') session='' @ session_id) d'))
                            (cleanup_stale env dir 48 d))))
         | v \<Rightarrow> fails (no_attr v ''lstrip''))"

subsection \<open>The transcript\<close>

definition part_text :: "json \<Rightarrow> string + string list" where
  "part_text c =
     (case c of
        JObj kvs \<Rightarrow>
          if json_get kvs ''type'' \<noteq> JStr ''text'' then Inr []
          else (case py_or (json_get kvs ''text'') (JStr []) of
                  JStr t \<Rightarrow> Inr (if strip t \<noteq> [] then [t] else [])
                | v \<Rightarrow> Inl (no_attr v ''strip''))
      | _ \<Rightarrow> Inr [])"

definition before_start :: "hook_env \<Rightarrow> json \<Rightarrow> json \<Rightarrow> bool" where
  "before_start env ts started_at_epoch =
     (case ts of
        JStr s \<Rightarrow>
          (case (if s = [] then None else instant env (replace_Z s), epoch env started_at_epoch) of
             (Some t, Some e) \<Rightarrow> t + second < e
           | _ \<Rightarrow> False)
      | _ \<Rightarrow> False)"

definition line_chunks :: "hook_env \<Rightarrow> json \<Rightarrow> string \<Rightarrow> string + string list" where
  "line_chunks env started_at_epoch line =
     (case loads line of
        None \<Rightarrow> Inr []
      | Some (JObj d) \<Rightarrow>
          if json_get d ''type'' \<noteq> JStr ''assistant'' then Inr []
          else if before_start env (json_get d ''timestamp'') started_at_epoch then Inr []
          else (case py_or (json_get d ''message'') (JObj []) of
                  JObj msg \<Rightarrow>
                    (case json_get msg ''content'' of
                       JList cs \<Rightarrow> and_then (map_results part_text cs) (\<lambda>tss. Inr (concat tss))
                     | JStr s \<Rightarrow> Inr (if strip s \<noteq> [] then [s] else [])
                     | _ \<Rightarrow> Inr [])
                | v \<Rightarrow> Inl (no_attr v ''get''))
      | Some v \<Rightarrow> Inl (no_attr v ''get''))"

definition extract_assistant_text :: "hook_env \<Rightarrow> string \<Rightarrow> json \<Rightarrow> string + string" where
  "extract_assistant_text env transcript_path started_at_epoch =
     (case transcripts env transcript_path of
        No_transcript \<Rightarrow> Inr []
      | Unreadable e \<Rightarrow> Inl e
      | Lines ls \<Rightarrow>
          and_then (map_results (line_chunks env started_at_epoch) ls)
            (\<lambda>tss. Inr (strip (join [CHR 0x0A, CHR 0x0A] (concat tss)))))"

subsection \<open>The history files\<close>

definition format_block :: "json \<Rightarrow> json \<Rightarrow> json \<Rightarrow> string \<Rightarrow> json \<Rightarrow> string" where
  "format_block command tag prompt response start =
     (let nl = [CHR 0x0A]; gap = nl @ nl;
          title = ''/'' @ str_json command @ (if truthy tag then '' '' @ str_json tag else [])
      in gap @ ''---'' @ gap
         @ ''## '' @ title @ '' '' @ dash @ '' '' @ str_json start @ gap
         @ ''### Prompt'' @ gap
         @ ''```'' @ nl @ str_json prompt @ nl @ ''```'' @ gap
         @ ''### Assistant response'' @ gap
         @ response @ nl)"

definition MASTER_HEADER :: string where
  "MASTER_HEADER =
     (let nl = [CHR 0x0A]
      in ''# Command History'' @ nl @ nl
         @ ''Master chronological log of GuardKit slash-command invocations.'' @ nl
         @ ''Captured automatically by `.claude/hooks/capture_slash_command.py`.'' @ nl)"

definition history_dir :: "string \<Rightarrow> string" where
  "history_dir cwd = path_join (path_join cwd ''docs'') ''history''"

definition master_path :: "string \<Rightarrow> string" where
  "master_path cwd = path_join (history_dir cwd) ''command-history.md''"

text \<open>A file is created with its header first and the block is appended to it in both cases.\<close>

definition append_block ::
  "fault option \<Rightarrow> fault option \<Rightarrow> string \<Rightarrow> string \<Rightarrow> string \<Rightarrow> unit act" where
  "append_block f_head f_block p header block d =
     seq (if dict_get (d_texts d) p = None then put_text f_head p header else skips)
         (\<lambda>_. append_text f_block p block) d"

definition append_master ::
  "hook_env \<Rightarrow> string \<Rightarrow> json \<Rightarrow> json \<Rightarrow> json \<Rightarrow> string \<Rightarrow> json \<Rightarrow> unit act" where
  "append_master env cwd command tag prompt response start =
     append_block (faults env Master_head) (faults env Master_block) (master_path cwd) MASTER_HEADER
       (format_block command tag prompt response start)"

definition history_name :: "json \<Rightarrow> json \<Rightarrow> string" where
  "history_name command tag =
     str_json command @ (if truthy tag then ''-'' @ str_json tag else []) @ ''-history.md''"

definition command_path :: "string \<Rightarrow> json \<Rightarrow> json \<Rightarrow> string" where
  "command_path cwd command tag = path_join (history_dir cwd) (history_name command tag)"

definition command_header :: "json \<Rightarrow> json \<Rightarrow> string" where
  "command_header command tag =
     ''# /'' @ str_json command @ (if truthy tag then '' '' @ dash @ '' '' @ str_json tag else [])
     @ '' '' @ dash @ '' history'' @ [CHR 0x0A, CHR 0x0A]
     @ ''Captured automatically by `.claude/hooks/capture_slash_command.py`.'' @ [CHR 0x0A]"

definition write_per_command ::
  "hook_env \<Rightarrow> string \<Rightarrow> json \<Rightarrow> json \<Rightarrow> json \<Rightarrow> string \<Rightarrow> json \<Rightarrow> unit act" where
  "write_per_command env cwd command tag prompt response start =
     append_block (faults env Command_head) (faults env Command_block) (command_path cwd command tag)
       (command_header command tag) (format_block command tag prompt response start)"

subsection \<open>A stop\<close>

definition item_at :: "(string \<times> json) list \<Rightarrow> string \<Rightarrow> string + json" where
  "item_at d k = (case dict_get d k of None \<Rightarrow> Inl (''KeyError: '' @ quoted k) | Some v \<Rightarrow> Inr v)"

text \<open>The body of the \<open>try\<close>: both files, then the mark in the state file, then the log.\<close>

definition write_history ::
  "hook_env \<Rightarrow> json \<Rightarrow> string \<Rightarrow> string \<Rightarrow> (string \<times> json) list \<Rightarrow> string \<Rightarrow> unit act" where
  "write_history env cwd dir sp state response =
     (let tag = json_get state ''slug''
      in case and_then (item_at state ''command'') (\<lambda>c. and_then (item_at state ''prompt'') (\<lambda>p.
                and_then (item_at state ''started_at'') (\<lambda>t. Inr (c, p, t)))) of
           Inl e \<Rightarrow> fails e
         | Inr (command, prompt, started) \<Rightarrow>
             seq (append_master env dir command tag prompt response started) (\<lambda>_.
             seq (write_per_command env dir command tag prompt response started) (\<lambda>_.
             seq (put_state (faults env Finish_state) sp
                    (JObj (dict_set ''completed_at'' (JStr (utc_iso env Finish_state))
                             (dict_set ''completion_written'' (JBool True) state))) (time_us env)) (\<lambda>_ d.
             (Inr (), log_msg env cwd
                (''captured: /'' @ str_json command @ '' ('' @ str_json (py_or tag (JStr ''-'')) @ '') -> ''
                 @ show_nat (length response) @ '' chars'') d)))))"

definition handle_stop :: "hook_env \<Rightarrow> (string \<times> json) list \<Rightarrow> unit act" where
  "handle_stop env payload d =
     (let cwd = cwd_of env payload; session_id = session_of payload
      in case path_of cwd of
           Inl e \<Rightarrow> (Inl e, d)
         | Inr dir \<Rightarrow>
             (let sp = state_path dir session_id in
              case dict_get (d_states d) sp of
                None \<Rightarrow> (Inr (), d)
              | Some f \<Rightarrow>
                  (case decoded f of
                     None \<Rightarrow> (Inr (), log_msg env cwd (''corrupt state file: '' @ sp) d)
                   | Some (JObj state) \<Rightarrow>
                       if truthy (json_get state ''completion_written'') then (Inr (), d)
                       else (let tp = py_or (json_get payload ''transcript_path'') (json_get state ''transcript_path'') in
                         if \<not> truthy tp
                         then (Inr (), log_msg env cwd (''no transcript path for session='' @ session_id) d)
                         else (case and_then (path_of tp) (\<lambda>p. extract_assistant_text env p
                                 (py_or (json_get state ''started_at_epoch'') (JFloat ''0.0''))) of
                             Inl e \<Rightarrow> (Inl e, d)
                           | Inr response \<Rightarrow>
                               if strip response = []
                               then (Inr (), log_msg env cwd
                                      (''empty response for /'' @ str_json (json_get state ''command'') @ '' (''
                                       @ str_json (py_or (json_get state ''slug'') (JStr ''-'')) @ '')'') d)
                               else (case write_history env cwd dir sp state response d of
                                       (Inl e, d') \<Rightarrow> (Inr (), log_msg env cwd (''error writing history: '' @ e) d')
                                     | (Inr _, d') \<Rightarrow> (Inr (), d'))))
                   | Some v \<Rightarrow> (Inl (no_attr v ''get''), d))))"

text \<open>
  \<open>main\<close>: the exit code, or the exception that leaves it. The lookups of \<open>cwd\<close> and of
  the event are outside the \<open>try\<close>.
\<close>

definition dispatch :: "hook_env \<Rightarrow> json \<Rightarrow> (string \<times> json) list \<Rightarrow> unit act" where
  "dispatch env event payload =
     (if event = JStr ''UserPromptSubmit'' then handle_user_prompt env payload
      else if event = JStr ''Stop'' then handle_stop env payload
      else skips)"

definition hook_main :: "hook_env \<Rightarrow> string \<Rightarrow> int act" where
  "hook_main env raw d =
     (case loads raw of
        None \<Rightarrow> (Inr 0, d)
      | Some (JObj payload) \<Rightarrow>
          (let event = py_or (json_get payload ''hook_event_name'') (JStr [])
           in case dispatch env event payload d of
                (Inl e, d') \<Rightarrow>
                  (Inr 0, log_msg env (cwd_of env payload) (''unhandled in '' @ str_json event @ '': '' @ e) d')
              | (Inr _, d') \<Rightarrow> (Inr 0, d'))
      | Some v \<Rightarrow> (Inl (no_attr v ''get''), d))"

fun hook_runs :: "(hook_env \<times> string) list \<Rightarrow> disk \<Rightarrow> disk" where
  "hook_runs [] d = d"
| "hook_runs ((env, raw) # events) d = hook_runs events (snd (hook_main env raw d))"

subsection \<open>What the helpers do to the disk\<close>

named_theorems act_simps \<open>evaluation of file operations\<close>

lemma seq_simps [act_simps]:
  "seq m f d = (case m d of (Inl e, d') \<Rightarrow> (Inl e, d') | (Inr x, d') \<Rightarrow> f x d')"
  "fails e d = (Inl e, d)" "skips d = (Inr (), d)"
  by (simp_all add: seq_def fails_def skips_def)

lemma text_at_set [simp]: "text_at (set_text p t d) q = (if q = p then t else text_at d q)"
  by (simp add: text_at_def set_text_def dict_simps)

lemma d_states_set_text [simp]: "d_states (set_text p t d) = d_states d"
  by (simp add: set_text_def)

lemma text_at_states [simp]: "text_at (d\<lparr>d_states := x\<rparr>) p = text_at d p"
  by (simp add: text_at_def)

lemma text_at_cleanup [simp]: "text_at (cleanup_stale env cwd h d) p = text_at d p"
  by (simp add: cleanup_stale_def)

lemma text_at_put_state [simp]: "text_at (snd (put_state f q v t d)) p = text_at d p"
  by (simp add: put_state_def Let_def split: option.split fault.split)

lemma d_states_log [simp]: "d_states (log_msg env cwd msg d) = d_states d"
  by (simp add: log_msg_def append_text_def split: sum.split option.split fault.split)

lemma set_text_twice [simp]: "set_text p t (set_text p u d) = set_text p t d"
  by (simp add: set_text_def dict_set_def update_last)

lemma append_block_ok:
  "append_block None None p header block d =
     (Inr (), set_text p ((case dict_get (d_texts d) p of None \<Rightarrow> header | Some t \<Rightarrow> t) @ block) d)"
  by (cases "dict_get (d_texts d) p")
     (simp_all add: append_block_def seq_def put_text_def append_text_def skips_def, simp add: text_at_def)

subsection \<open>History only grows\<close>

definition grows :: "disk \<Rightarrow> disk \<Rightarrow> bool" where
  "grows d d' \<longleftrightarrow> (\<forall>p. prefix (text_at d p) (text_at d' p))"

lemma grows_refl [simp]: "grows d d" by (simp add: grows_def)

lemma grows_trans: "grows a b \<Longrightarrow> grows b c \<Longrightarrow> grows a c"
  unfolding grows_def using prefix_order.trans by blast

lemma grows_seq: "grows d (snd (m d)) \<Longrightarrow> (\<And>x d'. grows d' (snd (f x d'))) \<Longrightarrow> grows d (snd (seq m f d))"
  using grows_trans by (fastforce simp: seq_def split: prod.split sum.split)

lemma grows_append: "grows d (snd (append_text f p t d))"
  by (simp add: grows_def append_text_def split: option.split fault.split)

lemma grows_put: "dict_get (d_texts d) p = None \<Longrightarrow> grows d (snd (put_text f p t d))"
  by (auto simp: grows_def put_text_def text_at_def [of d] split: option.split fault.split)

lemma grows_block: "grows d (snd (append_block f g p header block d))"
  unfolding append_block_def by (rule grows_seq) (simp_all add: grows_put grows_append skips_def)

lemma grows_state [simp]: "grows d (snd (put_state f q v t d))"
  by (simp add: grows_def)

lemma grows_log [simp]: "grows d (log_msg env cwd msg d)"
  by (simp add: log_msg_def grows_append split: sum.split)

lemma grows_cleanup: "grows (cleanup_stale env cwd h d) d' \<Longrightarrow> grows d d'"
  by (simp add: grows_def)

lemma grows_log_after [simp]: "grows d d' \<Longrightarrow> grows d (log_msg env cwd msg d')"
  using grows_log grows_trans by blast

lemma grows_prompt: "grows d (snd (handle_user_prompt env payload d))"
proof -
  have "grows d (snd (seq (put_state f p v t) (\<lambda>_ d'. (Inr (), log_msg env cwd msg d')) (cleanup_stale env dir h d)))"
    for f p v t cwd msg dir h
    by (rule grows_cleanup [of env dir h], rule grows_seq) simp_all
  then show ?thesis
    by (simp add: handle_user_prompt_def Let_def fails_def skips_def
        split: json.split option.split sum.split prod.split)
qed

lemma grows_history: "grows d (snd (write_history env cwd dir sp state response d))"
  unfolding write_history_def Let_def append_master_def write_per_command_def
  by (split sum.split prod.split)+ (intro conjI allI impI; simp add: fails_def grows_seq grows_block)

lemma grows_stop: "grows d (snd (handle_stop env payload d))"
proof -
  have "grows d d'" if "write_history env cwd dir sp state response d = (r, d')"
    for cwd dir sp state response r d'
    using grows_history [of d env cwd dir sp state response] that by simp
  then show ?thesis
    by (auto simp: handle_stop_def Let_def split: sum.split option.split json.split prod.split)
qed

lemma grows_dispatch: "grows d (snd (dispatch env event payload d))"
  by (simp add: dispatch_def skips_def grows_prompt grows_stop)

lemma grows_main: "grows d (snd (hook_main env raw d))"
proof -
  have "grows d d'" if "dispatch env event payload d = (r, d')" for event payload r d'
    using grows_dispatch [of d env event payload] that by simp
  then show ?thesis
    by (auto simp: hook_main_def Let_def split: option.split json.split prod.split sum.split)
qed

lemma grows_runs: "grows d (hook_runs events d)"
proof (induction events arbitrary: d)
  case (Cons event events)
  show ?case
    by (cases event) (simp, rule grows_trans [OF grows_main Cons.IH])
qed simp

text \<open>
  Whatever events arrive and whatever file operations fail, the hook never removes or
  changes a character of a history file or of its log: every text it leaves extends the text it found.
\<close>

theorem history_grows: "prefix (text_at d p) (text_at (hook_runs events d) p)"
  using grows_runs by (simp add: grows_def)

subsection \<open>Names\<close>

lemma dash_runs_chars: "set (dash_runs P s) \<subseteq> insert (CHR ''-'') {c \<in> set s. \<not> P c}"
  by (induction P s rule: dash_runs.induct) (auto dest: set_dropWhileD)

lemma slugify_chars: "list_all slug_char (slugify text n)"
proof -
  let ?a = "dash_runs (\<lambda>c. \<not> slug_char c) (lower text)"
  let ?b = "strip_by (\<lambda>c. c = CHR ''-'') (dash_runs (\<lambda>c. c = CHR ''-'') ?a)"
  have dash: "slug_char (CHR ''-'')" by (simp add: slug_char_def)
  have "set (take n ?b) \<subseteq> set (dash_runs (\<lambda>c. c = CHR ''-'') ?a)"
    using set_strip_by [of "\<lambda>c. c = CHR ''-''" "dash_runs (\<lambda>c. c = CHR ''-'') ?a"] set_take_subset by fast
  also have "\<dots> \<subseteq> insert (CHR ''-'') (set ?a)" using dash_runs_chars by fast
  also have "\<dots> \<subseteq> {c. slug_char c}" using dash_runs_chars [of "\<lambda>c. \<not> slug_char c" "lower text"] dash by auto
  finally have "list_all slug_char (take n ?b)" by (auto simp: list_all_iff)
  then show ?thesis
    by (simp add: slugify_def Let_def) (simp add: slug_char_def char_class_defs)
qed

lemma slugify_length: "length (slugify text n) \<le> max n 8" "slugify text n \<noteq> []"
  by (auto simp: slugify_def Let_def)

lemma find_in_set: "find P xs = Some x \<Longrightarrow> x \<in> set xs"
  by (auto simp: find_Some_iff)

lemma bounded_run_chars: "bounded_run P s = Some t \<Longrightarrow> list_all P t \<and> t \<noteq> []"
proof -
  assume "bounded_run P s = Some t"
  then obtain n where n: "1 \<le> n" "n \<le> length (takeWhile P s)" "t = take n s"
    by (auto simp: bounded_run_def dest!: find_in_set)
  then have "t = take n (takeWhile P s)"
    by (metis takeWhile_eq_take take_take min.absorb1)
  then have "list_all P t" using set_take_subset set_takeWhileD by (fastforce simp: list_all_iff)
  moreover have "t \<noteq> []" using n by auto
  ultimately show ?thesis by simp
qed

lemma tagged_chars: "tagged tag s = Some t \<Longrightarrow> list_all token_char tag \<Longrightarrow> list_all token_char t \<and> t \<noteq> []"
  by (auto simp: tagged_def split: if_splits dest: bounded_run_chars)

lemma token_here_chars: "token_here s = Some t \<Longrightarrow> list_all token_char t \<and> t \<noteq> []"
proof -
  have "list_all token_char ''TASK-REV-''" "list_all token_char ''FEAT-''" "list_all token_char ''TASK-''"
    by (simp_all add: token_char_def char_class_defs)
  then show "token_here s = Some t \<Longrightarrow> ?thesis"
    by (auto simp: token_here_def split: option.splits dest: tagged_chars)
qed

lemma search_token_chars: "search_token w s = Some t \<Longrightarrow> list_all token_char t \<and> t \<noteq> []"
  by (induction w s rule: search_token.induct) (auto split: option.splits if_splits dest: token_here_chars)

text \<open>The characters a slug can have, none of which is special in a path.\<close>

definition name_char :: "char \<Rightarrow> bool" where
  "name_char c \<longleftrightarrow> is_lower c \<or> is_upper c \<or> is_digit c \<or> c = CHR ''-''"

lemma name_char_no_slash: "list_all name_char s \<Longrightarrow> CHR ''/'' \<notin> set s"
  by (auto simp: list_all_iff name_char_def char_class_defs)

lemma derive_slug_chars: "derive_slug prompt = Some t \<Longrightarrow> list_all name_char t \<and> t \<noteq> []"
  using slugify_chars [of _ 60] slugify_length(2) [of _ 60] search_token_chars [of False prompt t]
  by (auto simp: derive_slug_def list_all_iff name_char_def slug_char_def token_char_def split: option.splits)

lemma parse_slash_Some:
  "parse_slash prompt = Some (cmd, tag) \<Longrightarrow> cmd \<in> set CAPTURE_COMMANDS \<and> tag = derive_slug prompt"
  by (auto simp: parse_slash_def split: list.splits if_splits option.splits)

lemma commands_plain: "cmd \<in> set CAPTURE_COMMANDS \<Longrightarrow> list_all name_char cmd"
  unfolding CAPTURE_COMMANDS_def by (auto simp: name_char_def char_class_defs)

definition tag_part :: "string option \<Rightarrow> string" where
  "tag_part tag = (case tag of None \<Rightarrow> [] | Some t \<Rightarrow> CHR ''-'' # t)"

lemma history_name_eq:
  "tag \<noteq> Some [] \<Longrightarrow> history_name (JStr cmd) (slug_json tag) = cmd @ tag_part tag @ ''-history.md''"
  by (cases tag) (auto simp: history_name_def slug_json_def str_json_def tag_part_def)

lemma commands_not_nested:
  "cmd \<in> set CAPTURE_COMMANDS \<Longrightarrow> cmd' \<in> set CAPTURE_COMMANDS \<Longrightarrow> \<not> prefix (cmd @ ''-'') cmd'"
proof -
  have "list_all (\<lambda>c. list_all (\<lambda>c'. \<not> prefix (c @ ''-'') c') CAPTURE_COMMANDS) CAPTURE_COMMANDS" by code_simp
  then show "cmd \<in> set CAPTURE_COMMANDS \<Longrightarrow> cmd' \<in> set CAPTURE_COMMANDS \<Longrightarrow> ?thesis"
    by (auto simp: list_all_iff)
qed

text \<open>The command is the part of a name before the slug, since no command begins like another one.\<close>

lemma split_command:
  assumes "cmd \<in> set CAPTURE_COMMANDS" "cmd' \<in> set CAPTURE_COMMANDS"
    and eq: "cmd @ CHR ''-'' # r = cmd' @ CHR ''-'' # r'"
  shows "cmd = cmd' \<and> r = r'"
proof -
  from eq consider us where "cmd = cmd' @ us" "us @ CHR ''-'' # r = CHR ''-'' # r'"
    | us where "cmd @ us = cmd'" "CHR ''-'' # r = us @ CHR ''-'' # r'"
    by (auto simp: append_eq_append_conv2)
  then show ?thesis
  proof cases
    case 1
    then have "us = []" using commands_not_nested [OF assms(2,1)] by (cases us) (auto simp: prefix_def)
    with 1 show ?thesis by simp
  next
    case 2
    then have "us = []" using commands_not_nested [OF assms(1,2)] by (cases us) (auto simp: prefix_def)
    with 2 show ?thesis by simp
  qed
qed

lemma history_name_plain:
  assumes "parse_slash prompt = Some (cmd, tag)"
  shows "CHR ''/'' \<notin> set (history_name (JStr cmd) (slug_json tag))"
    and "history_name (JStr cmd) (slug_json tag) \<noteq> ''command-history.md''"
    and "history_name (JStr cmd) (slug_json tag) = cmd @ tag_part tag @ ''-history.md''"
proof -
  note parsed = parse_slash_Some [OF assms]
  have "tag \<noteq> Some []" using parsed derive_slug_chars by fastforce
  then show eq: "history_name (JStr cmd) (slug_json tag) = cmd @ tag_part tag @ ''-history.md''"
    by (rule history_name_eq)
  show "CHR ''/'' \<notin> set (history_name (JStr cmd) (slug_json tag))"
    using parsed commands_plain [of cmd] derive_slug_chars [of prompt] unfolding eq
    by (cases "derive_slug prompt") (auto simp: tag_part_def dest: name_char_no_slash)
  show "history_name (JStr cmd) (slug_json tag) \<noteq> ''command-history.md''"
    using parsed unfolding eq CAPTURE_COMMANDS_def by auto
qed

text \<open>
  The history file of a captured prompt is a file of the history directory itself, whatever
  the prompt quotes: its name has no path separator. It is never the master log, and two captured
  prompts share a file only when they have the same command and the same slug.
\<close>

theorem history_files_separate:
  assumes "parse_slash prompt = Some (cmd, tag)" and "parse_slash prompt' = Some (cmd', tag')"
  shows "CHR ''/'' \<notin> set (history_name (JStr cmd) (slug_json tag))
       \<and> history_name (JStr cmd) (slug_json tag) \<noteq> ''command-history.md''
       \<and> (history_name (JStr cmd) (slug_json tag) = history_name (JStr cmd') (slug_json tag') \<longleftrightarrow>
            cmd = cmd' \<and> tag = tag')"
proof -
  have "cmd = cmd' \<and> tag = tag'"
    if "cmd @ tag_part tag @ ''-history.md'' = cmd' @ tag_part tag' @ ''-history.md''"
    using that assms [THEN parse_slash_Some]
      split_command [of cmd cmd' "tl (tag_part tag @ ''-history.md'')" "tl (tag_part tag' @ ''-history.md'')"]
    by (auto simp: tag_part_def split: option.splits dest: arg_cong [where f = length])
  then show ?thesis
    using history_name_plain [OF assms(1)] history_name_plain(3) [OF assms(2)] by auto
qed

subsection \<open>One capture for each prompt\<close>

text \<open>The history files of a disk, and its sessions whose prompt is not captured yet.\<close>

definition histories :: "disk \<Rightarrow> files" where
  "histories d = filter (\<lambda>(p, t). suffix ''.md'' p) (d_texts d)"

definition unfinished :: "string \<times> state_file \<Rightarrow> bool" where
  "unfinished e \<longleftrightarrow>
     (case decoded (snd e) of
        Some (JObj state) \<Rightarrow> \<not> truthy (json_get state ''completion_written'')
      | _ \<Rightarrow> False)"

definition pending :: "disk \<Rightarrow> nat" where
  "pending d = length (filter unfinished (d_states d))"

definition queues :: "string \<Rightarrow> bool" where
  "queues raw \<longleftrightarrow>
     (case loads raw of
        Some (JObj payload) \<Rightarrow>
          json_get payload ''hook_event_name'' = JStr ''UserPromptSubmit''
          \<and> (case json_get payload ''prompt'' of JStr prompt \<Rightarrow> parse_slash prompt \<noteq> None | _ \<Rightarrow> False)
      | _ \<Rightarrow> False)"

text \<open>
  The runs in which no file operation fails, from an empty disk: the number of prompts that were
  queued, the number of events that wrote to a history file, and the disk.
\<close>

inductive hook_run :: "nat \<Rightarrow> nat \<Rightarrow> disk \<Rightarrow> bool" where
  empty: "hook_run 0 0 \<lparr>d_states = [], d_texts = []\<rparr>"
| event: "hook_run prompts captures d \<Longrightarrow> faults env = (\<lambda>op. None) \<Longrightarrow> d' = snd (hook_main env raw d) \<Longrightarrow>
    hook_run (if queues raw then Suc prompts else prompts)
      (if histories d' \<noteq> histories d then Suc captures else captures) d'"

lemma filter_dict_set: "\<not> P k \<Longrightarrow> filter (\<lambda>(k, v). P k) (dict_set k v al) = filter (\<lambda>(k, v). P k) al"
  unfolding dict_set_def by (induction al) auto

lemma length_filter_dict_set:
  "length (filter Q (dict_set k v' al)) + (case dict_get al k of None \<Rightarrow> 0 | Some v \<Rightarrow> of_bool (Q (k, v)))
   = length (filter Q al) + of_bool (Q (k, v'))"
  unfolding dict_set_def by (induction al) auto

lemma suffix_path_join: "suffix s b \<Longrightarrow> suffix s (path_join a b)"
proof -
  have "\<exists>x. path_join a b = x @ b" by (auto simp: path_join_def)
  then show "suffix s b \<Longrightarrow> suffix s (path_join a b)" by (auto intro: suffix_appendI)
qed

lemma suffix_last: "suffix s p \<Longrightarrow> s \<noteq> [] \<Longrightarrow> last p = last s"
  by (auto simp: suffix_def)

lemma histories_log [simp]: "histories (log_msg env cwd msg d) = histories d"
proof -
  have "suffix ''.log'' (path_join c LOG_REL)" for c
    by (rule suffix_path_join) (simp add: LOG_REL_def suffix_def)
  then have "\<not> suffix ''.md'' (path_join c LOG_REL)" for c
    using suffix_last [of "''.log''" "path_join c LOG_REL"] suffix_last [of "''.md''" "path_join c LOG_REL"] by auto
  then show ?thesis
    by (simp add: histories_def log_msg_def append_text_def set_text_def filter_dict_set
        split: sum.split option.split fault.split)
qed

lemma histories_states [simp]: "histories (d\<lparr>d_states := x\<rparr>) = histories d"
  by (simp add: histories_def)

lemma pending_texts [simp]: "pending (set_text p t d) = pending d" "pending (log_msg env cwd msg d) = pending d"
  by (simp_all add: pending_def)

lemma length_filter_filter: "length (filter Q (filter P xs)) \<le> length (filter Q xs)"
  by (induction xs) auto

lemma pending_cleanup: "pending (cleanup_stale env cwd h d) \<le> pending d"
  by (simp add: pending_def cleanup_stale_def length_filter_filter del: filter_filter)

lemma put_state_None:
  "put_state None p v t d = (Inr (), d\<lparr>d_states := dict_set p \<lparr>decoded = Some v, mtime = t\<rparr> (d_states d)\<rparr>)"
  by (simp add: put_state_def)

lemma pending_set_le:
  "pending (d\<lparr>d_states := dict_set p f (d_states d)\<rparr>) \<le> Suc (pending d)"
  using length_filter_dict_set [of unfinished p f "d_states d"]
  by (auto simp: pending_def of_bool_def split: if_splits)

lemma pending_finish:
  "dict_get (d_states d) p = Some f \<Longrightarrow> unfinished (p, f) \<Longrightarrow> \<not> unfinished (p, f') \<Longrightarrow>
   Suc (pending (d\<lparr>d_states := dict_set p f' (d_states d)\<rparr>)) = pending d"
  using length_filter_dict_set [of unfinished p f' "d_states d"] by (simp add: pending_def)

lemma prompt_step:
  assumes "faults env = (\<lambda>op. None)"
  shows "histories (snd (handle_user_prompt env payload d)) = histories d"
    and "pending (snd (handle_user_prompt env payload d)) \<le>
           pending d + of_bool (case json_get payload ''prompt'' of JStr prompt \<Rightarrow> parse_slash prompt \<noteq> None | _ \<Rightarrow> False)"
proof -
  have le: "pending (cleanup_stale env dir h d\<lparr>d_states := dict_set p f (d_states (cleanup_stale env dir h d))\<rparr>) \<le> Suc (pending d)" for dir h p f
    using pending_set_le pending_cleanup le_trans Suc_le_mono by metis
  have none: "parse_slash [] = None" by (simp add: parse_slash_def lstrip_by_def)
  have "histories (cleanup_stale env dir h d) = histories d" for dir h by (simp add: cleanup_stale_def)
  then show "histories (snd (handle_user_prompt env payload d)) = histories d"
    using assms by (simp add: handle_user_prompt_def Let_def act_simps put_state_None
        split: json.split option.split sum.split prod.split)
  show "pending (snd (handle_user_prompt env payload d)) \<le>
           pending d + of_bool (case json_get payload ''prompt'' of JStr prompt \<Rightarrow> parse_slash prompt \<noteq> None | _ \<Rightarrow> False)"
    using assms le none
    by (auto simp: handle_user_prompt_def Let_def act_simps put_state_None py_or_def
        split: json.split option.split sum.split prod.split)
qed

text \<open>Without failures the history is written whole: both blocks and the mark, or nothing.\<close>

definition captured :: "hook_env \<Rightarrow> (string \<times> json) list \<Rightarrow> (string \<times> json) list" where
  "captured env state =
     dict_set ''completed_at'' (JStr (utc_iso env Finish_state)) (dict_set ''completion_written'' (JBool True) state)"

lemma captured_written [simp]: "json_get (captured env state) ''completion_written'' = JBool True"
  by (simp add: captured_def json_get_def dict_simps)

definition with_block :: "string \<Rightarrow> string \<Rightarrow> string \<Rightarrow> disk \<Rightarrow> disk" where
  "with_block p header block d =
     set_text p ((case dict_get (d_texts d) p of None \<Rightarrow> header | Some t \<Rightarrow> t) @ block) d"

lemma d_states_with_block [simp]: "d_states (with_block p header block d) = d_states d"
  by (simp add: with_block_def)

lemma write_history_ok:
  fixes response dir cwd sp d
  assumes "faults env = (\<lambda>op. None)"
    and "item_at state ''command'' = Inr c" "item_at state ''prompt'' = Inr p" "item_at state ''started_at'' = Inr t"
  defines "tag \<equiv> json_get state ''slug''"
  defines "block \<equiv> format_block c tag p response t"
  defines "d1 \<equiv> with_block (command_path dir c tag) (command_header c tag) block
                   (with_block (master_path dir) MASTER_HEADER block d)"
  shows "write_history env cwd dir sp state response d =
           (Inr (), log_msg env cwd
              (''captured: /'' @ str_json c @ '' ('' @ str_json (py_or tag (JStr ''-'')) @ '') -> ''
               @ show_nat (length response) @ '' chars'')
              (d1\<lparr>d_states := dict_set sp \<lparr>decoded = Some (JObj (captured env state)), mtime = time_us env\<rparr> (d_states d)\<rparr>))"
  using assms(1-4)
  by (simp add: write_history_def Let_def append_master_def write_per_command_def append_block_ok put_state_None
      act_simps captured_def with_block_def block_def d1_def tag_def)

lemma write_history_cases:
  assumes "faults env = (\<lambda>op. None)"
    and "dict_get (d_states d) sp = Some f" "decoded f = Some (JObj state)"
    and "\<not> truthy (json_get state ''completion_written'')"
    and "write_history env cwd dir sp state response d = (r, d')"
  shows "(\<exists>e. r = Inl e) \<and> d' = d \<or> r = Inr () \<and> Suc (pending d') = pending d"
proof (cases "\<exists>c p t. item_at state ''command'' = Inr c \<and> item_at state ''prompt'' = Inr p \<and> item_at state ''started_at'' = Inr t")
  case True
  then obtain c p t where
    "item_at state ''command'' = Inr c" "item_at state ''prompt'' = Inr p" "item_at state ''started_at'' = Inr t"
    by blast
  note ok = write_history_ok [OF assms(1) this, of cwd dir sp response d]
  have "Suc (pending (d1\<lparr>d_states := dict_set sp f' (d_states d)\<rparr>)) = pending d"
    if "f' = \<lparr>decoded = Some (JObj (captured env state)), mtime = time_us env\<rparr>" for d1 f'
    using pending_finish [of d sp f f'] assms(2-4) that by (simp add: pending_def unfinished_def)
  with ok assms(5) show ?thesis by auto
next
  case False
  with assms(5) show ?thesis
    by (auto simp: write_history_def Let_def fails_def item_at_def split: option.splits)
qed

lemma stop_step:
  assumes "faults env = (\<lambda>op. None)"
  shows "pending (snd (handle_stop env payload d)) + of_bool (histories (snd (handle_stop env payload d)) \<noteq> histories d)
           \<le> pending d"
proof -
  have main: "pending d' \<le> pending d \<and> (histories d' \<noteq> histories d \<longrightarrow> pending d' < pending d)"
    if "write_history env cwd dir sp state response d = (r, d')"
      "dict_get (d_states d) sp = Some f" "decoded f = Some (JObj state)"
      "\<not> truthy (json_get state ''completion_written'')"
    for cwd dir sp f state response r d'
    using write_history_cases [OF assms that(2-4) that(1)] by auto
  show ?thesis
    by (auto simp: handle_stop_def Let_def of_bool_def Suc_le_eq dest: main
        split: sum.split option.split json.split prod.split)
qed

lemma hook_main_disk:
  fixes env d
  assumes "loads raw = Some (JObj payload)"
  defines "d' \<equiv> snd (dispatch env (py_or (json_get payload ''hook_event_name'') (JStr [])) payload d)"
  shows "pending (snd (hook_main env raw d)) = pending d'" and "histories (snd (hook_main env raw d)) = histories d'"
  using assms by (auto simp: hook_main_def Let_def split: prod.split sum.split)

lemma hook_step:
  fixes env raw d
  assumes "faults env = (\<lambda>op. None)"
  defines "d' \<equiv> snd (hook_main env raw d)"
  shows "pending d' + of_bool (histories d' \<noteq> histories d) \<le> pending d + of_bool (queues raw)"
proof (cases "\<exists>payload. loads raw = Some (JObj payload)")
  case True
  then obtain payload where raw: "loads raw = Some (JObj payload)" by blast
  let ?event = "py_or (json_get payload ''hook_event_name'') (JStr [])"
  have event: "?event = JStr (c # s) \<longleftrightarrow> json_get payload ''hook_event_name'' = JStr (c # s)" for c s
    by (auto simp: py_or_def)
  consider "?event = JStr ''UserPromptSubmit''" | "?event = JStr ''Stop''"
    | "?event \<noteq> JStr ''UserPromptSubmit''" "?event \<noteq> JStr ''Stop''" by blast
  then show ?thesis
  proof cases
    case 1
    then have "dispatch env ?event payload = handle_user_prompt env payload" by (simp add: dispatch_def)
    moreover from 1 have "json_get payload ''hook_event_name'' = JStr ''UserPromptSubmit''"
      by (simp only: event)
    ultimately show ?thesis
      using prompt_step [OF assms(1), of payload d]
      unfolding d'_def hook_main_disk [OF raw] by (simp add: queues_def raw)
  next
    case 2
    then have "dispatch env ?event payload = handle_stop env payload" by (simp add: dispatch_def)
    then show ?thesis
      using stop_step [OF assms(1), of payload d] unfolding d'_def hook_main_disk [OF raw] by simp
  next
    case 3
    then have "dispatch env ?event payload = skips" by (simp add: dispatch_def)
    then show ?thesis unfolding d'_def hook_main_disk [OF raw] by (simp add: skips_def)
  qed
next
  case False
  then show ?thesis by (simp add: d'_def hook_main_def split: option.split json.split)
qed

text \<open>
  C23: While file operations succeed, no prompt is captured twice: in every reachable state the
  events that wrote to a history file, together with the sessions still waiting for their answer, are
  at most as many as the prompts that were queued.
\<close>

theorem one_capture_per_prompt:
  assumes "hook_run prompts captures d"
  shows "captures + pending d \<le> prompts"
  using assms
proof (induction rule: hook_run.induct)
  case (event prompts captures d env d' raw)
  with hook_step [of env raw d] show ?case by (auto simp: of_bool_def split: if_splits)
qed (simp add: pending_def)

subsection \<open>A prompt and its stop\<close>

lemma log_not_md: "suffix ''.md'' p \<Longrightarrow> p \<noteq> path_join c LOG_REL"
  using suffix_last [OF suffix_path_join [of "''.log''" LOG_REL c]] suffix_last [of "''.md''" p]
  by (auto simp: LOG_REL_def suffix_def)

lemma log_keeps_md: "suffix ''.md'' p \<Longrightarrow> dict_get (d_texts (log_msg env cwd msg d)) p = dict_get (d_texts d) p"
  using log_not_md [of p]
  by (simp add: log_msg_def append_text_def set_text_def dict_simps split: sum.split option.split fault.split)

lemma with_block_get:
  "dict_get (d_texts (with_block p header block d)) q =
     (if q = p then Some ((case dict_get (d_texts d) p of None \<Rightarrow> header | Some t \<Rightarrow> t) @ block)
      else dict_get (d_texts d) q)"
  by (simp add: with_block_def set_text_def dict_simps)

lemma history_paths:
  assumes "parse_slash prompt = Some (cmd, tag)"
  shows "suffix ''.md'' (master_path dir)" "suffix ''.md'' (command_path dir (JStr cmd) (slug_json tag))"
    "master_path dir \<noteq> command_path dir (JStr cmd) (slug_json tag)"
proof -
  note plain = history_name_plain [OF assms]
  show "suffix ''.md'' (master_path dir)"
    unfolding master_path_def by (rule suffix_path_join) (simp add: suffix_def)
  have "suffix ''.md'' (cmd @ tag_part tag @ ''-history.md'')"
    by (rule suffixI [of _ "cmd @ tag_part tag @ ''-history''"]) simp
  then show "suffix ''.md'' (command_path dir (JStr cmd) (slug_json tag))"
    unfolding command_path_def plain(3) by (rule suffix_path_join)
  have "\<not> prefix ''/'' (history_name (JStr cmd) (slug_json tag))"
    using plain(1) by (auto simp: prefix_def)
  then show "master_path dir \<noteq> command_path dir (JStr cmd) (slug_json tag)"
    using plain(2) by (auto simp: master_path_def command_path_def path_join_def)
qed

lemma py_or_text: "py_or (JStr s) (JStr []) = JStr s"
  by (simp add: py_or_def)

lemma stop_after_capture:
  assumes "cwd_of env payload = JStr dir"
    and "dict_get (d_states d) (state_path dir (session_of payload)) = Some f"
    and "decoded f = Some (JObj state)" "truthy (json_get state ''completion_written'')"
  shows "handle_stop env payload d = (Inr (), d)"
  using assms by (simp add: handle_stop_def path_of_def)

text \<open>
  C24: A captured prompt and the stop that answers it, with no failing file operation: the block
  with the prompt and the answer is appended to the master log and to the file of the command, each
  created with its header when it is missing, no other history file changes, and a later stop of the
  session changes nothing, not even the log.
\<close>

theorem capture_exact:
  fixes d
  assumes prompt: "json_get p1 ''prompt'' = JStr prompt" "parse_slash prompt = Some (cmd, tag)"
    and session: "session_of p2 = session_of p1" "session_of p3 = session_of p1"
    and cwd: "cwd_of e1 p1 = JStr dir" "cwd_of e2 p2 = JStr dir" "cwd_of e3 p3 = JStr dir"
    and faults: "faults e1 = (\<lambda>op. None)" "faults e2 = (\<lambda>op. None)"
    and transcript: "json_get p2 ''transcript_path'' = JStr path" "path \<noteq> []"
      "extract_assistant_text e2 path (py_or (time_json e1) (JFloat ''0.0'')) = Inr response" "strip response \<noteq> []"
  defines "block \<equiv> format_block (JStr cmd) (slug_json tag) (JStr prompt) response (JStr (utc_iso e1 Save_state))"
    and "master \<equiv> master_path dir" and "own \<equiv> command_path dir (JStr cmd) (slug_json tag)"
    and "d2 \<equiv> snd (handle_stop e2 p2 (snd (handle_user_prompt e1 p1 d)))"
  shows "dict_get (d_texts d2) master =
           Some ((case dict_get (d_texts d) master of None \<Rightarrow> MASTER_HEADER | Some t \<Rightarrow> t) @ block)
       \<and> dict_get (d_texts d2) own =
           Some ((case dict_get (d_texts d) own of None \<Rightarrow> command_header (JStr cmd) (slug_json tag) | Some t \<Rightarrow> t) @ block)
       \<and> (\<forall>p. suffix ''.md'' p \<longrightarrow> p \<noteq> master \<longrightarrow> p \<noteq> own \<longrightarrow> dict_get (d_texts d2) p = dict_get (d_texts d) p)
       \<and> handle_stop e3 p3 d2 = (Inr (), d2)"
proof -
  let ?sp = "state_path dir (session_of p1)" and ?state = "new_state e1 p1 prompt cmd tag"
  obtain msg where d1: "handle_user_prompt e1 p1 d = (Inr (), log_msg e1 (JStr dir) msg
      (cleanup_stale e1 dir 48 d\<lparr>d_states := dict_set ?sp \<lparr>decoded = Some (JObj ?state), mtime = time_us e1\<rparr>
        (d_states (cleanup_stale e1 dir 48 d))\<rparr>))"
    using prompt cwd faults
    by (simp add: handle_user_prompt_def Let_def act_simps put_state_None path_of_def py_or_text)
  define d1 where "d1 = snd (handle_user_prompt e1 p1 d)"
  have texts1: "dict_get (d_texts d1) p = dict_get (d_texts d) p" if "suffix ''.md'' p" for p
    unfolding d1_def d1 using that by (simp add: log_keeps_md) (simp add: cleanup_stale_def)
  have state1: "dict_get (d_states d1) ?sp = Some \<lparr>decoded = Some (JObj ?state), mtime = time_us e1\<rparr>"
    unfolding d1_def d1 by (simp add: dict_simps)
  have get: "json_get ?state ''completion_written'' = JBool False" "json_get ?state ''slug'' = slug_json tag"
    "json_get ?state ''started_at_epoch'' = time_json e1"
    "item_at ?state ''command'' = Inr (JStr cmd)" "item_at ?state ''prompt'' = Inr (JStr prompt)"
    "item_at ?state ''started_at'' = Inr (JStr (utc_iso e1 Save_state))"
    by (simp_all add: new_state_def json_get_def item_at_def)
  note written = write_history_ok [OF faults(2) get(4-6), of "JStr dir" dir ?sp response d1, unfolded get(2)]
  obtain msg' where d2: "d2 = log_msg e2 (JStr dir) msg'
      (with_block own (command_header (JStr cmd) (slug_json tag)) block (with_block master MASTER_HEADER block d1)
        \<lparr>d_states := dict_set ?sp \<lparr>decoded = Some (JObj (captured e2 ?state)), mtime = time_us e2\<rparr> (d_states d1)\<rparr>)"
    using session cwd transcript state1 get(1,3)
    unfolding d2_def d1_def [symmetric] block_def own_def master_def
    by (simp add: handle_stop_def path_of_def written py_or_def)
  have "handle_stop e3 p3 d2 = (Inr (), d2)"
    by (rule stop_after_capture [OF cwd(3), of _ "\<lparr>decoded = Some (JObj (captured e2 ?state)), mtime = time_us e2\<rparr>" "captured e2 ?state"])
       (simp_all add: d2 session dict_simps)
  then show ?thesis
    using history_paths [OF prompt(2), of dir] texts1
    by (auto simp: d2 log_keeps_md with_block_get own_def master_def)
qed

subsection \<open>Exit codes, and what a failure leaves\<close>

text \<open>
  The hook ends with 0 whatever its handlers raise; only a payload that is JSON but no object makes
  it end with an exception, although it is documented never to raise.
\<close>

lemma hook_exit:
  "fst (hook_main env raw d) =
     (case loads raw of
        None \<Rightarrow> Inr 0
      | Some (JObj payload) \<Rightarrow> Inr 0
      | Some v \<Rightarrow> Inl (no_attr v ''get''))"
  by (auto simp: hook_main_def Let_def split: option.split json.split prod.split sum.split)

definition review_prompt :: string where "review_prompt = ''/review TASK-7''"

definition prompt_event :: "(string \<times> json) list" where
  "prompt_event = [(''hook_event_name'', JStr ''UserPromptSubmit''), (''prompt'', JStr review_prompt)]"

definition stop_event :: "(string \<times> json) list" where
  "stop_event = [(''hook_event_name'', JStr ''Stop''), (''transcript_path'', JStr ''t'')]"

definition answer_line :: string where
  "answer_line = emit (JObj [(''type'', JStr ''assistant''),
     (''message'', JObj [(''content'', JList [JObj [(''type'', JStr ''text''), (''text'', JStr ''done'')]])])])"

definition calm_env :: hook_env where
  "calm_env =
     \<lparr>getcwd = ''w'', utc_iso = \<lambda>op. ''T'', time_us = 0, time_json = JInt 7, instant = \<lambda>s. None,
      epoch = \<lambda>v. None, transcripts = \<lambda>p. Lines [answer_line], faults = \<lambda>op. None, unremovable = \<lambda>p. False\<rparr>"

definition full_env :: hook_env where
  "full_env = calm_env\<lparr>faults := \<lambda>op. if op = Command_head then Some (Open_fails ''OSError: full'') else None\<rparr>"

definition clean_disk :: disk where "clean_disk = \<lparr>d_states = [], d_texts = []\<rparr>"

definition review_block :: string where
  "review_block = format_block (JStr ''review'') (JStr ''TASK-7'') (JStr review_prompt) ''done'' (JStr ''T'')"

lemma calm_faults: "faults calm_env = (\<lambda>op. None)" by (simp add: calm_env_def)

lemma review_parsed: "parse_slash review_prompt = Some (''review'', Some ''TASK-7'')" by code_simp

text \<open>
  A stop whose second file cannot be written leaves the block in the master log and no mark, so
  the next stop of the session appends the same block again.
\<close>

lemma failed_write_repeats_the_block:
  "text_at (hook_runs [(calm_env, emit (JObj prompt_event)), (full_env, emit (JObj stop_event)),
     (calm_env, emit (JObj stop_event))] clean_disk) (master_path ''w'')
   = MASTER_HEADER @ review_block @ review_block"
  by code_simp

lemma history_files_separate_witness:
  "CHR ''/'' \<notin> set (history_name (JStr ''review'') (slug_json (Some ''TASK-7'')))"
  using history_files_separate [OF review_parsed review_parsed] by blast

lemma one_capture_per_prompt_witness: "\<exists>d. hook_run 1 1 d \<and> 1 + pending d \<le> (1::nat)"
proof -
  define d1 where "d1 = snd (hook_main calm_env (emit (JObj prompt_event)) clean_disk)"
  define d2 where "d2 = snd (hook_main calm_env (emit (JObj stop_event)) d1)"
  have "queues (emit (JObj prompt_event))" "\<not> queues (emit (JObj stop_event))" by code_simp+
  moreover have "histories (snd (hook_main calm_env (emit (JObj prompt_event)) clean_disk)) = histories clean_disk"
    by code_simp
  moreover have "histories (snd (hook_main calm_env (emit (JObj stop_event))
      (snd (hook_main calm_env (emit (JObj prompt_event)) clean_disk)))) \<noteq> histories clean_disk"
    by code_simp
  ultimately have "hook_run 1 1 d2"
    using hook_run.event [OF hook_run.event [OF hook_run.empty calm_faults d1_def [unfolded clean_disk_def]] calm_faults d2_def]
    by (simp add: d1_def d2_def clean_disk_def)
  with one_capture_per_prompt [OF this] show ?thesis by auto
qed

lemma capture_exact_witness:
  "dict_get (d_texts (snd (handle_stop calm_env stop_event (snd (handle_user_prompt calm_env prompt_event clean_disk)))))
     (master_path ''w'') = Some (MASTER_HEADER @ review_block)"
proof -
  have env: "json_get prompt_event ''prompt'' = JStr review_prompt" "session_of stop_event = session_of prompt_event"
    "cwd_of calm_env prompt_event = JStr ''w''" "cwd_of calm_env stop_event = JStr ''w''"
    "json_get stop_event ''transcript_path'' = JStr ''t''" "''t'' \<noteq> []" "strip ''done'' \<noteq> []"
    "extract_assistant_text calm_env ''t'' (py_or (time_json calm_env) (JFloat ''0.0'')) = Inr ''done''"
    by code_simp+
  have block: "review_block = format_block (JStr ''review'') (slug_json (Some ''TASK-7'')) (JStr review_prompt) ''done''
      (JStr (utc_iso calm_env Save_state))"
    by (simp add: review_block_def slug_json_def calm_env_def)
  show ?thesis
    using capture_exact [OF env(1) review_parsed env(2) env(2) env(3,4,4) calm_faults calm_faults env(5,6,8,7), of clean_disk]
    unfolding block by (simp add: clean_disk_def)
qed

end
