(* ===== verification/Atomic_File.thy ===== *)
theory Atomic_File
  imports Json_Text Fence
begin

text \<open>
  The two files of the liveness fence that are replaced atomically: the relay's progress marker
  (\<open>RelayMarker._write\<close> in \<open>fence/marker.py\<close>) and the status file (\<open>write_status\<close> in
  \<open>fence/report.py\<close>). Their texts are the layouts of \<open>Json_Text\<close>; the replacement is a relation
  between file systems that any number of processes take small steps of, with writes that arrive in
  pieces, operations that fail, and processes that are killed between any two of them.
\<close>

subsection \<open>The texts\<close>

definition end_of_line :: string where "end_of_line = [CHR 0x0A]"

definition marker_text :: "relay_marker \<Rightarrow> string" where
  "marker_text m = json_text spaced (canon (JObj (marker_payload m))) @ end_of_line"

fun status_value :: "status \<Rightarrow> string" where
  "status_value Fine = ''ok''"
| "status_value Alarm = ''alarm''"
| "status_value Held = ''held''"

definition texts_json :: "string list \<Rightarrow> json" where
  "texts_json ts = JList (map JStr ts)"

definition check_dict :: "check_result \<Rightarrow> json" where
  "check_dict c =
     JObj [(''name'', JStr (ck_name c)), (''status'', JStr (status_value (ck_status c))),
           (''reason'', JStr (ck_reason c)), (''message'', JStr (ck_message c)), (''detail'', JObj (ck_detail c))]"

definition thresholds_dict :: "thresholds \<Rightarrow> json" where
  "thresholds_dict th =
     JObj [(''store_max_age_hours'', JInt (store_max_age_hours th)), (''build_window_hours'', JInt (build_window_hours th)),
           (''min_builds_in_window'', JInt (min_builds_in_window th)),
           (''relay_restart_grace_minutes'', JInt (relay_restart_grace_minutes th)),
           (''watch_projects'', texts_json (watch_projects th))]"

definition ack_dict :: "calendar \<Rightarrow> ack_state \<Rightarrow> json" where
  "ack_dict cal a =
     JObj [(''present'', JBool (ack_present a)), (''active'', JBool (ack_active a)), (''reason'', opt_json id (ack_reason a)),
           (''until'', opt_json (date_iso cal) (ack_until a)), (''checks'', texts_json (ack_checks a)),
           (''rejected'', opt_json id (ack_rejected a)), (''expired_on'', opt_json (date_iso cal) (ack_expired_on a)),
           (''max_days'', JInt ACK_MAX_DAYS)]"

definition report_dict :: "calendar \<Rightarrow> fence_report \<Rightarrow> json" where
  "report_dict cal r =
     JObj [(''status'', JStr (status_value (fr_status r))), (''checked_at'', JStr (fr_checked_at r)),
           (''checks'', JList (map check_dict (fr_checks r))), (''thresholds'', thresholds_dict (fr_thresholds r)),
           (''ack'', ack_dict cal (fr_ack r)), (''notes'', texts_json (fr_notes r))]"

definition status_text :: "calendar \<Rightarrow> fence_report \<Rightarrow> string" where
  "status_text cal r = json_text indented (canon (report_dict cal r)) @ end_of_line"

text \<open>What a run prints: the report as one line of JSON, or its lines.\<close>

definition report_output :: "calendar \<Rightarrow> bool \<Rightarrow> fence_report \<Rightarrow> string" where
  "report_output cal as_json r =
     (if as_json then json_text spaced (canon (report_dict cal r)) @ end_of_line
      else concat (map (\<lambda>line. line @ end_of_line) (report_lines r)))"

subsection \<open>Replacing a file\<close>

record stored_file =
  f_text :: string
  f_mode :: nat

type_synonym file_tree = "string \<Rightarrow> stored_file option"

text \<open>
  \<open>_ensure_parent\<close>, on the modes of the directories that exist: a directory that is there is left
  alone, a new one is opened up when its mode can be set; \<open>made\<close> is the mode the umask gives.
\<close>

definition MARKER_DIR_MODE :: nat where "MARKER_DIR_MODE = 493"

definition ensure_parent :: "nat \<Rightarrow> bool \<Rightarrow> string \<Rightarrow> (string \<Rightarrow> nat option) \<Rightarrow> string \<Rightarrow> nat option" where
  "ensure_parent made can_chmod parent dirs =
     (if dirs parent \<noteq> None then dirs else dirs(parent \<mapsto> (if can_chmod then MARKER_DIR_MODE else made)))"

lemma ensure_parent_keeps: "dirs p = Some m \<Longrightarrow> ensure_parent made ok parent dirs p = Some m"
  by (auto simp: ensure_parent_def)

lemma ensure_parent_makes: "ensure_parent made ok parent dirs parent \<noteq> None"
  by (simp add: ensure_parent_def)

text \<open>The file to replace, the beginning of the temporary names beside it, and the mode to set, if any.\<close>

record job =
  jb_target :: string
  jb_stem :: string
  jb_mode :: "nat option"

definition MARKER_FILE_MODE :: nat where "MARKER_FILE_MODE = 420"
definition MKSTEMP_MODE :: nat where "MKSTEMP_MODE = 384"
definition STATUS_FILENAME :: string where "STATUS_FILENAME = ''liveness-fence-status.json''"

definition marker_job :: "string \<Rightarrow> string \<Rightarrow> job" where
  "marker_job parent name =
     \<lparr>jb_target = parent @ ''/'' @ name, jb_stem = parent @ ''/.relay-progress-'', jb_mode = Some MARKER_FILE_MODE\<rparr>"

definition status_job :: "string \<Rightarrow> job" where
  "status_job dir = \<lparr>jb_target = dir @ ''/'' @ STATUS_FILENAME, jb_stem = dir @ ''/.fence-status-'', jb_mode = None\<rparr>"

definition temp_name :: "job \<Rightarrow> string \<Rightarrow> string" where
  "temp_name j rnd = jb_stem j @ rnd @ ''.tmp''"

text \<open>Where a writer is: between two writes, filling its temporary file, or with that file closed.\<close>

datatype phase = Idle | Temp string string | Closed string string

text \<open>
  One step of the \<open>i\<close>-th process. The buffered text reaches the file in pieces (\<open>flush\<close>) and
  whole when the file is closed; the mode, if one is wanted, is set before that. An exception leads to
  \<open>undo\<close>, which unlinks the temporary file, or to \<open>leave\<close> when even that fails; \<open>leave\<close>
  is also what a kill does, at any time.
\<close>

inductive write_step :: "job \<Rightarrow> string set \<Rightarrow> file_tree \<times> (nat \<Rightarrow> phase) \<Rightarrow> file_tree \<times> (nat \<Rightarrow> phase) \<Rightarrow> bool"
  for j :: job and texts :: "string set" where
  mkstemp: "ps i = Idle \<Longrightarrow> text \<in> texts \<Longrightarrow> tmp = temp_name j rnd \<Longrightarrow> fs tmp = None \<Longrightarrow>
    write_step j texts (fs, ps) (fs(tmp \<mapsto> \<lparr>f_text = [], f_mode = MKSTEMP_MODE\<rparr>), ps(i := Temp tmp text))"
| flush: "ps i = Temp tmp text \<Longrightarrow> fs tmp = Some f \<Longrightarrow> prefix (f_text f) part \<Longrightarrow> prefix part text \<Longrightarrow>
    write_step j texts (fs, ps) (fs(tmp \<mapsto> f\<lparr>f_text := part\<rparr>), ps)"
| fchmod: "ps i = Temp tmp text \<Longrightarrow> fs tmp = Some f \<Longrightarrow> jb_mode j = Some mode \<Longrightarrow>
    write_step j texts (fs, ps) (fs(tmp \<mapsto> f\<lparr>f_mode := mode\<rparr>), ps)"
| close: "ps i = Temp tmp text \<Longrightarrow> fs tmp = Some f \<Longrightarrow> jb_mode j = None \<or> jb_mode j = Some (f_mode f) \<Longrightarrow>
    write_step j texts (fs, ps) (fs(tmp \<mapsto> f\<lparr>f_text := text\<rparr>), ps(i := Closed tmp text))"
| replace: "ps i = Closed tmp text \<Longrightarrow> fs tmp = Some f \<Longrightarrow>
    write_step j texts (fs, ps) (fs(tmp := None, jb_target j \<mapsto> f), ps(i := Idle))"
| undo: "ps i = Temp tmp text \<or> ps i = Closed tmp text \<Longrightarrow>
    write_step j texts (fs, ps) (fs(tmp := None), ps(i := Idle))"
| leave: "write_step j texts (fs, ps) (fs, ps(i := Idle))"

definition marker_step :: "string \<Rightarrow> string \<Rightarrow> file_tree \<times> (nat \<Rightarrow> phase) \<Rightarrow> file_tree \<times> (nat \<Rightarrow> phase) \<Rightarrow> bool" where
  "marker_step parent name = write_step (marker_job parent name) (range marker_text)"

definition status_step :: "calendar \<Rightarrow> string \<Rightarrow> file_tree \<times> (nat \<Rightarrow> phase) \<Rightarrow> file_tree \<times> (nat \<Rightarrow> phase) \<Rightarrow> bool" where
  "status_step cal dir = write_step (status_job dir) (range (status_text cal))"

definition final_mode :: "job \<Rightarrow> nat" where
  "final_mode j = (case jb_mode j of None \<Rightarrow> MKSTEMP_MODE | Some m \<Rightarrow> m)"

text \<open>The invariant: whose temporary file is what, and that no other file is touched.\<close>

definition owns :: "phase \<Rightarrow> string \<Rightarrow> bool" where
  "owns ph tmp \<longleftrightarrow> (case ph of Idle \<Rightarrow> False | Temp t x \<Rightarrow> t = tmp | Closed t x \<Rightarrow> t = tmp)"

lemma owns_simps [simp]:
  "\<not> owns Idle tmp" "owns (Temp t x) tmp \<longleftrightarrow> t = tmp" "owns (Closed t x) tmp \<longleftrightarrow> t = tmp"
  by (simp_all add: owns_def)

definition phase_ok :: "job \<Rightarrow> string set \<Rightarrow> file_tree \<Rightarrow> phase \<Rightarrow> bool" where
  "phase_ok j texts fs ph \<longleftrightarrow>
     (case ph of
        Idle \<Rightarrow> True
      | Temp tmp text \<Rightarrow> text \<in> texts \<and> (\<exists>f. fs tmp = Some f \<and> (jb_mode j = None \<longrightarrow> f_mode f = MKSTEMP_MODE))
      | Closed tmp text \<Rightarrow> text \<in> texts \<and> fs tmp = Some \<lparr>f_text = text, f_mode = final_mode j\<rparr>)"

definition written_ok :: "job \<Rightarrow> string set \<Rightarrow> file_tree \<Rightarrow> file_tree \<Rightarrow> bool" where
  "written_ok j texts fs0 fs \<longleftrightarrow>
     (fs (jb_target j) = fs0 (jb_target j) \<or>
      (\<exists>text \<in> texts. fs (jb_target j) = Some \<lparr>f_text = text, f_mode = final_mode j\<rparr>))
     \<and> (\<forall>p. p \<noteq> jb_target j \<longrightarrow> fs0 p \<noteq> None \<longrightarrow> fs p = fs0 p)"

definition writers_ok :: "job \<Rightarrow> string set \<Rightarrow> file_tree \<Rightarrow> file_tree \<Rightarrow> (nat \<Rightarrow> phase) \<Rightarrow> bool" where
  "writers_ok j texts fs0 fs ps \<longleftrightarrow>
     (\<forall>i. phase_ok j texts fs (ps i)) \<and>
     (\<forall>i tmp. owns (ps i) tmp \<longrightarrow> tmp \<noteq> jb_target j \<and> fs0 tmp = None) \<and>
     (\<forall>i k tmp. owns (ps i) tmp \<longrightarrow> owns (ps k) tmp \<longrightarrow> i = k)"

lemma phase_ok_simps [simp]:
  "phase_ok j texts fs Idle"
  "phase_ok j texts fs (Temp tmp text) \<longleftrightarrow>
     text \<in> texts \<and> (\<exists>f. fs tmp = Some f \<and> (jb_mode j = None \<longrightarrow> f_mode f = MKSTEMP_MODE))"
  "phase_ok j texts fs (Closed tmp text) \<longleftrightarrow> text \<in> texts \<and> fs tmp = Some \<lparr>f_text = text, f_mode = final_mode j\<rparr>"
  by (simp_all add: phase_ok_def)

lemma phase_ok_owned: "phase_ok j texts fs ph \<Longrightarrow> owns ph tmp \<Longrightarrow> fs tmp \<noteq> None"
  by (cases ph) auto

lemma phase_ok_frame:
  "phase_ok j texts fs ph \<Longrightarrow> (\<And>tmp. owns ph tmp \<Longrightarrow> fs' tmp = fs tmp) \<Longrightarrow> phase_ok j texts fs' ph"
  by (cases ph) auto

text \<open>A process that changes its own temporary file, or gives it up, disturbs no other process.\<close>

lemma writers_own_step:
  assumes ok: "writers_ok j texts fs0 fs ps"
    and new: "phase_ok j texts fs' ph" "\<And>tmp. owns ph tmp \<Longrightarrow> tmp \<noteq> jb_target j \<and> fs0 tmp = None"
    and others: "\<And>k tmp. k \<noteq> i \<Longrightarrow> owns (ps k) tmp \<Longrightarrow> \<not> owns ph tmp \<and> fs' tmp = fs tmp"
  shows "writers_ok j texts fs0 fs' (ps(i := ph))"
proof -
  have "phase_ok j texts fs' (ps k)" if "k \<noteq> i" for k
    using ok others [OF that] by (auto simp: writers_ok_def intro: phase_ok_frame)
  then show ?thesis
    using ok new others unfolding writers_ok_def by (auto split: if_splits)
qed

lemma owned_apart:
  assumes "writers_ok j texts fs0 fs ps" and "owns (ps i) tmp"
  shows "tmp \<noteq> jb_target j" "fs0 tmp = None" "k \<noteq> i \<Longrightarrow> \<not> owns (ps k) tmp"
  using assms unfolding writers_ok_def by blast+

lemma written_temp: "written_ok j texts fs0 fs \<Longrightarrow> tmp \<noteq> jb_target j \<Longrightarrow> fs0 tmp = None \<Longrightarrow> written_ok j texts fs0 (fs(tmp := x))"
  unfolding written_ok_def by auto

lemma step_invariant:
  assumes "write_step j texts (fs, ps) (fs', ps')" and target: "\<not> suffix ''.tmp'' (jb_target j)"
    and ok: "writers_ok j texts fs0 fs ps" and old: "written_ok j texts fs0 fs"
  shows "writers_ok j texts fs0 fs' ps' \<and> written_ok j texts fs0 fs'"
  using assms(1)
proof cases
  case (mkstemp i x tmp rnd)
  have "suffix ''.tmp'' tmp" using mkstemp(5) by (simp add: temp_name_def suffix_appendI)
  then have tmp: "tmp \<noteq> jb_target j" using target by blast
  with mkstemp(6) old have new: "fs0 tmp = None" by (auto simp: written_ok_def)
  have "\<not> owns (ps k) tmp" for k 
    using ok mkstemp(6) phase_ok_owned [of j texts fs "ps k" tmp] by (simp add: writers_ok_def) blast
  then have "writers_ok j texts fs0 fs' ps'"
    unfolding mkstemp(1,2) using mkstemp(4) tmp new by (intro writers_own_step [OF ok]) auto
  with written_temp [OF old tmp new] show ?thesis unfolding mkstemp(1) by simp
next
  case (flush i tmp x f part)
  note apart = owned_apart [OF ok, of i tmp, unfolded flush(3), simplified]
  have "phase_ok j texts fs (ps i)" using ok by (simp add: writers_ok_def)
  then have "writers_ok j texts fs0 fs' (ps(i := Temp tmp x))"
    unfolding flush(1) using flush(3,4) apart by (intro writers_own_step [OF ok]) auto
  moreover have "ps(i := Temp tmp x) = ps" using flush(3) by auto
  ultimately show ?thesis using written_temp [OF old apart(1,2)] unfolding flush(1,2) by simp
next
  case (fchmod i tmp x f mode)
  note apart = owned_apart [OF ok, of i tmp, unfolded fchmod(3), simplified]
  have "phase_ok j texts fs (ps i)" using ok by (simp add: writers_ok_def)
  then have "writers_ok j texts fs0 fs' (ps(i := Temp tmp x))"
    unfolding fchmod(1) using fchmod(3-5) apart by (intro writers_own_step [OF ok]) auto
  moreover have "ps(i := Temp tmp x) = ps" using fchmod(3) by auto
  ultimately show ?thesis using written_temp [OF old apart(1,2)] unfolding fchmod(1,2) by simp
next
  case (close i tmp x f)
  note apart = owned_apart [OF ok, of i tmp, unfolded close(3), simplified]
  have "phase_ok j texts fs (ps i)" using ok by (simp add: writers_ok_def)
  then have "phase_ok j texts fs' (Closed tmp x)"
    using close(3-5) unfolding close(1) by (cases f) (auto simp: final_mode_def)
  then have "writers_ok j texts fs0 fs' ps'"
    unfolding close(1,2) using apart by (intro writers_own_step [OF ok]) auto
  with written_temp [OF old apart(1,2)] show ?thesis unfolding close(1) by simp
next
  case (replace i tmp x f)
  note apart = owned_apart [OF ok, of i tmp, unfolded replace(3), simplified]
  have closed: "phase_ok j texts fs (ps i)" using ok by (simp add: writers_ok_def)
  have "fs' q = fs q" if "k \<noteq> i" "owns (ps k) q" for k q
    using that owned_apart [OF ok that(2)] apart(3) unfolding replace(1) by auto
  then have "writers_ok j texts fs0 fs' ps'"
    unfolding replace(2) by (intro writers_own_step [OF ok]) auto
  moreover have "written_ok j texts fs0 fs'"
    using old apart(1,2) closed replace(3,4) unfolding replace(1) by (auto simp: written_ok_def)
  ultimately show ?thesis by simp
next
  case (undo i tmp x)
  from undo(3) have own: "owns (ps i) tmp" by auto
  note apart = owned_apart [OF ok own]
  have "writers_ok j texts fs0 fs' ps'"
    unfolding undo(1,2) using apart(3) by (intro writers_own_step [OF ok]) auto
  with written_temp [OF old apart(1,2)] show ?thesis unfolding undo(1) by simp
next
  case (leave i)
  then show ?thesis using old writers_own_step [OF ok, of fs Idle i] by simp
qed

definition all_idle :: "nat \<Rightarrow> phase" where "all_idle i = Idle"

text \<open>
  In every reachable state the target is as it was at the start or holds one of the texts, whole
  and with the mode wanted, and every other file that was there at the start is as it was.
\<close>

lemma replaced_whole:
  assumes "(write_step j texts)\<^sup>*\<^sup>* (fs0, all_idle) (fs, ps)" and "\<not> suffix ''.tmp'' (jb_target j)"
  shows "written_ok j texts fs0 fs"
proof -
  have start: "writers_ok j texts fs0 fs0 all_idle \<and> written_ok j texts fs0 fs0"
    by (simp add: writers_ok_def written_ok_def all_idle_def)
  have "writers_ok j texts fs0 fs ps \<and> written_ok j texts fs0 fs"
    using assms(1)
  proof (induction "(fs, ps)" arbitrary: fs ps rule: rtranclp_induct)
    case (step y)
    then show ?case using step_invariant [OF _ assms(2)] by (cases y) blast
  qed (use start in simp)
  then show ?thesis ..
qed

subsection \<open>What a reader sees\<close>

text \<open>
  The fence reads the marker as a user who is not its owner, so a file without read permission for
  others is a \<open>PermissionError\<close>.
\<close>

definition others_read :: "nat \<Rightarrow> bool" where
  "others_read mode \<longleftrightarrow> (mode div 4) mod 2 = 1"

definition read_as_other :: "file_tree \<Rightarrow> string \<Rightarrow> file_read" where
  "read_as_other fs p =
     (case fs p of
        None \<Rightarrow> NotFound
      | Some f \<Rightarrow> if others_read (f_mode f) then Content (loads (f_text f)) else OSErr ''PermissionError'')"

lemma marker_payload_ok: "json_ok (JObj (marker_payload m))"
  by (simp add: marker_payload_def opt_json_def split: option.split)

lemma blank_end_of_line: "blank end_of_line" by (simp add: blank_def end_of_line_def is_ws_def)

lemma loads_marker_text: "loads (marker_text m) = Some (canon (JObj (marker_payload m)))"
  unfolding marker_text_def by (rule loads_json_text [OF json_ok_canon [OF marker_payload_ok] blank_end_of_line])

text \<open>Sorting the keys of an object does not change what is found in it.\<close>

lemma json_get_canon:
  assumes "json_ok (JObj kvs)"
  shows "canon (JObj kvs) = JObj kvs' \<Longrightarrow> json_get kvs' k = canon (json_get kvs k)"
proof -
  let ?ys = "map (\<lambda>(k, v). (k, canon v)) kvs"
  have keys: "distinct (map fst ?ys)" using assms by (simp add: case_prod_beta' comp_def)
  have "distinct (map fst (sort_key fst ?ys))"
    using json_ok_canon [OF assms] by simp
  then have "map_of (sort_key fst ?ys) = map_of ?ys"
    using keys by (simp add: map_of_inject_set)
  moreover have "map_of ?ys k = map_option canon (map_of kvs k)"
    by (induction kvs) auto
  ultimately show "canon (JObj kvs) = JObj kvs' \<Longrightarrow> json_get kvs' k = canon (json_get kvs k)"
    by (auto simp: json_get_def dict_get_def split: option.split)
qed

lemma read_marker_canon: "read_marker cal fi path (Content (Some (canon (JObj (marker_payload m))))) =
    read_marker cal fi path (Content (Some (JObj (marker_payload m))))"
proof -
  obtain kvs where kvs: "canon (JObj (marker_payload m)) = JObj kvs" by simp
  note get = json_get_canon [OF marker_payload_ok kvs]
  moreover have "canon (json_get (marker_payload m) k) = json_get (marker_payload m) k" for k
    by (auto simp: marker_payload_def json_get_def opt_json_def split: option.split)
  ultimately have get: "json_get kvs = json_get (marker_payload m)" by (intro ext) simp
  have rs: "read_state cal fi kvs = read_state cal fi (marker_payload m)" by (intro ext) (unfold read_state_def get, rule refl)
  show ?thesis unfolding kvs by (simp add: read_marker_def get rs split: option.split)
qed

text \<open>
  C25: Any number of relays that write the marker at once, in pieces, with failing operations and
  killed at any time, never leave a torn or unreadable marker: in every reachable state the fence
  reads from it what it read at the start, or the state one of the writes was given, complete; and no
  other file that was there has changed.
\<close>

theorem marker_never_torn:
  assumes "(marker_step parent name)\<^sup>*\<^sup>* (fs0, all_idle) (fs, ps)"
    and "\<not> suffix ''.tmp'' (parent @ ''/'' @ name)"
  shows "(read_as_other fs (parent @ ''/'' @ name) = read_as_other fs0 (parent @ ''/'' @ name) \<or>
          (\<exists>m. read_marker cal fi path (read_as_other fs (parent @ ''/'' @ name)) =
               read_marker cal fi path (marker_write True m (read_as_other fs0 (parent @ ''/'' @ name)))))
       \<and> (\<forall>p. p \<noteq> parent @ ''/'' @ name \<longrightarrow> fs0 p \<noteq> None \<longrightarrow> fs p = fs0 p)"
proof -
  let ?target = "parent @ ''/'' @ name"
  have target: "jb_target (marker_job parent name) = ?target" "final_mode (marker_job parent name) = MARKER_FILE_MODE"
    by (simp_all add: marker_job_def final_mode_def)
  have w: "written_ok (marker_job parent name) (range marker_text) fs0 fs"
    using replaced_whole [OF assms(1) [unfolded marker_step_def]] assms(2) target by simp
  have seen: "read_as_other fs ?target = Content (Some (canon (JObj (marker_payload m))))"
    if "fs ?target = Some \<lparr>f_text = marker_text m, f_mode = MARKER_FILE_MODE\<rparr>" for m
    using that by (simp add: read_as_other_def loads_marker_text others_read_def MARKER_FILE_MODE_def)
  from w have frame: "\<forall>p. p \<noteq> ?target \<longrightarrow> fs0 p \<noteq> None \<longrightarrow> fs p = fs0 p"
    unfolding written_ok_def target by simp
  from w consider "fs ?target = fs0 ?target" | m where "fs ?target = Some \<lparr>f_text = marker_text m, f_mode = MARKER_FILE_MODE\<rparr>"
    unfolding written_ok_def target by auto
  then show ?thesis
  proof cases
    case 1
    then have "read_as_other fs ?target = read_as_other fs0 ?target" by (simp add: read_as_other_def)
    with frame show ?thesis by blast
  next
    case 2
    have "read_marker cal fi path (read_as_other fs ?target) = read_marker cal fi path (marker_write True m (read_as_other fs0 ?target))"
      unfolding seen [OF 2] read_marker_canon by (simp add: marker_write_def)
    with frame show ?thesis by blast
  qed
qed

text \<open>The status file: as it was, or the whole text of a report, readable by its owner only.\<close>

lemma status_file_whole:
  assumes "(status_step cal dir)\<^sup>*\<^sup>* (fs0, all_idle) (fs, ps)"
  defines "target \<equiv> dir @ ''/'' @ STATUS_FILENAME"
  shows "fs target = fs0 target \<or> (\<exists>r. fs target = Some \<lparr>f_text = status_text cal r, f_mode = MKSTEMP_MODE\<rparr>)"
proof -
  have target: "jb_target (status_job dir) = target" "final_mode (status_job dir) = MKSTEMP_MODE"
    by (simp_all add: status_job_def final_mode_def target_def)
  have "last target \<noteq> last ''.tmp''" by (simp add: target_def STATUS_FILENAME_def)
  then have "\<not> suffix ''.tmp'' target" by (auto simp: suffix_def)
  then show ?thesis
    using replaced_whole [OF assms(1) [unfolded status_step_def]] unfolding written_ok_def target by auto
qed

text \<open>A write that nothing disturbs: its five steps.\<close>

lemma undisturbed_write:
  fixes fs0 :: file_tree
  assumes "fs0 (temp_name j rnd) = None" and "x \<in> texts"
  defines "tmp \<equiv> temp_name j rnd" and "f \<equiv> \<lparr>f_text = x, f_mode = final_mode j\<rparr>"
  shows "\<exists>ps. (write_step j texts)\<^sup>*\<^sup>* (fs0, all_idle) (fs0(tmp := None, jb_target j \<mapsto> f), ps)"
proof -
  let ?made = "fs0(tmp \<mapsto> \<lparr>f_text = [], f_mode = MKSTEMP_MODE\<rparr>)" and ?p1 = "all_idle(0 := Temp tmp x)"
  let ?wide = "fs0(tmp \<mapsto> \<lparr>f_text = [], f_mode = final_mode j\<rparr>)"
  have made: "write_step j texts (fs0, all_idle) (?made, ?p1)"
    by (rule write_step.mkstemp [where rnd = rnd]) (use assms(1,2) in \<open>simp_all add: all_idle_def tmp_def\<close>)
  have wide: "(write_step j texts)\<^sup>*\<^sup>* (?made, ?p1) (?wide, ?p1)"
  proof (cases "jb_mode j")
    case (Some mode)
    have "write_step j texts (?made, ?p1) (?made(tmp \<mapsto> \<lparr>f_text = [], f_mode = MKSTEMP_MODE\<rparr>\<lparr>f_mode := mode\<rparr>), ?p1)"
      by (rule write_step.fchmod [where i = 0]) (simp_all add: Some)
    then show ?thesis by (simp add: final_mode_def Some r_into_rtranclp)
  qed (simp add: final_mode_def)
  have closed: "write_step j texts (?wide, ?p1)
      (?wide(tmp \<mapsto> \<lparr>f_text = [], f_mode = final_mode j\<rparr>\<lparr>f_text := x\<rparr>), ?p1(0 := Closed tmp x))"
    by (rule write_step.close) (simp_all add: final_mode_def split: option.split)
  have replaced: "write_step j texts (fs0(tmp \<mapsto> f), ?p1(0 := Closed tmp x))
      (fs0(tmp \<mapsto> f, tmp := None, jb_target j \<mapsto> f), ?p1(0 := Closed tmp x, 0 := Idle))"
    by (rule write_step.replace) simp_all
  from made wide closed replaced have "(write_step j texts)\<^sup>*\<^sup>* (fs0, all_idle)
      (fs0(tmp \<mapsto> f, tmp := None, jb_target j \<mapsto> f), ?p1(0 := Closed tmp x, 0 := Idle))"
    by (simp add: f_def)
  then show ?thesis by auto
qed

theorem marker_never_torn_witness:
  "\<exists>fs m. fs ''s/relay.json'' \<noteq> None \<and>
     read_marker toy_calendar no_float [] (read_as_other fs ''s/relay.json'') =
     read_marker toy_calendar no_float [] (marker_write True m NotFound)"
proof -
  let ?j = "marker_job ''s'' ''relay.json''" and ?none = "(\<lambda>p. None) :: file_tree"
  obtain fs ps where run: "(marker_step ''s'' ''relay.json'')\<^sup>*\<^sup>* (?none, all_idle) (fs, ps)"
    and fs: "fs ''s/relay.json'' = Some \<lparr>f_text = marker_text new_marker, f_mode = MARKER_FILE_MODE\<rparr>"
    using undisturbed_write [of ?none ?j "''1''" "marker_text new_marker" "range marker_text"]
    by (auto simp: marker_step_def marker_job_def final_mode_def)
  have "\<not> suffix ''.tmp'' (''s'' @ ''/'' @ ''relay.json'')" by code_simp
  note marker_never_torn [OF run this, of toy_calendar no_float "[]"]
  moreover have "read_as_other fs ''s/relay.json'' \<noteq> read_as_other ?none ''s/relay.json''"
    using fs by (simp add: read_as_other_def others_read_def MARKER_FILE_MODE_def)
  moreover have "read_as_other ?none ''s/relay.json'' = NotFound" by (simp add: read_as_other_def)
  ultimately show ?thesis using fs by auto
qed

end
