(* ===== verification/Spec2Isabelle.thy ===== *)
theory Spec2Isabelle
  imports Launch Hook Atomic_File
begin

text \<open>
  A verification library of fleet-memory, the shared memory of a fleet of coding agents: typed
  payloads, written deterministically to a vector store, found again by filtered search, fed by a
  message stream, served by MCP tools and watched by a liveness fence. Paths below are relative to
  \<open>src/src/fleet_memory/\<close>.

  \<^bold>\<open>The parts and how they interact.\<close>
  A payload reaches the store in two ways. The MCP write tool builds it from a dictionary and calls the
  writer. The re-index run and the publish tool put it in an envelope on the MEMORY stream, and the
  relay takes it from there: its handler ingests the envelope with the service (which calls the same
  writer, or chunks prose and stores the chunks), acknowledges it, hands it back for redelivery, or
  publishes a dead letter. The search tools read the store through the search core and the context
  assembly. The audit compares what a run published with the store and the dead letters, the Chronicler
  reads the stored episodes back, and the fence looks at the store, the relay's marker and the build
  receipts to say whether memory is alive. Apart from these, the fixture package copies a store into a
  versioned directory and back, cuts a copy at an instant and discards what a rollout wrote to it, and
  the parity run asks a frozen set of questions before and after a re-index. One class of settings
  configures every process.

  \<^bold>\<open>Theories, in the order of their imports.\<close>
  \<^item> \<open>Prelude\<close>: Python strings, decimal numbers, ordered dictionaries, the collections \<open>str_simps\<close>
    and \<open>dict_simps\<close>. \<open>Json\<close>: \<open>json.dumps\<close> and \<open>json.loads\<close> with their round trip. \<open>Json_Text\<close>: the
    layouts with white space (\<open>indent\<close>, \<open>ensure_ascii=False\<close>), the relation of a value to its texts, and the
    round trip of every layout.
  \<^item> \<open>Errors\<close> (\<open>errors.py\<close>): exceptions with their class tests and texts, and \<open>comp\<close>, an operation over a
    state that returns, raises or has not returned, and leaves a state in every case.
  \<^item> \<open>Payloads\<close> (\<open>payloads/\<close>): the payload classes, the registry, the checks of \<open>BasePayload.__init__\<close>,
    natural keys, normalisation, and the backward-edge rules.
  \<^item> \<open>Store_Api\<close> (\<open>store.py\<close>): the calls of the store as a record, namespace validation, and an
    in-memory store.
  \<^item> \<open>Writer\<close> (\<open>writer/\<close>): upsert, versions, forward and declared supersession, batches; \<open>write_spec\<close> is
    the abstract specification the operations are proved to refine.
  \<^item> \<open>Retrieval\<close> (\<open>retrieval/search_request.py\<close>, \<open>core.py\<close>, \<open>role_scope.py\<close>): requests and the paged search;
    \<open>partition_spec\<close> is the search without pages. \<open>Assembly\<close> (\<open>retrieval/assembly.py\<close>, \<open>composition.py\<close>).
  \<^item> \<open>Chunker\<close> (\<open>relay/chunker.py\<close>), \<open>Relay\<close> (\<open>relay/service.py\<close>, \<open>chunk_writer.py\<close>, \<open>handler.py\<close>,
    \<open>schema.py\<close>): the service, the handler, and the life of a message as a step relation.
  \<^item> \<open>Embed\<close> (\<open>embed.py\<close>): batches, one request, the retry, the sorting of failures.
  \<^item> \<open>Doors\<close> (\<open>mcp/degradation.py\<close>, \<open>mcp/doors.py\<close>), \<open>Mcp\<close> (the rest of \<open>mcp/\<close>): the error envelope, the
    sandbox doors, every tool, the servers of a configuration.
  \<^item> \<open>Fence\<close> (\<open>fence/\<close>): marker, receipts, store facts, acknowledgement, decision table, report.
  \<^item> \<open>Atomic_File\<close> (writing in \<open>fence/marker.py\<close> and \<open>fence/report.py\<close>): the texts of the marker and the status file,
    and their atomic replacement as steps of any number of processes, with partial writes, failures and kills.
  \<^item> \<open>Corpus\<close> (\<open>reindex/walker.py\<close>, \<open>manifest.py\<close>, \<open>classify.py\<close>, \<open>parsers.py\<close>), \<open>Reindex\<close> (\<open>pipeline.py\<close>,
    \<open>publisher.py\<close>, \<open>backfill.py\<close>, \<open>dlq_client.py\<close>, \<open>audit.py\<close>, \<open>__main__.py\<close> of \<open>reindex/\<close>).
  \<^item> \<open>Chronicler\<close> (\<open>chronicler/\<close>): reading the store, harvesting, rendering, writing.
  \<^item> \<open>Fixture\<close> (\<open>fixture/dsn.py\<close>, \<open>scratch.py\<close>, \<open>temporal_cut.py\<close> and the errors of the package): scratch projects
    and the temporal cut, with their statements written out on the two tables of a database.
  \<^item> \<open>Snapshot\<close> (\<open>fixture/__init__.py\<close>, \<open>snapshot.py\<close>, \<open>restore.py\<close>, and \<open>scripts/fixture_snapshot.py\<close>): manifest and
    content hash, snapshot, restore and their command line.
  \<^item> \<open>Probe_Parity\<close> (\<open>retrieval/probe_harness.py\<close>, \<open>reindex/parity.py\<close> and the parity run and dispatch of
    \<open>reindex/__main__.py\<close>): the harness, the report, the comparison with a frozen baseline.
  \<^item> \<open>Settings\<close> (\<open>settings.py\<close>, \<open>app.py\<close>, opening a store in \<open>store.py\<close>, and the entry points of the fence, the MCP
    service, the re-index run and \<open>scripts/chronicler_harvest.py\<close>): the fields, their sources, and what each
    process makes of them.
  \<^item> \<open>Launch\<close> (\<open>_serve_both\<close> of \<open>mcp/__main__.py\<close>, and \<open>scripts/seed_df006.py\<close> at the root of the repository).
  \<^item> \<open>Hook\<close> (\<open>.codex/hooks/capture_slash_command.py\<close> at the root of the repository): the editor hook that writes the
    history of slash commands, with failing file operations.
  \<^item> this theory: the properties that span the components, and a few words on each.

  \<^bold>\<open>How code corresponds to definitions.\<close>
  A class is a record or a datatype, a coroutine a \<open>comp\<close> over the state it works on, a function that can
  raise a value of \<open>exn + 'a\<close>; a loop with a \<open>seen\<close> set or an accumulator is a recursive function with
  that accumulator as argument. A dictionary that is written out or iterated is an association list in
  insertion order, a stored record is a map from field names to JSON values. Where one function of the
  source is several here, each part names the lines it is.

  \<^bold>\<open>Interfaces.\<close>
  Code that is not in the repository is an argument, with its documented behaviour as a locale:
  \<^item> \<open>lawful_store\<close> (the store: \<open>aput\<close>/\<open>aget\<close>, search as a window on a ranking), interpreted by \<open>mem\<close>, the
    in-memory store; the writer, the search, the relay, the tools and the audit are proved over it, and
    the sublocales of \<open>idempotent_sink\<close> derive harmless redelivery for each of the three sinks.
  \<^item> \<open>pydantic_model\<close>, \<open>pydantic_validating\<close> and \<open>pydantic_dump\<close> (field validation and dumps), interpreted by
    \<open>schema\<close> and \<open>schema_dump\<close> on \<open>schema_init\<close>, which reads the field declarations of \<open>models.py\<close>.
  \<^item> \<open>dead_letters\<close> (publishing to a subject), interpreted by \<open>list_broker\<close>; \<open>sql_like\<close> (the LIKE operator),
    interpreted by \<open>pg\<close> on an executable matcher.
  \<^item> \<open>postgres\<close> (a server with \<open>pg_dump\<close>, key order and \<open>COPY\<close>), interpreted by \<open>text_pg\<close> on an executable server
    over the \<open>COPY\<close> text format; \<open>manifest_model\<close> (the fields of a manifest), interpreted by \<open>reader\<close>.
  \<^item> SHA-256, UUIDv5, the tokenizers, floating-point operations, the calendar, the YAML loader, the file
    system, the HTTP client and the JetStream connection are plain arguments: nothing but what a theorem
    names as a hypothesis is assumed of them.

  \<^bold>\<open>What the lemmas show.\<close>
  Writing refines its specification, is idempotent, counts content changes and keeps records well formed;
  the search equals its unpaged specification, is sound and complete up to its limit; context blocks,
  embedding batches and chunks stay within their budgets; no message is dropped silently and failures are
  sorted as documented; a door confines writes and isolates reads, and its envelope hides addresses; the
  fence reports that memory is alive exactly when it may; a re-index run accounts for every document, its
  audit is exact, and what the relay settles it accounts for; the Chronicler puts each episode on one
  card. Discarding a rollout and cutting a copy delete exactly what they say, in both tables, or
  nothing; a restore is checked against the hash and is all or nothing, and a restored snapshot gives
  the same bytes again; a parity run against a frozen baseline ends with 0 exactly when every answer is
  the same; an accepted configuration has every field in its bounds, from the first source that gives
  it. The editor hook only ever extends its history files, captures no prompt twice while the disk
  works, and names its files so that they cannot leave their directory. The relay's marker is never seen
  torn or unreadable, whatever writers do and whenever they are killed; report files, the manifest and the
  dataset lines read back as what was written. Here: what is written through one door does not show through another, and a document that was
  published is harvested with the payload it was published with.

  \<^bold>\<open>Bounds and fuel.\<close>
  The forward scan of the writer pages until a page is short; its fuel is a number of pages, and the
  theorems ask for \<open>FORWARD_PAGE * fuel\<close> to exceed the ranking of the namespace, which makes the last page
  short. The search loop has fuel 105 (\<open>partition_fuel\<close>): at most 103 pages of ten reach the bound of 1024
  scanned records, so it never runs out. The windows of an oversized section get one step per token and
  one more, enough exactly when they advance. Chunk counts, page sizes, budgets, the fourteen days of an
  acknowledgement and the size limits of the bus are the constants of the source.

  \<^bold>\<open>Not modelled, and why.\<close>
  Strings have one \<open>char\<close> per code point, so code points from 256 on are outside the model, and a literal
  with a dash or a dot beyond that range stands as the bytes of its UTF-8 form. Logging, printing and
  argument parsing have no effect on what is stated. Third-party calls that only run something are left
  out: the pool's closing and FastStream. A failing file system is modelled where the code handles it (the
  marker, the status file, the receipts, the hook), not in the fixture package. JSON numbers are compared as
  written, and the test double \<open>make_fake_embed\<close> computes in exact arithmetic. The hook is modelled one event
  after another, its paths as texts. What is left of the source is imports, logging, parsers of arguments,
  default connections to a database, and the calls that start a process.
\<close>

section \<open>Doors beside one another\<close>

text \<open>A series of writes through the door of some projects, whatever each is given and however it ends.\<close>

fun door_writes :: "tool_lib \<Rightarrow> 's store_api \<Rightarrow> string set \<Rightarrow> (string \<times> json) list list \<Rightarrow> 's \<Rightarrow> 's" where
  "door_writes lib st ps [] s = s"
| "door_writes lib st ps (d # ds) s = door_writes lib st ps ds (snd (memory_write_payload lib st True (Some ps) d s))"

lemma door_writes_frame:
  assumes "lawful_store st view rank window" and "project \<notin> ps"
  shows "view (door_writes lib st ps ds s) (t # project # rest) = view s (t # project # rest)"
proof (induction ds arbitrary: s)
  case (Cons d ds)
  have "view (snd (memory_write_payload lib st True (Some ps) d s)) (t # project # rest) = view s (t # project # rest)"
    by (rule sandbox_write_frame [OF assms(1)]) (use assms(2) in auto)
  then show ?case using Cons.IH by simp
qed simp

lemma doors_ok_disjoint:
  assumes "doors_ok main_port ds" and "i < length ds" and "j < length ds" and "i \<noteq> j"
  shows "d_projects (ds ! i) \<inter> d_projects (ds ! j) = {}"
proof -
  have "d_projects (ds ! m) \<inter> d_projects (ds ! n) = {}" if "m < n" "n < length ds" for m n
    using assms(1) that by (simp add: doors_ok_def sorted_wrt_iff_nth_less)
  then show ?thesis using assms(2-4) by (metis Int_commute nat_neq_iff)
qed

text \<open>
  C4: What is written through one sandbox door never shows through another: after any number of write
  calls through a door of an accepted configuration, whatever they are given and however they end,
  every row a search through any other door returns is of a record that was stored before them.
\<close>

theorem doors_do_not_leak:
  assumes "lawful_store st view rank window" and "c_store c = Some st"
    and "parse_sandbox_doors setting main_port = Inr ds" and "i < length ds" and "j < length ds" and "i \<noteq> j"
    and "memory_search_items lib (Some c) (Some (d_projects (ds ! j))) a
           (door_writes lib st (d_projects (ds ! i)) calls s) = (Ok r, s')"
    and "result_value r = Some rows"
  shows "\<forall>row \<in> set rows. \<exists>top rest k v. view s (top # a_project a # rest) k = Some v \<and> row_of v row"
proof -
  note sound = items_sound [OF assms(1,2,7,8)]
  have "d_projects (ds ! i) \<inter> d_projects (ds ! j) = {}"
    using doors_ok_disjoint parsed_doors_ok [OF assms(3)] assms(4-6) by blast
  then have "a_project a \<notin> d_projects (ds ! i)" using sound by blast
  from door_writes_frame [OF assms(1) this] sound show ?thesis by simp
qed

section \<open>From a document to a story\<close>

text \<open>
  The record a write leaves, up to the marks of supersession: the new one, or what was there when its
  content has not changed.
\<close>

definition unchanged :: "prims \<Rightarrow> payload \<Rightarrow> contents \<Rightarrow> bool" where
  "unchanged pr p V \<longleftrightarrow> (case V (payload_namespace p) (payload_key pr p) of
     None \<Rightarrow> False | Some v \<Rightarrow> v ''content_hash'' = Some (JStr (content_hash pr p)))"

lemma written_record:
  assumes "contents_wf pr V" and "writable p"
  obtains v where "write_spec pr fw p meta V (payload_namespace p) (payload_key pr p) = Some v"
    and "unchanged pr p V \<Longrightarrow>
      \<exists>v0. V (payload_namespace p) (payload_key pr p) = Some v0 \<and> (\<forall>f. f \<noteq> ''superseded_by'' \<longrightarrow> v f = v0 f)"
    and "\<not> unchanged pr p V \<Longrightarrow>
      \<exists>n. \<forall>f. f \<noteq> ''superseded_by'' \<longrightarrow> v f = stored_value pr p (content_hash pr p) n meta f"
proof -
  note spec = write_spec_def marks_spec_at upsert_spec_def Let_def put_at_def unchanged_def
  show ?thesis
  proof (cases "V (payload_namespace p) (payload_key pr p)")
    case None
    with that show ?thesis by (fastforce simp: spec)
  next
    case (Some v0)
    then obtain n where "next_version pr v0 = Inr n" using wf_next_version [OF assms] by blast
    with Some that show ?thesis
      by (cases "v0 ''content_hash'' = Some (JStr (content_hash pr p))") (fastforce simp: spec)+
  qed
qed

text \<open>The relay reads the payload a run published and writes it as the specification says.\<close>

lemma published_is_written:
  assumes "pydantic_dump (s_pydantic sv)" and "payload_init (s_pydantic sv) (p_class p) d = Inr p"
    and "reads_envelope e (build_envelope pr p)" and "writable p"
    and "lawful_store (s_store sv) view rank window" and "store_total (s_store sv)" and "contents_wf (s_prims sv) (view s)"
    and "length (rank s (payload_namespace p) None []) < FORWARD_PAGE * s_forward_fuel sv"
  obtains s' fw where "ingest sv e s = (Ok (), s')"
    and "view s' = write_spec (s_prims sv) fw p (Some (make_episode_meta e)) (view s)"
proof -
  have reg: "registered (payload_type (p_class p))" using assms(4) by (simp add: writable_def payload_ok_def)
  have route: "ingest sv e s = catch (writer_write (s_prims sv) (s_store sv) (s_forward_fuel sv) p (Some (make_episode_meta e)))
      (\<lambda>ex. throw (classify_failure ex)) s"
    using relay_reads_payload [OF assms(1,2) reg assms(3)] envelope_fields(3) [OF assms(3)]
    by (simp add: ingest_def route_episode_def ingest_json_def catch_def)
  let ?fw = "forward_of (natural_key p) (rank s (payload_namespace p) None [])"
  have "\<exists>s'. writer_write (s_prims sv) (s_store sv) (s_forward_fuel sv) p (Some (make_episode_meta e)) s = (Ok (), s') \<and>
    view s' = write_spec (s_prims sv) ?fw p (Some (make_episode_meta e)) (view s)"
    by (rule lawful_store.write_completes [OF assms(5,6)])
      (use assms(4,8) wf_next_version [OF assms(7,4)] in \<open>auto simp: writable_def\<close>)
  with that route show ?thesis by (auto simp: catch_def)
qed

text \<open>A mark of supersession does not show in what the Chronicler reads.\<close>

lemma rehydrate_fields:
  assumes "\<And>f. f \<noteq> ''superseded_by'' \<Longrightarrow> v f = w f"
  shows "rehydrate ns v = rehydrate ns w"
proof -
  have fields: "v ''payload_type'' = w ''payload_type''" "v ''episode_meta'' = w ''episode_meta''" "v ''project'' = w ''project''"
    "v ''natural_key'' = w ''natural_key''" "v ''identifier'' = w ''identifier''" "v ''content'' = w ''content''"
    "v ''source_ref'' = w ''source_ref''"
    by (rule assms, simp)+
  show ?thesis by (simp only: rehydrate_def py_get_def fields)
qed

lemma rehydrate_record:
  assumes "json_ok (JObj (model_dump p))" and "p_project p \<noteq> []" and "payload_type (p_class p) \<noteq> []" and "meta \<noteq> []"
  shows "rehydrate (payload_namespace p) (stored_value pr p h n (Some meta)) = Inr (Some
     \<lparr>h_project = JStr (p_project p), h_payload_type = JStr (payload_type (p_class p)), h_natural_key = JStr (natural_key p),
      h_identifier = JStr (p_identifier p), h_payload = canon (JObj (model_dump p)),
      h_source_ref = py_or (json_get meta ''source_ref'') JNull, h_occurred_at = json_get meta ''occurred_at'',
      h_name = json_get meta ''name'', h_source = json_get meta ''source''\<rparr>)"
proof -
  let ?w = "stored_value pr p h n (Some meta)"
  have extra: "?w ''episode_meta'' = Some (JObj meta)" "?w ''identifier'' = Some (JStr (p_identifier p))" "?w ''source_ref'' = None"
    by (simp_all add: stored_value_def with_meta_def with_supersedes_def base_record_def)
  have "content_object (JStr (dumps (JObj (model_dump p)))) = canon (JObj (model_dump p))"
  proof -
    have "dumps (JObj (model_dump p)) \<noteq> []" by (simp add: dumps_def)
    then show ?thesis by (simp add: content_object_def loads_dumps [OF assms(1)] del: canon.simps)
  qed
  then show ?thesis
    by (simp only: rehydrate_def py_get_def extra stored_value_fields option.case truthy.simps assms(2-4) py_or_def
        if_True not_False_eq_True simp_thms json.case if_False)
qed

text \<open>An episode of the Chronicler that tells of a payload, with the provenance of the envelope it came in.\<close>

definition tells_of :: "payload \<Rightarrow> episode \<Rightarrow> harvested_episode \<Rightarrow> bool" where
  "tells_of p e ep \<longleftrightarrow>
     h_project ep = JStr (p_project p) \<and> h_payload_type ep = JStr (payload_type (p_class p)) \<and>
     h_natural_key ep = JStr (natural_key p) \<and> h_identifier ep = JStr (p_identifier p) \<and>
     h_payload ep = canon (JObj (model_dump p)) \<and> h_occurred_at ep = opt_str (e_occurred_at e) \<and>
     h_name ep = json_get (make_episode_meta e) ''name'' \<and> h_source ep = json_get (make_episode_meta e) ''source''"

text \<open>
  C5: A document published by a re-index run is what the Chronicler harvests, whatever was stored under
  its key before. The relay ingests the episode. If the record is new, or its content has changed, it
  reads back as an episode with the payload's project, type, natural key and fields, dated and named by
  this envelope; if the content has not changed, the write leaves it alone, and it reads back as it did
  before, with the provenance of the envelope that stored it. A full read (one without \<open>since\<close>) that
  ends has that episode, as long as the scan limit exceeds the number of namespaces and is no less than the
  number of records under the document's namespace, and a harvest of the read that ends puts it on the card of its story.
\<close>

theorem reindexed_document_is_harvested:
  fixes sv :: "'s service" and p :: payload
  defines "ns \<equiv> payload_namespace p" and "key \<equiv> payload_key (s_prims sv) p"
  assumes "pydantic_dump (s_pydantic sv)" and "payload_init (s_pydantic sv) (p_class p) d = Inr p"
    and "reads_envelope e (build_envelope pr p)" and "writable p"
    and "namespace_listing (s_store sv) view rank window list_ns" and "store_total (s_store sv)"
    and "contents_wf (s_prims sv) (view s)"
    and "length (rank s ns None []) < FORWARD_PAGE * s_forward_fuel sv"
  shows "\<exists>s' v. ingest sv e s = (Ok (), s') \<and> view s' ns key = Some v \<and>
    (if unchanged (s_prims sv) p (view s)
     then (\<exists>v0. view s ns key = Some v0 \<and> rehydrate ns v = rehydrate ns v0)
     else (\<exists>ep. rehydrate ns v = Inr (Some ep) \<and> tells_of p e ep)) \<and>
    (\<forall>created_at limit nss eps s2.
       fst (list_ns [''fleet_memory''] 3 limit s') = Ok nss \<and> length nss < limit \<and> length (rank s' ns None []) \<le> limit \<and>
       read_episodes (s_store sv) list_ns created_at limit None s' = (Ok eps, s2) \<longrightarrow>
       (\<exists>ep \<in> set eps. rehydrate ns v = Inr (Some ep) \<and>
          (\<forall>pub rows cards. harvest eps pub = Inr (rows, cards) \<longrightarrow>
             (\<exists>c \<in> set cards. story_key ep = Inr (k_story_key c) \<and> ep \<in> set (k_episodes c)))))"
proof -
  have store: "lawful_store (s_store sv) view rank window" using assms(7) by (simp add: namespace_listing_def)
  have reg: "registered (payload_type (p_class p))" using assms(6) by (simp add: writable_def payload_ok_def)
  then have ty: "payload_type (p_class p) \<noteq> []" by (cases "p_class p") (auto simp: registered_code payload_simps)
  have prj: "p_project p \<noteq> []" using assms(6) by (simp add: writable_def full_class_def)
  obtain d' where "s_pydantic sv (p_class p) d' = Inr p"
    using assms(4) by (auto simp: payload_init_def split: sum.splits if_splits)
  note ok = pydantic_dump.dump_json(1) [OF assms(3) this reg]
  let ?meta = "make_episode_meta e"
  obtain s' fw where run: "ingest sv e s = (Ok (), s')" and s': "view s' = write_spec (s_prims sv) fw p (Some ?meta) (view s)"
    using published_is_written [OF assms(3-6) store assms(8,9)] assms(10) unfolding ns_def by blast
  obtain v where v: "view s' ns key = Some v"
    and same: "unchanged (s_prims sv) p (view s) \<Longrightarrow>
      \<exists>v0. view s ns key = Some v0 \<and> (\<forall>f. f \<noteq> ''superseded_by'' \<longrightarrow> v f = v0 f)"
    and fresh: "\<not> unchanged (s_prims sv) p (view s) \<Longrightarrow>
      \<exists>n. \<forall>f. f \<noteq> ''superseded_by'' \<longrightarrow> v f = stored_value (s_prims sv) p (content_hash (s_prims sv) p) n (Some ?meta) f"
    using written_record [OF assms(9,6), of fw "Some ?meta"] s' unfolding ns_def key_def by metis
  have meta: "?meta \<noteq> []" "json_get ?meta ''occurred_at'' = opt_str (e_occurred_at e)"
    by (simp_all add: make_episode_meta_def json_get_def)
  have told: "\<exists>ep. rehydrate ns v = Inr (Some ep) \<and> tells_of p e ep" if new: "\<not> unchanged (s_prims sv) p (view s)"
  proof -
    obtain n where "\<forall>f. f \<noteq> ''superseded_by'' \<longrightarrow> v f = stored_value (s_prims sv) p (content_hash (s_prims sv) p) n (Some ?meta) f"
      using fresh [OF new] by blast
    then have "rehydrate ns v = rehydrate ns (stored_value (s_prims sv) p (content_hash (s_prims sv) p) n (Some ?meta))"
      using rehydrate_fields by blast
    then show ?thesis
      unfolding ns_def rehydrate_record [OF ok prj ty meta(1)] by (simp add: tells_of_def meta(2))
  qed
  have kept: "\<exists>v0. view s ns key = Some v0 \<and> rehydrate ns v = rehydrate ns v0" if "unchanged (s_prims sv) p (view s)"
    using same [OF that] rehydrate_fields by blast
  have three: "under [''fleet_memory''] ns" "length ns = 3" by (simp_all add: ns_def payload_namespace_def under_def)
  have "v ''payload_type'' = Some (JStr (payload_type (p_class p)))"
  proof (cases "unchanged (s_prims sv) p (view s)")
    case True
    then obtain v0 where v0: "view s ns key = Some v0" "v ''payload_type'' = v0 ''payload_type''" using same by force
    have "typed_namespace ns" using reg by (simp add: ns_def typed_namespace_def payload_namespace_def)
    from contents_wfD [OF assms(9) this v0(1)] v0(2) show ?thesis
      by (auto simp: record_wf_def ns_def payload_namespace_def)
  next
    case False
    then show ?thesis using fresh by (force simp: stored_value_fields)
  qed
  then have typed: "truthy (py_get v ''payload_type'')" using ty by (simp add: py_get_def)
  have "\<exists>ep \<in> set eps. rehydrate ns v = Inr (Some ep) \<and>
      (\<forall>pub rows cards. harvest eps pub = Inr (rows, cards) \<longrightarrow>
         (\<exists>c \<in> set cards. story_key ep = Inr (k_story_key c) \<and> ep \<in> set (k_episodes c)))"
    if "fst (list_ns [''fleet_memory''] 3 limit s') = Ok nss" "length nss < limit" "length (rank s' ns None []) \<le> limit"
      "read_episodes (s_store sv) list_ns created_at limit None s' = (Ok eps, s2)" for created_at limit nss eps s2
    using namespace_listing.read_episodes_has [OF assms(7) that(4,1-3) three v typed] harvested_on_card by blast
  with run v told kept show ?thesis by auto
qed

section \<open>Witnesses\<close>

text \<open>The in-memory store answers every search over records that have a natural key.\<close>

lemma mem_search_ok:
  assumes "\<not> r_require_substantive r" and "\<And>ns k v. mem_view s ns k = Some v \<Longrightarrow> \<exists>nk. key_text v = Inr nk"
  shows "\<exists>xs s'. search r (mem_api score) s = (Ok xs, s')"
proof -
  have "item_ok it" if "it \<in> set (partition_rank (mem_rank score) s r pt)" for it pt
    using assms(2) that mem.rank_sound unfolding item_ok_def by blast
  with mem.gather_total [OF mem_api_store_total assms(1)] obtain raw s' where
    g: "gather r (mem_api score) (partitions r) s = (Ok raw, s')" by blast
  have "\<forall>it \<in> set raw. satisfies r it" using mem.gather_sound [OF g] admit_satisfies by blast
  from mem.finish_admitted [OF this] g show ?thesis by (auto simp: search_def comp_simps)
qed

definition neighbour_search :: search_args where
  "neighbour_search = foreign_search\<lparr>a_project := ''proj_c''\<rparr>"

lemma neighbour_request: "\<exists>r. tool_request sample_lib neighbour_search = Inr r \<and> \<not> r_require_substantive r"
  by (simp add: tool_request_def make_request_def field_errors_def project_errors_def payload_type_errors_def domain_tag_errors_def
      token_budget_errors_def query_or_filter_errors_def neighbour_search_def foreign_search_def list_or_empty_def
      budget_or_default_def DEFAULT_TOKEN_BUDGET_def match_class_def full_class_def char_class_defs)

lemma one_record:
  assumes "mem_view s = write_spec pr fw p meta (mem_view [])" and "mem_view s ns k = Some v"
  shows "(ns, k) = (payload_namespace p, payload_key pr p)"
proof (rule ccontr)
  have none: "mem_view [] = (\<lambda>_ _. None)" by (simp add: mem_view_def fun_eq_iff)
  assume "\<not> ?thesis"
  then have "upsert_spec pr fw p meta (mem_view []) ns k = None" by (simp only: upsert_spec_other none not_False_eq_True)
  with assms show False by (simp add: write_spec_def marks_spec_at)
qed

lemma one_record_keys:
  assumes "mem_view s = write_spec pr fw p None (mem_view [])" and "mem_view s ns k = Some v"
  shows "\<exists>nk. key_text v = Inr nk"
proof -
  have none: "mem_view [] = (\<lambda>_ _. None)" by (simp add: mem_view_def fun_eq_iff)
  have "v ''natural_key'' = Some (JStr (natural_key p))"
    using assms one_record [OF assms] by (auto simp: write_spec_def marks_spec_at upsert_spec_def Let_def none put_at_def)
  then show ?thesis by (simp add: key_text_def)
qed

theorem doors_do_not_leak_witness:
  "\<exists>r s'. memory_search_items sample_lib (Some sample_context) (Some {''proj_c''}) neighbour_search
     (door_writes sample_lib (mem_api no_score) {''proj_a'', ''proj_b''} [outcome_data] []) = (Ok r, s') \<and> result_value r = Some []"
proof -
  let ?ds = "[\<lparr>d_port = 8006, d_projects = {''proj_a'', ''proj_b''}\<rparr>, \<lparr>d_port = 8007, d_projects = {''proj_c''}\<rparr>]"
  obtain s1 fw where s1: "door_writes sample_lib (mem_api no_score) {''proj_a'', ''proj_b''} [outcome_data] [] = s1"
    "mem_view s1 = write_spec sample_prims fw sample_outcome None (mem_view [])"
    using outcome_write [of "{''proj_a'', ''proj_b''}"] by auto
  obtain q where q: "tool_request sample_lib neighbour_search = Inr q" "\<not> r_require_substantive q" using neighbour_request by blast
  obtain xs s' where x: "search q (mem_api no_score) s1 = (Ok xs, s')"
    using mem_search_ok [OF q(2), of s1] one_record_keys [OF s1(2)] by blast
  have ctx: "c_store sample_context = Some (mem_api no_score)" by (simp add: sample_context_def)
  have "a_project neighbour_search = ''proj_c''" by (simp add: neighbour_search_def)
  then have run: "memory_search_items sample_lib (Some sample_context) (Some {''proj_c''}) neighbour_search s1
      = (Ok (tool_ok (map item_row xs)), s')"
    by (simp add: memory_search_items_def door_search_def check_door_project_def q(1) require_store_def ctx x comp_simps
        tool_safe_def)
  let ?call = "memory_search_items sample_lib (Some sample_context)"
  have "?call (Some (d_projects (?ds ! 1))) neighbour_search
      (door_writes sample_lib (mem_api no_score) (d_projects (?ds ! 0)) [outcome_data] []) = (Ok (tool_ok (map item_row xs)), s')"
    using run s1(1) by simp
  note leak = doors_do_not_leak [OF mem.lawful_store_axioms ctx two_doors_parsed _ _ _ this]
  have "\<forall>row \<in> set (map item_row xs).
      \<exists>top rest k v. mem_view [] (top # a_project neighbour_search # rest) k = Some v \<and> row_of v row"
    by (rule leak) (simp_all add: tool_ok_def)
  then have "map item_row xs = []" by (simp add: mem_view_def)
  with run s1(1) show ?thesis by (simp add: tool_ok_def)
qed

lemma read_records_total:
  "\<forall>it \<in> set its. \<exists>ep. rehydrate ns (i_value it) = Inr (Some ep) \<Longrightarrow> \<exists>eps. read_records created_at None ns its = Inr eps"
  by (induction its) (auto simp: before_bound_def)

lemma rehydrate_elsewhere: "rehydrate ns v = Inr (Some ep) \<Longrightarrow> \<exists>ep. rehydrate m v = Inr (Some ep)"
  by (auto simp: rehydrate_def split: if_splits json.splits)

lemma mem_read_total:
  assumes "\<And>m k v ns. mem_view s m k = Some v \<Longrightarrow> \<exists>ep. rehydrate ns v = Inr (Some ep)"
  shows "\<exists>eps. read_namespaces (mem_api score) created_at None limit nss s = (Ok eps, s)"
proof (induction nss)
  case (Cons ns nss)
  let ?its = "take limit (mem_rank score s ns None [])"
  have "\<exists>eps. read_records created_at None ns ?its = Inr eps"
  proof (rule read_records_total, intro ballI)
    fix it assume "it \<in> set ?its"
    from conjunct1 [OF mem.rank_sound [OF in_set_takeD [OF this]]] assms show "\<exists>ep. rehydrate ns (i_value it) = Inr (Some ep)" by blast
  qed
  moreover have "st_search (mem_api score) ns None [] limit 0 s = (Ok ?its, s)" by (simp add: mem_api_def store_window_def)
  ultimately show ?case using Cons.IH by (auto simp: bind_def lift_res_def ret_def)
qed (simp add: ret_def)

theorem reindexed_document_is_harvested_witness:
  "\<exists>s' limit eps ep. ingest sample_service task_episode [] = (Ok (), s') \<and>
     read_episodes (mem_api no_score) mem_list (\<lambda>_. No_created) limit None s' = (Ok eps, s') \<and>
     ep \<in> set eps \<and> tells_of task_outcome task_episode ep"
proof -
  have sv: "s_prims sample_service = sample_prims" "s_store sample_service = mem_api no_score" "s_forward_fuel sample_service = 1"
    by (simp_all add: sample_service_def)
  have store: "namespace_listing (s_store sample_service) mem_view (mem_rank no_score) mem_window mem_list"
    "store_total (s_store sample_service)" "contents_wf (s_prims sample_service) (mem_view [])"
    "length (mem_rank no_score [] (payload_namespace task_outcome) None []) < FORWARD_PAGE * s_forward_fuel sample_service"
    "lawful_store (s_store sample_service) mem_view (mem_rank no_score) mem_window"
    by (simp_all add: sv listing.namespace_listing_axioms mem.lawful_store_axioms mem_api_store_total contents_wf_empty mem_rank_def
        FORWARD_PAGE_def mem_view_def)
  have fresh: "\<not> unchanged (s_prims sample_service) task_outcome (mem_view [])" by (simp add: unchanged_def mem_view_def)
  let ?ns = "payload_namespace task_outcome"
  obtain s' v where run: "ingest sample_service task_episode [] = (Ok (), s')"
    and v: "mem_view s' ?ns (payload_key (s_prims sample_service) task_outcome) = Some v"
    and told: "\<exists>ep. rehydrate ?ns v = Inr (Some ep) \<and> tells_of task_outcome task_episode ep"
    and full: "\<forall>created_at limit nss eps s2.
       fst (mem_list [''fleet_memory''] 3 limit s') = Ok nss \<and> length nss < limit \<and> length (mem_rank no_score s' ?ns None []) \<le> limit \<and>
       read_episodes (s_store sample_service) mem_list created_at limit None s' = (Ok eps, s2) \<longrightarrow>
       (\<exists>ep \<in> set eps. rehydrate ?ns v = Inr (Some ep) \<and>
          (\<forall>pub rows cards. harvest eps pub = Inr (rows, cards) \<longrightarrow>
             (\<exists>c \<in> set cards. story_key ep = Inr (k_story_key c) \<and> ep \<in> set (k_episodes c))))"
    using reindexed_document_is_harvested [OF sample_service_dump task_reads task_writable store(1-4)]
    unfolding if_not_P [OF fresh] by (elim exE conjE) (rule that, (assumption | blast)+)
  obtain fw where s': "mem_view s' = write_spec (s_prims sample_service) fw task_outcome (Some (make_episode_meta task_episode)) (mem_view [])"
    using published_is_written [OF sample_service_dump task_reads task_writable store(5,2-4)] run by (metis prod.inject)
  have all: "\<exists>ep. rehydrate ns w = Inr (Some ep)" if "mem_view s' m k = Some w" for m k w ns
    using one_record [OF s' that] that v told rehydrate_elsewhere by fastforce
  let ?limit = "Suc (length s' + length (mem_rank no_score s' ?ns None []))"
  let ?seen = "map (take 3) (filter (under [''fleet_memory'']) (map (fst \<circ> fst) s'))"
  obtain nss where nss: "mem_list [''fleet_memory''] 3 ?limit s' = (Ok nss, s')" "nss = take ?limit (remdups ?seen)"
    by (simp add: mem_list_def)
  have "length nss \<le> length (remdups ?seen)" by (simp add: nss(2))
  also have "\<dots> \<le> length ?seen" by (rule length_remdups_leq)
  also have "\<dots> \<le> length s'" using length_filter_le [of "under [''fleet_memory'']" "map (fst \<circ> fst) s'"] by simp
  finally have short: "length nss < ?limit" by simp
  have "\<exists>eps. read_namespaces (mem_api no_score) (\<lambda>_. No_created) None ?limit nss s' = (Ok eps, s')"
    by (rule mem_read_total) (rule all)
  then obtain eps where eps: "read_episodes (mem_api no_score) mem_list (\<lambda>_. No_created) ?limit None s' = (Ok eps, s')"
    using nss(1) by (auto simp: read_episodes_def bind_def)
  have "\<exists>ep \<in> set eps. rehydrate ?ns v = Inr (Some ep)"
    using full [rule_format, of ?limit nss "\<lambda>_. No_created" eps s'] nss(1) short eps by (auto simp: sv)
  with told run eps show ?thesis by (metis Inr_inject option.inject)
qed

end
